(* ===== verification/Prelude.thy ===== *)
theory Prelude imports Main "HOL-Library.Word" "HOL-Library.List_Lexorder" "HOL-Library.Char_ord" "HOL-Library.Product_Lexorder" begin

text \<open>
  What every component theory shares: the result type of fallible code with its bind, the
  relational operations the SQL statements of the program are translated to (SELECT, UPDATE,
  DELETE over a list of rows), and the counting lemmas that keep aggregate columns and rows
  in step.

  A Python exception is the left summand of \<open>'e + 'a\<close>; \<open>bindr\<close> is the sequencing of two
  statements, the first of which may raise. A table is the list of its rows in the order they
  were inserted.
\<close>

named_theorems frame_simps "which tables an operation leaves alone"

section \<open>Fallible results\<close>

definition bindr :: "'e + 'a \<Rightarrow> ('a \<Rightarrow> 'e + 'b) \<Rightarrow> 'e + 'b" where
  "bindr m f = (case m of Inl e \<Rightarrow> Inl e | Inr a \<Rightarrow> f a)"

definition ensure :: "bool \<Rightarrow> 'e \<Rightarrow> 'e + unit" where
  "ensure b e = (if b then Inr () else Inl e)"

definition require :: "'e \<Rightarrow> 'a option \<Rightarrow> 'e + 'a" where
  "require e m = (case m of None \<Rightarrow> Inl e | Some a \<Rightarrow> Inr a)"

definition rescue :: "'e + 'a \<Rightarrow> ('e \<Rightarrow> 'f + 'a) \<Rightarrow> 'f + 'a" where
  "rescue m h = (case m of Inl e \<Rightarrow> h e | Inr a \<Rightarrow> Inr a)"

lemma bindr_simps [simp]:
  "bindr (Inl e) f = Inl e"
  "bindr (Inr a) f = f a"
  by (simp_all add: bindr_def)

lemma bindr_eq_Inr [simp]: "bindr m f = Inr b \<longleftrightarrow> (\<exists>a. m = Inr a \<and> f a = Inr b)"
  by (cases m) auto

lemma bindr_eq_Inl: "bindr m f = Inl e \<longleftrightarrow> m = Inl e \<or> (\<exists>a. m = Inr a \<and> f a = Inl e)"
  by (cases m) auto

lemma bindr_assoc: "bindr (bindr m f) g = bindr m (\<lambda>a. bindr (f a) g)"
  by (cases m) auto

lemma ensure_eq_Inr [simp]: "ensure b e = Inr u \<longleftrightarrow> b"
  by (simp add: ensure_def)

lemma ensure_eq_Inl [simp]: "ensure b e = Inl e' \<longleftrightarrow> \<not> b \<and> e' = e"
  by (auto simp: ensure_def)

lemma ensure_simps [simp]: "ensure True e = Inr ()" "ensure False e = Inl e"
  by (simp_all add: ensure_def)

lemma require_eq_Inr [simp]: "require e m = Inr a \<longleftrightarrow> m = Some a"
  by (auto simp: require_def split: option.splits)

lemma require_eq_Inl [simp]: "require e m = Inl e' \<longleftrightarrow> m = None \<and> e' = e"
  by (auto simp: require_def split: option.splits)

lemma require_simps [simp]: "require e (Some a) = Inr a" "require e None = Inl e"
  by (simp_all add: require_def)

lemma rescue_eq_Inr: "rescue m h = Inr a \<longleftrightarrow> m = Inr a \<or> (\<exists>e. m = Inl e \<and> h e = Inr a)"
  by (cases m) (auto simp: rescue_def)

lemma rescue_simps [simp]: "rescue (Inr a) h = Inr a" "rescue (Inl e) h = h e"
  by (simp_all add: rescue_def)

section \<open>Tables\<close>

definition update_where :: "('r \<Rightarrow> bool) \<Rightarrow> ('r \<Rightarrow> 'r) \<Rightarrow> 'r list \<Rightarrow> 'r list" where
  "update_where P f rows = map (\<lambda>r. if P r then f r else r) rows"

definition delete_where :: "('r \<Rightarrow> bool) \<Rightarrow> 'r list \<Rightarrow> 'r list" where
  "delete_where P rows = filter (\<lambda>r. \<not> P r) rows"

definition count_where :: "('r \<Rightarrow> bool) \<Rightarrow> 'r list \<Rightarrow> nat" where
  "count_where P rows = length (filter P rows)"

definition sum_where :: "('r \<Rightarrow> nat) \<Rightarrow> ('r \<Rightarrow> bool) \<Rightarrow> 'r list \<Rightarrow> nat" where
  "sum_where v P rows = sum_list (map v (filter P rows))"

lemma find_SomeD: "find P rows = Some r \<Longrightarrow> r \<in> set rows \<and> P r"
  by (auto simp: find_Some_iff)

lemma find_append: "find P (xs @ ys) = (case find P xs of None \<Rightarrow> find P ys | Some y \<Rightarrow> Some y)"
  by (induction xs) auto

lemma find_None_iff_set: "find P rows = None \<longleftrightarrow> (\<forall>r \<in> set rows. \<not> P r)"
  by (auto simp: find_None_iff)

lemma set_update_where: "set (update_where P f rows) = (\<lambda>r. if P r then f r else r) ` set rows"
  by (simp add: update_where_def)

lemma update_where_Nil [simp]: "update_where P f [] = []"
  by (simp add: update_where_def)

lemma update_where_Cons [simp]:
  "update_where P f (r # rows) = (if P r then f r else r) # update_where P f rows"
  by (simp add: update_where_def)

lemma update_where_append [simp]:
  "update_where P f (xs @ ys) = update_where P f xs @ update_where P f ys"
  by (simp add: update_where_def)

lemma map_update_where: "(\<And>r. P r \<Longrightarrow> g (f r) = g r) \<Longrightarrow> map g (update_where P f rows) = map g rows"
  by (simp add: update_where_def)

lemma update_where_none: "(\<And>r. r \<in> set rows \<Longrightarrow> \<not> P r) \<Longrightarrow> update_where P f rows = rows"
  by (induction rows) auto

lemma set_delete_where [simp]: "set (delete_where P rows) = {r \<in> set rows. \<not> P r}"
  by (simp add: delete_where_def)

lemma count_where_simps [simp]:
  "count_where P [] = 0"
  "count_where P (r # rows) = (if P r then 1 else 0) + count_where P rows"
  "count_where P (xs @ ys) = count_where P xs + count_where P ys"
  by (simp_all add: count_where_def)

lemma sum_where_simps [simp]:
  "sum_where v P [] = 0"
  "sum_where v P (r # rows) = (if P r then v r else 0) + sum_where v P rows"
  "sum_where v P (xs @ ys) = sum_where v P xs + sum_where v P ys"
  by (simp_all add: sum_where_def)

lemma count_where_pos: "r \<in> set rows \<Longrightarrow> P r \<Longrightarrow> 0 < count_where P rows"
  by (induction rows) auto

lemma sum_where_ge: "r \<in> set rows \<Longrightarrow> P r \<Longrightarrow> v r \<le> sum_where v P rows"
  by (induction rows) auto

lemma count_where_0: "(\<And>r. r \<in> set rows \<Longrightarrow> \<not> P r) \<Longrightarrow> count_where P rows = 0"
  by (induction rows) auto

lemma count_where_cong: "(\<And>r. r \<in> set rows \<Longrightarrow> P r = Q r) \<Longrightarrow> count_where P rows = count_where Q rows"
  by (induction rows) auto

lemma count_where_update_same:
  "(\<And>r. r \<in> set rows \<Longrightarrow> P r \<Longrightarrow> Q (f r) = Q r) \<Longrightarrow> count_where Q (update_where P f rows) = count_where Q rows"
  by (induction rows) auto

lemma sum_where_update_same:
  "(\<And>r. r \<in> set rows \<Longrightarrow> P r \<Longrightarrow> Q (f r) = Q r \<and> v (f r) = v r) \<Longrightarrow>
   sum_where v Q (update_where P f rows) = sum_where v Q rows"
  by (induction rows) auto

text \<open>
  An UPDATE by primary key moves exactly one row: the counts before and after differ by that
  row alone.
\<close>

lemma count_where_update_key:
  assumes "distinct (map k rows)" and "r \<in> set rows"
  shows "count_where Q (update_where (\<lambda>x. k x = k r) f rows) + (if Q r then 1 else 0)
       = count_where Q rows + (if Q (f r) then 1 else 0)"
  using assms
proof (induction rows)
  case Nil
  then show ?case by simp
next
  case (Cons x rows)
  show ?case
  proof (cases "x = r")
    case True
    with Cons.prems have "\<And>y. y \<in> set rows \<Longrightarrow> k y \<noteq> k r"
      by (auto simp: image_iff)
    then have "update_where (\<lambda>x. k x = k r) f rows = rows"
      by (rule update_where_none)
    with True show ?thesis by simp
  next
    case False
    with Cons.prems have "r \<in> set rows" and "k x \<noteq> k r"
      by (auto simp: image_iff)
    with Cons show ?thesis by simp
  qed
qed

lemma sum_where_update_key:
  assumes "distinct (map k rows)" and "r \<in> set rows"
  shows "sum_where v Q (update_where (\<lambda>x. k x = k r) f rows) + (if Q r then v r else 0)
       = sum_where v Q rows + (if Q (f r) then v (f r) else 0)"
  using assms
proof (induction rows)
  case Nil
  then show ?case by simp
next
  case (Cons x rows)
  show ?case
  proof (cases "x = r")
    case True
    with Cons.prems have "\<And>y. y \<in> set rows \<Longrightarrow> k y \<noteq> k r"
      by (auto simp: image_iff)
    then have "update_where (\<lambda>x. k x = k r) f rows = rows"
      by (rule update_where_none)
    with True show ?thesis by simp
  next
    case False
    with Cons.prems have "r \<in> set rows" and "k x \<noteq> k r"
      by (auto simp: image_iff)
    with Cons show ?thesis by simp
  qed
qed

lemma distinct_map_inj: "distinct (map k rows) \<Longrightarrow> x \<in> set rows \<Longrightarrow> y \<in> set rows \<Longrightarrow> k x = k y \<Longrightarrow> x = y"
  by (meson distinct_map inj_onD)

lemma set_update_where_key:
  assumes "distinct (map k rows)" and "r \<in> set rows"
  shows "set (update_where (\<lambda>x. k x = k r) f rows) = insert (f r) {x \<in> set rows. k x \<noteq> k r}"
proof -
  have only: "x = r" if "x \<in> set rows" "k x = k r" for x
    using distinct_map_inj [OF assms(1) that(1) assms(2) that(2)] .
  show ?thesis unfolding set_update_where using assms(2) by (auto dest: only)
qed

lemma find_key:
  assumes "distinct (map k rows)" and "r \<in> set rows" and "P r" and "\<And>x. P x \<Longrightarrow> k x = k r"
  shows "find P rows = Some r"
proof (cases "find P rows")
  case None
  with assms show ?thesis by (auto simp: find_None_iff_set)
next
  case (Some x)
  then have "x \<in> set rows" and "P x" by (auto dest: find_SomeD)
  with assms have "x = r" by (blast intro: distinct_map_inj)
  with Some show ?thesis by simp
qed

lemma find_update_where_other:
  "(\<And>x. P x \<Longrightarrow> Q (f x) = False \<and> Q x = False) \<Longrightarrow> find Q (update_where P f rows) = find Q rows"
  by (induction rows) auto

lemma distinct_map_filter_key: "distinct (map k rows) \<Longrightarrow> distinct (map k (filter P rows))"
  by (simp add: distinct_map_filter)

lemma distinct_map_delete_where [intro]: "distinct (map k rows) \<Longrightarrow> distinct (map k (delete_where P rows))"
  by (simp add: delete_where_def distinct_map_filter)

lemma filter_update_where_same:
  "(\<And>r. P r \<Longrightarrow> Q (f r) = Q r) \<Longrightarrow> filter Q (update_where P f rows) = update_where P f (filter Q rows)"
  by (induction rows) auto

section \<open>ASCII text\<close>

text \<open>
  A Python \<open>str\<close> is modelled by the list of its UTF-8 bytes, a HOL \<open>string\<close>. Every
  identifier, key, digest and code of the program is ASCII, where bytes and code points agree.
\<close>

definition is_lower_char :: "char \<Rightarrow> bool" where
  "is_lower_char c \<longleftrightarrow> 97 \<le> (of_char c :: nat) \<and> (of_char c :: nat) \<le> 122"

definition is_upper_char :: "char \<Rightarrow> bool" where
  "is_upper_char c \<longleftrightarrow> 65 \<le> (of_char c :: nat) \<and> (of_char c :: nat) \<le> 90"

definition is_digit_char :: "char \<Rightarrow> bool" where
  "is_digit_char c \<longleftrightarrow> 48 \<le> (of_char c :: nat) \<and> (of_char c :: nat) \<le> 57"

definition is_alnum_char :: "char \<Rightarrow> bool" where
  "is_alnum_char c \<longleftrightarrow> is_lower_char c \<or> is_upper_char c \<or> is_digit_char c"

definition is_hex_char :: "char \<Rightarrow> bool" where
  "is_hex_char c \<longleftrightarrow> is_digit_char c \<or> (97 \<le> (of_char c :: nat) \<and> (of_char c :: nat) \<le> 102)"

definition lower_char :: "char \<Rightarrow> char" where
  "lower_char c = (if is_upper_char c then char_of ((of_char c :: nat) + 32) else c)"

definition is_sha256_hex :: "string \<Rightarrow> bool" where
  "is_sha256_hex s \<longleftrightarrow> length s = 64 \<and> list_all is_hex_char s"

definition hex_digit :: "nat \<Rightarrow> char" where
  "hex_digit n = (if n < 10 then char_of (48 + n) else char_of (87 + n))"

fun starts_with :: "string \<Rightarrow> string \<Rightarrow> bool" where
  "starts_with [] s = True"
| "starts_with (p # ps) [] = False"
| "starts_with (p # ps) (c # cs) = (p = c \<and> starts_with ps cs)"

lemma starts_with_append: "starts_with p s \<longleftrightarrow> (\<exists>t. s = p @ t)"
  by (induction p s rule: starts_with.induct) auto

fun is_substring :: "string \<Rightarrow> string \<Rightarrow> bool" where
  "is_substring p [] = (p = [])"
| "is_substring p (c # cs) = (starts_with p (c # cs) \<or> is_substring p cs)"

lemma is_substring_iff: "is_substring p s \<longleftrightarrow> (\<exists>u v. s = u @ p @ v)"
proof (induction s)
  case Nil
  then show ?case by auto
next
  case (Cons c cs)
  show ?case
  proof
    assume "is_substring p (c # cs)"
    then consider "starts_with p (c # cs)" | "is_substring p cs" by auto
    then show "\<exists>u v. c # cs = u @ p @ v"
    proof cases
      case 1
      then show ?thesis by (metis append_Nil starts_with_append)
    next
      case 2
      with Cons.IH obtain u v where "cs = u @ p @ v" by blast
      then have "c # cs = (c # u) @ p @ v" by simp
      then show ?thesis by blast
    qed
  next
    assume "\<exists>u v. c # cs = u @ p @ v"
    then obtain u v where uv: "c # cs = u @ p @ v" by blast
    show "is_substring p (c # cs)"
    proof (cases u)
      case Nil
      with uv have "starts_with p (c # cs)" by (auto simp: starts_with_append)
      then show ?thesis by simp
    next
      case (Cons d us)
      with uv have "cs = us @ p @ v" by simp
      with Cons.IH show ?thesis by auto
    qed
  qed
qed

text \<open>Decimal rendering of a natural number and of an integer, as Python's \<open>str\<close> gives it.\<close>

fun nat_digits :: "nat \<Rightarrow> string" where
  "nat_digits n = (if n < 10 then [char_of (48 + n)] else nat_digits (n div 10) @ [char_of (48 + n mod 10)])"

declare nat_digits.simps [simp del]

definition int_string :: "int \<Rightarrow> string" where
  "int_string i = (if i < 0 then CHR ''-'' # nat_digits (nat (- i)) else nat_digits (nat i))"

end
