(* ===== verification/Errors.thy ===== *)
theory Errors imports Prelude begin

text \<open>
  The exceptions of the program (src/corpuskit/domain/errors.py and the exception classes of the
  services and stores) as the constructors of one datatype, so that every \<open>raise\<close> is a value.
  The human-readable messages of \<open>ValueError\<close> and \<open>RuntimeError\<close> are kept; the public message
  of an application error is a function of its code.
\<close>

datatype application_error_code =
    INVALID_REQUEST | LANGUAGE_NOT_SUPPORTED | INVENTORY_NOT_FOUND | INVENTORY_DATA_UNAVAILABLE
  | DEPENDENCY_UNAVAILABLE | ENGINE_UNAVAILABLE | ENGINE_CONTRACT_VIOLATION | RESOURCE_NOT_FOUND
  | RESOURCE_CONFLICT | INVALID_STATE_TRANSITION | QUOTA_EXCEEDED | RATE_LIMITED

datatype exn =
    InvalidRequestError string
  | ResourceNotFoundError string
  | ResourceConflictError string
  | InvalidStateTransitionError string
  | QuotaExceededError string "nat option"
  | TrafficRateLimitExceededError string nat
  | DependencyUnavailableError string
  | EngineUnavailableError string
  | ValueError string
  | ValidationError
  | TypeError
  | RuntimeError string
  | TenantContextError string
  | MultipleResultsFound
  | IntegrityError
  | RunStoreError string
  | ArtifactAdoptionError string bool
  | ObjectStoreError string
  | ObjectNotFoundError
  | ObjectIntegrityError string
  | MaintenanceStateConflictError
  | OSError

fun application_code :: "exn \<Rightarrow> application_error_code option" where
  "application_code (InvalidRequestError _) = Some INVALID_REQUEST"
| "application_code (ResourceNotFoundError _) = Some RESOURCE_NOT_FOUND"
| "application_code (ResourceConflictError _) = Some RESOURCE_CONFLICT"
| "application_code (InvalidStateTransitionError _) = Some INVALID_STATE_TRANSITION"
| "application_code (QuotaExceededError _ _) = Some QUOTA_EXCEEDED"
| "application_code (TrafficRateLimitExceededError _ _) = Some RATE_LIMITED"
| "application_code (DependencyUnavailableError _) = Some DEPENDENCY_UNAVAILABLE"
| "application_code (EngineUnavailableError _) = Some ENGINE_UNAVAILABLE"
| "application_code _ = None"

text \<open>
  \<open>ValidationError\<close> is pydantic's, a subclass of \<open>ValueError\<close>.
  \<open>except (TypeError, ValueError)\<close> and \<open>except ObjectStoreError\<close> catch these.
\<close>

definition is_type_or_value_error :: "exn \<Rightarrow> bool" where
  "is_type_or_value_error e = (case e of ValueError _ \<Rightarrow> True | ValidationError \<Rightarrow> True | TypeError \<Rightarrow> True | _ \<Rightarrow> False)"

definition is_value_error :: "exn \<Rightarrow> bool" where
  "is_value_error e = (case e of ValueError _ \<Rightarrow> True | ValidationError \<Rightarrow> True | _ \<Rightarrow> False)"

definition is_object_store_error :: "exn \<Rightarrow> bool" where
  "is_object_store_error e = (case e of ObjectStoreError _ \<Rightarrow> True | ObjectNotFoundError \<Rightarrow> True
     | ObjectIntegrityError _ \<Rightarrow> True | _ \<Rightarrow> False)"

text \<open>What a statement or a commit raises: \<open>except SQLAlchemyError\<close> catches these.\<close>

definition is_sqlalchemy_error :: "exn \<Rightarrow> bool" where
  "is_sqlalchemy_error e = (case e of IntegrityError \<Rightarrow> True | MultipleResultsFound \<Rightarrow> True | _ \<Rightarrow> False)"

text \<open>\<open>except <class> as exc: raise other from exc\<close>: the handled classes are replaced.\<close>

definition reraise :: "(exn \<Rightarrow> bool) \<Rightarrow> exn \<Rightarrow> exn + 'a \<Rightarrow> exn + 'a" where
  "reraise handled other m = rescue m (\<lambda>e. Inl (if handled e then other else e))"

lemma reraise_simps [simp]:
  "reraise h e (Inr a) = Inr a"
  "reraise h e (Inl x) = Inl (if h x then e else x)"
  by (simp_all add: reraise_def)

lemma reraise_eq_Inr [simp]: "reraise h e m = Inr a \<longleftrightarrow> m = Inr a"
  by (cases m) simp_all

lemma error_class_simps [simp]:
  "is_type_or_value_error (ValueError m)" "is_type_or_value_error TypeError"
  "is_type_or_value_error ValidationError" "is_value_error ValidationError"
  "is_value_error (ValueError m)" "\<not> is_value_error TypeError"
  "\<not> is_value_error (RuntimeError m)" "\<not> is_type_or_value_error (RuntimeError m)"
  "is_object_store_error (ObjectStoreError m)" "is_object_store_error ObjectNotFoundError"
  "is_object_store_error (ObjectIntegrityError m)" "\<not> is_object_store_error (ValueError m)"
  by (simp_all add: is_type_or_value_error_def is_value_error_def is_object_store_error_def)

end
