(* ===== verification/Json.thy ===== *)
theory Json imports Errors begin

text \<open>
  JSON values and the one canonical encoder the program uses everywhere
  (\<open>json.dumps(..., allow_nan=False, ensure_ascii=False, separators=(",", ":"),
  sort_keys=True).encode("utf-8")\<close>), with the proof that it is injective on values in
  canonical key order. A float is kept as the token Python's \<open>repr\<close> prints for it; a value that
  is not JSON (a tuple, bytes, a dict with a key that is not a string) is \<open>JOther\<close>. Two errors of the
  encoder are outside the model: an integer of more than 4300 digits (\<open>ValueError\<close>, the default limit of
  \<open>int.__repr__\<close>) and a lone surrogate in a string (\<open>UnicodeEncodeError\<close>); strings are UTF-8 here.
\<close>

datatype json =
    JNull
  | JBool bool
  | JInt int
  | JFloat string
  | JNonFinite
  | JStr string
  | JList "json list"
  | JObj "(string \<times> json) list"
  | JOther

fun join_with :: "string \<Rightarrow> string list \<Rightarrow> string" where
  "join_with sep [] = []"
| "join_with sep [s] = s"
| "join_with sep (s # t # ss) = s @ sep @ join_with sep (t # ss)"

text \<open>\<open>json.encoder.py_encode_basestring\<close>: the escapes of a string that stays UTF-8.\<close>

definition escape_char :: "char \<Rightarrow> string" where
  "escape_char c =
     (if c = CHR 0x5C then [CHR 0x5C, CHR 0x5C]
      else if c = CHR 0x22 then [CHR 0x5C, CHR 0x22]
      else if c = CHR 0x08 then [CHR 0x5C, CHR ''b'']
      else if c = CHR 0x0C then [CHR 0x5C, CHR ''f'']
      else if c = CHR 0x0A then [CHR 0x5C, CHR ''n'']
      else if c = CHR 0x0D then [CHR 0x5C, CHR ''r'']
      else if c = CHR 0x09 then [CHR 0x5C, CHR ''t'']
      else if (of_char c :: nat) < 32 then
        [CHR 0x5C, CHR ''u'', CHR ''0'', CHR ''0'',
         hex_digit ((of_char c :: nat) div 16), hex_digit ((of_char c :: nat) mod 16)]
      else [c])"

definition quote_json :: "string \<Rightarrow> string" where
  "quote_json s = CHR 0x22 # concat (map escape_char s) @ [CHR 0x22]"

fun encode :: "json \<Rightarrow> string" where
  "encode JNull = ''null''"
| "encode (JBool b) = (if b then ''true'' else ''false'')"
| "encode (JInt i) = int_string i"
| "encode (JFloat t) = t"
| "encode JNonFinite = ''NaN''"
| "encode (JStr s) = quote_json s"
| "encode (JList xs) = CHR ''['' # join_with '','' (map encode xs) @ '']''"
| "encode (JObj kvs) =
     CHR ''{'' # join_with '','' (map (\<lambda>(k, v). quote_json k @ CHR '':'' # encode v) kvs) @ ''}''"
| "encode JOther = []"

text \<open>\<open>sort_keys=True\<close> followed by \<open>json.loads\<close>: the same value with every object in key order.\<close>

fun canon :: "json \<Rightarrow> json" where
  "canon (JList xs) = JList (map canon xs)"
| "canon (JObj kvs) = JObj (sort_key fst (map (\<lambda>(k, v). (k, canon v)) kvs))"
| "canon v = v"

fun has_non_finite :: "json \<Rightarrow> bool" where
  "has_non_finite JNonFinite = True"
| "has_non_finite (JList xs) = list_ex has_non_finite xs"
| "has_non_finite (JObj kvs) = list_ex (\<lambda>(k, v). has_non_finite v) kvs"
| "has_non_finite _ = False"

fun has_other :: "json \<Rightarrow> bool" where
  "has_other JOther = True"
| "has_other (JList xs) = list_ex has_other xs"
| "has_other (JObj kvs) = list_ex (\<lambda>(k, v). has_other v) kvs"
| "has_other _ = False"

definition dumps :: "json \<Rightarrow> exn + string" where
  "dumps v =
     bindr (ensure (\<not> has_other v) TypeError) (\<lambda>_.
     bindr (ensure (\<not> has_non_finite v) (ValueError ''Out of range float values are not JSON compliant'')) (\<lambda>_.
     Inr (encode (canon v))))"

fun is_object :: "json \<Rightarrow> bool" where
  "is_object (JObj _) = True"
| "is_object _ = False"

definition obj_get :: "string \<Rightarrow> json \<Rightarrow> json option" where
  "obj_get k v = (case v of JObj kvs \<Rightarrow> map_of kvs k | _ \<Rightarrow> None)"

section \<open>The encoder is injective\<close>

definition hex_value :: "char \<Rightarrow> nat" where
  "hex_value c = (if is_digit_char c then of_char c - 48 else of_char c - 87)"

text \<open>The inverse of the escapes: one character of a JSON string literal and the rest.\<close>

definition unescape :: "string \<Rightarrow> (char \<times> string) option" where
  "unescape s =
     (case s of [] \<Rightarrow> None
      | c # r \<Rightarrow>
        (if c = CHR 0x22 then None
         else if c \<noteq> CHR 0x5C then Some (c, r)
         else case r of [] \<Rightarrow> None
           | d # t \<Rightarrow>
             (if d = CHR ''b'' then Some (CHR 0x08, t)
              else if d = CHR ''f'' then Some (CHR 0x0C, t)
              else if d = CHR ''n'' then Some (CHR 0x0A, t)
              else if d = CHR ''r'' then Some (CHR 0x0D, t)
              else if d = CHR ''t'' then Some (CHR 0x09, t)
              else if d = CHR ''u'' then
                Some (char_of (16 * hex_value (t ! 2) + hex_value (t ! 3) :: nat), drop 4 t)
              else Some (d, t))))"

lemma hex_value_hex_digit [simp]: "n < 16 \<Longrightarrow> hex_value (hex_digit n) = n"
  by (auto simp: hex_value_def hex_digit_def is_digit_char_def)

lemma char_of_hex_halves: "char_of (16 * ((of_char c :: nat) div 16) + (of_char c :: nat) mod 16) = c"
  by simp

lemma unescape_escape: "unescape (escape_char c @ r) = Some (c, r)"
proof -
  consider "c = CHR 0x5C" | "c = CHR 0x22" | "c = CHR 0x08" | "c = CHR 0x0C" | "c = CHR 0x0A"
    | "c = CHR 0x0D" | "c = CHR 0x09"
    | "c \<noteq> CHR 0x5C" "c \<noteq> CHR 0x22" "c \<noteq> CHR 0x08" "c \<noteq> CHR 0x0C" "c \<noteq> CHR 0x0A"
      "c \<noteq> CHR 0x0D" "c \<noteq> CHR 0x09" by blast
  then show ?thesis
  proof cases
    case 8
    show ?thesis
    proof (cases "(of_char c :: nat) < 32")
      case True
      then have "(of_char c :: nat) div 16 < 16" by simp
      with 8 True show ?thesis
        by (simp add: escape_char_def unescape_def char_of_hex_halves)
    next
      case False
      with 8 show ?thesis by (simp add: escape_char_def unescape_def)
    qed
  qed (simp_all add: escape_char_def unescape_def)
qed

lemma quote_json_append_inject:
  "quote_json k @ r = quote_json k' @ s \<Longrightarrow> k = k' \<and> r = s"
proof -
  have aux: "concat (map escape_char k) @ CHR 0x22 # r = concat (map escape_char k') @ CHR 0x22 # s
      \<Longrightarrow> k = k' \<and> r = s" for k k'
  proof (induction k arbitrary: k')
    case Nil
    show ?case
    proof (cases k')
      case (Cons d ds)
      with Nil have "CHR 0x22 # r = escape_char d @ (concat (map escape_char ds) @ CHR 0x22 # s)" by simp
      then have "unescape (CHR 0x22 # r) = Some (d, concat (map escape_char ds) @ CHR 0x22 # s)"
        by (simp only: unescape_escape)
      then show ?thesis by (simp add: unescape_def)
    qed (use Nil in simp)
  next
    case (Cons c cs)
    show ?case
    proof (cases k')
      case Nil
      with Cons.prems have "escape_char c @ (concat (map escape_char cs) @ CHR 0x22 # r) = CHR 0x22 # s" by simp
      then have "unescape (CHR 0x22 # s) = Some (c, concat (map escape_char cs) @ CHR 0x22 # r)"
        by (metis unescape_escape)
      then show ?thesis by (simp add: unescape_def)
    next
      case k': (Cons d ds)
      with Cons.prems have "escape_char c @ (concat (map escape_char cs) @ CHR 0x22 # r)
          = escape_char d @ (concat (map escape_char ds) @ CHR 0x22 # s)" by simp
      then have "Some (c, concat (map escape_char cs) @ CHR 0x22 # r)
          = Some (d, concat (map escape_char ds) @ CHR 0x22 # s)"
        by (metis unescape_escape)
      with Cons.IH [of ds] k' show ?thesis by simp
    qed
  qed
  assume "quote_json k @ r = quote_json k' @ s"
  then show ?thesis using aux [of k k'] by (simp add: quote_json_def)
qed

definition number_char :: "char \<Rightarrow> bool" where
  "number_char c \<longleftrightarrow> is_digit_char c \<or> c = CHR ''-'' \<or> c = CHR ''+'' \<or> c = CHR ''.'' \<or> c = CHR ''e''"

text \<open>The tokens \<open>repr\<close> prints for a finite float: a decimal point or an exponent tells them from ints.\<close>

definition float_token :: "string \<Rightarrow> bool" where
  "float_token t \<longleftrightarrow> t \<noteq> [] \<and> list_all number_char t \<and> (is_digit_char (hd t) \<or> hd t = CHR ''-'')
     \<and> (CHR ''.'' \<in> set t \<or> CHR ''e'' \<in> set t)"

fun wf_json :: "json \<Rightarrow> bool" where
  "wf_json (JFloat t) = float_token t"
| "wf_json JNonFinite = False"
| "wf_json JOther = False"
| "wf_json (JList xs) = list_all wf_json xs"
| "wf_json (JObj kvs) = list_all (\<lambda>(k, v). wf_json v) kvs"
| "wf_json _ = True"

definition stops :: "string \<Rightarrow> bool" where
  "stops r \<longleftrightarrow> r = [] \<or> hd r = CHR '','' \<or> hd r = CHR '']'' \<or> hd r = CHR ''}''"

fun token_class :: "char \<Rightarrow> nat" where
  "token_class c = (if c = CHR ''n'' then 0 else if c = CHR ''t'' then 1 else if c = CHR ''f'' then 2
     else if is_digit_char c \<or> c = CHR ''-'' then 3 else if c = CHR 0x22 then 4
     else if c = CHR ''['' then 5 else if c = CHR ''{'' then 6 else 7)"

fun json_class :: "json \<Rightarrow> nat" where
  "json_class JNull = 0"
| "json_class (JBool b) = (if b then 1 else 2)"
| "json_class (JInt i) = 3"
| "json_class (JFloat t) = 3"
| "json_class (JStr s) = 4"
| "json_class (JList xs) = 5"
| "json_class (JObj kvs) = 6"
| "json_class _ = 7"

lemma digit_char_of: "(n::nat) < 10 \<Longrightarrow> is_digit_char (char_of (48 + n))"
  by (simp add: is_digit_char_def)

lemma nat_digits_all_digits: "list_all is_digit_char (nat_digits n)"
proof (induction n rule: nat_digits.induct)
  case (1 n)
  then show ?case by (subst nat_digits.simps) (auto simp: digit_char_of)
qed

lemma nat_digits_nonempty: "nat_digits n \<noteq> []"
  by (subst nat_digits.simps) auto

definition digit_value :: "char \<Rightarrow> nat" where
  "digit_value c = of_char c - 48"

lemma nat_digits_value: "foldl (\<lambda>a c. 10 * a + digit_value c) 0 (nat_digits n) = n"
proof (induction n rule: nat_digits.induct)
  case (1 n)
  show ?case
  proof (cases "n < 10")
    case True
    then show ?thesis by (subst nat_digits.simps) (simp add: digit_value_def)
  next
    case False
    with 1 have "foldl (\<lambda>a c. 10 * a + digit_value c) 0 (nat_digits (n div 10)) = n div 10" by simp
    with False show ?thesis by (subst nat_digits.simps) (simp add: digit_value_def)
  qed
qed

lemma nat_digits_inject [simp]: "nat_digits n = nat_digits m \<longleftrightarrow> n = m"
  by (metis nat_digits_value)

lemma not_digit_minus: "\<not> is_digit_char CHR ''-''"
  by (simp add: is_digit_char_def)

lemma nat_digits_not_minus: "nat_digits n \<noteq> CHR ''-'' # t"
proof
  assume "nat_digits n = CHR ''-'' # t"
  with nat_digits_all_digits [of n] not_digit_minus show False by simp
qed

lemma int_string_inject [simp]: "int_string i = int_string j \<longleftrightarrow> i = j"
  using nat_digits_not_minus nat_digits_not_minus [symmetric]
  by (auto simp: int_string_def)

lemma int_string_chars: "list_all number_char (int_string i)" "int_string i \<noteq> []"
  "is_digit_char (hd (int_string i)) \<or> hd (int_string i) = CHR ''-''"
  "CHR ''.'' \<notin> set (int_string i)" "CHR ''e'' \<notin> set (int_string i)"
proof -
  have d: "list_all is_digit_char (nat_digits n)" and ne: "nat_digits n \<noteq> []" for n
    by (rule nat_digits_all_digits nat_digits_nonempty)+
  show "list_all number_char (int_string i)"
    using d by (auto simp: int_string_def list_all_iff number_char_def)
  show "int_string i \<noteq> []" using ne by (simp add: int_string_def)
  show "is_digit_char (hd (int_string i)) \<or> hd (int_string i) = CHR ''-''"
    using d [of "nat i"] ne [of "nat i"] by (cases "nat_digits (nat i)") (auto simp: int_string_def)
  have "\<not> is_digit_char CHR ''.''" and "\<not> is_digit_char CHR ''e''" by (simp_all add: is_digit_char_def)
  then show "CHR ''.'' \<notin> set (int_string i)" "CHR ''e'' \<notin> set (int_string i)"
    using d by (auto simp: int_string_def list_all_iff)
qed

lemma int_string_not_float: "\<not> float_token (int_string i)"
  using int_string_chars [of i] by (auto simp: float_token_def)

text \<open>A number token ends at a delimiter, so it can be read off the front of the text.\<close>

lemma number_token_split:
  assumes "list_all number_char t" and "list_all number_char u" and "stops r" and "stops s"
    and "t @ r = u @ s"
  shows "t = u \<and> r = s"
proof -
  have delim: "\<not> number_char CHR '',''" "\<not> number_char CHR '']''" "\<not> number_char CHR ''}''"
    by (simp_all add: number_char_def is_digit_char_def)
  have tw: "takeWhile number_char (t @ r) = t" if "list_all number_char t" "stops r" for t r
    using that delim by (cases r) (auto simp: stops_def list_all_iff takeWhile_append2)
  from tw [OF assms(1,3)] tw [OF assms(2,4)] assms(5) have "t = u" by simp
  with assms(5) show ?thesis by simp
qed

lemma token_class_number: "is_digit_char c \<or> c = CHR ''-'' \<Longrightarrow> token_class c = 3"
  by (auto simp: is_digit_char_def)

lemma encode_head: "wf_json v \<Longrightarrow> encode v \<noteq> [] \<and> token_class (hd (encode v)) = json_class v"
proof (cases v)
  case (JInt i)
  then show ?thesis using int_string_chars(2,3) [of i] token_class_number by (simp del: token_class.simps)
next
  case (JFloat t)
  moreover assume "wf_json v"
  ultimately show ?thesis using token_class_number by (simp add: float_token_def del: token_class.simps)
qed (auto simp: quote_json_def is_digit_char_def)

lemma not_number_heads: "\<not> is_digit_char CHR '','' " "\<not> is_digit_char CHR '']''" "\<not> is_digit_char CHR ''}''"
  by (simp_all add: is_digit_char_def)

lemma encode_not_closing: "wf_json v \<Longrightarrow> encode v @ r \<noteq> CHR '']'' # s \<and> encode v @ r \<noteq> CHR ''}'' # s"
proof -
  assume wf: "wf_json v"
  then have ne: "encode v \<noteq> []" and tc: "token_class (hd (encode v)) = json_class v"
    using encode_head by auto
  from wf have "json_class v < 7" by (cases v) auto
  with tc have "hd (encode v) \<noteq> CHR '']''" "hd (encode v) \<noteq> CHR ''}''"
    using not_number_heads by (auto simp del: json_class.simps)
  with ne show ?thesis by (auto simp: hd_append dest: arg_cong [where f = hd])
qed

text \<open>
  Two comma-separated lists in the same brackets agree item by item when the items can be told
  apart (\<open>uniq\<close>): stated once for arrays and objects.
\<close>

lemma join_items_inject:
  assumes uniq: "\<And>x y r s. x \<in> set xs \<Longrightarrow> Q y \<Longrightarrow> e x @ r = e y @ s \<Longrightarrow> stops r \<Longrightarrow> stops s \<Longrightarrow> x = y \<and> r = s"
    and open_x: "\<And>x t u. Q x \<Longrightarrow> e x @ t \<noteq> close # u"
    and close: "close = CHR '']'' \<or> close = CHR ''}''"
    and "list_all Q xs" and "list_all Q ys"
    and "join_with '','' (map e xs) @ close # r = join_with '','' (map e ys) @ close # s"
  shows "xs = ys \<and> r = s"
  using assms(1,4-)
proof (induction xs arbitrary: ys)
  case Nil
  show ?case
  proof (cases ys)
    case (Cons y ys')
    with Nil.prems(3) have "Q y" by simp
    moreover obtain t where "join_with '','' (map e ys) @ close # s = e y @ t"
      using Cons by (cases ys') simp_all
    ultimately have "close # r = e y @ t" using Nil.prems(4) by simp
    with open_x [OF \<open>Q y\<close>, of t r] show ?thesis by simp
  qed (use Nil in simp)
next
  case (Cons x xs)
  from Cons.prems(2) have Qx: "Q x" by simp
  show ?case
  proof (cases ys)
    case Nil
    obtain t where "join_with '','' (map e (x # xs)) @ close # r = e x @ t"
      by (cases xs) simp_all
    with Nil Cons.prems(4) have "close # s = e x @ t" by simp
    with open_x [OF Qx, of t s] show ?thesis by simp
  next
    case ys: (Cons y ys')
    with Cons.prems(3) have Qy: "Q y" by simp
    define t where "t = (if xs = [] then close # r else CHR '','' # join_with '','' (map e xs) @ close # r)"
    define u where "u = (if ys' = [] then close # s else CHR '','' # join_with '','' (map e ys') @ close # s)"
    have "join_with '','' (map e (x # xs)) @ close # r = e x @ t"
      by (cases xs) (simp_all add: t_def)
    moreover have "join_with '','' (map e ys) @ close # s = e y @ u"
      using ys by (cases ys') (simp_all add: u_def)
    moreover have "stops t" "stops u" using close by (auto simp: stops_def t_def u_def)
    ultimately have xy: "x = y" and tu: "t = u"
      using Cons.prems(1) [of x y t u] Cons.prems(4) Qy by auto
    from close have nc: "close \<noteq> CHR '',''" by auto
    have "xs = ys' \<and> r = s"
    proof (cases "xs = []")
      case True
      with tu nc show ?thesis by (auto simp: t_def u_def split: if_splits)
    next
      case False
      with tu nc have "join_with '','' (map e xs) @ close # r = join_with '','' (map e ys') @ close # s"
        by (auto simp: t_def u_def split: if_splits)
      then show ?thesis
        using Cons.prems ys by (intro Cons.IH) auto
    qed
    with xy ys show ?thesis by simp
  qed
qed

lemma json_class_agree:
  assumes "wf_json x" and "wf_json y" and "encode x @ r = encode y @ s"
  shows "json_class y = json_class x"
proof -
  from assms(1,2) have "encode x \<noteq> []" "encode y \<noteq> []" and
    c: "token_class (hd (encode x)) = json_class x" "token_class (hd (encode y)) = json_class y"
    using encode_head by auto
  with assms(3) have "hd (encode x) = hd (encode y)" by (metis hd_append2)
  with c show ?thesis by simp
qed

lemma encode_append_inject:
  "wf_json x \<Longrightarrow> wf_json y \<Longrightarrow> encode x @ r = encode y @ s \<Longrightarrow> stops r \<Longrightarrow> stops s \<Longrightarrow> x = y \<and> r = s"
proof (induction x arbitrary: y r s)
  case JNull
  then have "json_class y = 0" using json_class_agree [OF JNull.prems(1,2,3)] by simp
  with JNull show ?case by (cases y) (auto split: if_splits)
next
  case (JBool b)
  have "json_class y = (if b then 1 else 2)" using json_class_agree [OF JBool.prems(1,2,3)] by simp
  with JBool show ?case by (cases y) (auto split: if_splits)
next
  case (JInt i)
  have "json_class y = 3" using json_class_agree [OF JInt.prems(1,2,3)] by simp
  then show ?case
  proof (cases y)
    case y: (JInt j)
    with JInt.prems number_token_split [of "int_string i" "int_string j" r s] int_string_chars
    show ?thesis by simp
  next
    case y: (JFloat t)
    with JInt.prems have "list_all number_char t" by (simp add: float_token_def)
    with JInt.prems y number_token_split [of "int_string i" t r s] int_string_chars int_string_not_float
    show ?thesis by fastforce
  qed (auto split: if_splits)
next
  case (JFloat t)
  then have num: "list_all number_char t" by (simp add: float_token_def)
  have "json_class y = 3" using json_class_agree [OF JFloat.prems(1,2,3)] by simp
  then show ?case
  proof (cases y)
    case y: (JInt j)
    with JFloat.prems num number_token_split [of t "int_string j" r s] int_string_chars int_string_not_float
    show ?thesis by fastforce
  next
    case y: (JFloat u)
    with JFloat.prems have "list_all number_char u" by (simp add: float_token_def)
    with JFloat.prems y num number_token_split [of t u r s] show ?thesis by simp
  qed (auto split: if_splits)
next
  case (JStr k)
  have "json_class y = 4" using json_class_agree [OF JStr.prems(1,2,3)] by simp
  with JStr show ?case by (cases y) (auto split: if_splits dest: quote_json_append_inject)
next
  case (JList xs)
  have "json_class y = 5" using json_class_agree [OF JList.prems(1,2,3)] by simp
  then obtain ys where y: "y = JList ys" by (cases y) (auto split: if_splits)
  have "xs = ys \<and> r = s"
  proof (rule join_items_inject [where e = encode and Q = wf_json and close = "CHR '']''"])
    show "x = z \<and> r = s" if "x \<in> set xs" "wf_json z" "encode x @ r = encode z @ s" "stops r" "stops s" for x z r s
      using JList.IH [of x z r s] JList.prems(1) that by (simp add: list_all_iff)
  qed (use JList.prems y encode_not_closing in auto)
  with y show ?case by simp
next
  case (JObj kvs)
  have "json_class y = 6" using json_class_agree [OF JObj.prems(1,2,3)] by simp
  then obtain ms where y: "y = JObj ms" by (cases y) (auto split: if_splits)
  let ?e = "\<lambda>(k, v). quote_json k @ CHR '':'' # encode v"
  have "kvs = ms \<and> r = s"
  proof (rule join_items_inject [where e = ?e and Q = "\<lambda>(k, v). wf_json v" and close = "CHR ''}''"])
    show "x = z \<and> r = s" if "x \<in> set kvs" "case z of (k, v) \<Rightarrow> wf_json v" "?e x @ r = ?e z @ s" "stops r" "stops s"
      for x z r s
    proof -
      obtain k v l w where xz: "x = (k, v)" "z = (l, w)" by (cases x, cases z)
      with that(3) have "quote_json k @ (CHR '':'' # encode v @ r) = quote_json l @ (CHR '':'' # encode w @ s)" by simp
      then have "k = l" and "encode v @ r = encode w @ s" using quote_json_append_inject by blast+
      moreover have "wf_json v" using JObj.prems(1) that(1) xz by (auto simp: list_all_iff)
      moreover have "v \<in> Basic_BNFs.snds x" using xz by simp
      ultimately show ?thesis using JObj.IH [of x v w r s] that xz by simp
    qed
  qed (use JObj.prems y in \<open>auto simp: quote_json_def\<close>)
  with y show ?case by simp
qed simp_all

lemma encode_inject: "wf_json x \<Longrightarrow> wf_json y \<Longrightarrow> encode x = encode y \<Longrightarrow> x = y"
  using encode_append_inject [of x y "[]" "[]"] by (simp add: stops_def)


section \<open>Canonical key order\<close>

lemma map_insort_key_fst:
  "(\<And>y. fst (g y) = fst y) \<Longrightarrow> map g (insort_key fst x xs) = insort_key fst (g x) (map g xs)"
  by (induction xs) auto

lemma map_sort_key_fst:
  "(\<And>y. fst (g y) = fst y) \<Longrightarrow> map g (sort_key fst xs) = sort_key fst (map g xs)"
  by (induction xs) (auto simp: map_insort_key_fst)

lemma sum_list_insort_key: "sum_list (map (f :: _ \<Rightarrow> nat) (insort_key k x xs)) = f x + sum_list (map f xs)"
  by (induction xs) auto

lemma sum_list_sort_key: "sum_list (map (f :: _ \<Rightarrow> nat) (sort_key k xs)) = sum_list (map f xs)"
  by (induction xs) (auto simp: sum_list_insort_key)

lemma list_all_sort_key [simp]: "list_all P (sort_key k xs) = list_all P xs"
  by (simp add: list_all_iff)

lemma list_ex_sort_key [simp]: "list_ex P (sort_key k xs) = list_ex P xs"
  by (simp add: list_ex_iff)

lemma has_other_canon [simp]: "has_other (canon v) = has_other v"
proof (induction v rule: canon.induct)
  case (1 xs)
  then show ?case by (auto simp: list_ex_iff)
next
  case (2 kvs)
  then show ?case by (force simp: list_ex_iff)
qed auto

lemma has_non_finite_canon [simp]: "has_non_finite (canon v) = has_non_finite v"
proof (induction v rule: canon.induct)
  case (1 xs)
  then show ?case by (auto simp: list_ex_iff)
next
  case (2 kvs)
  then show ?case by (force simp: list_ex_iff)
qed auto

lemma is_object_canon [simp]: "is_object (canon v) = is_object v"
  by (cases v) simp_all

lemma canon_canon [simp]: "canon (canon v) = canon v"
proof (induction v rule: canon.induct)
  case (1 xs)
  then show ?case by auto
next
  case (2 kvs)
  let ?g = "\<lambda>(k, v). (k, canon v)"
  have fst: "fst (?g y) = fst y" for y by (cases y) simp
  have gg: "map ?g (map ?g kvs) = map ?g kvs" using 2 by auto
  have "map ?g (sort_key fst (map ?g kvs)) = sort_key fst (map ?g (map ?g kvs))"
    by (rule map_sort_key_fst) (rule fst)
  also have "\<dots> = sort_key fst (map ?g kvs)" by (simp only: gg)
  finally show ?case by (simp add: sort_key_id_if_sorted del: map_map)
qed auto

lemma wf_json_canon [simp]: "wf_json (canon v) = wf_json v"
proof (induction v rule: canon.induct)
  case (1 xs)
  then show ?case by (auto simp: list_all_iff)
next
  case (2 kvs)
  then show ?case by (force simp: list_all_iff)
qed auto

lemma wf_json_dumps: "wf_json v \<Longrightarrow> \<not> has_other v \<and> \<not> has_non_finite v"
proof (induction v)
  case (JList xs)
  then show ?case by (auto simp: list_all_iff list_ex_iff)
next
  case (JObj kvs)
  then show ?case by (fastforce simp: list_all_iff list_ex_iff)
qed auto

lemma dumps_eq_Inr [simp]: "dumps v = Inr s \<longleftrightarrow> \<not> has_other v \<and> \<not> has_non_finite v \<and> s = encode (canon v)"
  by (auto simp: dumps_def)

lemma dumps_inject: "wf_json v \<Longrightarrow> wf_json w \<Longrightarrow> dumps v = Inr s \<Longrightarrow> dumps w = Inr s \<Longrightarrow> canon v = canon w"
  using encode_inject [of "canon v" "canon w"] by simp

end
