(* ===== verification/JobsDomain.thy ===== *)
theory JobsDomain imports Json begin

text \<open>
  src/corpuskit/domain/jobs.py: the durable run kinds and states, the transition table, the
  credential-key detector and the bounded normalisation of run specifications and result
  summaries. SHA-256 is the argument \<open>sha\<close>.
\<close>

section \<open>Kinds and states\<close>

datatype run_kind =
    PHONEMIZE | EVALUATE | DISTRIBUTION | TRAJECTORY | ERROR_RATES | PERPLEXITY | SELECT
  | GENERATE_REPOSITORY | GENERATE_LLM | GENERATE_LOCAL | BUILD_DATG_INDEX | GENERATE_DATG
  | TRAIN_PHON_RL | EXPORT

datatype run_state =
    DRAFT | QUEUED | PROVISIONING | RUNNING | CANCELLING | CANCELLED | SUCCEEDED | FAILED

fun run_kind_value :: "run_kind \<Rightarrow> string" where
  "run_kind_value PHONEMIZE = ''phonemize''"
| "run_kind_value EVALUATE = ''evaluate''"
| "run_kind_value DISTRIBUTION = ''distribution''"
| "run_kind_value TRAJECTORY = ''trajectory''"
| "run_kind_value ERROR_RATES = ''error-rates''"
| "run_kind_value PERPLEXITY = ''perplexity''"
| "run_kind_value SELECT = ''select''"
| "run_kind_value GENERATE_REPOSITORY = ''generate-repository''"
| "run_kind_value GENERATE_LLM = ''generate-llm''"
| "run_kind_value GENERATE_LOCAL = ''generate-local''"
| "run_kind_value BUILD_DATG_INDEX = ''build-datg-index''"
| "run_kind_value GENERATE_DATG = ''generate-datg''"
| "run_kind_value TRAIN_PHON_RL = ''train-phon-rl''"
| "run_kind_value EXPORT = ''export''"

fun run_state_value :: "run_state \<Rightarrow> string" where
  "run_state_value DRAFT = ''draft''"
| "run_state_value QUEUED = ''queued''"
| "run_state_value PROVISIONING = ''provisioning''"
| "run_state_value RUNNING = ''running''"
| "run_state_value CANCELLING = ''cancelling''"
| "run_state_value CANCELLED = ''cancelled''"
| "run_state_value SUCCEEDED = ''succeeded''"
| "run_state_value FAILED = ''failed''"

fun transitions :: "run_state \<Rightarrow> run_state list" where
  "transitions DRAFT = [QUEUED, CANCELLED]"
| "transitions QUEUED = [PROVISIONING, CANCELLING, CANCELLED, FAILED]"
| "transitions PROVISIONING = [RUNNING, CANCELLING, FAILED]"
| "transitions RUNNING = [SUCCEEDED, FAILED, CANCELLING]"
| "transitions CANCELLING = [CANCELLED, FAILED]"
| "transitions CANCELLED = []"
| "transitions SUCCEEDED = []"
| "transitions FAILED = []"

definition allowed_transitions :: "run_state \<Rightarrow> run_state list" where
  "allowed_transitions s = transitions s"

definition ensure_transition :: "run_state \<Rightarrow> run_state \<Rightarrow> exn + unit" where
  "ensure_transition current target =
     ensure (target \<in> set (transitions current))
       (InvalidStateTransitionError (run_state_value current @ ''->'' @ run_state_value target))"

definition is_terminal :: "run_state \<Rightarrow> bool" where
  "is_terminal s \<longleftrightarrow> transitions s = []"

lemma is_terminal_simps [simp]:
  "is_terminal CANCELLED" "is_terminal SUCCEEDED" "is_terminal FAILED"
  "\<not> is_terminal DRAFT" "\<not> is_terminal QUEUED" "\<not> is_terminal PROVISIONING"
  "\<not> is_terminal RUNNING" "\<not> is_terminal CANCELLING"
  by (simp_all add: is_terminal_def)

lemma is_terminal_cases: "is_terminal s \<longleftrightarrow> s = CANCELLED \<or> s = SUCCEEDED \<or> s = FAILED"
  by (cases s) simp_all

lemma run_kind_value_inject: "run_kind_value a = run_kind_value b \<longleftrightarrow> a = b"
  by (cases a; cases b) simp_all

lemma run_state_value_inject: "run_state_value a = run_state_value b \<longleftrightarrow> a = b"
  by (cases a; cases b) simp_all

text \<open>One lifecycle step, and the rank every step lowers.\<close>

inductive lifecycle_step :: "run_state \<Rightarrow> run_state \<Rightarrow> bool" where
  lifecycle_step: "t \<in> set (transitions s) \<Longrightarrow> lifecycle_step s t"

inductive_simps lifecycle_step_iff: "lifecycle_step s t"

fun lifecycle_rank :: "run_state \<Rightarrow> nat" where
  "lifecycle_rank DRAFT = 5"
| "lifecycle_rank QUEUED = 4"
| "lifecycle_rank PROVISIONING = 3"
| "lifecycle_rank RUNNING = 2"
| "lifecycle_rank CANCELLING = 1"
| "lifecycle_rank _ = 0"

lemma ensure_transition_eq_Inr [simp]: "ensure_transition s t = Inr u \<longleftrightarrow> lifecycle_step s t"
  by (simp add: ensure_transition_def lifecycle_step_iff)

lemma lifecycle_step_rank: "lifecycle_step s t \<Longrightarrow> lifecycle_rank t < lifecycle_rank s"
  by (cases s) (auto simp: lifecycle_step_iff)

lemma lifecycle_step_not_terminal: "lifecycle_step s t \<Longrightarrow> \<not> is_terminal s"
  by (auto simp: lifecycle_step_iff is_terminal_def)

lemma lifecycle_steps_rank: "(lifecycle_step ^^ n) s t \<Longrightarrow> lifecycle_rank t + n \<le> lifecycle_rank s"
proof (induction n arbitrary: t)
  case 0
  then show ?case by simp
next
  case (Suc n)
  then obtain u where "(lifecycle_step ^^ n) s u" and "lifecycle_step u t" by auto
  with Suc.IH lifecycle_step_rank show ?case by fastforce
qed

lemma lifecycle_terminal_stuck: "lifecycle_step\<^sup>*\<^sup>* s t \<Longrightarrow> is_terminal s \<Longrightarrow> t = s"
  by (induction rule: rtranclp_induct) (auto dest: lifecycle_step_not_terminal)

lemma lifecycle_rank_bound: "lifecycle_rank s \<le> 5"
  by (cases s) simp_all

lemma lifecycle_terminal_reachable: "\<exists>t. lifecycle_step\<^sup>*\<^sup>* s t \<and> is_terminal t"
proof (cases "is_terminal s")
  case False
  then have "lifecycle_step s (if s = DRAFT then CANCELLED else FAILED)"
    by (cases s) (simp_all add: lifecycle_step_iff)
  moreover have "is_terminal (if s = DRAFT then CANCELLED else FAILED)" by simp
  ultimately show ?thesis by blast
qed blast

text \<open>
  C24. The lifecycle of a run is finite and never dead-ends outside the terminal states: a chain of
  allowed transitions has at most five steps, none leaves a terminal state, and from every state
  a terminal one can be reached.
\<close>

theorem lifecycle_bounded:
  "((lifecycle_step ^^ n) s t \<longrightarrow> n \<le> 5 \<and> (is_terminal s \<longrightarrow> n = 0 \<and> t = s)) \<and>
   (\<exists>u. lifecycle_step\<^sup>*\<^sup>* s u \<and> is_terminal u)"
proof (intro conjI impI lifecycle_terminal_reachable)
  assume steps: "(lifecycle_step ^^ n) s t"
  from lifecycle_steps_rank [OF steps] lifecycle_rank_bound [of s] show "n \<le> 5" by linarith
  assume "is_terminal s"
  with steps show "t = s" by (metis lifecycle_terminal_stuck relpowp_imp_rtranclp)
  from \<open>is_terminal s\<close> have "lifecycle_rank s = 0" by (auto simp: is_terminal_cases)
  with lifecycle_steps_rank [OF steps] show "n = 0" by simp
qed

theorem lifecycle_bounded_witness:
  "(lifecycle_step ^^ 3) QUEUED SUCCEEDED \<and> (3::nat) \<le> 5"
proof -
  have "lifecycle_step QUEUED PROVISIONING" "lifecycle_step PROVISIONING RUNNING"
    "lifecycle_step RUNNING SUCCEEDED" by (simp_all add: lifecycle_step_iff)
  then have steps: "(lifecycle_step ^^ 3) QUEUED SUCCEEDED"
    by (auto simp: numeral_3_eq_3)
  with lifecycle_bounded [of 3 QUEUED SUCCEEDED] show ?thesis by blast
qed

section \<open>Credential-bearing keys\<close>

text \<open>
  \<open>_KEY_BOUNDARY.split\<close>: a boundary lies between a lower-case letter or digit and an upper-case
  letter, before the last capital of a run of capitals, and at every run of other characters.
\<close>

definition key_boundary :: "char option \<Rightarrow> char \<Rightarrow> string \<Rightarrow> bool" where
  "key_boundary prev c rest =
     (case prev of None \<Rightarrow> False
      | Some p \<Rightarrow>
          (is_lower_char p \<or> is_digit_char p) \<and> is_upper_char c
          \<or> is_upper_char p \<and> is_upper_char c \<and>
            (case rest of [] \<Rightarrow> False | n # _ \<Rightarrow> is_lower_char n))"

fun split_key :: "char option \<Rightarrow> string \<Rightarrow> string \<Rightarrow> string list" where
  "split_key prev cur [] = [rev cur]"
| "split_key prev cur (c # cs) =
     (if \<not> is_alnum_char c then rev cur # split_key (Some c) [] cs
      else if key_boundary prev c cs then rev cur # split_key (Some c) [c] cs
      else split_key (Some c) (c # cur) cs)"

definition key_components :: "string \<Rightarrow> string list" where
  "key_components key = map (map lower_char) (filter (\<lambda>part. part \<noteq> []) (split_key None [] key))"

definition reference_suffixes :: "string list" where
  "reference_suffixes = [''id'', ''ref'', ''reference'']"

definition sensitive_components :: "string list" where
  "sensitive_components = [''authorization'', ''credential'', ''password'', ''secret'']"

definition sensitive_suffixes :: "string list list" where
  "sensitive_suffixes =
     [[''access'', ''token''], [''api'', ''key''], [''bearer'', ''token''],
      [''client'', ''secret''], [''private'', ''key''], [''refresh'', ''token'']]"

definition is_sensitive_key :: "string \<Rightarrow> bool" where
  "is_sensitive_key key =
     (let components = key_components key in
      if components = [] then False
      else if last components \<in> set reference_suffixes then False
      else if list_ex (\<lambda>c. c \<in> set sensitive_components) components then True
      else if last components = ''token'' then True
      else let compact = concat components in
        list_ex (\<lambda>suffix. is_substring (concat suffix) compact) sensitive_suffixes)"

section \<open>Bounded normalisation\<close>

record inspect_limits =
  lim_nodes :: nat
  lim_depth :: nat
  lim_bytes :: nat
  lim_label :: string

definition run_spec_limits :: inspect_limits where
  "run_spec_limits = \<lparr>lim_nodes = 20000, lim_depth = 20, lim_bytes = 256 * 1024, lim_label = ''run spec''\<rparr>"

definition result_summary_limits :: inspect_limits where
  "result_summary_limits =
     \<lparr>lim_nodes = 5000, lim_depth = 10, lim_bytes = 64 * 1024, lim_label = ''result summary''\<rparr>"

text \<open>The nested function \<open>inspect(value, depth)\<close> with its \<open>nonlocal nodes\<close> counter as state.\<close>

fun inspect :: "inspect_limits \<Rightarrow> json \<Rightarrow> nat \<Rightarrow> nat \<Rightarrow> exn + nat"
and inspect_list :: "inspect_limits \<Rightarrow> json list \<Rightarrow> nat \<Rightarrow> nat \<Rightarrow> exn + nat"
and inspect_items :: "inspect_limits \<Rightarrow> (string \<times> json) list \<Rightarrow> nat \<Rightarrow> nat \<Rightarrow> exn + nat" where
  "inspect l v depth nodes =
     (if lim_nodes l < Suc nodes \<or> lim_depth l < depth
      then Inl (ValueError (lim_label l @ '' exceeds structural limits''))
      else case v of
          JObj kvs \<Rightarrow> inspect_items l kvs (Suc depth) (Suc nodes)
        | JList xs \<Rightarrow> inspect_list l xs (Suc depth) (Suc nodes)
        | JOther \<Rightarrow> Inl (ValueError (lim_label l @ '' values must use JSON-compatible types''))
        | _ \<Rightarrow> Inr (Suc nodes))"
| "inspect_list l [] depth nodes = Inr nodes"
| "inspect_list l (x # xs) depth nodes =
     bindr (inspect l x depth nodes) (\<lambda>nodes. inspect_list l xs depth nodes)"
| "inspect_items l [] depth nodes = Inr nodes"
| "inspect_items l ((k, v) # kvs) depth nodes =
     bindr (ensure (\<not> is_sensitive_key k) (ValueError (lim_label l @ '' must not contain credentials''))) (\<lambda>_.
     bindr (inspect l v depth nodes) (\<lambda>nodes. inspect_items l kvs depth nodes))"

definition normalize_json :: "inspect_limits \<Rightarrow> json \<Rightarrow> exn + (json \<times> string)" where
  "normalize_json l v =
     bindr (inspect l v 0 0) (\<lambda>_.
     bindr (dumps v) (\<lambda>encoded.
     bindr (ensure (length encoded \<le> lim_bytes l)
       (ValueError (lim_label l @ '' exceeds the persisted size limit''))) (\<lambda>_.
     bindr (ensure (is_object v) (ValueError (lim_label l @ '' must be a JSON object''))) (\<lambda>_.
     Inr (canon v, encoded)))))"

definition normalize_run_spec :: "(string \<Rightarrow> string) \<Rightarrow> json \<Rightarrow> exn + (json \<times> string)" where
  "normalize_run_spec sha spec =
     bindr (normalize_json run_spec_limits spec) (\<lambda>(normalized, encoded). Inr (normalized, sha encoded))"

definition normalize_result_summary :: "json \<Rightarrow> exn + json" where
  "normalize_result_summary summary =
     bindr (normalize_json result_summary_limits summary) (\<lambda>(normalized, encoded). Inr normalized)"

definition canonical_spec_sha256 :: "(string \<Rightarrow> string) \<Rightarrow> json \<Rightarrow> exn + string" where
  "canonical_spec_sha256 sha spec = bindr (dumps spec) (\<lambda>encoded. Inr (sha encoded))"

section \<open>What the normaliser accepts\<close>

text \<open>
  The structural measure of a value and the two properties the walk enforces at every depth: no
  credential-bearing key, no value outside JSON. The walk succeeds exactly on the values that
  have both and stay within the node budget.
\<close>

fun nodes_of :: "json \<Rightarrow> nat" where
  "nodes_of (JObj kvs) = Suc (sum_list (map (\<lambda>(k, v). nodes_of v) kvs))"
| "nodes_of (JList xs) = Suc (sum_list (map nodes_of xs))"
| "nodes_of _ = 1"

fun clean_json :: "nat \<Rightarrow> nat \<Rightarrow> json \<Rightarrow> bool" where
  "clean_json dmax d (JObj kvs) =
     (d \<le> dmax \<and> list_all (\<lambda>(k, v). \<not> is_sensitive_key k \<and> clean_json dmax (Suc d) v) kvs)"
| "clean_json dmax d (JList xs) = (d \<le> dmax \<and> list_all (clean_json dmax (Suc d)) xs)"
| "clean_json dmax d JOther = False"
| "clean_json dmax d _ = (d \<le> dmax)"

declare inspect.simps [simp del]

lemma inspect_iff:
  "inspect l v d n = Inr m \<longleftrightarrow> clean_json (lim_depth l) d v \<and> m = n + nodes_of v \<and> m \<le> lim_nodes l"
  "inspect_list l xs d n = Inr m \<longleftrightarrow> list_all (clean_json (lim_depth l) d) xs
     \<and> m = n + sum_list (map nodes_of xs) \<and> (xs = [] \<or> m \<le> lim_nodes l)"
  "inspect_items l kvs d n = Inr m \<longleftrightarrow>
     list_all (\<lambda>(k, v). \<not> is_sensitive_key k \<and> clean_json (lim_depth l) d v) kvs
     \<and> m = n + sum_list (map (\<lambda>(k, v). nodes_of v) kvs) \<and> (kvs = [] \<or> m \<le> lim_nodes l)"
proof (induction l v d n and l xs d n and l kvs d n arbitrary: m and m and m
    rule: inspect_inspect_list_inspect_items.induct)
  case (1 l v d n)
  then show ?case
    by (cases v) (auto simp: inspect.simps [of l v d n] inspect.simps)
next
  case (3 l x xs d n)
  then show ?case by (cases "xs = []") auto
next
  case (5 l k v kvs d n)
  then show ?case by (cases "kvs = []") auto
qed auto

lemma nodes_of_canon [simp]: "nodes_of (canon v) = nodes_of v"
proof (induction v rule: canon.induct)
  case (1 xs)
  then show ?case by (auto intro!: arg_cong [where f = sum_list])
next
  case (2 kvs)
  then show ?case
    by (auto simp: sum_list_sort_key comp_def case_prod_beta intro!: arg_cong [where f = sum_list])
qed auto

lemma clean_json_canon [simp]: "clean_json dm d (canon v) = clean_json dm d v"
proof (induction v arbitrary: d rule: canon.induct)
  case (1 xs)
  then show ?case by (auto simp: list_all_iff)
next
  case (2 kvs)
  then show ?case by (force simp: list_all_iff)
qed auto

lemma clean_json_no_other: "clean_json dm d v \<Longrightarrow> \<not> has_other v"
proof (induction v arbitrary: d)
  case (JList xs)
  then show ?case by (auto simp: list_all_iff list_ex_iff)
next
  case (JObj kvs)
  then show ?case by (fastforce simp: list_all_iff list_ex_iff)
qed auto

lemma normalize_json_iff:
  "normalize_json l v = Inr (n, s) \<longleftrightarrow>
     clean_json (lim_depth l) 0 v \<and> nodes_of v \<le> lim_nodes l \<and> \<not> has_non_finite v \<and> is_object v
     \<and> length (encode (canon v)) \<le> lim_bytes l \<and> n = canon v \<and> s = encode (canon v)"
  by (auto simp: normalize_json_def inspect_iff dest: clean_json_no_other)

lemma normalize_run_spec_iff:
  "normalize_run_spec sha v = Inr (n, h) \<longleftrightarrow>
     clean_json 20 0 v \<and> nodes_of v \<le> 20000 \<and> \<not> has_non_finite v \<and> is_object v
     \<and> length (encode (canon v)) \<le> 262144 \<and> n = canon v \<and> h = sha (encode (canon v))"
  by (auto simp: normalize_run_spec_def normalize_json_iff run_spec_limits_def)

text \<open>
  C19. A run specification is accepted exactly when it is a JSON object without a credential-bearing
  key at any depth, without a non-finite number, at most 20 levels deep, of at most 20000 nodes and
  at most 256 KiB of canonical JSON; what is stored is the key-ordered value and the digest of its
  canonical encoding.
\<close>

theorem normalize_run_spec_exact:
  "normalize_run_spec sha v = Inr (n, h) \<longleftrightarrow>
     clean_json 20 0 v \<and> nodes_of v \<le> 20000 \<and> \<not> has_non_finite v \<and> is_object v
     \<and> length (encode (canon v)) \<le> 262144 \<and> n = canon v \<and> h = sha (encode (canon v))"
  by (rule normalize_run_spec_iff)

text \<open>A stored specification normalises to itself, with the digest it was stored with.\<close>

lemma normalize_run_spec_stable:
  "normalize_run_spec sha v = Inr (n, h) \<Longrightarrow> normalize_run_spec sha n = Inr (n, h)"
  by (auto simp: normalize_run_spec_def normalize_json_iff)

lemma normalize_result_summary_stable:
  "normalize_result_summary v = Inr n \<Longrightarrow> normalize_result_summary n = Inr n"
  by (auto simp: normalize_result_summary_def normalize_json_iff)

text \<open>
  C18. Two accepted specifications have the same digest exactly when they are the same up to the
  order of object keys, as long as the digest does not collide on their two encodings: the digest
  that guards idempotent replay tells different requests apart.
\<close>

theorem run_spec_digest_identifies:
  assumes "wf_json a" and "wf_json b"
    and "normalize_run_spec sha a = Inr (na, ha)" and "normalize_run_spec sha b = Inr (nb, hb)"
    and "\<And>x y. x \<in> {encode na, encode nb} \<Longrightarrow> y \<in> {encode na, encode nb} \<Longrightarrow> sha x = sha y \<Longrightarrow> x = y"
  shows "ha = hb \<longleftrightarrow> canon a = canon b"
proof -
  from assms(3,4) have n: "na = canon a" "nb = canon b" "ha = sha (encode na)" "hb = sha (encode nb)"
    by (simp_all add: normalize_run_spec_iff)
  with assms(5) [of "encode na" "encode nb"] have "ha = hb \<longleftrightarrow> encode (canon a) = encode (canon b)" by auto
  also have "\<dots> \<longleftrightarrow> canon a = canon b"
    using assms(1,2) encode_inject [of "canon a" "canon b"] by auto
  finally show ?thesis .
qed

theorem run_spec_digest_identifies_witness:
  "encode (canon (JObj [(''b'', JInt 1), (''a'', JNull)])) = encode (canon (JObj [(''a'', JNull), (''b'', JInt 1)]))
   \<longleftrightarrow> canon (JObj [(''b'', JInt 1), (''a'', JNull)]) = canon (JObj [(''a'', JNull), (''b'', JInt 1)])"
proof -
  let ?a = "JObj [(''b'', JInt 1), (''a'', JNull)]"
  let ?b = "JObj [(''a'', JNull), (''b'', JInt 1)]"
  have "clean_json 20 0 ?a" "clean_json 20 0 ?b" by code_simp+
  moreover have "length (encode (canon ?a)) = 16" "length (encode (canon ?b)) = 16" by code_simp+
  ultimately have "normalize_run_spec id ?a = Inr (canon ?a, encode (canon ?a))"
    and "normalize_run_spec id ?b = Inr (canon ?b, encode (canon ?b))"
    by (simp_all add: normalize_run_spec_iff del: canon.simps encode.simps)
  then show ?thesis
    by (rule run_spec_digest_identifies [of ?a ?b id, rotated 2]) simp_all
qed

end
