(* ===== verification/Values.thy ===== *)
theory Values imports Errors begin

text \<open>
  The scalar values of the rows: a UUID is the 128-bit integer Python's \<open>UUID.int\<close> holds, with
  its two renderings \<open>UUID.hex\<close> and \<open>str(UUID)\<close>; an aware UTC \<open>datetime\<close> is the number of
  microseconds since 1970; a \<open>float\<close> of seconds is a rational. The ISO renderings of a
  timestamp are those of \<open>datetime.isoformat\<close>.
\<close>

type_synonym uuid = "128 word"
type_synonym time = int

fun hex_fixed :: "nat \<Rightarrow> nat \<Rightarrow> string" where
  "hex_fixed 0 n = []"
| "hex_fixed (Suc k) n = hex_fixed k (n div 16) @ [hex_digit (n mod 16)]"

fun dec_fixed :: "nat \<Rightarrow> nat \<Rightarrow> string" where
  "dec_fixed 0 n = []"
| "dec_fixed (Suc k) n = dec_fixed k (n div 10) @ [char_of (48 + n mod 10)]"

definition uuid_hex :: "uuid \<Rightarrow> string" where
  "uuid_hex u = hex_fixed 32 (unat u)"

definition uuid_str :: "uuid \<Rightarrow> string" where
  "uuid_str u = (let h = uuid_hex u in
     take 8 h @ ''-'' @ take 4 (drop 8 h) @ ''-'' @ take 4 (drop 12 h) @ ''-''
       @ take 4 (drop 16 h) @ ''-'' @ drop 20 h)"

text \<open>
  Code equations for the evaluation of concrete rows: small values need no power of two and leading
  zero digits no division.
\<close>

lemma take_bit_small [code]:
  "take_bit n (k::int) = (if 64 \<le> n \<and> 0 \<le> k \<and> k < 18446744073709551616 then k else k mod 2 ^ n)"
proof (cases "64 \<le> n \<and> 0 \<le> k \<and> k < 18446744073709551616")
  case True
  moreover from True have "(2::int) ^ 64 \<le> 2 ^ n" by (intro power_increasing) auto
  ultimately have "k < 2 ^ n" by (simp add: order_less_le_trans)
  with True show ?thesis by (simp add: take_bit_int_eq_self)
next
  case False
  then show ?thesis by (auto simp: take_bit_eq_mod)
qed

lemma hex_fixed_code [code]:
  "hex_fixed k n =
     (if n = 0 then replicate k CHR ''0''
      else if k = 0 then [] else hex_fixed (k - 1) (n div 16) @ [hex_digit (n mod 16)])"
proof -
  have "hex_digit 0 = CHR ''0''" by code_simp
  then have zero: "hex_fixed k 0 = replicate k CHR ''0''"
    by (induction k) (simp_all add: replicate_append_same)
  show ?thesis
  proof (cases "n = 0")
    case True
    with zero show ?thesis by (simp only: if_True simp_thms)
  next
    case False
    then show ?thesis by (cases k) simp_all
  qed
qed

lemma length_hex_fixed [simp]: "length (hex_fixed k n) = k"
  by (induction k arbitrary: n) auto

lemma hex_digit_inj: "a < 16 \<Longrightarrow> b < 16 \<Longrightarrow> hex_digit a = hex_digit b \<Longrightarrow> a = b"
  by (auto simp: hex_digit_def split: if_splits)

lemma hex_digit_is_hex: "a < 16 \<Longrightarrow> is_hex_char (hex_digit a)"
  by (auto simp: hex_digit_def is_hex_char_def is_digit_char_def)

lemma hex_fixed_inj: "hex_fixed k n = hex_fixed k m \<Longrightarrow> n < 16 ^ k \<Longrightarrow> m < 16 ^ k \<Longrightarrow> n = m"
proof (induction k arbitrary: n m)
  case 0
  then show ?case by simp
next
  case (Suc k)
  from Suc.prems(1) have h: "hex_fixed k (n div 16) = hex_fixed k (m div 16)"
    and d: "hex_digit (n mod 16) = hex_digit (m mod 16)" by auto
  from Suc.prems(2,3) have "n div 16 < 16 ^ k" and "m div 16 < 16 ^ k"
    by (simp_all add: less_mult_imp_div_less mult.commute)
  with Suc.IH h have "n div 16 = m div 16" by blast
  moreover from d have "n mod 16 = m mod 16" by (rule hex_digit_inj [rotated 2]) simp_all
  ultimately show ?case by (metis div_mult_mod_eq)
qed

lemma hex_fixed_all_hex: "list_all is_hex_char (hex_fixed k n)"
  by (induction k arbitrary: n) (auto simp: hex_digit_is_hex)

lemma length_uuid_hex [simp]: "length (uuid_hex u) = 32"
  by (simp add: uuid_hex_def)

lemma uuid_hex_all_hex: "list_all is_hex_char (uuid_hex u)"
  by (simp add: uuid_hex_def hex_fixed_all_hex)

lemma unat_uuid_bound: "unat (u :: uuid) < 16 ^ 32"
proof -
  have "unat u < 2 ^ LENGTH(128)" by (rule unsigned_less)
  then show ?thesis by simp
qed

lemma uuid_hex_inject [simp]: "uuid_hex u = uuid_hex v \<longleftrightarrow> u = v"
proof
  assume "uuid_hex u = uuid_hex v"
  then have "hex_fixed 32 (unat u) = hex_fixed 32 (unat v)" by (simp add: uuid_hex_def)
  then have "unat u = unat v"
    by (rule hex_fixed_inj) (rule unat_uuid_bound)+
  then show "u = v" by (rule unsigned_word_eqI)
qed simp

lemma uuid_str_inject [simp]: "uuid_str u = uuid_str v \<longleftrightarrow> u = v"
proof
  assume eq: "uuid_str u = uuid_str v"
  define a where "a = uuid_hex u"
  define b where "b = uuid_hex v"
  have la: "length a = 32" and lb: "length b = 32" by (simp_all add: a_def b_def)
  from eq have "take 8 a @ CHR ''-'' # take 4 (drop 8 a) @ CHR ''-'' # take 4 (drop 12 a) @ CHR ''-'' #
      take 4 (drop 16 a) @ CHR ''-'' # drop 20 a = take 8 b @ CHR ''-'' # take 4 (drop 8 b) @ CHR ''-'' #
      take 4 (drop 12 b) @ CHR ''-'' # take 4 (drop 16 b) @ CHR ''-'' # drop 20 b"
    by (simp add: uuid_str_def a_def b_def Let_def)
  then have "take 8 a = take 8 b" and "take 4 (drop 8 a) = take 4 (drop 8 b)"
    and "take 4 (drop 12 a) = take 4 (drop 12 b)" and "take 4 (drop 16 a) = take 4 (drop 16 b)"
    and "drop 20 a = drop 20 b"
    using la lb by (simp_all add: append_eq_append_conv)
  then have "take 8 a @ take 4 (drop 8 a) @ take 4 (drop 12 a) @ take 4 (drop 16 a) @ drop 20 a =
      take 8 b @ take 4 (drop 8 b) @ take 4 (drop 12 b) @ take 4 (drop 16 b) @ drop 20 b" by simp
  moreover have split: "take 8 c @ take 4 (drop 8 c) @ take 4 (drop 12 c) @ take 4 (drop 16 c) @ drop 20 c = c"
    for c :: string
  proof -
    have "take 4 (drop 16 c) @ drop 20 c = drop 16 c" using append_take_drop_id [of 4 "drop 16 c"] by simp
    moreover have "take 4 (drop 12 c) @ drop 16 c = drop 12 c" using append_take_drop_id [of 4 "drop 12 c"] by simp
    moreover have "take 4 (drop 8 c) @ drop 12 c = drop 8 c" using append_take_drop_id [of 4 "drop 8 c"] by simp
    ultimately show ?thesis by simp
  qed
  ultimately have "a = b" by (simp only: split)
  then show "u = v" by (simp add: a_def b_def)
qed simp

section \<open>Timestamps\<close>

definition microsecond :: int where "microsecond = 1"
definition second :: int where "second = 1000000"
definition day :: int where "day = 86400 * second"

text \<open>The proleptic Gregorian date of a day number counted from 1970-01-01.\<close>

definition civil_from_days :: "int \<Rightarrow> int \<times> int \<times> int" where
  "civil_from_days n =
     (let z = n + 719468;
          era = z div 146097;
          doe = z mod 146097;
          yoe = (doe - doe div 1460 + doe div 36524 - doe div 146096) div 365;
          doy = doe - (365 * yoe + yoe div 4 - yoe div 100);
          mp = (5 * doy + 2) div 153;
          d = doy - (153 * mp + 2) div 5 + 1;
          m = (if mp < 10 then mp + 3 else mp - 9);
          y = yoe + era * 400 + (if m \<le> 2 then 1 else 0)
      in (y, m, d))"

definition isoformat_seconds :: "time \<Rightarrow> string" where
  "isoformat_seconds t =
     (let (y, m, d) = civil_from_days (t div day);
          s = (t mod day) div second
      in dec_fixed 4 (nat y) @ ''-'' @ dec_fixed 2 (nat m) @ ''-'' @ dec_fixed 2 (nat d) @ ''T''
           @ dec_fixed 2 (nat (s div 3600)) @ '':'' @ dec_fixed 2 (nat (s div 60 mod 60)) @ '':''
           @ dec_fixed 2 (nat (s mod 60)))"

definition isoformat_microseconds :: "time \<Rightarrow> string" where
  "isoformat_microseconds t =
     isoformat_seconds t @ ''.'' @ dec_fixed 6 (nat (t mod second)) @ ''+00:00''"

definition isoformat :: "time \<Rightarrow> string" where
  "isoformat t = (if t mod second = 0 then isoformat_seconds t @ ''+00:00''
     else isoformat_microseconds t)"

end
