(* ===== verification/PlatformDomain.thy ===== *)
theory PlatformDomain imports Complex_Main JobsDomain Values begin

text \<open>
  src/corpuskit/domain/platform.py: quota classes, the quota policy and its enforcement on a run
  specification, the allow-list of audit metadata and the hash of an audit event. The request
  classes the policy reads (\<open>RepositoryGenerationRequest\<close> and its siblings) are parsed by
  pydantic: a \<open>parsers\<close> record holds one \<open>model_validate\<close> per class, which returns \<open>None\<close> for
  a \<open>ValidationError\<close> and otherwise the fields the program reads.
\<close>

section \<open>Enumerations\<close>

datatype quota_class = CPU | EXPENSIVE

datatype reservation_state = RES_ACTIVE | RES_RELEASED | RES_EXPIRED

datatype actor_kind = USER_ACTOR | SERVICE_ACTOR

datatype audit_action =
    PROJECT_CREATED | PROJECT_DELETION_REQUESTED | PROJECT_PURGED | CORPUS_CREATED
  | CORPUS_VERSION_CREATED | RUN_SUBMITTED | RUN_CANCELLATION_REQUESTED | RUN_RETRY_SUBMITTED
  | RUN_SUCCEEDED | RUN_FAILED | RUN_CANCELLED | ARTIFACT_CREATED | ARTIFACT_TOMBSTONED
  | ARTIFACT_PURGED | ARTIFACT_ADOPTED | RUN_MANIFEST_CREATED | RUN_REPLAY_SUBMITTED
  | RUN_REPLAY_COMPARED | QUOTA_POLICY_CHANGED | QUOTA_RESERVATION_EXPIRED

datatype resource_type =
    PROJECT_RESOURCE | CORPUS_RESOURCE | RUN_RESOURCE | ARTIFACT_RESOURCE | QUOTA_POLICY_RESOURCE
  | QUOTA_RESERVATION_RESOURCE | REPLAY_RESOURCE

fun run_quota_class_value :: "quota_class \<Rightarrow> string" where
  "run_quota_class_value CPU = ''cpu''"
| "run_quota_class_value EXPENSIVE = ''expensive''"

fun actor_kind_value :: "actor_kind \<Rightarrow> string" where
  "actor_kind_value USER_ACTOR = ''user''"
| "actor_kind_value SERVICE_ACTOR = ''service''"

fun audit_action_value :: "audit_action \<Rightarrow> string" where
  "audit_action_value PROJECT_CREATED = ''project.created''"
| "audit_action_value PROJECT_DELETION_REQUESTED = ''project.deletion_requested''"
| "audit_action_value PROJECT_PURGED = ''project.purged''"
| "audit_action_value CORPUS_CREATED = ''corpus.created''"
| "audit_action_value CORPUS_VERSION_CREATED = ''corpus.version_created''"
| "audit_action_value RUN_SUBMITTED = ''run.submitted''"
| "audit_action_value RUN_CANCELLATION_REQUESTED = ''run.cancellation_requested''"
| "audit_action_value RUN_RETRY_SUBMITTED = ''run.retry_submitted''"
| "audit_action_value RUN_SUCCEEDED = ''run.succeeded''"
| "audit_action_value RUN_FAILED = ''run.failed''"
| "audit_action_value RUN_CANCELLED = ''run.cancelled''"
| "audit_action_value ARTIFACT_CREATED = ''artifact.created''"
| "audit_action_value ARTIFACT_TOMBSTONED = ''artifact.tombstoned''"
| "audit_action_value ARTIFACT_PURGED = ''artifact.purged''"
| "audit_action_value ARTIFACT_ADOPTED = ''artifact.adopted''"
| "audit_action_value RUN_MANIFEST_CREATED = ''run.manifest_created''"
| "audit_action_value RUN_REPLAY_SUBMITTED = ''run.replay_submitted''"
| "audit_action_value RUN_REPLAY_COMPARED = ''run.replay_compared''"
| "audit_action_value QUOTA_POLICY_CHANGED = ''quota.policy_changed''"
| "audit_action_value QUOTA_RESERVATION_EXPIRED = ''quota.reservation_expired''"

fun resource_type_value :: "resource_type \<Rightarrow> string" where
  "resource_type_value PROJECT_RESOURCE = ''project''"
| "resource_type_value CORPUS_RESOURCE = ''corpus''"
| "resource_type_value RUN_RESOURCE = ''run''"
| "resource_type_value ARTIFACT_RESOURCE = ''artifact''"
| "resource_type_value QUOTA_POLICY_RESOURCE = ''quota-policy''"
| "resource_type_value QUOTA_RESERVATION_RESOURCE = ''quota-reservation''"
| "resource_type_value REPLAY_RESOURCE = ''replay''"

lemma audit_action_value_inject [simp]: "audit_action_value a = audit_action_value b \<longleftrightarrow> a = b"
  by (cases a; cases b; simp)

lemma resource_type_value_inject [simp]: "resource_type_value a = resource_type_value b \<longleftrightarrow> a = b"
  by (cases a; cases b; simp)

lemma actor_kind_value_inject [simp]: "actor_kind_value a = actor_kind_value b \<longleftrightarrow> a = b"
  by (cases a; cases b; simp)

section \<open>Quota policy\<close>

record quota_policy_values =
  max_concurrent_cpu_jobs :: int
  max_concurrent_expensive_jobs :: int
  max_artifact_bytes :: int
  max_artifact_count :: int
  max_corpus_sentences :: int
  max_generation_accepted_sentences :: int
  max_generation_iterations :: int
  max_activity_deadline_seconds :: rat
  max_provider_input_tokens :: int
  max_provider_output_tokens :: int
  max_provider_cost_microusd :: int
  max_rl_steps :: int
  max_rl_tokens :: int
  max_checkpoint_bytes :: int

definition default_policy :: quota_policy_values where
  "default_policy = \<lparr>
     max_concurrent_cpu_jobs = 3, max_concurrent_expensive_jobs = 1,
     max_artifact_bytes = 10 * 1024 * 1024 * 1024, max_artifact_count = 10000,
     max_corpus_sentences = 1000000, max_generation_accepted_sentences = 100,
     max_generation_iterations = 500, max_activity_deadline_seconds = 300,
     max_provider_input_tokens = 1000000, max_provider_output_tokens = 100000,
     max_provider_cost_microusd = 10000000, max_rl_steps = 10000, max_rl_tokens = 10000000,
     max_checkpoint_bytes = 100 * 1024 * 1024\<rparr>"

text \<open>The field bounds of \<open>QuotaPolicyValues\<close>; a deadline that is not finite is no rational.\<close>

definition valid_policy :: "quota_policy_values \<Rightarrow> bool" where
  "valid_policy p \<longleftrightarrow>
     1 \<le> max_concurrent_cpu_jobs p \<and> max_concurrent_cpu_jobs p \<le> 1000
     \<and> 1 \<le> max_concurrent_expensive_jobs p \<and> max_concurrent_expensive_jobs p \<le> 1000
     \<and> 1 \<le> max_artifact_bytes p \<and> 1 \<le> max_artifact_count p \<and> 1 \<le> max_corpus_sentences p
     \<and> 1 \<le> max_generation_accepted_sentences p \<and> 1 \<le> max_generation_iterations p
     \<and> 0 < max_activity_deadline_seconds p \<and> max_activity_deadline_seconds p \<le> 86400
     \<and> 1 \<le> max_provider_input_tokens p \<and> 1 \<le> max_provider_output_tokens p
     \<and> 1 \<le> max_provider_cost_microusd p \<and> 1 \<le> max_rl_steps p \<and> 1 \<le> max_rl_tokens p
     \<and> 1 \<le> max_checkpoint_bytes p"

lemma default_policy_valid: "valid_policy default_policy"
  by (simp add: valid_policy_def default_policy_def)

fun run_quota_class :: "run_kind \<Rightarrow> quota_class" where
  "run_quota_class PHONEMIZE = CPU"
| "run_quota_class EVALUATE = CPU"
| "run_quota_class DISTRIBUTION = CPU"
| "run_quota_class TRAJECTORY = CPU"
| "run_quota_class ERROR_RATES = CPU"
| "run_quota_class PERPLEXITY = EXPENSIVE"
| "run_quota_class SELECT = CPU"
| "run_quota_class GENERATE_REPOSITORY = CPU"
| "run_quota_class GENERATE_LLM = EXPENSIVE"
| "run_quota_class GENERATE_LOCAL = EXPENSIVE"
| "run_quota_class BUILD_DATG_INDEX = CPU"
| "run_quota_class GENERATE_DATG = EXPENSIVE"
| "run_quota_class TRAIN_PHON_RL = EXPENSIVE"
| "run_quota_class EXPORT = CPU"

section \<open>Parsed run requests\<close>

record stopping_view =
  sv_max_sentences :: "int option"
  sv_max_iterations :: "int option"

record repository_request =
  rq_stopping :: stopping_view
  rq_timeout :: rat

text \<open>A \<open>Decimal\<close> cost is \<open>None\<close> when it is NaN or infinite.\<close>

record hosted_request =
  hq_stopping :: stopping_view
  hq_timeout :: rat
  hq_max_input_tokens :: int
  hq_max_output_tokens :: int
  hq_max_cost_usd :: "rat option"

record local_request =
  lq_stopping :: stopping_view
  lq_timeout :: rat
  lq_max_new_tokens :: int
  lq_candidates_per_iteration :: int
  lq_phon_rl_adapter :: "(uuid \<times> string) option"

record analysis_request =
  aq_timeout :: rat
  aq_texts :: nat
  aq_max_length :: int

record datg_index_request =
  iq_timeout :: rat

record datg_generation_request =
  gq_timeout :: rat
  gq_candidates :: int
  gq_max_new_tokens :: int
  gq_index_cache_key_sha256 :: string
  gq_runtime_id :: string
  gq_language :: string
  gq_unit :: string

record phon_rl_request =
  tq_timeout :: rat
  tq_num_steps :: int
  tq_batch_size :: int
  tq_max_new_tokens :: int
  tq_static_prompt_source :: "(uuid \<times> string) option"

record phonemize_spec =
  ps_text :: "string option"
  ps_texts :: "string list"
  ps_language :: string

record evaluate_spec =
  es_sentences :: "string list"
  es_language :: string

record select_spec =
  ss_candidates :: "string list"
  ss_language :: string

record parsers =
  parse_repository :: "json \<Rightarrow> repository_request option"
  parse_hosted :: "json \<Rightarrow> hosted_request option"
  parse_local :: "json \<Rightarrow> local_request option"
  parse_analysis :: "json \<Rightarrow> analysis_request option"
  parse_datg_index :: "json \<Rightarrow> datg_index_request option"
  parse_datg_generation :: "json \<Rightarrow> datg_generation_request option"
  parse_phon_rl :: "json \<Rightarrow> phon_rl_request option"
  parse_phonemize :: "json \<Rightarrow> phonemize_spec option"
  parse_evaluate :: "json \<Rightarrow> evaluate_spec option"
  parse_select :: "json \<Rightarrow> select_spec option"

section \<open>Enforcement\<close>

definition microusd :: "rat option \<Rightarrow> exn + int" where
  "microusd v =
     (case v of
        None \<Rightarrow> Inl (ValueError ''provider cost is not finite and bounded'')
      | Some x \<Rightarrow>
          let scaled = x * 1000000 in
          if scaled \<noteq> of_int \<lfloor>scaled\<rfloor> then Inl (ValueError ''provider cost is not finite and bounded'')
          else Inr \<lfloor>scaled\<rfloor>)"

definition fits :: "int option \<Rightarrow> int \<Rightarrow> bool" where
  "fits v limit = (case v of None \<Rightarrow> True | Some x \<Rightarrow> x \<le> limit)"

text \<open>
  The branch of \<open>validate_run_resource_policy\<close> for one kind: the checks specific to it, and the
  accepted sentences, iterations and deadline the common checks look at.
\<close>

definition kind_demand ::
    "parsers \<Rightarrow> run_kind \<Rightarrow> json \<Rightarrow> quota_policy_values \<Rightarrow> exn + (int option \<times> int option \<times> rat option)" where
  "kind_demand ps kind spec policy =
     (case kind of
        GENERATE_REPOSITORY \<Rightarrow>
          bindr (require ValidationError (parse_repository ps spec)) (\<lambda>r.
          Inr (sv_max_sentences (rq_stopping r), sv_max_iterations (rq_stopping r), Some (rq_timeout r)))
      | GENERATE_LLM \<Rightarrow>
          bindr (require ValidationError (parse_hosted ps spec)) (\<lambda>h.
          bindr (ensure (hq_max_input_tokens h \<le> max_provider_input_tokens policy)
            (ValueError ''provider input token quota exceeded'')) (\<lambda>_.
          bindr (ensure (hq_max_output_tokens h \<le> max_provider_output_tokens policy)
            (ValueError ''provider output token quota exceeded'')) (\<lambda>_.
          bindr (microusd (hq_max_cost_usd h)) (\<lambda>cost.
          bindr (ensure (cost \<le> max_provider_cost_microusd policy)
            (ValueError ''provider cost quota exceeded'')) (\<lambda>_.
          Inr (sv_max_sentences (hq_stopping h), sv_max_iterations (hq_stopping h), Some (hq_timeout h)))))))
      | GENERATE_LOCAL \<Rightarrow>
          bindr (require ValidationError (parse_local ps spec)) (\<lambda>l.
          bindr (ensure (lq_max_new_tokens l * lq_candidates_per_iteration l \<le> max_provider_output_tokens policy)
            (ValueError ''local generation token quota exceeded'')) (\<lambda>_.
          Inr (sv_max_sentences (lq_stopping l), sv_max_iterations (lq_stopping l), Some (lq_timeout l))))
      | PERPLEXITY \<Rightarrow>
          bindr (require ValidationError (parse_analysis ps spec)) (\<lambda>a.
          bindr (ensure (int (aq_texts a) * aq_max_length a \<le> max_provider_input_tokens policy)
            (ValueError ''analysis token quota exceeded'')) (\<lambda>_.
          Inr (None, None, Some (aq_timeout a))))
      | BUILD_DATG_INDEX \<Rightarrow>
          bindr (require ValidationError (parse_datg_index ps spec)) (\<lambda>i.
          Inr (None, None, Some (iq_timeout i)))
      | GENERATE_DATG \<Rightarrow>
          bindr (require ValidationError (parse_datg_generation ps spec)) (\<lambda>g.
          bindr (ensure (gq_candidates g * gq_max_new_tokens g \<le> max_provider_output_tokens policy)
            (ValueError ''DATG token quota exceeded'')) (\<lambda>_.
          Inr (Some (gq_candidates g), None, Some (gq_timeout g))))
      | TRAIN_PHON_RL \<Rightarrow>
          bindr (require ValidationError (parse_phon_rl ps spec)) (\<lambda>t.
          bindr (ensure (tq_num_steps t \<le> max_rl_steps policy)
            (ValueError ''RL step quota exceeded'')) (\<lambda>_.
          bindr (ensure (tq_num_steps t * tq_batch_size t * tq_max_new_tokens t \<le> max_rl_tokens policy)
            (ValueError ''RL token quota exceeded'')) (\<lambda>_.
          Inr (None, None, Some (tq_timeout t)))))
      | _ \<Rightarrow> Inr (None, None, None))"

definition validate_run_resource_policy ::
    "parsers \<Rightarrow> run_kind \<Rightarrow> json \<Rightarrow> quota_policy_values \<Rightarrow> exn + rat option" where
  "validate_run_resource_policy ps kind spec policy =
     bindr (kind_demand ps kind spec policy) (\<lambda>(accepted, iterations, deadline).
     bindr (ensure (fits accepted (max_generation_accepted_sentences policy))
       (ValueError ''generation accepted-sentence quota exceeded'')) (\<lambda>_.
     bindr (ensure (fits iterations (max_generation_iterations policy))
       (ValueError ''generation iteration quota exceeded'')) (\<lambda>_.
     bindr (ensure (case deadline of None \<Rightarrow> True | Some d \<Rightarrow> d \<le> max_activity_deadline_seconds policy)
       (ValueError ''activity deadline quota exceeded'')) (\<lambda>_.
     Inr deadline))))"

lemma kind_demand_errors:
  "kind_demand ps kind spec policy = Inl e \<Longrightarrow> is_value_error e"
  by (cases kind) (auto simp: kind_demand_def bindr_eq_Inl microusd_def Let_def
      split: option.splits if_splits)

lemma validate_run_resource_policy_errors:
  "validate_run_resource_policy ps kind spec policy = Inl e \<Longrightarrow> is_value_error e"
  by (auto simp: validate_run_resource_policy_def bindr_eq_Inl dest: kind_demand_errors)

section \<open>Audit identifiers and metadata\<close>

definition is_correlation_char :: "char \<Rightarrow> bool" where
  "is_correlation_char c \<longleftrightarrow> is_alnum_char c \<or> c \<in> set ''._:-''"

definition safe_correlation_id :: "string option \<Rightarrow> exn + string option" where
  "safe_correlation_id v =
     (case v of None \<Rightarrow> Inr None
      | Some s \<Rightarrow>
          if s \<noteq> [] \<and> is_alnum_char (hd s) \<and> length s \<le> 128 \<and> list_all is_correlation_char (tl s)
          then Inr (Some s) else Inl (ValueError ''correlation ID is not safe''))"

definition is_actor_char :: "char \<Rightarrow> bool" where
  "is_actor_char c \<longleftrightarrow> is_alnum_char c \<or> c \<in> set ''@._:/+-''"

definition safe_audit_actor :: "string \<Rightarrow> exn + string" where
  "safe_audit_actor s =
     (if s \<noteq> [] \<and> is_alnum_char (hd s) \<and> length s \<le> 255 \<and> list_all is_actor_char (tl s)
      then Inr s else Inl (ValueError ''audit actor identifier is not safe''))"

fun audit_metadata_keys :: "audit_action \<Rightarrow> string list" where
  "audit_metadata_keys PROJECT_CREATED = []"
| "audit_metadata_keys PROJECT_DELETION_REQUESTED = [''artifact_count'', ''corpus_sentences'', ''retention_until'']"
| "audit_metadata_keys PROJECT_PURGED = [''artifact_count'', ''corpus_sentences'']"
| "audit_metadata_keys CORPUS_CREATED = [''content_sha256'', ''language'', ''sentence_count'']"
| "audit_metadata_keys CORPUS_VERSION_CREATED =
     [''content_sha256'', ''language'', ''parent_version_id'', ''sentence_count'', ''version_number'']"
| "audit_metadata_keys RUN_SUBMITTED = [''attempt'', ''kind'', ''quota_class'']"
| "audit_metadata_keys RUN_CANCELLATION_REQUESTED = [''prior_state'']"
| "audit_metadata_keys RUN_RETRY_SUBMITTED = [''attempt'', ''kind'', ''quota_class'', ''source_run_id'']"
| "audit_metadata_keys RUN_SUCCEEDED = [''kind'']"
| "audit_metadata_keys RUN_FAILED = [''failure_code'', ''kind'']"
| "audit_metadata_keys RUN_CANCELLED = [''kind'']"
| "audit_metadata_keys ARTIFACT_CREATED = [''kind'', ''sha256'', ''size_bytes'']"
| "audit_metadata_keys ARTIFACT_TOMBSTONED = [''kind'', ''size_bytes'']"
| "audit_metadata_keys ARTIFACT_PURGED = [''kind'', ''size_bytes'']"
| "audit_metadata_keys ARTIFACT_ADOPTED = [''kind'', ''schema_id'', ''sha256'', ''size_bytes'']"
| "audit_metadata_keys RUN_MANIFEST_CREATED = [''sha256'', ''size_bytes'']"
| "audit_metadata_keys RUN_REPLAY_SUBMITTED = [''classification'', ''kind'', ''source_manifest_id'', ''source_run_id'']"
| "audit_metadata_keys RUN_REPLAY_COMPARED = [''classification'', ''outputs_match'', ''verdict'']"
| "audit_metadata_keys QUOTA_POLICY_CHANGED = [''changed_fields'']"
| "audit_metadata_keys QUOTA_RESERVATION_EXPIRED = [''kind'', ''quota_class'']"

type_synonym metadata = "(string \<times> json) list"

definition normalize_audit_metadata :: "audit_action \<Rightarrow> metadata \<Rightarrow> exn + metadata" where
  "normalize_audit_metadata action metadata =
     bindr (ensure (list_all (\<lambda>(k, v). k \<in> set (audit_metadata_keys action)) metadata)
       (ValueError ''audit metadata contains fields outside the action allowlist'')) (\<lambda>_.
     bindr (dumps (JObj metadata)) (\<lambda>encoded.
     bindr (ensure (length encoded \<le> 2048) (ValueError ''audit metadata exceeds its size limit'')) (\<lambda>_.
     case canon (JObj metadata) of
       JObj normalized \<Rightarrow> Inr normalized
     | _ \<Rightarrow> Inl (ValueError ''audit metadata must be an object''))))"

definition audit_genesis_hash :: string where
  "audit_genesis_hash = replicate 64 CHR ''0''"

definition canonical_timestamp :: "time \<Rightarrow> string" where
  "canonical_timestamp t = isoformat_microseconds t"

record audit_payload =
  ap_organization :: uuid
  ap_sequence :: nat
  ap_actor_kind :: actor_kind
  ap_actor_id :: string
  ap_action :: audit_action
  ap_resource_type :: resource_type
  ap_resource_id :: uuid
  ap_request_id :: "string option"
  ap_occurred_at :: time
  ap_metadata :: metadata
  ap_previous_hash :: string

definition json_option :: "string option \<Rightarrow> json" where
  "json_option v = (case v of None \<Rightarrow> JNull | Some s \<Rightarrow> JStr s)"

definition audit_event_document :: "audit_payload \<Rightarrow> exn + json" where
  "audit_event_document p =
     bindr (safe_audit_actor (ap_actor_id p)) (\<lambda>actor_id.
     bindr (normalize_audit_metadata (ap_action p) (ap_metadata p)) (\<lambda>metadata.
     bindr (safe_correlation_id (ap_request_id p)) (\<lambda>request_id.
     Inr (JObj
       [(''action'', JStr (audit_action_value (ap_action p))),
        (''actor_id'', JStr actor_id),
        (''actor_kind'', JStr (actor_kind_value (ap_actor_kind p))),
        (''metadata'', JObj metadata),
        (''occurred_at'', JStr (canonical_timestamp (ap_occurred_at p))),
        (''organization_id'', JStr (uuid_str (ap_organization p))),
        (''previous_hash'', JStr (ap_previous_hash p)),
        (''request_id'', json_option request_id),
        (''resource_id'', JStr (uuid_str (ap_resource_id p))),
        (''resource_type'', JStr (resource_type_value (ap_resource_type p))),
        (''sequence'', JInt (int (ap_sequence p)))]))))"

definition audit_event_hash :: "(string \<Rightarrow> string) \<Rightarrow> audit_payload \<Rightarrow> exn + string" where
  "audit_event_hash sha p =
     bindr (audit_event_document p) (\<lambda>payload.
     bindr (dumps payload) (\<lambda>encoded.
     Inr (sha encoded)))"

end
