(* ===== verification/Utf8.thy ===== *)
theory Utf8 imports Prelude begin

text \<open>
  The pieces of Python's \<open>str\<close> that look at code points rather than bytes: the characters of a
  UTF-8 text, \<open>len\<close>, the white space of \<open>str.split\<close> and \<open>str.strip\<close>, and \<open>urllib.parse.quote\<close>.
\<close>

definition is_continuation :: "char \<Rightarrow> bool" where
  "is_continuation c \<longleftrightarrow> 128 \<le> (of_char c :: nat) \<and> (of_char c :: nat) < 192"

text \<open>The byte sequences of the code points, in order.\<close>

function utf8_chars :: "string \<Rightarrow> string list" where
  "utf8_chars [] = []"
| "utf8_chars (c # cs) =
     (c # takeWhile is_continuation cs) # utf8_chars (dropWhile is_continuation cs)"
  by pat_completeness auto
termination by (relation "measure length") (auto simp: le_imp_less_Suc length_dropWhile_le)

declare utf8_chars.simps(2) [simp del]

definition str_len :: "string \<Rightarrow> nat" where
  "str_len s = length (utf8_chars s)"

definition code_bytes :: "string \<Rightarrow> nat list" where
  "code_bytes u = map of_char u"

text \<open>\<open>str.isspace\<close> on one code point.\<close>

definition is_space :: "string \<Rightarrow> bool" where
  "is_space u \<longleftrightarrow>
     (case code_bytes u of
        [a] \<Rightarrow> a = 32 \<or> (9 \<le> a \<and> a \<le> 13) \<or> (28 \<le> a \<and> a \<le> 31)
      | [a, b] \<Rightarrow> a = 194 \<and> (b = 133 \<or> b = 160)
      | [a, b, c] \<Rightarrow>
          (a = 225 \<and> b = 154 \<and> c = 128)
          \<or> (a = 226 \<and> b = 128 \<and> (128 \<le> c \<and> c \<le> 138 \<or> c = 168 \<or> c = 169 \<or> c = 175))
          \<or> (a = 226 \<and> b = 129 \<and> c = 159)
          \<or> (a = 227 \<and> b = 128 \<and> c = 128)
      | _ \<Rightarrow> False)"

definition strip_where :: "('a \<Rightarrow> bool) \<Rightarrow> 'a list \<Rightarrow> 'a list" where
  "strip_where P s = rev (dropWhile P (rev (dropWhile P s)))"

definition str_strip :: "string \<Rightarrow> string" where
  "str_strip s = concat (strip_where is_space (utf8_chars s))"

text \<open>\<open>str.split()\<close>: the maximal runs of code points that are not white space.\<close>

fun split_words :: "string list \<Rightarrow> string list \<Rightarrow> string list" where
  "split_words cur [] = (if cur = [] then [] else [concat (rev cur)])"
| "split_words cur (u # us) =
     (if is_space u then (if cur = [] then split_words [] us else concat (rev cur) # split_words [] us)
      else split_words (u # cur) us)"

definition str_split :: "string \<Rightarrow> string list" where
  "str_split s = split_words [] (utf8_chars s)"

lemma concat_utf8_chars [simp]: "concat (utf8_chars s) = s"
  by (induction s rule: utf8_chars.induct) (simp_all add: utf8_chars.simps(2))

lemma str_len_le_length: "str_len s \<le> length s"
proof (induction s rule: utf8_chars.induct)
  case (2 c cs)
  have "length (dropWhile is_continuation cs) \<le> length cs" by (rule length_dropWhile_le)
  with 2 show ?case by (simp add: str_len_def utf8_chars.simps(2))
qed (simp add: str_len_def)

lemma set_dropWhile_sub: "set (dropWhile P s) \<subseteq> set s"
  by (induction s) auto

lemma set_strip_where: "set (strip_where P s) \<subseteq> set s"
  using set_dropWhile_sub [of P "rev (dropWhile P s)"] set_dropWhile_sub [of P s]
  by (auto simp: strip_where_def)

lemma strip_where_hd: "strip_where P s \<noteq> [] \<Longrightarrow> \<not> P (hd (strip_where P s))"
proof -
  assume ne: "strip_where P s \<noteq> []"
  define t where "t = dropWhile P s"
  have "rev (dropWhile P (rev t)) \<noteq> []" using ne by (simp add: strip_where_def t_def)
  then obtain v where v: "t = rev (dropWhile P (rev t)) @ v"
    by (metis takeWhile_dropWhile_id rev_append rev_rev_ident)
  moreover have same: "rev (dropWhile P (rev t)) = strip_where P s" by (simp add: strip_where_def t_def)
  ultimately have "t = strip_where P s @ v" by simp
  with ne have "hd (strip_where P s) = hd t" and "t \<noteq> []" by auto
  then show ?thesis using hd_dropWhile [of P s] by (simp add: t_def)
qed

section \<open>Percent encoding\<close>

definition is_unreserved :: "char \<Rightarrow> bool" where
  "is_unreserved c \<longleftrightarrow> is_alnum_char c \<or> c = CHR ''_'' \<or> c = CHR ''.'' \<or> c = CHR ''-'' \<or> c = CHR ''~''"

definition upper_hex_digit :: "nat \<Rightarrow> char" where
  "upper_hex_digit n = (if n < 10 then char_of (48 + n) else char_of (55 + n))"

definition percent_quote :: "string \<Rightarrow> string" where
  "percent_quote s = concat (map (\<lambda>c. if is_unreserved c then [c]
     else [CHR ''%'', upper_hex_digit ((of_char c :: nat) div 16), upper_hex_digit ((of_char c :: nat) mod 16)]) s)"

lemma percent_quote_unreserved: "list_all is_unreserved s \<Longrightarrow> percent_quote s = s"
  by (induction s) (simp_all add: percent_quote_def)

end
