(* ===== verification/ArtifactDomain.thy ===== *)
theory ArtifactDomain imports JobsDomain Values Utf8 begin

text \<open>
  src/corpuskit/domain/artifacts.py: artifact kinds and states, replay verdicts, media types,
  download names and the content-addressed storage keys. Unicode compatibility decomposition
  (\<open>unicodedata.normalize("NFKD", _)\<close>) is the argument \<open>nfkd\<close>.
\<close>

datatype artifact_kind =
    RUN_MANIFEST | CORPUS_TEXT | EVALUATION_REPORT | EXPORT_FILE | CHECKPOINT | MODEL_ADAPTER
  | PROMPT_SET | RUN_RESULT

datatype artifact_state = ARTIFACT_ACTIVE | TOMBSTONED | DELETED

datatype determinism_class = EXACT | BEST_EFFORT | NONREPRODUCIBLE

datatype stop_reason =
    STOP_COMPLETED | STOP_TARGET_REACHED | STOP_BUDGET_EXHAUSTED | STOP_CANCELLED | STOP_FAILED

datatype replay_verdict =
    EXACT_MATCH | BEST_EFFORT_MATCH | BEST_EFFORT_DIVERGENCE | VERDICT_MISMATCH
  | VERDICT_NONREPRODUCIBLE

fun artifact_kind_value :: "artifact_kind \<Rightarrow> string" where
  "artifact_kind_value RUN_MANIFEST = ''run-manifest''"
| "artifact_kind_value CORPUS_TEXT = ''corpus-text''"
| "artifact_kind_value EVALUATION_REPORT = ''evaluation-report''"
| "artifact_kind_value EXPORT_FILE = ''export''"
| "artifact_kind_value CHECKPOINT = ''checkpoint''"
| "artifact_kind_value MODEL_ADAPTER = ''model-adapter''"
| "artifact_kind_value PROMPT_SET = ''prompt-set''"
| "artifact_kind_value RUN_RESULT = ''run-result''"

fun determinism_class_value :: "determinism_class \<Rightarrow> string" where
  "determinism_class_value EXACT = ''exact''"
| "determinism_class_value BEST_EFFORT = ''best-effort''"
| "determinism_class_value NONREPRODUCIBLE = ''nonreproducible''"

fun replay_verdict_value :: "replay_verdict \<Rightarrow> string" where
  "replay_verdict_value EXACT_MATCH = ''exact-match''"
| "replay_verdict_value BEST_EFFORT_MATCH = ''best-effort-match''"
| "replay_verdict_value BEST_EFFORT_DIVERGENCE = ''best-effort-divergence''"
| "replay_verdict_value VERDICT_MISMATCH = ''mismatch''"
| "replay_verdict_value VERDICT_NONREPRODUCIBLE = ''nonreproducible''"

lemma artifact_kind_value_inject [simp]: "artifact_kind_value a = artifact_kind_value b \<longleftrightarrow> a = b"
  by (cases a; cases b) simp_all

section \<open>Storage keys\<close>

definition artifact_scope :: "uuid option \<Rightarrow> string" where
  "artifact_scope run_id = (case run_id of Some r \<Rightarrow> uuid_hex r | None \<Rightarrow> ''project'')"

definition artifact_storage_key ::
    "uuid \<Rightarrow> uuid \<Rightarrow> uuid option \<Rightarrow> artifact_kind \<Rightarrow> string \<Rightarrow> exn + string" where
  "artifact_storage_key organization_id project_id run_id kind sha256 =
     (if \<not> is_sha256_hex sha256 then Inl (ValueError ''invalid artifact digest'')
      else Inr (''artifacts/v1/'' @ uuid_hex organization_id @ ''/'' @ uuid_hex project_id @ ''/''
        @ artifact_scope run_id @ ''/'' @ artifact_kind_value kind @ ''/'' @ take 2 sha256 @ ''/'' @ sha256))"

definition staged_artifact_reference :: "string \<Rightarrow> exn + string" where
  "staged_artifact_reference sha256 =
     (if \<not> is_sha256_hex sha256 then Inl (ValueError ''invalid staged artifact digest'')
      else Inr (''staged-artifact://sha256/'' @ sha256))"

definition staged_artifact_storage_key :: "string \<Rightarrow> exn + string" where
  "staged_artifact_storage_key sha256 =
     (if \<not> is_sha256_hex sha256 then Inl (ValueError ''invalid staged artifact digest'')
      else Inr (''staging/v1/sha256/'' @ take 2 sha256 @ ''/'' @ sha256))"

text \<open>A path component without a slash is read off the front of a path.\<close>

lemma path_component_inject:
  "CHR ''/'' \<notin> set a \<Longrightarrow> CHR ''/'' \<notin> set b \<Longrightarrow> a @ CHR ''/'' # r = b @ CHR ''/'' # s \<Longrightarrow> a = b \<and> r = s"
  by (induction a arbitrary: b) (case_tac b; auto)+

lemma slash_not_hex: "\<not> is_hex_char CHR ''/''"
  by (simp add: is_hex_char_def is_digit_char_def)

lemma uuid_hex_no_slash: "CHR ''/'' \<notin> set (uuid_hex u)"
  using uuid_hex_all_hex [of u] slash_not_hex by (auto simp: list_all_iff)

lemma sha256_hex_no_slash: "is_sha256_hex s \<Longrightarrow> CHR ''/'' \<notin> set (take 2 s)"
  using slash_not_hex by (auto simp: is_sha256_hex_def list_all_iff dest: in_set_takeD)

lemma artifact_kind_no_slash: "CHR ''/'' \<notin> set (artifact_kind_value k)"
  by (cases k) simp_all

lemma project_not_uuid_hex: "uuid_hex u \<noteq> ''project''"
proof
  assume "uuid_hex u = ''project''"
  then have "length (uuid_hex u) = length ''project''" by (rule arg_cong)
  then show False by simp
qed

lemma artifact_scope_inject: "artifact_scope a = artifact_scope b \<longleftrightarrow> a = b"
  using project_not_uuid_hex project_not_uuid_hex [symmetric]
  by (cases a; cases b) (simp_all add: artifact_scope_def)

lemma artifact_scope_no_slash: "CHR ''/'' \<notin> set (artifact_scope r)"
  using uuid_hex_no_slash by (auto simp: artifact_scope_def split: option.splits)

lemma artifact_storage_key_eq_Inr:
  "artifact_storage_key org proj run kind sha = Inr key \<longleftrightarrow> is_sha256_hex sha \<and>
     key = ''artifacts/v1/'' @ uuid_hex org @ CHR ''/'' # uuid_hex proj @ CHR ''/'' # artifact_scope run
       @ CHR ''/'' # artifact_kind_value kind @ CHR ''/'' # take 2 sha @ CHR ''/'' # sha"
  by (auto simp: artifact_storage_key_def)

lemma artifact_storage_key_inject:
  assumes "artifact_storage_key o1 p1 r1 k1 s1 = Inr key" and "artifact_storage_key o2 p2 r2 k2 s2 = Inr key"
  shows "o1 = o2 \<and> p1 = p2 \<and> r1 = r2 \<and> k1 = k2 \<and> s1 = s2"
proof -
  have digest: "is_sha256_hex s1" "is_sha256_hex s2" using assms by (auto simp: artifact_storage_key_eq_Inr)
  from assms have "uuid_hex o1 @ CHR ''/'' # uuid_hex p1 @ CHR ''/'' # artifact_scope r1 @ CHR ''/'' #
      artifact_kind_value k1 @ CHR ''/'' # take 2 s1 @ CHR ''/'' # s1
    = uuid_hex o2 @ CHR ''/'' # uuid_hex p2 @ CHR ''/'' # artifact_scope r2 @ CHR ''/'' #
      artifact_kind_value k2 @ CHR ''/'' # take 2 s2 @ CHR ''/'' # s2"
    by (auto simp: artifact_storage_key_eq_Inr)
  from path_component_inject [OF uuid_hex_no_slash uuid_hex_no_slash this]
  have "o1 = o2" and r: "uuid_hex p1 @ CHR ''/'' # artifact_scope r1 @ CHR ''/'' #
      artifact_kind_value k1 @ CHR ''/'' # take 2 s1 @ CHR ''/'' # s1
    = uuid_hex p2 @ CHR ''/'' # artifact_scope r2 @ CHR ''/'' #
      artifact_kind_value k2 @ CHR ''/'' # take 2 s2 @ CHR ''/'' # s2" by simp_all
  from path_component_inject [OF uuid_hex_no_slash uuid_hex_no_slash r]
  have "p1 = p2" and r: "artifact_scope r1 @ CHR ''/'' # artifact_kind_value k1 @ CHR ''/'' # take 2 s1 @ CHR ''/'' # s1
    = artifact_scope r2 @ CHR ''/'' # artifact_kind_value k2 @ CHR ''/'' # take 2 s2 @ CHR ''/'' # s2" by simp_all
  from path_component_inject [OF artifact_scope_no_slash artifact_scope_no_slash r]
  have "r1 = r2" and r: "artifact_kind_value k1 @ CHR ''/'' # take 2 s1 @ CHR ''/'' # s1
    = artifact_kind_value k2 @ CHR ''/'' # take 2 s2 @ CHR ''/'' # s2" by (simp_all add: artifact_scope_inject)
  from path_component_inject [OF artifact_kind_no_slash artifact_kind_no_slash r]
  have "k1 = k2" and r: "take 2 s1 @ CHR ''/'' # s1 = take 2 s2 @ CHR ''/'' # s2" by simp_all
  from path_component_inject [OF sha256_hex_no_slash [OF digest(1)] sha256_hex_no_slash [OF digest(2)] r]
  have "s1 = s2" by simp
  with \<open>o1 = o2\<close> \<open>p1 = p2\<close> \<open>r1 = r2\<close> \<open>k1 = k2\<close> show ?thesis by simp
qed

section \<open>Media types and download names\<close>

definition allowed_media_types :: "string list" where
  "allowed_media_types =
     [''application/json'', ''application/ld+json'', ''application/jsonl'', ''application/octet-stream'',
      ''application/parquet'', ''application/zip'', ''text/csv'', ''text/plain'']"

definition normalize_media_type :: "string \<Rightarrow> exn + string" where
  "normalize_media_type s =
     (let media_type = map lower_char (str_strip (takeWhile (\<lambda>c. c \<noteq> CHR '';'') s)) in
      if media_type \<notin> set allowed_media_types then Inl (ValueError ''unsupported artifact media type'')
      else Inr media_type)"

definition is_control_char :: "char \<Rightarrow> bool" where
  "is_control_char c \<longleftrightarrow> (of_char c :: nat) \<le> 31 \<or> (of_char c :: nat) = 127"

definition is_filename_char :: "char \<Rightarrow> bool" where
  "is_filename_char c \<longleftrightarrow> is_alnum_char c \<or> c = CHR ''.'' \<or> c = CHR ''_'' \<or> c = CHR ''-''"

text \<open>\<open>_UNSAFE_FILENAME.sub("-", s)\<close>: a maximal run of other characters becomes one hyphen.\<close>

fun replace_unsafe :: "bool \<Rightarrow> string \<Rightarrow> string" where
  "replace_unsafe inrun [] = []"
| "replace_unsafe inrun (c # cs) =
     (if is_filename_char c then c # replace_unsafe False cs
      else if inrun then replace_unsafe True cs
      else CHR ''-'' # replace_unsafe True cs)"

definition is_formula_char :: "char \<Rightarrow> bool" where
  "is_formula_char c \<longleftrightarrow> c = CHR ''='' \<or> c = CHR ''+'' \<or> c = CHR ''-'' \<or> c = CHR ''@'' \<or> c = CHR 0x09
     \<or> c = CHR 0x0D"

definition max_filename_bytes :: nat where
  "max_filename_bytes = 255"

definition safe_download_filename :: "(string \<Rightarrow> string) \<Rightarrow> string \<Rightarrow> exn + string" where
  "safe_download_filename nfkd s =
     (if s = [] \<or> max_filename_bytes < length s \<or> list_ex is_control_char s
         \<or> CHR ''/'' \<in> set s \<or> CHR 0x5C \<in> set s \<or> s = ''.'' \<or> s = ''..''
      then Inl (ValueError ''unsafe artifact filename'')
      else
        let ascii = filter (\<lambda>c. (of_char c :: nat) < 128) (nfkd s);
            replaced = strip_where (\<lambda>c. c = CHR ''.'') (replace_unsafe False ascii);
            named = (if replaced = [] then ''artifact.bin'' else replaced);
            guarded = (if is_formula_char (hd named)
              then CHR ''_'' # dropWhile (\<lambda>c. c \<in> set ''=+-@'') named else named)
        in Inr (take max_filename_bytes guarded))"

definition content_disposition :: "(string \<Rightarrow> string) \<Rightarrow> string \<Rightarrow> exn + string" where
  "content_disposition nfkd filename =
     bindr (safe_download_filename nfkd filename) (\<lambda>safe.
     Inr (''attachment; filename='' @ [CHR 0x22] @ safe @ [CHR 0x22] @ ''; filename*=UTF-8''
       @ [CHR 0x27, CHR 0x27] @ percent_quote safe))"

section \<open>What a download name can contain\<close>

lemma replace_unsafe_chars: "list_all is_filename_char (replace_unsafe b s)"
  by (induction s arbitrary: b) (auto simp: is_filename_char_def)

lemma is_filename_unreserved: "is_filename_char c \<Longrightarrow> is_unreserved c"
  by (auto simp: is_filename_char_def is_unreserved_def)

text \<open>Of the filename characters only the hyphen starts a formula.\<close>

lemma formula_filename_char: "is_filename_char c \<Longrightarrow> is_formula_char c \<longleftrightarrow> c = CHR ''-''"
  by (auto simp: is_filename_char_def is_formula_char_def is_alnum_char_def is_lower_char_def
      is_upper_char_def is_digit_char_def)

definition download_name_ok :: "string \<Rightarrow> bool" where
  "download_name_ok s \<longleftrightarrow> s \<noteq> [] \<and> length s \<le> 255 \<and> list_all is_filename_char s \<and> \<not> is_formula_char (hd s)
     \<and> hd s \<noteq> CHR ''.''"

lemma download_name_ok_result:
  assumes "safe_download_filename nfkd s = Inr name"
  shows "download_name_ok name"
proof -
  define replaced where "replaced = strip_where (\<lambda>c. c = CHR ''.'')
    (replace_unsafe False (filter (\<lambda>c. (of_char c :: nat) < 128) (nfkd s)))"
  define named where "named = (if replaced = [] then ''artifact.bin'' else replaced)"
  define guarded where "guarded = (if is_formula_char (hd named)
      then CHR ''_'' # dropWhile (\<lambda>c. c \<in> set ''=+-@'') named else named)"
  have "list_all is_filename_char replaced"
    using replace_unsafe_chars unfolding replaced_def list_all_iff by (meson set_strip_where subsetD)
  then have chars: "list_all is_filename_char named"
    by (simp add: named_def is_filename_char_def is_alnum_char_def is_lower_char_def)
  have dot: "hd named \<noteq> CHR ''.''"
    using strip_where_hd [of "\<lambda>c. c = CHR ''.''"] by (auto simp: named_def replaced_def)
  have ne: "named \<noteq> []" by (simp add: named_def)
  have "guarded \<noteq> []" using ne by (simp add: guarded_def)
  moreover have "list_all is_filename_char guarded"
    using chars by (auto simp: guarded_def list_all_iff is_filename_char_def dest: set_dropWhile_sub [THEN subsetD])
  moreover have "\<not> is_formula_char (hd guarded)"
    by (simp add: guarded_def is_formula_char_def)
  moreover have "hd guarded \<noteq> CHR ''.''" using dot by (simp add: guarded_def)
  moreover have "name = take 255 guarded"
    using assms by (auto simp: safe_download_filename_def Let_def replaced_def named_def guarded_def
        max_filename_bytes_def split: if_splits)
  ultimately show ?thesis
    by (auto simp: download_name_ok_def hd_take list_all_iff dest: in_set_takeD)
qed

end
