(* ===== verification/Schema.thy ===== *)
theory Schema imports PlatformDomain ArtifactDomain begin

text \<open>
  src/corpuskit/persistence/models.py: one record per table, the database as the record of its
  tables, and the UNIQUE and CHECK constraints of every table. Foreign keys are not modelled
  (their cascades are, where a row is deleted). Columns the database fills with \<open>now()\<close> are
  fields; the surrogate keys of run events and audit events, which nothing reads, are left out.
\<close>

section \<open>Column types\<close>

datatype role = OWNER | ADMIN | EDITOR | VIEWER

datatype outbox_state = PENDING | CLAIMED | PUBLISHED

datatype project_lifecycle = PROJECT_ACTIVE | DELETION_PENDING

fun role_value :: "role \<Rightarrow> string" where
  "role_value OWNER = ''owner''"
| "role_value ADMIN = ''admin''"
| "role_value EDITOR = ''editor''"
| "role_value VIEWER = ''viewer''"

section \<open>Rows\<close>

record rate_window =
  w_id :: uuid
  w_organization :: uuid
  w_subject_sha256 :: string
  w_route_sha256 :: string
  w_method :: string
  w_epoch :: int
  w_count :: int
  w_updated_at :: time

record organization =
  org_id :: uuid
  org_slug :: string
  org_name :: string

record user =
  u_id :: uuid
  u_oidc_subject :: string
  u_display_name :: string

record membership =
  m_id :: uuid
  m_organization :: uuid
  m_user :: uuid
  m_role :: role

record project =
  p_id :: uuid
  p_organization :: uuid
  p_created_by :: uuid
  p_name :: string
  p_description :: string
  p_lifecycle :: project_lifecycle
  p_deletion_requested_at :: "time option"
  p_deletion_retention_until :: "time option"
  p_deletion_corpus_sentences :: "int option"
  p_created_at :: time

record corpus =
  c_id :: uuid
  c_organization :: uuid
  c_project :: uuid
  c_created_by :: uuid
  c_name :: string
  c_created_at :: time

record corpus_version =
  v_id :: uuid
  v_organization :: uuid
  v_corpus :: uuid
  v_parent :: "uuid option"
  v_created_by :: uuid
  v_number :: int
  v_language :: string
  v_sentence_count :: int
  v_content_sha256 :: string
  v_corpusgen_version :: string
  v_created_at :: time

record sentence =
  s_organization :: uuid
  s_version :: uuid
  s_ordinal :: int
  s_original_text :: string
  s_normalized_text :: string
  s_phonemes :: "json option"

record run =
  r_id :: uuid
  r_organization :: uuid
  r_project :: uuid
  r_corpus_version :: "uuid option"
  r_parent :: "uuid option"
  r_created_by :: uuid
  r_kind :: run_kind
  r_state :: run_state
  r_idempotency_key :: string
  r_attempt :: nat
  r_event_sequence :: nat
  r_spec :: json
  r_spec_sha256 :: string
  r_result_summary :: "json option"
  r_failure_code :: "string option"
  r_cancellation_requested_at :: "time option"
  r_created_at :: time

record run_event =
  e_organization :: uuid
  e_run :: uuid
  e_sequence :: nat
  e_type :: string
  e_payload :: json
  e_occurred_at :: time

record outbox_message =
  o_id :: uuid
  o_organization :: uuid
  o_run :: uuid
  o_event_type :: string
  o_payload :: json
  o_state :: outbox_state
  o_available_at :: time
  o_claimed_at :: "time option"
  o_claimed_by :: "string option"
  o_processed_at :: "time option"
  o_attempts :: nat
  o_last_error_code :: "string option"
  o_created_at :: time

record artifact =
  a_id :: uuid
  a_organization :: uuid
  a_project :: uuid
  a_run :: "uuid option"
  a_created_by :: uuid
  a_scope_key :: string
  a_kind :: string
  a_sha256 :: string
  a_size_bytes :: int
  a_storage_key :: string
  a_media_type :: string
  a_filename :: string
  a_state :: artifact_state
  a_retention_until :: time
  a_tombstoned_at :: "time option"
  a_deleted_at :: "time option"
  a_created_at :: time

record datg_publication =
  d_id :: uuid
  d_organization :: uuid
  d_project :: uuid
  d_build_run :: uuid
  d_created_by :: uuid
  d_cache_key_sha256 :: string
  d_content_sha256 :: string
  d_runtime_id :: string
  d_language :: string
  d_unit :: string
  d_vocabulary_size :: int
  d_indexed_token_count :: int
  d_size_bytes :: int
  d_created_at :: time

record execution_fact =
  x_run :: uuid
  x_organization :: uuid
  x_project :: uuid
  x_facts :: json
  x_facts_sha256 :: string
  x_input_digests :: json
  x_recorded_at :: time
  x_manifest_artifact :: "uuid option"
  x_manifest_sha256 :: "string option"
  x_finalized_at :: "time option"

record run_replay =
  y_replay_run :: uuid
  y_organization :: uuid
  y_project :: uuid
  y_source_run :: uuid
  y_source_manifest_artifact :: uuid
  y_expected_manifest_sha256 :: string
  y_observed_manifest_artifact :: "uuid option"
  y_classification :: determinism_class
  y_verdict :: "replay_verdict option"
  y_comparison :: "json option"
  y_created_by :: uuid
  y_created_at :: time
  y_completed_at :: "time option"

record quota_policy =
  qp_organization :: uuid
  qp_values :: quota_policy_values
  qp_updated_at :: time

record quota_usage =
  qu_organization :: uuid
  qu_active_cpu_jobs :: int
  qu_active_expensive_jobs :: int
  qu_artifact_bytes :: int
  qu_artifact_count :: int
  qu_corpus_sentences :: int
  qu_updated_at :: time

record quota_reservation =
  qr_id :: uuid
  qr_organization :: uuid
  qr_run :: uuid
  qr_class :: quota_class
  qr_amount :: int
  qr_state :: reservation_state
  qr_expires_at :: time
  qr_released_at :: "time option"
  qr_created_at :: time

record audit_head =
  h_organization :: uuid
  h_last_sequence :: nat
  h_last_hash :: string
  h_updated_at :: time

record audit_event =
  ev_payload :: audit_payload
  ev_event_hash :: string

record maintenance_cursor =
  mc_operation :: string
  mc_backend_fingerprint :: string
  mc_cursor :: "string option"
  mc_updated_at :: time

section \<open>The database\<close>

record db =
  organizations :: "organization list"
  users :: "user list"
  memberships :: "membership list"
  projects :: "project list"
  corpora :: "corpus list"
  corpus_versions :: "corpus_version list"
  sentences :: "sentence list"
  runs :: "run list"
  run_events :: "run_event list"
  outbox_messages :: "outbox_message list"
  artifacts :: "artifact list"
  datg_publications :: "datg_publication list"
  execution_facts :: "execution_fact list"
  run_replays :: "run_replay list"
  quota_policies :: "quota_policy list"
  quota_usages :: "quota_usage list"
  quota_reservations :: "quota_reservation list"
  audit_heads :: "audit_head list"
  audit_events :: "audit_event list"
  rate_windows :: "rate_window list"
  maintenance_cursors :: "maintenance_cursor list"

definition empty_db :: db where
  "empty_db = \<lparr>organizations = [], users = [], memberships = [], projects = [], corpora = [],
     corpus_versions = [], sentences = [], runs = [], run_events = [], outbox_messages = [],
     artifacts = [], datg_publications = [], execution_facts = [], run_replays = [],
     quota_policies = [], quota_usages = [], quota_reservations = [], audit_heads = [],
     audit_events = [], rate_windows = [], maintenance_cursors = []\<rparr>"

section \<open>Constraints\<close>

definition unique_by :: "('r \<Rightarrow> 'k) \<Rightarrow> 'r list \<Rightarrow> bool" where
  "unique_by k rows \<longleftrightarrow> distinct (map k rows)"

text \<open>A nullable unique column: NULLs never conflict.\<close>

definition unique_some :: "('r \<Rightarrow> 'k option) \<Rightarrow> 'r list \<Rightarrow> bool" where
  "unique_some k rows \<longleftrightarrow> distinct (filter (\<lambda>v. v \<noteq> None) (map k rows))"

definition rate_windows_ok :: "rate_window list \<Rightarrow> bool" where
  "rate_windows_ok rows \<longleftrightarrow> unique_by w_id rows
     \<and> unique_by (\<lambda>w. (w_organization w, w_subject_sha256 w, w_route_sha256 w, w_method w, w_epoch w)) rows
     \<and> list_all (\<lambda>w. length (w_subject_sha256 w) = 64 \<and> length (w_route_sha256 w) = 64
         \<and> 0 < w_count w \<and> 0 \<le> w_epoch w) rows"

definition organizations_ok :: "organization list \<Rightarrow> bool" where
  "organizations_ok rows \<longleftrightarrow> unique_by org_id rows \<and> unique_by org_slug rows"

definition users_ok :: "user list \<Rightarrow> bool" where
  "users_ok rows \<longleftrightarrow> unique_by u_id rows \<and> unique_by u_oidc_subject rows"

definition memberships_ok :: "membership list \<Rightarrow> bool" where
  "memberships_ok rows \<longleftrightarrow> unique_by m_id rows \<and> unique_by (\<lambda>m. (m_organization m, m_user m)) rows"

definition project_check :: "project \<Rightarrow> bool" where
  "project_check p \<longleftrightarrow>
     (case p_lifecycle p of
        PROJECT_ACTIVE \<Rightarrow> p_deletion_requested_at p = None \<and> p_deletion_retention_until p = None
          \<and> p_deletion_corpus_sentences p = None
      | DELETION_PENDING \<Rightarrow>
          (case (p_deletion_requested_at p, p_deletion_retention_until p, p_deletion_corpus_sentences p) of
             (Some requested, Some until, Some n) \<Rightarrow> requested \<le> until \<and> 0 \<le> n
           | _ \<Rightarrow> False))"

definition projects_ok :: "project list \<Rightarrow> bool" where
  "projects_ok rows \<longleftrightarrow> unique_by p_id rows \<and> unique_by (\<lambda>p. (p_organization p, p_name p)) rows
     \<and> list_all project_check rows"

definition corpora_ok :: "corpus list \<Rightarrow> bool" where
  "corpora_ok rows \<longleftrightarrow> unique_by c_id rows \<and> unique_by (\<lambda>c. (c_project c, c_name c)) rows"

definition corpus_versions_ok :: "corpus_version list \<Rightarrow> bool" where
  "corpus_versions_ok rows \<longleftrightarrow> unique_by v_id rows \<and> unique_by (\<lambda>v. (v_corpus v, v_number v)) rows
     \<and> unique_by (\<lambda>v. (v_corpus v, v_content_sha256 v)) rows
     \<and> list_all (\<lambda>v. 0 < v_number v \<and> 0 < v_sentence_count v) rows"

definition sentences_ok :: "sentence list \<Rightarrow> bool" where
  "sentences_ok rows \<longleftrightarrow> unique_by (\<lambda>x. (s_version x, s_ordinal x)) rows
     \<and> list_all (\<lambda>x. 0 \<le> s_ordinal x) rows"

definition runs_ok :: "run list \<Rightarrow> bool" where
  "runs_ok rows \<longleftrightarrow> unique_by r_id rows \<and> unique_by (\<lambda>r. (r_organization r, r_idempotency_key r)) rows
     \<and> list_all (\<lambda>r. 0 < r_attempt r \<and> 0 < r_event_sequence r) rows"

definition run_events_ok :: "run_event list \<Rightarrow> bool" where
  "run_events_ok rows \<longleftrightarrow> unique_by (\<lambda>e. (e_run e, e_sequence e)) rows"

definition outbox_ok :: "outbox_message list \<Rightarrow> bool" where
  "outbox_ok rows \<longleftrightarrow> unique_by o_id rows"

definition artifacts_ok :: "artifact list \<Rightarrow> bool" where
  "artifacts_ok rows \<longleftrightarrow> unique_by a_id rows
     \<and> unique_by (\<lambda>a. (a_organization a, a_project a, a_scope_key a, a_kind a, a_sha256 a)) rows
     \<and> unique_by a_storage_key rows \<and> list_all (\<lambda>a. 0 < a_size_bytes a) rows"

definition datg_publications_ok :: "datg_publication list \<Rightarrow> bool" where
  "datg_publications_ok rows \<longleftrightarrow> unique_by d_id rows
     \<and> unique_by (\<lambda>d. (d_organization d, d_project d, d_cache_key_sha256 d)) rows
     \<and> unique_by d_build_run rows
     \<and> list_all (\<lambda>d. length (d_cache_key_sha256 d) = 64 \<and> length (d_content_sha256 d) = 64
         \<and> 0 < d_vocabulary_size d \<and> 0 \<le> d_indexed_token_count d
         \<and> d_indexed_token_count d \<le> d_vocabulary_size d \<and> 0 < d_size_bytes d) rows"

definition execution_fact_check :: "execution_fact \<Rightarrow> bool" where
  "execution_fact_check x \<longleftrightarrow> length (x_facts_sha256 x) = 64 \<and>
     (case (x_manifest_artifact x, x_manifest_sha256 x, x_finalized_at x) of
        (None, None, None) \<Rightarrow> True
      | (Some _, Some sha, Some _) \<Rightarrow> length sha = 64
      | _ \<Rightarrow> False)"

definition execution_facts_ok :: "execution_fact list \<Rightarrow> bool" where
  "execution_facts_ok rows \<longleftrightarrow> unique_by x_run rows \<and> unique_some x_manifest_artifact rows
     \<and> list_all execution_fact_check rows"

definition run_replay_check :: "run_replay \<Rightarrow> bool" where
  "run_replay_check y \<longleftrightarrow> length (y_expected_manifest_sha256 y) = 64 \<and>
     (case (y_observed_manifest_artifact y, y_verdict y, y_comparison y, y_completed_at y) of
        (None, None, None, None) \<Rightarrow> True
      | (Some _, Some _, Some _, Some _) \<Rightarrow> True
      | _ \<Rightarrow> False)"

definition run_replays_ok :: "run_replay list \<Rightarrow> bool" where
  "run_replays_ok rows \<longleftrightarrow> unique_by y_replay_run rows \<and> unique_some y_observed_manifest_artifact rows
     \<and> list_all run_replay_check rows"

definition quota_policies_ok :: "quota_policy list \<Rightarrow> bool" where
  "quota_policies_ok rows \<longleftrightarrow> unique_by qp_organization rows
     \<and> list_all (\<lambda>q. 0 < max_concurrent_cpu_jobs (qp_values q) \<and> 0 < max_concurrent_expensive_jobs (qp_values q)
         \<and> 0 < max_artifact_bytes (qp_values q) \<and> 0 < max_artifact_count (qp_values q)
         \<and> 0 < max_corpus_sentences (qp_values q)) rows"

definition quota_usages_ok :: "quota_usage list \<Rightarrow> bool" where
  "quota_usages_ok rows \<longleftrightarrow> unique_by qu_organization rows
     \<and> list_all (\<lambda>q. 0 \<le> qu_active_cpu_jobs q \<and> 0 \<le> qu_active_expensive_jobs q \<and> 0 \<le> qu_artifact_bytes q
         \<and> 0 \<le> qu_artifact_count q \<and> 0 \<le> qu_corpus_sentences q) rows"

definition quota_reservations_ok :: "quota_reservation list \<Rightarrow> bool" where
  "quota_reservations_ok rows \<longleftrightarrow> unique_by qr_id rows \<and> unique_by (\<lambda>q. (qr_organization q, qr_run q)) rows
     \<and> list_all (\<lambda>q. qr_amount q = 1) rows"

definition audit_heads_ok :: "audit_head list \<Rightarrow> bool" where
  "audit_heads_ok rows \<longleftrightarrow> unique_by h_organization rows \<and> list_all (\<lambda>h. length (h_last_hash h) = 64) rows"

definition audit_events_ok :: "audit_event list \<Rightarrow> bool" where
  "audit_events_ok rows \<longleftrightarrow> unique_by (\<lambda>e. (ap_organization (ev_payload e), ap_sequence (ev_payload e))) rows
     \<and> list_all (\<lambda>e. 0 < ap_sequence (ev_payload e) \<and> length (ap_previous_hash (ev_payload e)) = 64
         \<and> length (ev_event_hash e) = 64) rows"

definition maintenance_cursors_ok :: "maintenance_cursor list \<Rightarrow> bool" where
  "maintenance_cursors_ok rows \<longleftrightarrow> unique_by (\<lambda>m. (mc_operation m, mc_backend_fingerprint m)) rows
     \<and> list_all (\<lambda>m. length (mc_backend_fingerprint m) = 64) rows"

definition constraints_ok :: "db \<Rightarrow> bool" where
  "constraints_ok s \<longleftrightarrow>
     organizations_ok (organizations s) \<and> users_ok (users s) \<and> memberships_ok (memberships s)
     \<and> projects_ok (projects s) \<and> corpora_ok (corpora s) \<and> corpus_versions_ok (corpus_versions s)
     \<and> sentences_ok (sentences s) \<and> runs_ok (runs s) \<and> run_events_ok (run_events s)
     \<and> outbox_ok (outbox_messages s) \<and> artifacts_ok (artifacts s)
     \<and> datg_publications_ok (datg_publications s) \<and> execution_facts_ok (execution_facts s)
     \<and> run_replays_ok (run_replays s) \<and> quota_policies_ok (quota_policies s)
     \<and> quota_usages_ok (quota_usages s) \<and> quota_reservations_ok (quota_reservations s)
     \<and> audit_heads_ok (audit_heads s) \<and> audit_events_ok (audit_events s)
     \<and> rate_windows_ok (rate_windows s) \<and> maintenance_cursors_ok (maintenance_cursors s)"

lemma constraints_empty: "constraints_ok empty_db"
  by (simp add: constraints_ok_def empty_db_def unique_by_def unique_some_def organizations_ok_def
      users_ok_def memberships_ok_def projects_ok_def corpora_ok_def corpus_versions_ok_def
      sentences_ok_def runs_ok_def run_events_ok_def outbox_ok_def artifacts_ok_def
      datg_publications_ok_def execution_facts_ok_def run_replays_ok_def quota_policies_ok_def
      quota_usages_ok_def quota_reservations_ok_def audit_heads_ok_def audit_events_ok_def
      rate_windows_ok_def maintenance_cursors_ok_def)

text \<open>The facts the components use of a table that satisfies its constraints.\<close>

lemma constraints_runs:
  "constraints_ok s \<Longrightarrow> distinct (map r_id (runs s))"
  "constraints_ok s \<Longrightarrow> distinct (map (\<lambda>r. (r_organization r, r_idempotency_key r)) (runs s))"
  by (simp_all add: constraints_ok_def runs_ok_def unique_by_def)

lemma constraints_reservations:
  "constraints_ok s \<Longrightarrow> distinct (map qr_id (quota_reservations s))"
  "constraints_ok s \<Longrightarrow> distinct (map (\<lambda>q. (qr_organization q, qr_run q)) (quota_reservations s))"
  by (simp_all add: constraints_ok_def quota_reservations_ok_def unique_by_def)

lemma constraints_platform:
  "constraints_ok s \<Longrightarrow> distinct (map qp_organization (quota_policies s))"
  "constraints_ok s \<Longrightarrow> distinct (map qu_organization (quota_usages s))"
  "constraints_ok s \<Longrightarrow> distinct (map h_organization (audit_heads s))"
  by (simp_all add: constraints_ok_def quota_policies_ok_def quota_usages_ok_def audit_heads_ok_def unique_by_def)

lemma constraints_artifacts:
  "constraints_ok s \<Longrightarrow> distinct (map a_id (artifacts s))"
  "constraints_ok s \<Longrightarrow> distinct (map a_storage_key (artifacts s))"
  by (simp_all add: constraints_ok_def artifacts_ok_def unique_by_def)

lemma constraints_outbox: "constraints_ok s \<Longrightarrow> distinct (map o_id (outbox_messages s))"
  by (simp add: constraints_ok_def outbox_ok_def unique_by_def)

lemma constraints_projects: "constraints_ok s \<Longrightarrow> distinct (map p_id (projects s))"
  by (simp add: constraints_ok_def projects_ok_def unique_by_def)

text \<open>INSERT of one row: the table's constraints are checked at once.\<close>

definition insert_row :: "('r list \<Rightarrow> bool) \<Rightarrow> 'r \<Rightarrow> 'r list \<Rightarrow> exn + 'r list" where
  "insert_row ok row rows = (if ok (rows @ [row]) then Inr (rows @ [row]) else Inl IntegrityError)"

lemma insert_row_eq_Inr [simp]: "insert_row ok row rows = Inr rows' \<longleftrightarrow> ok (rows @ [row]) \<and> rows' = rows @ [row]"
  by (auto simp: insert_row_def)

end
