(* ===== verification/Tenant.thy ===== *)
theory Tenant imports Schema begin

text \<open>
  src/corpuskit/persistence/tenant_context.py and database.py: the validated identity a session
  runs under, and the session itself, which commits once or rolls back. What the process gets
  from outside its source is the \<open>runtime\<close> record: SHA-256, the SQL dialect, pydantic's parsers,
  Unicode normalisation, the operator's admission policy, and whether the ORM refreshes a loaded
  row after an UPDATE (SQLAlchemy's \<open>synchronize_session\<close>).

  A transaction body is a function \<open>db \<Rightarrow> exn + 'a \<times> db\<close>. Row locks change nothing in a sequential
  model; the places where another transaction can run between a read and a compare-and-swap take
  that transaction as an argument. All reads of the clock in one transaction return one value.
\<close>

datatype dialect = PostgreSQL | SQLite | OtherDialect

record runtime =
  rt_sha :: "string \<Rightarrow> string"
  rt_dialect :: dialect
  rt_parsers :: parsers
  rt_nfc :: "string \<Rightarrow> string"
  rt_nfkd :: "string \<Rightarrow> string"
  rt_admission :: "run_kind \<Rightarrow> json \<Rightarrow> exn + unit"
  rt_orm_refresh :: bool

datatype service_identity = USER_ID | DISPATCHER | WORKER | ADOPTION | MAINTENANCE | PLATFORM

fun service_identity_value :: "service_identity \<Rightarrow> string" where
  "service_identity_value USER_ID = ''user''"
| "service_identity_value DISPATCHER = ''dispatcher''"
| "service_identity_value WORKER = ''worker''"
| "service_identity_value ADOPTION = ''adoption''"
| "service_identity_value MAINTENANCE = ''maintenance''"
| "service_identity_value PLATFORM = ''platform''"

definition service_actor :: "service_identity \<Rightarrow> string" where
  "service_actor i = ''service:'' @ service_identity_value i"

record tenant_context =
  tc_organization :: "uuid option"
  tc_identity :: service_identity
  tc_actor :: string

definition safe_subject :: "string \<Rightarrow> bool" where
  "safe_subject s \<longleftrightarrow> 1 \<le> str_len s \<and> str_len s \<le> 255 \<and> list_all (\<lambda>c. \<not> is_control_char c) s"

definition user_context :: "uuid \<Rightarrow> string \<Rightarrow> exn + tenant_context" where
  "user_context organization_id subject =
     (if \<not> safe_subject subject then Inl (TenantContextError ''user tenant context is invalid'')
      else Inr \<lparr>tc_organization = Some organization_id, tc_identity = USER_ID, tc_actor = subject\<rparr>)"

definition service_context :: "service_identity \<Rightarrow> uuid option \<Rightarrow> exn + tenant_context" where
  "service_context identity organization_id =
     (if identity = USER_ID then Inl (TenantContextError ''user contexts require a verified subject'')
      else if identity \<in> {WORKER, ADOPTION, PLATFORM} then
        (if organization_id = None
         then Inl (TenantContextError ''this service context requires an organization'')
         else Inr \<lparr>tc_organization = organization_id, tc_identity = identity, tc_actor = service_actor identity\<rparr>)
      else if identity = DISPATCHER \<and> organization_id \<noteq> None
      then Inl (TenantContextError ''dispatcher context is global and cannot accept an organization'')
      else Inr \<lparr>tc_organization = organization_id, tc_identity = identity, tc_actor = service_actor identity\<rparr>)"

definition validate_context :: "tenant_context \<Rightarrow> exn + unit" where
  "validate_context c =
     bindr (case safe_audit_actor (tc_actor c) of
              Inl e \<Rightarrow> ensure (tc_identity c = USER_ID) (TenantContextError ''service actor context is invalid'')
            | Inr _ \<Rightarrow> Inr ()) (\<lambda>_.
     if tc_identity c = USER_ID then
       ensure (tc_organization c \<noteq> None \<and> safe_subject (tc_actor c))
         (TenantContextError ''user tenant context is invalid'')
     else ensure (tc_actor c = service_actor (tc_identity c))
         (TenantContextError ''service actor context is invalid''))"

definition open_session :: "runtime \<Rightarrow> tenant_context option \<Rightarrow> exn + unit" where
  "open_session rt context =
     bindr (case context of None \<Rightarrow> Inr () | Some c \<Rightarrow> validate_context c) (\<lambda>_.
     case rt_dialect rt of
       PostgreSQL \<Rightarrow> (case context of
           None \<Rightarrow> Inl (TenantContextError ''PostgreSQL application sessions require an explicit tenant context'')
         | Some c \<Rightarrow> validate_context c)
     | _ \<Rightarrow> Inr ())"

text \<open>
  \<open>Database.session\<close>: the body runs on the database as it is; its result is committed if the
  constraints hold, and any exception leaves the database as it was.
\<close>

definition session ::
    "runtime \<Rightarrow> tenant_context option \<Rightarrow> (db \<Rightarrow> exn + 'a \<times> db) \<Rightarrow> db \<Rightarrow> (exn + 'a) \<times> db" where
  "session rt context body s =
     (case bindr (open_session rt context) (\<lambda>_. body s) of
        Inl e \<Rightarrow> (Inl e, s)
      | Inr (a, s') \<Rightarrow> if constraints_ok s' then (Inr a, s') else (Inl IntegrityError, s))"

text \<open>A session whose context has to be built first.\<close>

definition in_session ::
    "runtime \<Rightarrow> (exn + tenant_context) \<Rightarrow> (tenant_context \<Rightarrow> db \<Rightarrow> exn + 'a \<times> db) \<Rightarrow> db \<Rightarrow> (exn + 'a) \<times> db" where
  "in_session rt context body s =
     (case context of Inl e \<Rightarrow> (Inl e, s) | Inr c \<Rightarrow> session rt (Some c) (body c) s)"

lemma session_Inr: "session rt context body s = (Inr a, s') \<Longrightarrow> body s = Inr (a, s') \<and> constraints_ok s'"
  by (auto simp: session_def split: sum.splits prod.splits if_splits)

lemma session_Inl: "session rt context body s = (Inl e, s') \<Longrightarrow> s' = s"
  by (auto simp: session_def split: sum.splits prod.splits if_splits)

lemma in_session_Inr:
  "in_session rt context body s = (Inr a, s') \<Longrightarrow>
     \<exists>c. context = Inr c \<and> body c s = Inr (a, s') \<and> constraints_ok s'"
  by (auto simp: in_session_def split: sum.splits dest: session_Inr)

lemma in_session_Inl: "in_session rt context body s = (Inl e, s') \<Longrightarrow> s' = s"
  by (auto simp: in_session_def split: sum.splits dest: session_Inl)

text \<open>
  Whatever every successful body preserves, the session preserves, and the constraints hold after
  it if they held before.
\<close>

lemma in_session_preserves:
  assumes "\<And>c a s'. context = Inr c \<Longrightarrow> body c s = Inr (a, s') \<Longrightarrow> constraints_ok s' \<Longrightarrow> P s'" and "P s"
  shows "P (snd (in_session rt context body s))"
proof (cases "in_session rt context body s")
  case (Pair r s')
  with assms show ?thesis
    by (cases r) (auto dest!: in_session_Inr in_session_Inl)
qed

lemma in_session_constraints: "constraints_ok s \<Longrightarrow> constraints_ok (snd (in_session rt context body s))"
  by (rule in_session_preserves)

text \<open>Every context the two constructors build passes validation.\<close>

lemma service_actor_safe: "safe_audit_actor (service_actor i) = Inr (service_actor i)"
  by (cases i) (simp_all add: service_actor_def safe_audit_actor_def is_actor_char_def is_alnum_char_def
      is_lower_char_def is_upper_char_def is_digit_char_def)

lemma service_context_valid: "service_context i org = Inr c \<Longrightarrow> validate_context c = Inr ()"
  by (auto simp: service_context_def validate_context_def service_actor_safe split: if_splits)

lemma user_context_valid: "user_context org subject = Inr c \<Longrightarrow> validate_context c = Inr ()"
  by (auto simp: user_context_def validate_context_def split: if_splits sum.splits)

lemma service_context_identity: "service_context i org = Inr c \<Longrightarrow> tc_identity c = i \<and> tc_organization c = org"
  by (auto simp: service_context_def split: if_splits)

lemma user_context_identity:
  "user_context org subject = Inr c \<Longrightarrow> tc_identity c = USER_ID \<and> tc_organization c = Some org"
  by (auto simp: user_context_def split: if_splits)

lemma open_session_valid: "validate_context c = Inr () \<Longrightarrow> open_session rt (Some c) = Inr ()"
  by (auto simp: open_session_def split: dialect.splits)

end
