(* ===== verification/AuditTrail.thy ===== *)
theory AuditTrail imports Tenant begin

text \<open>
  src/corpuskit/services/platform.py, \<open>AuditIdentity\<close>, \<open>_ensure_platform_rows\<close> and
  \<open>AuditWriter\<close>: the per-organization hash chain of audit events. The invariant \<open>audit_ok\<close> says
  that every chain verifies and ends in its head; appending keeps it, and two chains that verify
  against one head agree document by document unless the digest collides.
\<close>

section \<open>Identities and platform rows\<close>

record audit_identity =
  ai_kind :: actor_kind
  ai_identifier :: string

definition audit_user :: "uuid \<Rightarrow> audit_identity" where
  "audit_user user_id = \<lparr>ai_kind = USER_ACTOR, ai_identifier = uuid_str user_id\<rparr>"

definition audit_service :: "service_identity \<Rightarrow> exn + audit_identity" where
  "audit_service identity =
     (if identity = USER_ID then Inl (ValueError ''service audit identity cannot be a user'')
      else Inr \<lparr>ai_kind = SERVICE_ACTOR, ai_identifier = ''service:'' @ service_identity_value identity\<rparr>)"

text \<open>INSERT ... ON CONFLICT DO NOTHING on a table keyed by organization.\<close>

definition insert_ignore :: "('r \<Rightarrow> uuid) \<Rightarrow> 'r \<Rightarrow> 'r list \<Rightarrow> 'r list" where
  "insert_ignore k row rows = (if list_ex (\<lambda>r. k r = k row) rows then rows else rows @ [row])"

definition fresh_policy :: "uuid \<Rightarrow> time \<Rightarrow> quota_policy" where
  "fresh_policy org now = \<lparr>qp_organization = org, qp_values = default_policy, qp_updated_at = now\<rparr>"

definition fresh_usage :: "uuid \<Rightarrow> time \<Rightarrow> quota_usage" where
  "fresh_usage org now = \<lparr>qu_organization = org, qu_active_cpu_jobs = 0, qu_active_expensive_jobs = 0,
     qu_artifact_bytes = 0, qu_artifact_count = 0, qu_corpus_sentences = 0, qu_updated_at = now\<rparr>"

definition fresh_head :: "uuid \<Rightarrow> time \<Rightarrow> audit_head" where
  "fresh_head org now = \<lparr>h_organization = org, h_last_sequence = 0, h_last_hash = audit_genesis_hash,
     h_updated_at = now\<rparr>"

definition insert_platform_rows :: "uuid \<Rightarrow> time \<Rightarrow> db \<Rightarrow> db" where
  "insert_platform_rows org now s = s\<lparr>
     quota_policies := insert_ignore qp_organization (fresh_policy org now) (quota_policies s),
     quota_usages := insert_ignore qu_organization (fresh_usage org now) (quota_usages s),
     audit_heads := insert_ignore h_organization (fresh_head org now) (audit_heads s)\<rparr>"

definition ensure_platform_rows :: "runtime \<Rightarrow> tenant_context \<Rightarrow> uuid \<Rightarrow> time \<Rightarrow> db \<Rightarrow> exn + db" where
  "ensure_platform_rows rt c org now s =
     (case rt_dialect rt of
        PostgreSQL \<Rightarrow> if tc_identity c \<noteq> PLATFORM then Inr s else Inr (insert_platform_rows org now s)
      | SQLite \<Rightarrow> Inr (insert_platform_rows org now s)
      | OtherDialect \<Rightarrow> Inl (RuntimeError ''tenant quota state requires PostgreSQL or SQLite''))"

lemma ensure_platform_rows_cases:
  "ensure_platform_rows rt c org now s = Inr s' \<Longrightarrow> s' = s \<or> s' = insert_platform_rows org now s"
  by (auto simp: ensure_platform_rows_def split: dialect.splits if_splits)

text \<open>
  The policy and usage of an organization as the accounting sees them: a missing row counts as the
  row \<open>_ensure_platform_rows\<close> would insert, so inserting it changes neither.
\<close>

definition find_policy :: "uuid \<Rightarrow> db \<Rightarrow> quota_policy option" where
  "find_policy org s = find (\<lambda>q. qp_organization q = org) (quota_policies s)"

definition find_usage :: "uuid \<Rightarrow> db \<Rightarrow> quota_usage option" where
  "find_usage org s = find (\<lambda>q. qu_organization q = org) (quota_usages s)"

definition policy_of :: "uuid \<Rightarrow> db \<Rightarrow> quota_policy_values" where
  "policy_of org s = (case find_policy org s of None \<Rightarrow> default_policy | Some q \<Rightarrow> qp_values q)"

record usage_counters =
  used_cpu_jobs :: int
  used_expensive_jobs :: int
  used_artifact_bytes :: int
  used_artifact_count :: int
  used_corpus_sentences :: int

definition counters_of :: "quota_usage \<Rightarrow> usage_counters" where
  "counters_of q = \<lparr>used_cpu_jobs = qu_active_cpu_jobs q, used_expensive_jobs = qu_active_expensive_jobs q,
     used_artifact_bytes = qu_artifact_bytes q, used_artifact_count = qu_artifact_count q,
     used_corpus_sentences = qu_corpus_sentences q\<rparr>"

definition no_usage :: usage_counters where
  "no_usage = \<lparr>used_cpu_jobs = 0, used_expensive_jobs = 0, used_artifact_bytes = 0,
     used_artifact_count = 0, used_corpus_sentences = 0\<rparr>"

definition usage_of :: "uuid \<Rightarrow> db \<Rightarrow> usage_counters" where
  "usage_of org s = (case find_usage org s of None \<Rightarrow> no_usage | Some q \<Rightarrow> counters_of q)"

lemma find_insert_ignore:
  "find (\<lambda>r. k r = o') (insert_ignore k row rows) =
     (if o' = k row \<and> find (\<lambda>r. k r = o') rows = None then Some row else find (\<lambda>r. k r = o') rows)"
proof (cases "find (\<lambda>r. k r = k row) rows")
  case None
  then have "insert_ignore k row rows = rows @ [row]"
    by (auto simp: insert_ignore_def list_ex_iff find_None_iff_set)
  with None show ?thesis by (auto simp: find_append split: option.splits)
next
  case (Some r)
  then have "insert_ignore k row rows = rows"
    by (auto simp: insert_ignore_def list_ex_iff dest: find_SomeD)
  with Some show ?thesis by auto
qed

lemma find_update_where_key:
  "(\<And>r. k (f r) = k r) \<Longrightarrow>
   find (\<lambda>r. k r = o') (update_where (\<lambda>r. k r = org) f rows) =
     (if o' = org then map_option f (find (\<lambda>r. k r = o') rows) else find (\<lambda>r. k r = o') rows)"
  by (induction rows) auto

lemma insert_platform_rows_policy [simp]: "policy_of o' (insert_platform_rows org now s) = policy_of o' s"
  by (auto simp: policy_of_def find_policy_def insert_platform_rows_def find_insert_ignore fresh_policy_def
      split: option.splits)

lemma insert_platform_rows_usage [simp]: "usage_of o' (insert_platform_rows org now s) = usage_of o' s"
  by (auto simp: usage_of_def find_usage_def insert_platform_rows_def find_insert_ignore fresh_usage_def
      counters_of_def no_usage_def split: option.splits)

text \<open>
  The audit and quota operations change the five platform tables only: the databases before and
  after agree once those are erased.
\<close>

definition erase_platform :: "db \<Rightarrow> db" where
  "erase_platform s = s\<lparr>quota_policies := [], quota_usages := [], quota_reservations := [],
     audit_heads := [], audit_events := []\<rparr>"

definition platform_frame :: "db \<Rightarrow> db \<Rightarrow> bool" where
  "platform_frame s s' \<longleftrightarrow> erase_platform s' = erase_platform s"

lemma platform_frame_refl [simp]: "platform_frame s s"
  by (simp add: platform_frame_def)

lemma platform_frame_trans [trans]: "platform_frame s t \<Longrightarrow> platform_frame t u \<Longrightarrow> platform_frame s u"
  by (simp add: platform_frame_def)

lemma platform_frame_insert [simp]: "platform_frame s (insert_platform_rows org now s)"
  by (simp add: platform_frame_def erase_platform_def insert_platform_rows_def)

lemma platform_frame_tables:
  assumes "platform_frame s s'"
  shows "organizations s' = organizations s" "users s' = users s" "memberships s' = memberships s"
    "projects s' = projects s" "corpora s' = corpora s" "corpus_versions s' = corpus_versions s"
    "sentences s' = sentences s" "runs s' = runs s" "run_events s' = run_events s"
    "outbox_messages s' = outbox_messages s" "artifacts s' = artifacts s"
    "datg_publications s' = datg_publications s" "execution_facts s' = execution_facts s"
    "run_replays s' = run_replays s" "rate_windows s' = rate_windows s"
    "maintenance_cursors s' = maintenance_cursors s"
proof -
  from assms have e: "erase_platform s' = erase_platform s" by (simp add: platform_frame_def)
  show "organizations s' = organizations s" using arg_cong [OF e, of organizations] by (simp add: erase_platform_def)
  show "users s' = users s" using arg_cong [OF e, of users] by (simp add: erase_platform_def)
  show "memberships s' = memberships s" using arg_cong [OF e, of memberships] by (simp add: erase_platform_def)
  show "projects s' = projects s" using arg_cong [OF e, of projects] by (simp add: erase_platform_def)
  show "corpora s' = corpora s" using arg_cong [OF e, of corpora] by (simp add: erase_platform_def)
  show "corpus_versions s' = corpus_versions s" using arg_cong [OF e, of corpus_versions] by (simp add: erase_platform_def)
  show "sentences s' = sentences s" using arg_cong [OF e, of sentences] by (simp add: erase_platform_def)
  show "runs s' = runs s" using arg_cong [OF e, of runs] by (simp add: erase_platform_def)
  show "run_events s' = run_events s" using arg_cong [OF e, of run_events] by (simp add: erase_platform_def)
  show "outbox_messages s' = outbox_messages s" using arg_cong [OF e, of outbox_messages] by (simp add: erase_platform_def)
  show "artifacts s' = artifacts s" using arg_cong [OF e, of artifacts] by (simp add: erase_platform_def)
  show "datg_publications s' = datg_publications s" using arg_cong [OF e, of datg_publications] by (simp add: erase_platform_def)
  show "execution_facts s' = execution_facts s" using arg_cong [OF e, of execution_facts] by (simp add: erase_platform_def)
  show "run_replays s' = run_replays s" using arg_cong [OF e, of run_replays] by (simp add: erase_platform_def)
  show "rate_windows s' = rate_windows s" using arg_cong [OF e, of rate_windows] by (simp add: erase_platform_def)
  show "maintenance_cursors s' = maintenance_cursors s" using arg_cong [OF e, of maintenance_cursors] by (simp add: erase_platform_def)
qed

section \<open>AuditWriter\<close>

definition find_head :: "uuid \<Rightarrow> db \<Rightarrow> audit_head option" where
  "find_head org s = find (\<lambda>h. h_organization h = org) (audit_heads s)"

definition audit_append ::
    "runtime \<Rightarrow> tenant_context \<Rightarrow> time \<Rightarrow> uuid \<Rightarrow> audit_identity \<Rightarrow> audit_action \<Rightarrow> resource_type \<Rightarrow> uuid
     \<Rightarrow> string option \<Rightarrow> metadata \<Rightarrow> db \<Rightarrow> exn + db" where
  "audit_append rt c now org actor action rtype rid request_id metadata s =
     bindr (normalize_audit_metadata action metadata) (\<lambda>normalized.
     bindr (safe_correlation_id request_id) (\<lambda>safe_request_id.
     bindr (ensure_platform_rows rt c org now s) (\<lambda>s.
     bindr (require (RuntimeError ''audit chain head is unavailable'') (find_head org s)) (\<lambda>head.
     bindr (ensure (is_sha256_hex (h_last_hash head)) (RuntimeError ''audit chain head is unavailable'')) (\<lambda>_.
     let payload = \<lparr>ap_organization = org, ap_sequence = Suc (h_last_sequence head),
           ap_actor_kind = ai_kind actor, ap_actor_id = ai_identifier actor, ap_action = action,
           ap_resource_type = rtype, ap_resource_id = rid, ap_request_id = safe_request_id,
           ap_occurred_at = now, ap_metadata = normalized, ap_previous_hash = h_last_hash head\<rparr> in
     bindr (audit_event_hash (rt_sha rt) payload) (\<lambda>event_hash.
     bindr (insert_row audit_events_ok \<lparr>ev_payload = payload, ev_event_hash = event_hash\<rparr> (audit_events s)) (\<lambda>events.
     Inr (s\<lparr>audit_events := events,
            audit_heads := update_where (\<lambda>h. h_organization h = org)
              (\<lambda>h. h\<lparr>h_last_sequence := Suc (h_last_sequence head), h_last_hash := event_hash,
                     h_updated_at := now\<rparr>) (audit_heads s)\<rparr>))))))))"

fun verify_events :: "runtime \<Rightarrow> string \<Rightarrow> nat \<Rightarrow> audit_event list \<Rightarrow> exn + (string \<times> nat) option" where
  "verify_events rt previous expected [] = Inr (Some (previous, expected))"
| "verify_events rt previous expected (e # es) =
     (if ap_sequence (ev_payload e) \<noteq> expected \<or> ap_previous_hash (ev_payload e) \<noteq> previous then Inr None
      else bindr (audit_event_hash (rt_sha rt) (ev_payload e)) (\<lambda>expected_hash.
        if ev_event_hash e \<noteq> expected_hash then Inr None
        else verify_events rt (ev_event_hash e) (Suc expected) es))"

definition organization_events :: "uuid \<Rightarrow> db \<Rightarrow> audit_event list" where
  "organization_events org s = filter (\<lambda>e. ap_organization (ev_payload e) = org) (audit_events s)"

definition audit_verify :: "runtime \<Rightarrow> uuid \<Rightarrow> db \<Rightarrow> exn + bool" where
  "audit_verify rt org s =
     (case find_head org s of
        None \<Rightarrow> Inr False
      | Some head \<Rightarrow>
          bindr (verify_events rt audit_genesis_hash 1
            (sort_key (\<lambda>e. ap_sequence (ev_payload e)) (organization_events org s))) (\<lambda>r.
          case r of
            None \<Rightarrow> Inr False
          | Some (previous, expected) \<Rightarrow>
              Inr (h_last_sequence head = expected - 1 \<and> h_last_hash head = previous)))"

section \<open>Chains\<close>

lemma normalize_audit_metadata_iff:
  "normalize_audit_metadata action m = Inr n \<longleftrightarrow>
     list_all (\<lambda>(k, v). k \<in> set (audit_metadata_keys action)) m \<and> \<not> has_other (JObj m) \<and> \<not> has_non_finite (JObj m)
     \<and> length (encode (canon (JObj m))) \<le> 2048 \<and> JObj n = canon (JObj m)"
  by (auto simp: normalize_audit_metadata_def simp del: has_other.simps has_non_finite.simps encode.simps)

lemma normalize_audit_metadata_idem:
  assumes "normalize_audit_metadata action m = Inr n"
  shows "normalize_audit_metadata action n = Inr n"
proof -
  from assms have n: "JObj n = canon (JObj m)" by (simp add: normalize_audit_metadata_iff)
  then have c: "canon (JObj n) = JObj n" by (metis canon_canon)
  have keys: "list_all (\<lambda>(k, v). k \<in> set (audit_metadata_keys action)) n"
    using assms n by (force simp: normalize_audit_metadata_iff list_all_iff)
  have "has_other (JObj n) = has_other (JObj m)" "has_non_finite (JObj n) = has_non_finite (JObj m)"
    by (simp_all only: n has_other_canon has_non_finite_canon)
  with keys c n assms show ?thesis
    by (simp add: normalize_audit_metadata_iff del: has_other.simps has_non_finite.simps canon.simps encode.simps)
qed

lemma verify_events_append:
  "verify_events rt p n (es @ fs) =
     bindr (verify_events rt p n es) (\<lambda>r. case r of None \<Rightarrow> Inr None | Some (q, m) \<Rightarrow> verify_events rt q m fs)"
  by (induction rt p n es rule: verify_events.induct) (auto simp: bindr_assoc intro!: arg_cong2 [where f = bindr])

lemma verify_events_length:
  "verify_events rt p n es = Inr (Some (q, m)) \<Longrightarrow> m = n + length es"
  by (induction rt p n es rule: verify_events.induct) (auto split: if_splits)

lemma verify_events_sequences:
  "verify_events rt p n es = Inr (Some (q, m)) \<Longrightarrow> map (\<lambda>e. ap_sequence (ev_payload e)) es = [n..<n + length es]"
proof (induction rt p n es rule: verify_events.induct)
  case (2 rt p n e es)
  then show ?case by (auto split: if_splits simp: upt_rec [of n])
qed simp

text \<open>The chain of one organization verifies and ends in its head.\<close>

definition chain_ok :: "runtime \<Rightarrow> db \<Rightarrow> uuid \<Rightarrow> bool" where
  "chain_ok rt s org \<longleftrightarrow>
     (case find_head org s of
        None \<Rightarrow> organization_events org s = []
      | Some h \<Rightarrow> is_sha256_hex (h_last_hash h) \<and>
          verify_events rt audit_genesis_hash 1 (organization_events org s)
            = Inr (Some (h_last_hash h, Suc (h_last_sequence h))))"

definition audit_ok :: "runtime \<Rightarrow> db \<Rightarrow> bool" where
  "audit_ok rt s \<longleftrightarrow> (\<forall>org. chain_ok rt s org)"

lemma chain_ok_cong:
  "organization_events org t = organization_events org s \<Longrightarrow> find_head org t = find_head org s \<Longrightarrow>
   chain_ok rt t org = chain_ok rt s org"
  by (simp only: chain_ok_def)

lemma audit_ok_cong:
  "audit_events t = audit_events s \<Longrightarrow> audit_heads t = audit_heads s \<Longrightarrow> audit_ok rt t = audit_ok rt s"
proof -
  assume eq: "audit_events t = audit_events s" "audit_heads t = audit_heads s"
  have "chain_ok rt t org = chain_ok rt s org" for org
    by (rule chain_ok_cong) (simp_all add: organization_events_def find_head_def eq)
  then show ?thesis by (simp add: audit_ok_def)
qed

lemma audit_ok_empty: "audit_ok rt empty_db"
  by (simp add: audit_ok_def chain_ok_def find_head_def organization_events_def empty_db_def)

lemma chain_ok_verifies:
  "chain_ok rt s org \<Longrightarrow> find_head org s = Some h \<Longrightarrow> audit_verify rt org s = Inr True"
proof -
  assume ok: "chain_ok rt s org" and h: "find_head org s = Some h"
  then have v: "verify_events rt audit_genesis_hash 1 (organization_events org s)
      = Inr (Some (h_last_hash h, Suc (h_last_sequence h)))" by (simp add: chain_ok_def)
  have "sorted (map (\<lambda>e. ap_sequence (ev_payload e)) (organization_events org s))"
    unfolding verify_events_sequences [OF v] by (rule sorted_upt)
  then have "sort_key (\<lambda>e. ap_sequence (ev_payload e)) (organization_events org s) = organization_events org s"
    by (rule sort_key_id_if_sorted)
  with v h show ?thesis by (simp add: audit_verify_def)
qed

section \<open>Appending keeps every chain\<close>

definition digest_ok :: "runtime \<Rightarrow> bool" where
  "digest_ok rt \<longleftrightarrow> (\<forall>x. is_sha256_hex (rt_sha rt x))"

lemma genesis_hash_is_hash: "is_sha256_hex audit_genesis_hash"
  by (simp add: audit_genesis_hash_def is_sha256_hex_def list_all_iff is_hex_char_def is_digit_char_def)

lemma insert_platform_rows_chain: "chain_ok rt s o' \<Longrightarrow> chain_ok rt (insert_platform_rows org now s) o'"
  by (auto simp: chain_ok_def find_head_def insert_platform_rows_def find_insert_ignore fresh_head_def
      organization_events_def genesis_hash_is_hash split: option.splits)

lemma ensure_platform_rows_audit_ok:
  "audit_ok rt s \<Longrightarrow> ensure_platform_rows rt c org now s = Inr s' \<Longrightarrow> audit_ok rt s'"
  by (auto simp: audit_ok_def insert_platform_rows_chain dest!: ensure_platform_rows_cases)

text \<open>What a successful append does, step by step.\<close>

lemma audit_append_cases:
  assumes "audit_append rt c now org actor action rtype rid request_id metadata s = Inr s'"
  obtains normalized safe_request_id s1 head payload event_hash where
    "normalize_audit_metadata action metadata = Inr normalized"
    and "ensure_platform_rows rt c org now s = Inr s1"
    and "find_head org s1 = Some head" and "is_sha256_hex (h_last_hash head)"
    and "payload = \<lparr>ap_organization = org, ap_sequence = Suc (h_last_sequence head),
           ap_actor_kind = ai_kind actor, ap_actor_id = ai_identifier actor, ap_action = action,
           ap_resource_type = rtype, ap_resource_id = rid, ap_request_id = safe_request_id,
           ap_occurred_at = now, ap_metadata = normalized, ap_previous_hash = h_last_hash head\<rparr>"
    and "audit_event_hash (rt_sha rt) payload = Inr event_hash"
    and "s' = s1\<lparr>audit_events := audit_events s1 @ [\<lparr>ev_payload = payload, ev_event_hash = event_hash\<rparr>],
           audit_heads := update_where (\<lambda>h. h_organization h = org)
             (\<lambda>h. h\<lparr>h_last_sequence := Suc (h_last_sequence head), h_last_hash := event_hash,
                    h_updated_at := now\<rparr>) (audit_heads s1)\<rparr>"
  using assms by (auto simp: audit_append_def Let_def)

lemma audit_append_frame:
  assumes "audit_append rt c now org actor action rtype rid request_id metadata s = Inr s'"
  shows "platform_frame s s'" and "quota_reservations s' = quota_reservations s"
    and "policy_of o' s' = policy_of o' s" and "usage_of o' s' = usage_of o' s"
proof -
  obtain s1 hs es where s1: "ensure_platform_rows rt c org now s = Inr s1"
    and s': "s' = s1\<lparr>audit_events := es, audit_heads := hs\<rparr>"
    using assms by (rule audit_append_cases) blast
  have view: "policy_of o' s' = policy_of o' s1 \<and> usage_of o' s' = usage_of o' s1" for o'
    by (simp add: s' policy_of_def usage_of_def find_policy_def find_usage_def)
  show "policy_of o' s' = policy_of o' s" "usage_of o' s' = usage_of o' s"
    using ensure_platform_rows_cases [OF s1] view by auto
  show "platform_frame s s'" "quota_reservations s' = quota_reservations s"
    using ensure_platform_rows_cases [OF s1]
    by (auto simp: s' platform_frame_def erase_platform_def insert_platform_rows_def)
qed

lemma audit_append_audit_ok:
  assumes "digest_ok rt" and "audit_ok rt s"
    and "audit_append rt c now org actor action rtype rid request_id metadata s = Inr s'"
  shows "audit_ok rt s'"
  using assms(3)
proof (rule audit_append_cases)
  fix normalized safe_request_id s1 head payload event_hash
  assume ens: "ensure_platform_rows rt c org now s = Inr s1"
    and head: "find_head org s1 = Some head"
    and payload: "payload = \<lparr>ap_organization = org, ap_sequence = Suc (h_last_sequence head),
           ap_actor_kind = ai_kind actor, ap_actor_id = ai_identifier actor, ap_action = action,
           ap_resource_type = rtype, ap_resource_id = rid, ap_request_id = safe_request_id,
           ap_occurred_at = now, ap_metadata = normalized, ap_previous_hash = h_last_hash head\<rparr>"
    and hash: "audit_event_hash (rt_sha rt) payload = Inr event_hash"
    and s': "s' = s1\<lparr>audit_events := audit_events s1 @ [\<lparr>ev_payload = payload, ev_event_hash = event_hash\<rparr>],
           audit_heads := update_where (\<lambda>h. h_organization h = org)
             (\<lambda>h. h\<lparr>h_last_sequence := Suc (h_last_sequence head), h_last_hash := event_hash,
                    h_updated_at := now\<rparr>) (audit_heads s1)\<rparr>"
  have ok1: "chain_ok rt s1 o'" for o'
    using ensure_platform_rows_audit_ok [OF assms(2) ens] by (simp add: audit_ok_def)
  have hash_hex: "is_sha256_hex event_hash"
    using hash assms(1) by (auto simp: audit_event_hash_def digest_ok_def)
  have fh: "find_head o' s' = (if o' = org then Some (head\<lparr>h_last_sequence := Suc (h_last_sequence head),
      h_last_hash := event_hash, h_updated_at := now\<rparr>) else find_head o' s1)" for o'
    using head by (simp add: s' find_head_def find_update_where_key)
  have ev: "organization_events o' s' = organization_events o' s1 @
      (if o' = org then [\<lparr>ev_payload = payload, ev_event_hash = event_hash\<rparr>] else [])" for o'
    by (simp add: s' organization_events_def payload)
  have "chain_ok rt s' o'" for o'
  proof (cases "o' = org")
    case True
    from ok1 [of org] head have "verify_events rt audit_genesis_hash 1 (organization_events org s1)
        = Inr (Some (h_last_hash head, Suc (h_last_sequence head)))" by (simp add: chain_ok_def)
    with True hash hash_hex show ?thesis
      by (simp add: chain_ok_def fh ev verify_events_append) (simp add: payload)
  next
    case False
    then have "organization_events o' s' = organization_events o' s1" and "find_head o' s' = find_head o' s1"
      by (simp_all add: fh ev)
    then have "chain_ok rt s' o' = chain_ok rt s1 o'" by (rule chain_ok_cong)
    with ok1 [of o'] show ?thesis by simp
  qed
  then show ?thesis by (simp add: audit_ok_def)
qed

section \<open>Tamper evidence\<close>

text \<open>
  The interface of a hash chain: entries with the bytes their digest is taken of, the link to the
  entry before and the digest stored with them. The one law: the bytes determine the link.
\<close>

locale hash_chain =
  fixes bytes :: "'e \<Rightarrow> string option"
    and link :: "'e \<Rightarrow> string"
    and stored :: "'e \<Rightarrow> string"
    and good :: "'e \<Rightarrow> bool"
  assumes bytes_bind_link:
    "good a \<Longrightarrow> good b \<Longrightarrow> bytes a = Some x \<Longrightarrow> bytes b = Some x \<Longrightarrow> link a = link b"
begin

fun chained :: "(string \<Rightarrow> string) \<Rightarrow> string \<Rightarrow> 'e list \<Rightarrow> string \<Rightarrow> bool" where
  "chained sha first [] final = (first = final)"
| "chained sha first (e # es) final =
     (link e = first \<and> (\<exists>x. bytes e = Some x \<and> stored e = sha x) \<and> chained sha (stored e) es final)"

lemma chained_snoc:
  "chained sha first (es @ [e]) final \<longleftrightarrow>
     chained sha first es (link e) \<and> (\<exists>x. bytes e = Some x \<and> stored e = sha x) \<and> stored e = final"
  by (induction es arbitrary: first) auto

text \<open>Two chains of one length that end in one digest consist of the same bytes.\<close>

lemma chains_agree:
  assumes "chained sha first xs final" and "chained sha first ys final" and "length xs = length ys"
    and "list_all good xs" and "list_all good ys"
    and inj: "\<And>a b x y. a \<in> set xs \<Longrightarrow> b \<in> set ys \<Longrightarrow> bytes a = Some x \<Longrightarrow> bytes b = Some y \<Longrightarrow> sha x = sha y \<Longrightarrow> x = y"
  shows "map bytes xs = map bytes ys"
  using assms
proof (induction xs arbitrary: ys final rule: rev_induct)
  case Nil
  then show ?case by simp
next
  case (snoc a as)
  from snoc.prems(3) obtain b bs where ys: "ys = bs @ [b]" by (cases ys rule: rev_cases) auto
  from snoc.prems(1,2) ys obtain x y where x: "bytes a = Some x" "stored a = sha x" "stored a = final"
    and y: "bytes b = Some y" "stored b = sha y" "stored b = final"
    and chains: "chained sha first as (link a)" "chained sha first bs (link b)"
    by (auto simp: chained_snoc)
  have "x = y" using snoc.prems(6) [of a b x y] ys x y by simp
  moreover have "link a = link b"
    using bytes_bind_link [of a b x] snoc.prems(4,5) ys x y \<open>x = y\<close> by simp
  moreover have "map bytes as = map bytes bs"
  proof (rule snoc.IH)
    show "chained sha first as (link a)" "chained sha first bs (link a)"
      using chains \<open>link a = link b\<close> by simp_all
    show "length as = length bs" "list_all good as" "list_all good bs"
      using snoc.prems(3-5) ys by simp_all
    show "x = y" if "a \<in> set as" "b \<in> set bs" "bytes a = Some x" "bytes b = Some y" "sha x = sha y" for a b x y
      using snoc.prems(6) [of a b x y] that ys by simp
  qed
  ultimately show ?case using ys x y by simp
qed

end

text \<open>The digest of an audit event is taken of its canonical document.\<close>

definition event_bytes :: "audit_event \<Rightarrow> string option" where
  "event_bytes e =
     (case bindr (audit_event_document (ev_payload e)) dumps of Inl _ \<Rightarrow> None | Inr x \<Rightarrow> Some x)"

definition event_link :: "audit_event \<Rightarrow> string" where
  "event_link e = ap_previous_hash (ev_payload e)"

definition event_good :: "audit_event \<Rightarrow> bool" where
  "event_good e \<longleftrightarrow> wf_json (JObj (ap_metadata (ev_payload e)))"

text \<open>Two payloads that state the same evidence: equal up to the order of metadata keys and to how
  the instant is written.\<close>

definition same_evidence :: "audit_payload \<Rightarrow> audit_payload \<Rightarrow> bool" where
  "same_evidence p q \<longleftrightarrow> ap_organization p = ap_organization q \<and> ap_sequence p = ap_sequence q
     \<and> ap_actor_kind p = ap_actor_kind q \<and> ap_actor_id p = ap_actor_id q \<and> ap_action p = ap_action q
     \<and> ap_resource_type p = ap_resource_type q \<and> ap_resource_id p = ap_resource_id q
     \<and> ap_request_id p = ap_request_id q \<and> canonical_timestamp (ap_occurred_at p) = canonical_timestamp (ap_occurred_at q)
     \<and> canon (JObj (ap_metadata p)) = canon (JObj (ap_metadata q)) \<and> ap_previous_hash p = ap_previous_hash q"

lemma safe_audit_actor_eq_Inr: "safe_audit_actor a = Inr b \<Longrightarrow> b = a"
  by (auto simp: safe_audit_actor_def split: if_splits)

lemma safe_correlation_id_eq_Inr: "safe_correlation_id a = Inr b \<Longrightarrow> b = a"
  by (auto simp: safe_correlation_id_def split: if_splits option.splits)

lemma json_option_inject: "json_option a = json_option b \<longleftrightarrow> a = b"
  by (auto simp: json_option_def split: option.splits)

lemma wf_json_option [simp]: "wf_json (json_option a)"
  by (simp add: json_option_def split: option.splits)

definition audit_document :: "audit_payload \<Rightarrow> metadata \<Rightarrow> json" where
  "audit_document p m = JObj
     [(''action'', JStr (audit_action_value (ap_action p))),
      (''actor_id'', JStr (ap_actor_id p)),
      (''actor_kind'', JStr (actor_kind_value (ap_actor_kind p))),
      (''metadata'', JObj m),
      (''occurred_at'', JStr (canonical_timestamp (ap_occurred_at p))),
      (''organization_id'', JStr (uuid_str (ap_organization p))),
      (''previous_hash'', JStr (ap_previous_hash p)),
      (''request_id'', json_option (ap_request_id p)),
      (''resource_id'', JStr (uuid_str (ap_resource_id p))),
      (''resource_type'', JStr (resource_type_value (ap_resource_type p))),
      (''sequence'', JInt (int (ap_sequence p)))]"

lemma audit_event_document_eq_Inr:
  "audit_event_document p = Inr d \<Longrightarrow> \<exists>m. JObj m = canon (JObj (ap_metadata p)) \<and> d = audit_document p m"
  by (auto simp: audit_event_document_def audit_document_def normalize_audit_metadata_iff
      dest!: safe_audit_actor_eq_Inr safe_correlation_id_eq_Inr simp del: canon.simps)

lemma canon_json_option [simp]: "canon (json_option v) = json_option v"
  by (simp add: json_option_def split: option.splits)

lemma canon_audit_document: "canon (JObj m) = JObj m \<Longrightarrow> canon (audit_document p m) = audit_document p m"
  unfolding audit_document_def by (subst canon.simps(2)) (simp del: canon.simps(2))

lemma audit_document_inject:
  "audit_document p m = audit_document q n \<Longrightarrow> JObj m = canon (JObj (ap_metadata p)) \<Longrightarrow>
   JObj n = canon (JObj (ap_metadata q)) \<Longrightarrow> same_evidence p q"
  by (simp add: audit_document_def same_evidence_def json_option_inject del: canon.simps)

lemma event_bytes_eq_Some:
  "event_bytes e = Some x \<longleftrightarrow> (\<exists>d. audit_event_document (ev_payload e) = Inr d \<and> dumps d = Inr x)"
  by (auto simp: event_bytes_def simp del: dumps_eq_Inr split: sum.splits)

lemma event_document_canonical:
  assumes "audit_event_document (ev_payload e) = Inr d" and "event_good e"
  shows "\<exists>m. JObj m = canon (JObj (ap_metadata (ev_payload e))) \<and> d = audit_document (ev_payload e) m
     \<and> canon d = d \<and> wf_json d"
proof -
  obtain m where m: "JObj m = canon (JObj (ap_metadata (ev_payload e)))"
    and d: "d = audit_document (ev_payload e) m"
    using audit_event_document_eq_Inr [OF assms(1)] by blast
  have "canon (JObj m) = JObj m" and "wf_json (JObj m)"
    using assms(2) by (simp_all only: m canon_canon wf_json_canon event_good_def)
  then have "canon d = d" and "wf_json d"
    by (simp_all add: d canon_audit_document del: canon.simps) (simp add: audit_document_def)
  with m d show ?thesis by blast
qed

lemma event_bytes_bind:
  assumes "event_good a" and "event_good b" and "event_bytes a = Some x" and "event_bytes b = Some x"
  shows "same_evidence (ev_payload a) (ev_payload b)"
proof -
  obtain da db where docs: "audit_event_document (ev_payload a) = Inr da" "audit_event_document (ev_payload b) = Inr db"
    and x: "dumps da = Inr x" "dumps db = Inr x"
    using assms(3,4) unfolding event_bytes_eq_Some by blast
  obtain ma where ma: "JObj ma = canon (JObj (ap_metadata (ev_payload a)))"
      "da = audit_document (ev_payload a) ma" "canon da = da" "wf_json da"
    using event_document_canonical [OF docs(1) assms(1)] by blast
  obtain mb where mb: "JObj mb = canon (JObj (ap_metadata (ev_payload b)))"
      "db = audit_document (ev_payload b) mb" "canon db = db" "wf_json db"
    using event_document_canonical [OF docs(2) assms(2)] by blast
  have "canon da = canon db" using ma(4) mb(4) x by (rule dumps_inject)
  with ma mb have "audit_document (ev_payload a) ma = audit_document (ev_payload b) mb" by simp
  then show ?thesis using ma(1) mb(1) by (rule audit_document_inject)
qed

interpretation audit_chain: hash_chain event_bytes event_link ev_event_hash event_good
proof
  show "event_link a = event_link b"
    if "event_good a" "event_good b" "event_bytes a = Some x" "event_bytes b = Some x" for a b x
    using event_bytes_bind [OF that] by (simp add: event_link_def same_evidence_def)
qed

lemma verify_events_chained:
  "verify_events rt p n es = Inr (Some (q, m)) \<Longrightarrow> audit_chain.chained (rt_sha rt) p es q"
proof (induction rt p n es rule: verify_events.induct)
  case (2 rt p n e es)
  then have step: "verify_events rt (ev_event_hash e) (Suc n) es = Inr (Some (q, m))"
    and p: "event_link e = p" and h: "audit_event_hash (rt_sha rt) (ev_payload e) = Inr (ev_event_hash e)"
    by (auto simp: event_link_def split: if_splits)
  from h obtain x where "event_bytes e = Some x" and "ev_event_hash e = rt_sha rt x"
    unfolding event_bytes_eq_Some by (auto simp: audit_event_hash_def)
  with 2 step p show ?case by (auto split: if_splits)
qed simp

lemma chained_bytes: "audit_chain.chained sha p es q \<Longrightarrow> e \<in> set es \<Longrightarrow> \<exists>x. event_bytes e = Some x"
  by (induction es arbitrary: p) auto

text \<open>
  The audit trail is tamper evident: two event tables that verify against one trusted head state
  the same evidence, entry by entry, unless the digest collides on two of their documents.
\<close>

lemma verified_chains_agree:
  assumes "verify_events rt p 1 xs = Inr (Some (q, m))" and "verify_events rt p 1 ys = Inr (Some (q, m))"
    and "list_all event_good xs" and "list_all event_good ys"
    and "\<And>a b x y. a \<in> set xs \<Longrightarrow> b \<in> set ys \<Longrightarrow> event_bytes a = Some x \<Longrightarrow> event_bytes b = Some y \<Longrightarrow>
      rt_sha rt x = rt_sha rt y \<Longrightarrow> x = y"
  shows "list_all2 (\<lambda>a b. same_evidence (ev_payload a) (ev_payload b)) xs ys"
proof -
  have chains: "audit_chain.chained (rt_sha rt) p xs q" "audit_chain.chained (rt_sha rt) p ys q"
    using assms(1,2) by (auto intro: verify_events_chained)
  have len: "length xs = length ys"
    using verify_events_length [OF assms(1)] verify_events_length [OF assms(2)] by simp
  have eq: "map event_bytes xs = map event_bytes ys"
    by (rule audit_chain.chains_agree [OF chains len assms(3,4)]) (rule assms(5))
  show ?thesis
  proof (rule list_all2_all_nthI [OF len])
    fix i assume i: "i < length xs"
    with len have "verify_events rt p 1 xs = Inr (Some (q, m))" and mem: "xs ! i \<in> set xs" "ys ! i \<in> set ys"
      using assms(1) by simp_all
    from eq i len have same: "event_bytes (xs ! i) = event_bytes (ys ! i)" by (metis nth_map)
    obtain x where "event_bytes (xs ! i) = Some x"
      using chained_bytes [OF chains(1) mem(1)] by blast
    with same mem assms(3,4) show "same_evidence (ev_payload (xs ! i)) (ev_payload (ys ! i))"
      by (intro event_bytes_bind [of _ _ x]) (auto simp: list_all_iff)
  qed
qed

end
