(* ===== verification/Quota.thy ===== *)
theory Quota imports AuditTrail begin

text \<open>
  src/corpuskit/services/platform.py, \<open>QuotaManager\<close>: capacity reservations of runs and the
  usage counters of an organization, changed inside the caller's transaction.
\<close>

section \<open>Durations\<close>

definition round_half_even :: "rat \<Rightarrow> int" where
  "round_half_even x =
     (let f = \<lfloor>x\<rfloor>; r = x - of_int f in
      if r < 1 / 2 then f else if 1 / 2 < r then f + 1 else if even f then f else f + 1)"

definition seconds_delta :: "rat \<Rightarrow> int" where
  "seconds_delta x = round_half_even (x * 1000000)"

definition default_run_deadline_seconds :: rat where
  "default_run_deadline_seconds = 300"

definition job_reservation_grace_seconds :: rat where
  "job_reservation_grace_seconds = 300"

text \<open>\<open>timedelta(seconds=(deadline or default) + grace)\<close>: an absent or zero deadline is the default.\<close>

definition reservation_lease :: "rat option \<Rightarrow> int" where
  "reservation_lease deadline =
     seconds_delta ((case deadline of None \<Rightarrow> default_run_deadline_seconds
        | Some d \<Rightarrow> if d = 0 then default_run_deadline_seconds else d) + job_reservation_grace_seconds)"

section \<open>Locked platform rows\<close>

definition locked :: "runtime \<Rightarrow> tenant_context \<Rightarrow> time \<Rightarrow> uuid \<Rightarrow> db \<Rightarrow> exn + (quota_policy \<times> quota_usage) \<times> db" where
  "locked rt c now org s =
     bindr (ensure_platform_rows rt c org now s) (\<lambda>s.
     case (find_policy org s, find_usage org s) of
       (Some policy, Some usage) \<Rightarrow> Inr ((policy, usage), s)
     | _ \<Rightarrow> Inl (RuntimeError ''quota state is unavailable''))"

definition update_usage :: "uuid \<Rightarrow> (quota_usage \<Rightarrow> quota_usage) \<Rightarrow> db \<Rightarrow> db" where
  "update_usage org f s =
     s\<lparr>quota_usages := update_where (\<lambda>q. qu_organization q = org) f (quota_usages s)\<rparr>"

section \<open>Run capacity\<close>

definition find_reservation :: "uuid \<Rightarrow> uuid \<Rightarrow> db \<Rightarrow> quota_reservation option" where
  "find_reservation org run_id s =
     find (\<lambda>q. qr_organization q = org \<and> qr_run q = run_id) (quota_reservations s)"

definition active_jobs :: "quota_class \<Rightarrow> quota_usage \<Rightarrow> int" where
  "active_jobs k u = (case k of CPU \<Rightarrow> qu_active_cpu_jobs u | EXPENSIVE \<Rightarrow> qu_active_expensive_jobs u)"

definition max_jobs :: "quota_class \<Rightarrow> quota_policy_values \<Rightarrow> int" where
  "max_jobs k p = (case k of CPU \<Rightarrow> max_concurrent_cpu_jobs p | EXPENSIVE \<Rightarrow> max_concurrent_expensive_jobs p)"

definition add_active_jobs :: "quota_class \<Rightarrow> int \<Rightarrow> quota_usage \<Rightarrow> quota_usage" where
  "add_active_jobs k n u =
     (case k of CPU \<Rightarrow> u\<lparr>qu_active_cpu_jobs := qu_active_cpu_jobs u + n\<rparr>
      | EXPENSIVE \<Rightarrow> u\<lparr>qu_active_expensive_jobs := qu_active_expensive_jobs u + n\<rparr>)"

definition submit_policy_error :: "exn \<Rightarrow> exn" where
  "submit_policy_error e =
     (case e of ValidationError \<Rightarrow> InvalidRequestError ''run.submit''
      | ValueError _ \<Rightarrow> QuotaExceededError ''run.submit'' None
      | _ \<Rightarrow> e)"

definition reserve_run ::
    "runtime \<Rightarrow> tenant_context \<Rightarrow> time \<Rightarrow> uuid \<Rightarrow> uuid \<Rightarrow> run \<Rightarrow> db \<Rightarrow> exn + bool \<times> db" where
  "reserve_run rt c now qid org run s =
     (let k = run_quota_class (r_kind run) in
      case find_reservation org (r_id run) s of
        Some existing \<Rightarrow>
          if qr_class existing = k \<and> qr_state existing = RES_ACTIVE then Inr (False, s)
          else Inl (RuntimeError ''run quota reservation is inconsistent'')
      | None \<Rightarrow>
          bindr (locked rt c now org s) (\<lambda>((policy, usage), s).
          bindr (rescue (validate_run_resource_policy (rt_parsers rt) (r_kind run) (r_spec run) (qp_values policy))
            (\<lambda>e. Inl (submit_policy_error e))) (\<lambda>deadline.
          bindr (ensure (active_jobs k usage < max_jobs k (qp_values policy))
            (QuotaExceededError ''run.submit'' (Some 30))) (\<lambda>_.
          bindr (insert_row quota_reservations_ok
            \<lparr>qr_id = qid, qr_organization = org, qr_run = r_id run, qr_class = k, qr_amount = 1,
             qr_state = RES_ACTIVE, qr_expires_at = now + reservation_lease deadline, qr_released_at = None,
             qr_created_at = now\<rparr> (quota_reservations s)) (\<lambda>rows.
          Inr (True, update_usage org (\<lambda>u. (add_active_jobs k 1 u)\<lparr>qu_updated_at := now\<rparr>)
            (s\<lparr>quota_reservations := rows\<rparr>)))))))"

definition renew_run :: "runtime \<Rightarrow> time \<Rightarrow> uuid \<Rightarrow> run \<Rightarrow> db \<Rightarrow> exn + bool \<times> db" where
  "renew_run rt now org run s =
     (case find_reservation org (r_id run) s of
        None \<Rightarrow> Inr (False, s)
      | Some reservation \<Rightarrow>
          if qr_state reservation \<noteq> RES_ACTIVE then Inr (False, s)
          else
            bindr (require (RuntimeError ''quota policy is unavailable'') (find_policy org s)) (\<lambda>policy.
            bindr (reraise is_value_error (RuntimeError ''persisted run no longer satisfies quota policy'')
              (validate_run_resource_policy (rt_parsers rt) (r_kind run) (r_spec run) (qp_values policy))) (\<lambda>deadline.
            Inr (True, s\<lparr>quota_reservations :=
              update_where (\<lambda>q. qr_id q = qr_id reservation)
                (\<lambda>q. q\<lparr>qr_expires_at := now + reservation_lease deadline\<rparr>) (quota_reservations s)\<rparr>))))"

definition inconsistent_usage :: "quota_class \<Rightarrow> exn" where
  "inconsistent_usage k = RuntimeError (case k of CPU \<Rightarrow> ''CPU quota usage is inconsistent''
     | EXPENSIVE \<Rightarrow> ''expensive quota usage is inconsistent'')"

definition release_run ::
    "runtime \<Rightarrow> tenant_context \<Rightarrow> time \<Rightarrow> uuid \<Rightarrow> uuid \<Rightarrow> reservation_state \<Rightarrow> db \<Rightarrow> exn + bool \<times> db" where
  "release_run rt c now org run_id state s =
     (case find_reservation org run_id s of
        None \<Rightarrow> Inr (False, s)
      | Some reservation \<Rightarrow>
          if qr_state reservation \<noteq> RES_ACTIVE then Inr (False, s)
          else
            bindr (locked rt c now org s) (\<lambda>((policy, usage), s).
            bindr (ensure (0 < active_jobs (qr_class reservation) usage)
              (inconsistent_usage (qr_class reservation))) (\<lambda>_.
            Inr (True, update_usage org (\<lambda>u. (add_active_jobs (qr_class reservation) (- 1) u)\<lparr>qu_updated_at := now\<rparr>)
              (s\<lparr>quota_reservations :=
                update_where (\<lambda>q. qr_id q = qr_id reservation)
                  (\<lambda>q. q\<lparr>qr_state := state, qr_released_at := Some now\<rparr>) (quota_reservations s)\<rparr>)))))"

section \<open>Artifacts and corpus sentences\<close>

definition consume_artifact ::
    "runtime \<Rightarrow> tenant_context \<Rightarrow> time \<Rightarrow> uuid \<Rightarrow> artifact_kind \<Rightarrow> int \<Rightarrow> db \<Rightarrow> exn + db" where
  "consume_artifact rt c now org kind size_bytes s =
     bindr (ensure (0 < size_bytes) (ValueError ''artifact usage must be positive'')) (\<lambda>_.
     bindr (locked rt c now org s) (\<lambda>((policy, usage), s).
     bindr (ensure (\<not> (kind \<in> {CHECKPOINT, MODEL_ADAPTER} \<and> max_checkpoint_bytes (qp_values policy) < size_bytes))
       (QuotaExceededError ''artifact.create'' None)) (\<lambda>_.
     bindr (ensure (qu_artifact_count usage + 1 \<le> max_artifact_count (qp_values policy))
       (QuotaExceededError ''artifact.create'' None)) (\<lambda>_.
     bindr (ensure (qu_artifact_bytes usage + size_bytes \<le> max_artifact_bytes (qp_values policy))
       (QuotaExceededError ''artifact.create'' None)) (\<lambda>_.
     Inr (update_usage org (\<lambda>u. u\<lparr>qu_artifact_count := qu_artifact_count u + 1,
       qu_artifact_bytes := qu_artifact_bytes u + size_bytes, qu_updated_at := now\<rparr>) s))))))"

definition release_artifact :: "runtime \<Rightarrow> tenant_context \<Rightarrow> time \<Rightarrow> uuid \<Rightarrow> int \<Rightarrow> db \<Rightarrow> exn + db" where
  "release_artifact rt c now org size_bytes s =
     bindr (locked rt c now org s) (\<lambda>((policy, usage), s).
     bindr (ensure (0 < qu_artifact_count usage \<and> size_bytes \<le> qu_artifact_bytes usage)
       (RuntimeError ''artifact quota usage is inconsistent'')) (\<lambda>_.
     Inr (update_usage org (\<lambda>u. u\<lparr>qu_artifact_count := qu_artifact_count u - 1,
       qu_artifact_bytes := qu_artifact_bytes u - size_bytes, qu_updated_at := now\<rparr>) s)))"

definition consume_corpus_sentences ::
    "runtime \<Rightarrow> tenant_context \<Rightarrow> time \<Rightarrow> uuid \<Rightarrow> int \<Rightarrow> string \<Rightarrow> db \<Rightarrow> exn + db" where
  "consume_corpus_sentences rt c now org sentence_count operation s =
     bindr (ensure (0 < sentence_count) (ValueError ''corpus sentence usage must be positive'')) (\<lambda>_.
     bindr (locked rt c now org s) (\<lambda>((policy, usage), s).
     bindr (ensure (qu_corpus_sentences usage + sentence_count \<le> max_corpus_sentences (qp_values policy))
       (QuotaExceededError operation None)) (\<lambda>_.
     Inr (update_usage org (\<lambda>u. u\<lparr>qu_corpus_sentences := qu_corpus_sentences u + sentence_count,
       qu_updated_at := now\<rparr>) s))))"

definition release_corpus_sentences ::
    "runtime \<Rightarrow> tenant_context \<Rightarrow> time \<Rightarrow> uuid \<Rightarrow> int \<Rightarrow> db \<Rightarrow> exn + db" where
  "release_corpus_sentences rt c now org sentence_count s =
     bindr (ensure (0 < sentence_count) (ValueError ''corpus sentence release must be positive'')) (\<lambda>_.
     bindr (locked rt c now org s) (\<lambda>((policy, usage), s).
     bindr (ensure (sentence_count \<le> qu_corpus_sentences usage)
       (RuntimeError ''corpus sentence quota usage is inconsistent'')) (\<lambda>_.
     Inr (update_usage org (\<lambda>u. u\<lparr>qu_corpus_sentences := qu_corpus_sentences u - sentence_count,
       qu_updated_at := now\<rparr>) s))))"

text \<open>\<open>QuotaUsageSnapshot\<close> holds the five counters of \<open>usage_counters\<close>.\<close>

record quota_snapshot =
  qs_policy :: quota_policy_values
  qs_usage :: usage_counters

definition quota_snapshot_of :: "runtime \<Rightarrow> tenant_context \<Rightarrow> time \<Rightarrow> uuid \<Rightarrow> db \<Rightarrow> exn + quota_snapshot \<times> db" where
  "quota_snapshot_of rt c now org s =
     bindr (locked rt c now org s) (\<lambda>((policy, usage), s).
     Inr (\<lparr>qs_policy = qp_values policy, qs_usage = counters_of usage\<rparr>, s))"

section \<open>What the operations change\<close>

lemma locked_cases:
  assumes "locked rt c now org s = Inr ((policy, usage), s')"
  shows "(s' = s \<or> s' = insert_platform_rows org now s) \<and> find_policy org s' = Some policy
    \<and> find_usage org s' = Some usage \<and> policy_of org s = qp_values policy \<and> usage_of org s = counters_of usage"
proof -
  from assms have ens: "ensure_platform_rows rt c org now s = Inr s'"
    and rows: "find_policy org s' = Some policy" "find_usage org s' = Some usage"
    by (auto simp: locked_def split: option.splits)
  from rows have "policy_of org s' = qp_values policy" "usage_of org s' = counters_of usage"
    by (simp_all add: policy_of_def usage_of_def)
  with ensure_platform_rows_cases [OF ens] rows show ?thesis by auto
qed

lemma find_usage_update:
  "(\<And>u. qu_organization (f u) = qu_organization u) \<Longrightarrow>
   find_usage o' (update_usage org f s) = (if o' = org then map_option f (find_usage o' s) else find_usage o' s)"
  by (simp add: find_usage_def update_usage_def find_update_where_key)

lemma usage_of_update:
  "(\<And>u. qu_organization (f u) = qu_organization u) \<Longrightarrow> find_usage org s = Some u \<Longrightarrow>
   usage_of o' (update_usage org f s) = (if o' = org then counters_of (f u) else usage_of o' s)"
  by (simp add: usage_of_def find_usage_update)

lemma policy_of_update_usage [simp]: "policy_of o' (update_usage org f s) = policy_of o' s"
  by (simp add: policy_of_def find_policy_def update_usage_def)

text \<open>The job counters of a usage snapshot, by quota class.\<close>

definition used_jobs :: "quota_class \<Rightarrow> usage_counters \<Rightarrow> int" where
  "used_jobs k c = (case k of CPU \<Rightarrow> used_cpu_jobs c | EXPENSIVE \<Rightarrow> used_expensive_jobs c)"

definition add_used_jobs :: "quota_class \<Rightarrow> int \<Rightarrow> usage_counters \<Rightarrow> usage_counters" where
  "add_used_jobs k n c =
     (case k of CPU \<Rightarrow> c\<lparr>used_cpu_jobs := used_cpu_jobs c + n\<rparr>
      | EXPENSIVE \<Rightarrow> c\<lparr>used_expensive_jobs := used_expensive_jobs c + n\<rparr>)"

lemma active_jobs_counters: "active_jobs k u = used_jobs k (counters_of u)"
  by (cases k) (simp_all add: active_jobs_def used_jobs_def counters_of_def)

lemma counters_add_active_jobs [simp]:
  "counters_of (add_active_jobs k n u) = add_used_jobs k n (counters_of u)"
  by (cases k) (simp_all add: add_active_jobs_def add_used_jobs_def counters_of_def)

lemma add_active_jobs_organization [simp]: "qu_organization (add_active_jobs k n u) = qu_organization u"
  by (cases k) (simp_all add: add_active_jobs_def)

lemma counters_updated_at [simp]: "counters_of (u\<lparr>qu_updated_at := t\<rparr>) = counters_of u"
  by (simp add: counters_of_def)

lemma used_jobs_add [simp]: "used_jobs k (add_used_jobs k' n c) = used_jobs k c + (if k = k' then n else 0)"
  by (cases k; cases k') (simp_all add: used_jobs_def add_used_jobs_def)

lemma add_used_jobs_other [simp]:
  "used_artifact_bytes (add_used_jobs k n c) = used_artifact_bytes c"
  "used_artifact_count (add_used_jobs k n c) = used_artifact_count c"
  "used_corpus_sentences (add_used_jobs k n c) = used_corpus_sentences c"
  by (cases k; simp add: add_used_jobs_def)+

lemma platform_frame_update [simp]:
  "platform_frame s (update_usage org f t) \<longleftrightarrow> platform_frame s t"
  "platform_frame s (t\<lparr>quota_reservations := rows\<rparr>) \<longleftrightarrow> platform_frame s t"
  by (simp_all add: platform_frame_def erase_platform_def update_usage_def)

lemma locked_frame: "locked rt c now org s = Inr (pu, s') \<Longrightarrow> platform_frame s s'"
  using locked_cases [of rt c now org s "fst pu" "snd pu" s'] by auto

lemma locked_audit_ok: "locked rt c now org s = Inr (pu, s') \<Longrightarrow> audit_ok rt s \<Longrightarrow> audit_ok rt s'"
proof -
  assume "locked rt c now org s = Inr (pu, s')" and "audit_ok rt s"
  moreover from this have "ensure_platform_rows rt c org now s = Inr s'"
    by (cases pu) (auto simp: locked_def split: option.splits)
  ultimately show ?thesis by (blast intro: ensure_platform_rows_audit_ok)
qed

lemma update_usage_audit_ok [simp]:
  "audit_ok rt (update_usage org f s) = audit_ok rt s"
  "audit_ok rt (s\<lparr>quota_reservations := rows\<rparr>) = audit_ok rt s"
  by (rule audit_ok_cong; simp add: update_usage_def)+

lemma locked_reservations: "locked rt c now org s = Inr (pu, s') \<Longrightarrow> quota_reservations s' = quota_reservations s"
  using locked_cases [of rt c now org s "fst pu" "snd pu" s'] by (auto simp: insert_platform_rows_def)

lemma locked_views:
  assumes "locked rt c now org s = Inr (pu, s')"
  shows "policy_of o' s' = policy_of o' s" and "usage_of o' s' = usage_of o' s"
  using locked_cases [of rt c now org s "fst pu" "snd pu" s'] assms by auto

text \<open>A reservation that was made: the row, the counter and the limit it stayed within.\<close>

lemma reserve_run_cases:
  assumes "reserve_run rt c now qid org run s = Inr (b, s')"
  obtains (kept) "\<not> b" "s' = s" "\<exists>q. find_reservation org (r_id run) s = Some q \<and> qr_state q = RES_ACTIVE
      \<and> qr_class q = run_quota_class (r_kind run)"
  | (made) row where "b" "platform_frame s s'" "find_reservation org (r_id run) s = None"
      "qr_id row = qid" "qr_organization row = org" "qr_run row = r_id run" "qr_class row = run_quota_class (r_kind run)"
      "qr_state row = RES_ACTIVE"
      "quota_reservations s' = quota_reservations s @ [row]" "quota_reservations_ok (quota_reservations s')"
      "\<And>o'. policy_of o' s' = policy_of o' s"
      "\<And>o'. usage_of o' s' = (if o' = org then add_used_jobs (run_quota_class (r_kind run)) 1 (usage_of org s) else usage_of o' s)"
      "used_jobs (run_quota_class (r_kind run)) (usage_of org s) < max_jobs (run_quota_class (r_kind run)) (policy_of org s)"
      "\<exists>deadline. validate_run_resource_policy (rt_parsers rt) (r_kind run) (r_spec run) (policy_of org s) = Inr deadline
        \<and> qr_expires_at row = now + reservation_lease deadline"
proof (cases "find_reservation org (r_id run) s")
  case (Some q)
  with assms show ?thesis by (intro kept) (auto simp: reserve_run_def Let_def split: if_splits)
next
  case None
  let ?k = "run_quota_class (r_kind run)"
  from assms None obtain policy usage s1 deadline where
    l: "locked rt c now org s = Inr ((policy, usage), s1)"
    and v: "validate_run_resource_policy (rt_parsers rt) (r_kind run) (r_spec run) (qp_values policy) = Inr deadline"
    and cap: "active_jobs ?k usage < max_jobs ?k (qp_values policy)" and b
    by (auto simp: reserve_run_def Let_def rescue_eq_Inr)
  define row where "row = \<lparr>qr_id = qid, qr_organization = org, qr_run = r_id run, qr_class = ?k, qr_amount = 1,
     qr_state = RES_ACTIVE, qr_expires_at = now + reservation_lease deadline, qr_released_at = None, qr_created_at = now\<rparr>"
  from assms None l v cap have ok: "quota_reservations_ok (quota_reservations s1 @ [row])"
    and s': "s' = update_usage org (\<lambda>u. (add_active_jobs ?k 1 u)\<lparr>qu_updated_at := now\<rparr>)
      (s1\<lparr>quota_reservations := quota_reservations s1 @ [row]\<rparr>)"
    by (auto simp: reserve_run_def Let_def row_def)
  have qr: "quota_reservations s' = quota_reservations s @ [row]"
    using locked_reservations [OF l] by (simp add: s' update_usage_def)
  have lc: "find_usage org (s1\<lparr>quota_reservations := quota_reservations s1 @ [row]\<rparr>) = Some usage"
    "policy_of org s = qp_values policy" "usage_of org s = counters_of usage"
    using locked_cases [OF l] by (simp_all add: find_usage_def)
  have view: "usage_of o' (s1\<lparr>quota_reservations := rows\<rparr>) = usage_of o' s1"
    "policy_of o' (s1\<lparr>quota_reservations := rows\<rparr>) = policy_of o' s1" for o' rows
    by (simp_all add: usage_of_def policy_of_def find_usage_def find_policy_def)
  show ?thesis
  proof (rule made [of row])
    show "platform_frame s s'" using locked_frame [OF l] by (simp add: s')
    show "usage_of o' s' = (if o' = org then add_used_jobs ?k 1 (usage_of org s) else usage_of o' s)" for o'
      by (simp add: s' usage_of_update [OF _ lc(1)] view locked_views [OF l] lc(3))
    show "policy_of o' s' = policy_of o' s" for o'
      by (simp add: s' view locked_views [OF l])
    show "used_jobs ?k (usage_of org s) < max_jobs ?k (policy_of org s)"
      using cap by (simp add: lc active_jobs_counters)
    show "\<exists>deadline. validate_run_resource_policy (rt_parsers rt) (r_kind run) (r_spec run) (policy_of org s) = Inr deadline
        \<and> qr_expires_at row = now + reservation_lease deadline"
      using v by (simp add: lc row_def)
    show "quota_reservations_ok (quota_reservations s')"
      using ok qr locked_reservations [OF l] by simp
  qed (use None \<open>b\<close> qr in \<open>auto simp: row_def\<close>)
qed

lemma reserve_run_audit_ok:
  assumes "reserve_run rt c now qid org run s = Inr (b, s')" and "audit_ok rt s"
  shows "audit_ok rt s'"
proof (cases "find_reservation org (r_id run) s")
  case (Some q)
  with assms show ?thesis by (auto simp: reserve_run_def Let_def split: if_splits)
next
  case None
  with assms show ?thesis
    by (auto simp: reserve_run_def Let_def rescue_eq_Inr dest!: locked_audit_ok)
qed

text \<open>A reservation that was released, and the row it was.\<close>

lemma release_run_cases:
  assumes "release_run rt c now org run_id state s = Inr (b, s')"
  obtains (idle) "\<not> b" "s' = s" "\<And>q. find_reservation org run_id s = Some q \<Longrightarrow> qr_state q \<noteq> RES_ACTIVE"
  | (released) q where "b" "platform_frame s s'" "find_reservation org run_id s = Some q" "qr_state q = RES_ACTIVE"
      "quota_reservations s' = update_where (\<lambda>x. qr_id x = qr_id q)
         (\<lambda>x. x\<lparr>qr_state := state, qr_released_at := Some now\<rparr>) (quota_reservations s)"
      "\<And>o'. policy_of o' s' = policy_of o' s"
      "\<And>o'. usage_of o' s' = (if o' = org then add_used_jobs (qr_class q) (- 1) (usage_of org s) else usage_of o' s)"
proof (cases "find_reservation org run_id s")
  case None
  with assms show ?thesis by (intro idle) (auto simp: release_run_def)
next
  case (Some q)
  show ?thesis
  proof (cases "qr_state q = RES_ACTIVE")
    case False
    with assms Some show ?thesis by (intro idle) (auto simp: release_run_def)
  next
    case True
    let ?rows = "update_where (\<lambda>x. qr_id x = qr_id q) (\<lambda>x. x\<lparr>qr_state := state, qr_released_at := Some now\<rparr>)"
    from assms Some True obtain policy usage s1 where
      l: "locked rt c now org s = Inr ((policy, usage), s1)" and b
      and s': "s' = update_usage org (\<lambda>u. (add_active_jobs (qr_class q) (- 1) u)\<lparr>qu_updated_at := now\<rparr>)
        (s1\<lparr>quota_reservations := ?rows (quota_reservations s1)\<rparr>)"
      by (auto simp: release_run_def)
    have lc: "find_usage org (s1\<lparr>quota_reservations := rows\<rparr>) = Some usage" "usage_of org s = counters_of usage" for rows
      using locked_cases [OF l] by (simp_all add: find_usage_def)
    have view: "usage_of o' (s1\<lparr>quota_reservations := rows\<rparr>) = usage_of o' s1"
      "policy_of o' (s1\<lparr>quota_reservations := rows\<rparr>) = policy_of o' s1" for o' rows
      by (simp_all add: usage_of_def policy_of_def find_usage_def find_policy_def)
    show ?thesis
    proof (rule released [of q])
      show "platform_frame s s'" using locked_frame [OF l] by (simp add: s')
      show "quota_reservations s' = ?rows (quota_reservations s)"
        using locked_reservations [OF l] by (simp add: s' update_usage_def)
      show "usage_of o' s' = (if o' = org then add_used_jobs (qr_class q) (- 1) (usage_of org s) else usage_of o' s)" for o'
        by (simp add: s' usage_of_update [OF _ lc(1)] view locked_views [OF l] lc(2))
      show "policy_of o' s' = policy_of o' s" for o'
        by (simp add: s' view locked_views [OF l])
    qed (use Some True \<open>b\<close> in auto)
  qed
qed

lemma release_run_audit_ok:
  assumes "release_run rt c now org run_id state s = Inr (b, s')" and "audit_ok rt s"
  shows "audit_ok rt s'"
proof (cases "find_reservation org run_id s")
  case None
  with assms show ?thesis by (simp add: release_run_def)
next
  case (Some q)
  with assms show ?thesis
    by (auto simp: release_run_def dest!: locked_audit_ok split: if_splits)
qed

lemma renew_run_cases:
  assumes "renew_run rt now org run s = Inr (b, s')"
  obtains (idle) "\<not> b" "s' = s"
  | (renewed) q expires where "b" "find_reservation org (r_id run) s = Some q" "qr_state q = RES_ACTIVE"
      "s' = s\<lparr>quota_reservations := update_where (\<lambda>x. qr_id x = qr_id q) (\<lambda>x. x\<lparr>qr_expires_at := expires\<rparr>)
         (quota_reservations s)\<rparr>"
  using assms by (auto simp: renew_run_def split: option.splits if_splits)

section \<open>Every active run holds one unit of capacity\<close>

definition held_jobs :: "uuid \<Rightarrow> quota_class \<Rightarrow> db \<Rightarrow> nat" where
  "held_jobs org k s =
     count_where (\<lambda>q. qr_organization q = org \<and> qr_class q = k \<and> qr_state q = RES_ACTIVE) (quota_reservations s)"

definition jobs_ok :: "db \<Rightarrow> bool" where
  "jobs_ok s \<longleftrightarrow> (\<forall>org k. used_jobs k (usage_of org s) = int (held_jobs org k s)
     \<and> used_jobs k (usage_of org s) \<le> max_jobs k (policy_of org s))"

lemma jobs_okD:
  assumes "jobs_ok s"
  shows "used_jobs k (usage_of org s) = int (held_jobs org k s)"
    and "used_jobs k (usage_of org s) \<le> max_jobs k (policy_of org s)"
  using assms unfolding jobs_ok_def by blast+

lemma used_jobs_none [simp]: "used_jobs k no_usage = 0"
  by (cases k) (simp_all add: used_jobs_def no_usage_def)

lemma jobs_ok_empty: "jobs_ok empty_db"
proof -
  have "0 \<le> max_jobs k default_policy" for k by (cases k) (simp_all add: max_jobs_def default_policy_def)
  then show ?thesis
    by (simp add: jobs_ok_def held_jobs_def usage_of_def policy_of_def find_usage_def find_policy_def empty_db_def)
qed

lemma jobs_ok_cong:
  assumes "quota_reservations t = quota_reservations s" and "\<And>o'. usage_of o' t = usage_of o' s"
    and "\<And>o'. policy_of o' t = policy_of o' s"
  shows "jobs_ok t = jobs_ok s"
  by (simp add: jobs_ok_def held_jobs_def assms)

lemma reserve_run_jobs_ok:
  assumes "reserve_run rt c now qid org run s = Inr (b, s')" and "jobs_ok s"
  shows "jobs_ok s'"
  using assms(1)
proof (cases rule: reserve_run_cases)
  case kept
  with assms(2) show ?thesis by simp
next
  case (made row)
  let ?k = "run_quota_class (r_kind run)"
  have held: "held_jobs o' k s' = held_jobs o' k s + (if o' = org \<and> k = ?k then 1 else 0)" for o' k
    using made(4-9) by (auto simp: held_jobs_def)
  show ?thesis unfolding jobs_ok_def
  proof (intro allI)
    fix o' k
    from assms(2) have "used_jobs k (usage_of o' s) = int (held_jobs o' k s)"
      "used_jobs k (usage_of o' s) \<le> max_jobs k (policy_of o' s)" by (rule jobs_okD)+
    then show "used_jobs k (usage_of o' s') = int (held_jobs o' k s')
        \<and> used_jobs k (usage_of o' s') \<le> max_jobs k (policy_of o' s')"
      using made by (auto simp: held)
  qed
qed

lemma held_jobs_release:
  assumes "distinct (map qr_id (quota_reservations s))" and "find_reservation org run_id s = Some q"
    and "qr_state q = RES_ACTIVE" and "state \<noteq> RES_ACTIVE"
    and "quota_reservations s' = update_where (\<lambda>x. qr_id x = qr_id q)
         (\<lambda>x. x\<lparr>qr_state := state, qr_released_at := t\<rparr>) (quota_reservations s)"
  shows "held_jobs o' k s = held_jobs o' k s' + (if o' = org \<and> k = qr_class q then 1 else 0)"
proof -
  have q: "q \<in> set (quota_reservations s)" "qr_organization q = org"
    using assms(2) by (auto simp: find_reservation_def dest: find_SomeD)
  show ?thesis
    using count_where_update_key [OF assms(1) q(1), of "\<lambda>q. qr_organization q = o' \<and> qr_class q = k \<and> qr_state q = RES_ACTIVE"
        "\<lambda>x. x\<lparr>qr_state := state, qr_released_at := t\<rparr>"] assms(3-5) q(2)
    by (auto simp: held_jobs_def split: if_splits)
qed

lemma release_run_jobs_ok:
  assumes "release_run rt c now org run_id state s = Inr (b, s')" and "jobs_ok s" and "state \<noteq> RES_ACTIVE"
    and "distinct (map qr_id (quota_reservations s))"
  shows "jobs_ok s'"
  using assms(1)
proof (cases rule: release_run_cases)
  case idle
  with assms(2) show ?thesis by simp
next
  case (released q)
  note held = held_jobs_release [OF assms(4) released(3,4) assms(3) released(5)]
  show ?thesis unfolding jobs_ok_def
  proof (intro allI)
    fix o' k
    from assms(2) have "used_jobs k (usage_of o' s) = int (held_jobs o' k s)"
      "used_jobs k (usage_of o' s) \<le> max_jobs k (policy_of o' s)" by (rule jobs_okD)+
    then show "used_jobs k (usage_of o' s') = int (held_jobs o' k s')
        \<and> used_jobs k (usage_of o' s') \<le> max_jobs k (policy_of o' s')"
      using released held [of o' k] by (auto split: if_splits)
  qed
qed

lemma renew_run_jobs_ok:
  assumes "renew_run rt now org run s = Inr (b, s')" and "jobs_ok s"
  shows "jobs_ok s'"
  using assms(1)
proof (cases rule: renew_run_cases)
  case idle
  with assms(2) show ?thesis by simp
next
  case (renewed q expires)
  have "held_jobs o' k s' = held_jobs o' k s" for o' k
    by (simp add: renewed(4) held_jobs_def count_where_update_same)
  moreover have "usage_of o' s' = usage_of o' s" "policy_of o' s' = policy_of o' s" for o'
    by (simp_all add: renewed(4) usage_of_def policy_of_def find_usage_def find_policy_def)
  ultimately show ?thesis using assms(2) unfolding jobs_ok_def by metis
qed

end
