(* ===== verification/RunLog.thy ===== *)
theory RunLog imports Quota begin

text \<open>
  The invariants that tie the run table to the event log, the capacity reservations and the
  outbox, with one preservation lemma per kind of change. They are stated over the tables alone,
  so that every service that touches runs uses the same lemmas.
\<close>

section \<open>Replaying the event log\<close>

text \<open>The state an event announces, by its type.\<close>

definition event_state :: "run_event \<Rightarrow> run_state option" where
  "event_state e =
     (if e_type e = ''run.submitted'' \<or> e_type e = ''run.retry_submitted'' \<or> e_type e = ''run.replay_submitted'' then Some QUEUED
      else if e_type e = ''run.provisioning'' then Some PROVISIONING
      else if e_type e = ''run.started'' then Some RUNNING
      else if e_type e = ''run.cancellation_requested'' \<or> e_type e = ''run.cancellation_observed'' then Some CANCELLING
      else if e_type e = ''run.cancelled'' then Some CANCELLED
      else if e_type e = ''run.succeeded'' then Some SUCCEEDED
      else if e_type e = ''run.failed'' then Some FAILED
      else None)"

fun replay :: "run_state \<Rightarrow> run_event list \<Rightarrow> run_state option" where
  "replay st [] = Some st"
| "replay st (e # es) =
     (case event_state e of
        None \<Rightarrow> replay st es
      | Some t \<Rightarrow> if t \<in> set (transitions st) then replay t es else None)"

lemma replay_append:
  "replay st (es @ fs) = (case replay st es of None \<Rightarrow> None | Some t \<Rightarrow> replay t fs)"
  by (induction st es rule: replay.induct) (auto split: option.splits)

definition events_of :: "uuid \<Rightarrow> db \<Rightarrow> run_event list" where
  "events_of run_id s = filter (\<lambda>e. e_run e = run_id) (run_events s)"

definition run_log_ok :: "db \<Rightarrow> run \<Rightarrow> bool" where
  "run_log_ok s r \<longleftrightarrow>
     map e_sequence (events_of (r_id r) s) = [1..<Suc (r_event_sequence r)]
     \<and> replay DRAFT (events_of (r_id r) s) = Some (r_state r)
     \<and> (\<forall>e \<in> set (events_of (r_id r) s). e_organization e = r_organization r)"

definition log_ok :: "db \<Rightarrow> bool" where
  "log_ok s \<longleftrightarrow> (\<forall>r \<in> set (runs s). run_log_ok s r \<and> r_state r \<noteq> DRAFT \<and> 0 < r_event_sequence r)
     \<and> (\<forall>e \<in> set (run_events s). \<exists>r \<in> set (runs s). r_id r = e_run e)"

section \<open>Capacity and dispatch\<close>

definition holds_capacity :: "db \<Rightarrow> run \<Rightarrow> bool" where
  "holds_capacity s r \<longleftrightarrow> (\<exists>q \<in> set (quota_reservations s). qr_run q = r_id r
     \<and> qr_organization q = r_organization r \<and> qr_class q = run_quota_class (r_kind r) \<and> qr_state q = RES_ACTIVE)"

definition capacity_ok :: "db \<Rightarrow> bool" where
  "capacity_ok s \<longleftrightarrow> (\<forall>r \<in> set (runs s). holds_capacity s r \<longleftrightarrow> \<not> is_terminal (r_state r))
     \<and> (\<forall>q \<in> set (quota_reservations s). \<exists>r \<in> set (runs s). r_id r = qr_run q \<and> r_organization r = qr_organization q
          \<and> qr_class q = run_quota_class (r_kind r))"

definition dispatch_ok :: "db \<Rightarrow> bool" where
  "dispatch_ok s \<longleftrightarrow> (\<forall>r \<in> set (runs s). \<exists>m \<in> set (outbox_messages s).
     o_run m = r_id r \<and> o_organization m = r_organization r \<and> o_event_type m = ''run.dispatch'')"

lemma log_ok_cong: "runs t = runs s \<Longrightarrow> run_events t = run_events s \<Longrightarrow> log_ok t = log_ok s"
  by (simp add: log_ok_def run_log_ok_def events_of_def)

lemma capacity_ok_cong:
  "runs t = runs s \<Longrightarrow> quota_reservations t = quota_reservations s \<Longrightarrow> capacity_ok t = capacity_ok s"
  by (simp add: capacity_ok_def holds_capacity_def)

lemma dispatch_ok_cong:
  "runs t = runs s \<Longrightarrow> outbox_messages t = outbox_messages s \<Longrightarrow> dispatch_ok t = dispatch_ok s"
  by (simp add: dispatch_ok_def)

section \<open>A new run\<close>

lemma fresh_id: "distinct (map k (rows @ [r])) \<Longrightarrow> x \<in> set rows \<Longrightarrow> k x \<noteq> k r"
  by (induction rows) auto

lemma log_ok_new_run:
  assumes "log_ok s" and "runs s' = runs s @ [r]" and "run_events s' = run_events s @ [e]"
    and "e_run e = r_id r" and "e_sequence e = 1" and "e_organization e = r_organization r"
    and "event_state e = Some QUEUED" and "r_state r = QUEUED" and "r_event_sequence r = 1"
    and "distinct (map r_id (runs s'))"
  shows "log_ok s'"
proof -
  have fresh: "r_id x \<noteq> r_id r" if "x \<in> set (runs s)" for x
    using fresh_id [OF assms(10)[unfolded assms(2)] that] .
  have none: "events_of (r_id r) s = []"
    using assms(1) fresh by (fastforce simp: log_ok_def events_of_def filter_empty_conv)
  have old: "events_of (r_id x) s' = events_of (r_id x) s" if "x \<in> set (runs s)" for x
    using fresh [OF that] assms(3,4) by (simp add: events_of_def)
  have new: "events_of (r_id r) s' = [e]"
    using none assms(3,4) by (simp add: events_of_def)
  have "run_log_ok s' r" using assms(5-9) new by (simp add: run_log_ok_def)
  moreover have "run_log_ok s' x" if "x \<in> set (runs s)" for x
    using assms(1) that old [OF that] by (simp add: log_ok_def run_log_ok_def)
  ultimately show ?thesis
    using assms(1-4,8,9) by (auto simp: log_ok_def)
qed

lemma capacity_ok_new_run:
  assumes "capacity_ok s" and "runs s' = runs s @ [r]" and "quota_reservations s' = quota_reservations s @ [q]"
    and "qr_run q = r_id r" and "qr_organization q = r_organization r" and "qr_class q = run_quota_class (r_kind r)"
    and "qr_state q = RES_ACTIVE" and "\<not> is_terminal (r_state r)" and "distinct (map r_id (runs s'))"
  shows "capacity_ok s'"
proof -
  have fresh: "r_id x \<noteq> r_id r" if "x \<in> set (runs s)" for x
    using fresh_id [OF assms(9)[unfolded assms(2)] that] .
  have "holds_capacity s' x = holds_capacity s x" if "x \<in> set (runs s)" for x
    using fresh [OF that] assms(3,4) by (auto simp: holds_capacity_def)
  moreover have "holds_capacity s' r" using assms(3-7) by (simp add: holds_capacity_def)
  ultimately show ?thesis using assms(1-6,8) by (auto simp: capacity_ok_def)
qed

lemma dispatch_ok_new_run:
  assumes "dispatch_ok s" and "runs s' = runs s @ [r]" and "outbox_messages s' = outbox_messages s @ [m]"
    and "o_run m = r_id r" and "o_organization m = r_organization r" and "o_event_type m = ''run.dispatch''"
  shows "dispatch_ok s'"
  using assms by (auto simp: dispatch_ok_def)

section \<open>One event for one run\<close>

text \<open>An UPDATE of one run together with the event that records it.\<close>

definition update_run :: "uuid \<Rightarrow> (run \<Rightarrow> run) \<Rightarrow> run list \<Rightarrow> run list" where
  "update_run run_id f rows = update_where (\<lambda>r. r_id r = run_id) f rows"

lemma log_ok_event:
  assumes "log_ok s" and "distinct (map r_id (runs s))" and "run \<in> set (runs s)"
    and "runs s' = update_run (r_id run) f (runs s)" and "run_events s' = run_events s @ [e]"
    and "r_id (f run) = r_id run" and "r_organization (f run) = r_organization run"
    and "r_event_sequence (f run) = Suc (r_event_sequence run)"
    and "e_run e = r_id run" and "e_sequence e = Suc (r_event_sequence run)" and "e_organization e = r_organization run"
    and "case event_state e of None \<Rightarrow> r_state (f run) = r_state run
         | Some t \<Rightarrow> t \<in> set (transitions (r_state run)) \<and> r_state (f run) = t"
  shows "log_ok s'"
proof -
  have only: "x = run" if "x \<in> set (runs s)" "r_id x = r_id run" for x
    using distinct_map_inj [OF assms(2) that(1) assms(3) that(2)] .
  have rows: "set (runs s') = insert (f run) {x \<in> set (runs s). r_id x \<noteq> r_id run}"
    unfolding assms(4) update_run_def by (rule set_update_where_key [OF assms(2,3)])
  have run: "run_log_ok s run" "r_state run \<noteq> DRAFT" using assms(1,3) by (simp_all add: log_ok_def)
  have ev: "events_of (r_id run) s' = events_of (r_id run) s @ [e]"
    using assms(5,9) by (simp add: events_of_def)
  have st: "replay (r_state run) [e] = Some (r_state (f run))"
    using assms(12) by (auto split: option.splits)
  have t: "r_state (f run) \<noteq> DRAFT"
    using assms(12) run(2) by (cases "r_state run") (auto split: option.splits)
  have "run_log_ok s' (f run)"
    using run(1) ev st assms(6-11) by (auto simp: run_log_ok_def replay_append)
  moreover have "run_log_ok s' x" if "x \<in> set (runs s)" "r_id x \<noteq> r_id run" for x
  proof -
    have "events_of (r_id x) s' = events_of (r_id x) s"
      using that assms(5,9) by (simp add: events_of_def)
    then show ?thesis using assms(1) that by (simp add: log_ok_def run_log_ok_def)
  qed
  ultimately have "\<forall>r \<in> set (runs s'). run_log_ok s' r \<and> r_state r \<noteq> DRAFT \<and> 0 < r_event_sequence r"
    using assms(1,8) t by (auto simp: rows log_ok_def)
  moreover have "\<exists>r \<in> set (runs s'). r_id r = i" if "\<exists>r \<in> set (runs s). r_id r = i" for i
    using that assms(6) by (auto simp: rows)
  ultimately show ?thesis using assms(1,3,5,9) by (auto simp: log_ok_def)
qed

lemma set_update_run:
  "distinct (map r_id rows) \<Longrightarrow> run \<in> set rows \<Longrightarrow>
   set (update_run (r_id run) f rows) = insert (f run) {x \<in> set rows. r_id x \<noteq> r_id run}"
  unfolding update_run_def by (rule set_update_where_key)

lemma ids_update_run: "(\<And>r. r_id (f r) = r_id r) \<Longrightarrow> map r_id (update_run run_id f rows) = map r_id rows"
  by (simp add: update_run_def map_update_where)

lemma capacity_ok_update:
  assumes "capacity_ok s" and "distinct (map r_id (runs s))" and "run \<in> set (runs s)"
    and "runs s' = update_run (r_id run) f (runs s)"
    and "r_id (f run) = r_id run" and "r_organization (f run) = r_organization run" and "r_kind (f run) = r_kind run"
    and "\<And>x. x \<in> set (runs s) \<Longrightarrow> r_id x \<noteq> r_id run \<Longrightarrow> holds_capacity s' x = holds_capacity s x"
    and "holds_capacity s' run \<longleftrightarrow> \<not> is_terminal (r_state (f run))"
    and "map (\<lambda>q. (qr_run q, qr_organization q, qr_class q)) (quota_reservations s')
       = map (\<lambda>q. (qr_run q, qr_organization q, qr_class q)) (quota_reservations s)"
  shows "capacity_ok s'"
proof -
  have only: "x = run" if "x \<in> set (runs s)" "r_id x = r_id run" for x
    using distinct_map_inj [OF assms(2) that(1) assms(3) that(2)] .
  have rows: "set (runs s') = insert (f run) {x \<in> set (runs s). r_id x \<noteq> r_id run}"
    unfolding assms(4) update_run_def by (rule set_update_where_key [OF assms(2,3)])
  have "holds_capacity s' (f run) = holds_capacity s' run"
    using assms(5-7) by (simp add: holds_capacity_def)
  then have one: "\<forall>r \<in> set (runs s'). holds_capacity s' r \<longleftrightarrow> \<not> is_terminal (r_state r)"
    using assms(1,8,9) by (auto simp: rows capacity_ok_def)
  have "\<exists>r \<in> set (runs s'). r_id r = qr_run q \<and> r_organization r = qr_organization q
      \<and> qr_class q = run_quota_class (r_kind r)" if "q \<in> set (quota_reservations s')" for q
  proof -
    have "(qr_run q, qr_organization q, qr_class q) \<in> set (map (\<lambda>q. (qr_run q, qr_organization q, qr_class q)) (quota_reservations s'))"
      using that by simp
    then obtain p where p: "p \<in> set (quota_reservations s)" "qr_run p = qr_run q"
      "qr_organization p = qr_organization q" "qr_class p = qr_class q"
      unfolding assms(10) by auto
    with assms(1) obtain r where r: "r \<in> set (runs s)" "r_id r = qr_run q" "r_organization r = qr_organization q"
      "qr_class q = run_quota_class (r_kind r)" by (fastforce simp: capacity_ok_def)
    show ?thesis
    proof (cases "r_id r = r_id run")
      case True
      with only r(1) have "r = run" by blast
      with r assms(5-7) show ?thesis by (intro bexI [of _ "f run"]) (auto simp: rows)
    next
      case False
      with r show ?thesis by (intro bexI [of _ r]) (auto simp: rows image_iff)
    qed
  qed
  with one show ?thesis by (auto simp: capacity_ok_def)
qed

lemma dispatch_ok_update:
  assumes "dispatch_ok s" and "runs s' = update_run run_id f (runs s)"
    and "\<And>r. r_id (f r) = r_id r" and "\<And>r. r_organization (f r) = r_organization r"
    and "set (outbox_messages s) \<subseteq> set (outbox_messages s')"
  shows "dispatch_ok s'"
proof -
  have "\<exists>m \<in> set (outbox_messages s'). o_run m = r_id r \<and> o_organization m = r_organization r
      \<and> o_event_type m = ''run.dispatch''" if "r \<in> set (runs s')" for r
  proof -
    from that obtain x where "x \<in> set (runs s)" "r_id r = r_id x" "r_organization r = r_organization x"
      unfolding assms(2) update_run_def set_update_where using assms(3,4) by auto
    with assms(1,5) show ?thesis unfolding dispatch_ok_def by fastforce
  qed
  then show ?thesis by (simp add: dispatch_ok_def)
qed

end
