(* ===== verification/Identity.thy ===== *)
theory Identity imports Tenant begin

text \<open>
  What the services share: the caller of an operation, the membership query that authenticates it,
  the ordering of query results, and the sessions in which another transaction can commit between
  a read and a write.
\<close>

text \<open>\<open>JobActor\<close>, \<open>PlatformActor\<close>, \<open>ProjectActor\<close>, \<open>ArtifactActor\<close>: the same three fields.\<close>

record actor =
  ac_subject :: string
  ac_organization :: uuid
  ac_request_id :: "string option"

definition member_rows :: "actor \<Rightarrow> db \<Rightarrow> (uuid \<times> role) list" where
  "member_rows a s =
     concat (map (\<lambda>u. map (\<lambda>m. (u_id u, m_role m))
       (filter (\<lambda>m. m_user m = u_id u \<and> m_organization m = ac_organization a) (memberships s)))
       (filter (\<lambda>u. u_oidc_subject u = ac_subject a) (users s)))"

definition one_or_none :: "'a list \<Rightarrow> exn + 'a option" where
  "one_or_none rows =
     (case rows of [] \<Rightarrow> Inr None | [x] \<Rightarrow> Inr (Some x) | _ \<Rightarrow> Inl MultipleResultsFound)"

definition find_member :: "string \<Rightarrow> actor \<Rightarrow> db \<Rightarrow> exn + uuid \<times> role" where
  "find_member operation a s =
     bindr (one_or_none (member_rows a s)) (\<lambda>row.
     require (ResourceNotFoundError operation) row)"

text \<open>ORDER BY key DESC LIMIT 1.\<close>

definition latest_by :: "('r \<Rightarrow> 'k :: linorder) \<Rightarrow> 'r list \<Rightarrow> 'r option" where
  "latest_by k rows = (case rev (sort_key k rows) of [] \<Rightarrow> None | r # _ \<Rightarrow> Some r)"

lemma latest_by_None [simp]: "latest_by k rows = None \<longleftrightarrow> rows = []"
proof -
  have "rev (sort_key k rows) = [] \<longleftrightarrow> rows = []"
    by (metis length_0_conv length_rev length_sort)
  then show ?thesis by (auto simp: latest_by_def split: list.splits)
qed

lemma latest_by_Some: "latest_by k rows = Some r \<Longrightarrow> r \<in> set rows"
proof -
  assume "latest_by k rows = Some r"
  then obtain rest where "rev (sort_key k rows) = r # rest" by (auto simp: latest_by_def split: list.splits)
  then have "r \<in> set (rev (sort_key k rows))" by simp
  then show ?thesis by simp
qed

text \<open>
  A session that other transactions run beside: the body returns, next to its own result, the
  database as the others left it, to which a rollback returns.
\<close>

definition contended_session ::
    "runtime \<Rightarrow> (exn + tenant_context) \<Rightarrow> (tenant_context \<Rightarrow> db \<Rightarrow> (exn + 'a \<times> db) \<times> db) \<Rightarrow> db \<Rightarrow> (exn + 'a) \<times> db" where
  "contended_session rt context body s =
     (case bindr context (\<lambda>c. bindr (open_session rt (Some c)) (\<lambda>_. Inr c)) of
        Inl e \<Rightarrow> (Inl e, s)
      | Inr c \<Rightarrow>
          (case body c s of
             (Inl e, base) \<Rightarrow> (Inl e, base)
           | (Inr (a, s'), base) \<Rightarrow> if constraints_ok s' then (Inr a, s') else (Inl IntegrityError, base)))"

lemma contended_session_Inr:
  "contended_session rt context body s = (Inr a, s') \<Longrightarrow>
     \<exists>c base. context = Inr c \<and> body c s = (Inr (a, s'), base) \<and> constraints_ok s'"
  by (auto simp: contended_session_def split: sum.splits prod.splits if_splits)

lemma contended_session_preserves:
  assumes "P s" and "\<And>c r base. context = Inr c \<Longrightarrow> body c s = (r, base) \<Longrightarrow> P base"
    and "\<And>c a s' base. context = Inr c \<Longrightarrow> body c s = (Inr (a, s'), base) \<Longrightarrow> constraints_ok s' \<Longrightarrow> P s'"
  shows "P (snd (contended_session rt context body s))"
proof (cases "bindr context (\<lambda>c. bindr (open_session rt (Some c)) (\<lambda>_. Inr c))")
  case (Inl e)
  with assms(1) show ?thesis by (simp add: contended_session_def)
next
  case (Inr c)
  then have c: "context = Inr c" by auto
  obtain r base where b: "body c s = (r, base)" by fastforce
  show ?thesis
  proof (cases r)
    case (Inl e)
    with assms(2) [OF c b] b Inr show ?thesis by (simp add: contended_session_def)
  next
    case r: (Inr p)
    obtain a s' where "p = (a, s')" by fastforce
    with assms(2) [OF c b] assms(3) [OF c] b r Inr show ?thesis by (simp add: contended_session_def)
  qed
qed

text \<open>With the UNIQUE constraints the membership query never finds two rows.\<close>

lemma filter_unique_le_1: "distinct (map k rows) \<Longrightarrow> (\<And>x y. P x \<Longrightarrow> P y \<Longrightarrow> k x = k y) \<Longrightarrow> length (filter P rows) \<le> 1"
proof (induction rows)
  case (Cons r rows)
  show ?case
  proof (cases "P r")
    case True
    have "\<not> P x" if "x \<in> set rows" for x
    proof
      assume "P x"
      with True have "k r = k x" by (rule Cons.prems(2))
      with that have "k r \<in> set (map k rows)" by simp
      with Cons.prems(1) show False by simp
    qed
    then have "filter P rows = []" by (simp add: filter_empty_conv)
    then show ?thesis by simp
  next
    case False
    have "length (filter P rows) \<le> 1"
    proof (rule Cons.IH)
      show "distinct (map k rows)" using Cons.prems(1) by simp
    qed (rule Cons.prems(2))
    with False show ?thesis by simp
  qed
qed simp

lemma member_rows_le_1:
  assumes "constraints_ok s"
  shows "length (member_rows a s) \<le> 1"
proof -
  have us: "length (filter (\<lambda>u. u_oidc_subject u = ac_subject a) (users s)) \<le> 1"
    using assms by (intro filter_unique_le_1 [of u_oidc_subject]) (simp_all add: constraints_ok_def users_ok_def unique_by_def)
  have ms: "length (filter (\<lambda>m. m_user m = u_id u \<and> m_organization m = ac_organization a) (memberships s)) \<le> 1" for u
    using assms by (intro filter_unique_le_1 [of "\<lambda>m. (m_organization m, m_user m)"])
      (simp_all add: constraints_ok_def memberships_ok_def unique_by_def)
  show ?thesis
  proof (cases "filter (\<lambda>u. u_oidc_subject u = ac_subject a) (users s)")
    case Nil
    then show ?thesis by (simp add: member_rows_def)
  next
    case (Cons u rest)
    with us have "rest = []" by simp
    with Cons ms [of u] show ?thesis by (simp add: member_rows_def)
  qed
qed

lemma find_member_no_multiple: "constraints_ok s \<Longrightarrow> find_member operation a s \<noteq> Inl MultipleResultsFound"
  using member_rows_le_1 [of s a]
  by (auto simp: find_member_def one_or_none_def require_def bindr_def split: list.splits option.splits sum.splits)

text \<open>Who is found is a user with the caller's subject and a member of the caller's organization.\<close>

lemma find_member_Inr:
  assumes "find_member operation a s = Inr (user_id, role)"
  shows "\<exists>u m. u \<in> set (users s) \<and> m \<in> set (memberships s) \<and> u_oidc_subject u = ac_subject a \<and> u_id u = user_id
    \<and> m_user m = user_id \<and> m_organization m = ac_organization a \<and> m_role m = role"
proof -
  have "(user_id, role) \<in> set (member_rows a s)"
    using assms by (auto simp: find_member_def one_or_none_def split: list.splits)
  then show ?thesis by (auto simp: member_rows_def)
qed

end
