(* ===== verification/Corpora.thy ===== *)
theory Corpora imports Json Utf8 begin

text \<open>
  src/corpuskit/domain/corpora.py: normalisation, de-duplication and content digest of an
  imported corpus. Canonical composition (\<open>unicodedata.normalize("NFC", _)\<close>) is the argument
  \<open>nfc\<close>, SHA-256 the argument \<open>sha\<close>.
\<close>

record import_limits =
  il_max_sentences :: nat
  il_max_sentence_characters :: nat

record import_request =
  ir_language :: string
  ir_sentences :: "string list"

record prepared_sentence =
  pr_ordinal :: nat
  pr_original_text :: string
  pr_normalized_text :: string

record prepared_corpus =
  pc_language :: string
  pc_sentences :: "prepared_sentence list"
  pc_content_sha256 :: string

section \<open>Languages\<close>

text \<open>
  \<open>str.lower\<close> as far as the language pattern can tell: the Kelvin sign is the one code point
  outside ASCII whose lower case is an ASCII letter.
\<close>

definition lower_code :: "string \<Rightarrow> string" where
  "lower_code u = (if u = [CHR 0xE2, CHR 0x84, CHR 0xAA] then ''k'' else map lower_char u)"

definition str_lower :: "string \<Rightarrow> string" where
  "str_lower s = concat (map lower_code (utf8_chars s))"

text \<open>The parts between hyphens.\<close>

fun split_on :: "char \<Rightarrow> string \<Rightarrow> string \<Rightarrow> string list" where
  "split_on sep cur [] = [rev cur]"
| "split_on sep cur (c # cs) = (if c = sep then rev cur # split_on sep [] cs else split_on sep (c # cur) cs)"

text \<open>\<open>[a-z][a-z0-9]*(?:-[a-z0-9]+)*\<close>\<close>

definition is_language_code :: "string \<Rightarrow> bool" where
  "is_language_code s \<longleftrightarrow>
     s \<noteq> [] \<and> is_lower_char (hd s) \<and>
     list_all (\<lambda>part. part \<noteq> [] \<and> list_all (\<lambda>c. is_lower_char c \<or> is_digit_char c) part) (split_on CHR ''-'' [] s)"

definition normalize_language :: "string \<Rightarrow> exn + string" where
  "normalize_language v =
     (let normalized = map (\<lambda>c. if c = CHR ''_'' then CHR ''-'' else c) (str_lower (str_strip v)) in
      if is_language_code normalized then Inr normalized
      else Inl (ValueError ''language must be a valid eSpeak-style language code''))"

text \<open>Constructing the request: the length bounds of the field, then its validator.\<close>

definition make_import_request :: "string \<Rightarrow> string list \<Rightarrow> exn + import_request" where
  "make_import_request language sentences =
     bindr (ensure (1 \<le> str_len language \<and> str_len language \<le> 64) ValidationError) (\<lambda>_.
     bindr (reraise is_value_error ValidationError (normalize_language language)) (\<lambda>normalized.
     Inr \<lparr>ir_language = normalized, ir_sentences = sentences\<rparr>))"

section \<open>Sentences\<close>

fun replace_crlf :: "string \<Rightarrow> string" where
  "replace_crlf [] = []"
| "replace_crlf (c # cs) =
     (if c = CHR 0x0D then
        (case cs of d # ds \<Rightarrow> if d = CHR 0x0A then CHR 0x0A # replace_crlf ds else CHR 0x0A # replace_crlf cs
         | [] \<Rightarrow> [CHR 0x0A])
      else c # replace_crlf cs)"

definition normalize_sentence :: "(string \<Rightarrow> string) \<Rightarrow> string \<Rightarrow> string" where
  "normalize_sentence nfc text = join_with '' '' (str_split (nfc (replace_crlf text)))"

fun prepare_sentences ::
    "(string \<Rightarrow> string) \<Rightarrow> nat \<Rightarrow> prepared_sentence list \<Rightarrow> string list \<Rightarrow> exn + prepared_sentence list" where
  "prepare_sentences nfc max_chars prepared [] = Inr prepared"
| "prepare_sentences nfc max_chars prepared (original # rest) =
     (let normalized = normalize_sentence nfc original in
      if normalized = [] \<or> normalized \<in> set (map pr_normalized_text prepared)
      then prepare_sentences nfc max_chars prepared rest
      else if max_chars < str_len normalized
      then Inl (ValueError ''a sentence exceeds the configured character limit'')
      else prepare_sentences nfc max_chars
        (prepared @ [\<lparr>pr_ordinal = length prepared, pr_original_text = original, pr_normalized_text = normalized\<rparr>]) rest)"

definition corpus_document :: "string \<Rightarrow> string list \<Rightarrow> json" where
  "corpus_document language texts =
     JObj [(''language'', JStr language), (''sentences'', JList (map JStr texts))]"

definition prepare_corpus ::
    "(string \<Rightarrow> string) \<Rightarrow> (string \<Rightarrow> string) \<Rightarrow> import_limits \<Rightarrow> import_request \<Rightarrow> exn + prepared_corpus" where
  "prepare_corpus sha nfc limits request =
     bindr (ensure (length (ir_sentences request) \<le> il_max_sentences limits)
       (ValueError ''sentence count exceeds the configured limit'')) (\<lambda>_.
     bindr (prepare_sentences nfc (il_max_sentence_characters limits) [] (ir_sentences request)) (\<lambda>prepared.
     bindr (ensure (prepared \<noteq> []) (ValueError ''a corpus must contain at least one non-blank sentence'')) (\<lambda>_.
     bindr (dumps (corpus_document (ir_language request) (map pr_normalized_text prepared))) (\<lambda>encoded.
     Inr \<lparr>pc_language = ir_language request, pc_sentences = prepared, pc_content_sha256 = sha encoded\<rparr>))))"

section \<open>Properties of a prepared corpus\<close>

text \<open>
  What the import keeps of a list of sentences, as a function without state: the first occurrence
  of every normalised text that is not blank, in order.
\<close>

fun first_occurrences :: "'a list \<Rightarrow> 'a list \<Rightarrow> 'a list" where
  "first_occurrences seen [] = []"
| "first_occurrences seen (x # xs) =
     (if x \<in> set seen then first_occurrences seen xs else x # first_occurrences (x # seen) xs)"

definition corpus_texts :: "(string \<Rightarrow> string) \<Rightarrow> string list \<Rightarrow> string list" where
  "corpus_texts nfc originals =
     first_occurrences [] (filter (\<lambda>t. t \<noteq> []) (map (normalize_sentence nfc) originals))"

lemma first_occurrences_cong: "set seen = set seen' \<Longrightarrow> first_occurrences seen xs = first_occurrences seen' xs"
  by (induction seen xs arbitrary: seen' rule: first_occurrences.induct) auto

lemma prepare_sentences_texts:
  "prepare_sentences nfc m prepared originals = Inr result \<Longrightarrow>
   map pr_normalized_text result = map pr_normalized_text prepared @
     first_occurrences (map pr_normalized_text prepared) (filter (\<lambda>t. t \<noteq> []) (map (normalize_sentence nfc) originals))"
proof (induction nfc m prepared originals rule: prepare_sentences.induct)
  case (2 nfc m prepared original rest)
  have "first_occurrences (map pr_normalized_text prepared @ [t]) xs
      = first_occurrences (t # map pr_normalized_text prepared) xs" for t :: string and xs
    by (rule first_occurrences_cong) auto
  with 2 show ?case by (auto simp: Let_def split: if_splits)
qed simp

lemma prepare_sentences_ok:
  "prepare_sentences nfc m prepared originals = Inr result \<Longrightarrow>
   distinct (map pr_normalized_text prepared) \<Longrightarrow> map pr_ordinal prepared = [0..<length prepared] \<Longrightarrow>
   list_all (\<lambda>p. pr_normalized_text p \<noteq> [] \<and> str_len (pr_normalized_text p) \<le> m
      \<and> pr_normalized_text p = normalize_sentence nfc (pr_original_text p)) prepared \<Longrightarrow>
   distinct (map pr_normalized_text result) \<and> map pr_ordinal result = [0..<length result] \<and>
   list_all (\<lambda>p. pr_normalized_text p \<noteq> [] \<and> str_len (pr_normalized_text p) \<le> m
      \<and> pr_normalized_text p = normalize_sentence nfc (pr_original_text p)) result"
proof (induction nfc m prepared originals rule: prepare_sentences.induct)
  case (2 nfc m prepared original rest)
  let ?t = "normalize_sentence nfc original"
  show ?case
  proof (cases "?t = [] \<or> ?t \<in> set (map pr_normalized_text prepared)")
    case True
    with 2 show ?thesis by (simp add: Let_def)
  next
    case False
    with 2(3) have "str_len ?t \<le> m" by (auto simp: Let_def split: if_splits)
    with False 2(3) have
      "prepare_sentences nfc m (prepared @ [\<lparr>pr_ordinal = length prepared, pr_original_text = original,
          pr_normalized_text = ?t\<rparr>]) rest = Inr result"
      by (simp add: Let_def)
    with False \<open>str_len ?t \<le> m\<close> 2(2) [OF refl] 2(4-6) show ?thesis by auto
  qed
qed simp

lemma prepare_corpus_cases:
  assumes "prepare_corpus sha nfc limits request = Inr c"
  shows "pc_language c = ir_language request"
    and "map pr_normalized_text (pc_sentences c) = corpus_texts nfc (ir_sentences request)"
    and "pc_sentences c \<noteq> []" and "length (pc_sentences c) \<le> il_max_sentences limits"
    and "map pr_ordinal (pc_sentences c) = [0..<length (pc_sentences c)]"
    and "list_all (\<lambda>p. pr_normalized_text p \<noteq> [] \<and> str_len (pr_normalized_text p) \<le> il_max_sentence_characters limits) (pc_sentences c)"
    and "pc_content_sha256 c = sha (encode (canon (corpus_document (pc_language c) (map pr_normalized_text (pc_sentences c)))))"
proof -
  from assms obtain prepared where
    p: "prepare_sentences nfc (il_max_sentence_characters limits) [] (ir_sentences request) = Inr prepared"
    and n: "prepared \<noteq> []" "length (ir_sentences request) \<le> il_max_sentences limits"
    and c: "c = \<lparr>pc_language = ir_language request, pc_sentences = prepared, pc_content_sha256 =
      sha (encode (canon (corpus_document (ir_language request) (map pr_normalized_text prepared))))\<rparr>"
    by (auto simp: prepare_corpus_def)
  have texts: "map pr_normalized_text prepared = corpus_texts nfc (ir_sentences request)"
    using prepare_sentences_texts [OF p] by (simp add: corpus_texts_def)
  have len: "length (first_occurrences seen xs) \<le> length xs" for seen and xs :: "string list"
    by (induction seen xs rule: first_occurrences.induct) auto
  have "length prepared = length (corpus_texts nfc (ir_sentences request))"
    using arg_cong [OF texts, of length] by simp
  also have "\<dots> \<le> length (filter (\<lambda>t. t \<noteq> []) (map (normalize_sentence nfc) (ir_sentences request)))"
    unfolding corpus_texts_def by (rule len)
  also have "\<dots> \<le> length (ir_sentences request)"
    by (rule order_trans [OF length_filter_le]) simp
  finally have "length prepared \<le> length (ir_sentences request)" .
  with n(2) show "length (pc_sentences c) \<le> il_max_sentences limits" by (simp add: c)
  show "pc_language c = ir_language request" "pc_sentences c \<noteq> []" by (simp_all add: c n)
  show "map pr_normalized_text (pc_sentences c) = corpus_texts nfc (ir_sentences request)" by (simp add: c texts)
  have ok: "distinct (map pr_normalized_text prepared) \<and> map pr_ordinal prepared = [0..<length prepared] \<and>
    list_all (\<lambda>q. pr_normalized_text q \<noteq> [] \<and> str_len (pr_normalized_text q) \<le> il_max_sentence_characters limits
      \<and> pr_normalized_text q = normalize_sentence nfc (pr_original_text q)) prepared"
    by (rule prepare_sentences_ok [OF p]) simp_all
  then show "map pr_ordinal (pc_sentences c) = [0..<length (pc_sentences c)]" by (simp add: c)
  have "list_all (\<lambda>q. pr_normalized_text q \<noteq> [] \<and> str_len (pr_normalized_text q) \<le> il_max_sentence_characters limits) prepared"
    by (rule list.pred_mono_strong [OF conjunct2 [OF conjunct2 [OF ok]]]) blast
  then show "list_all (\<lambda>p. pr_normalized_text p \<noteq> [] \<and> str_len (pr_normalized_text p) \<le> il_max_sentence_characters limits) (pc_sentences c)"
    by (simp add: c)
  show "pc_content_sha256 c = sha (encode (canon (corpus_document (pc_language c) (map pr_normalized_text (pc_sentences c)))))"
    by (simp add: c)
qed

end
