(* ===== verification/JobControl.thy ===== *)
theory JobControl imports RunLog Identity Corpora begin

text \<open>
  src/corpuskit/services/jobs.py, \<open>JobControlPlane\<close>: idempotent submission of runs, retry,
  cancellation by compare-and-swap and the read operations, with the admission checks they make.
  The admission policy an operator configures is the runtime's; \<open>deny_advanced\<close> is the default.
\<close>

section \<open>Contracts\<close>

record run_submission =
  sub_project :: uuid
  sub_kind :: run_kind
  sub_spec :: json
  sub_corpus_version :: "uuid option"

record run_snapshot =
  rs_id :: uuid
  rs_organization :: uuid
  rs_project :: uuid
  rs_corpus_version :: "uuid option"
  rs_parent :: "uuid option"
  rs_kind :: run_kind
  rs_state :: run_state
  rs_attempt :: nat
  rs_spec :: json
  rs_spec_sha256 :: string
  rs_outbox_state :: outbox_state
  rs_cancellation_requested_at :: "time option"
  rs_created_at :: time
  rs_result_summary :: "json option"
  rs_failure_code :: "string option"

record event_snapshot =
  es_sequence :: nat
  es_event_type :: string
  es_payload :: json
  es_occurred_at :: time

record submission_result =
  sr_run :: run_snapshot
  sr_created :: bool

text \<open>The rows one submission creates have identifiers drawn before it starts.\<close>

record submission_ids =
  id_run :: uuid
  id_reservation :: uuid
  id_outbox :: uuid

section \<open>The default admission policy\<close>

definition advanced_run_kinds :: "run_kind list" where
  "advanced_run_kinds = [GENERATE_LLM, GENERATE_REPOSITORY, GENERATE_LOCAL, PERPLEXITY, BUILD_DATG_INDEX,
     GENERATE_DATG, TRAIN_PHON_RL]"

definition unsupported_run_kinds :: "run_kind list" where
  "unsupported_run_kinds = [EXPORT]"

definition deny_advanced :: "run_kind \<Rightarrow> json \<Rightarrow> exn + unit" where
  "deny_advanced kind spec =
     bindr (ensure (kind \<notin> set unsupported_run_kinds) (InvalidRequestError ''run.kind.unsupported'')) (\<lambda>_.
     ensure (kind \<notin> set advanced_run_kinds) (InvalidRequestError ''run.advanced.allowlist''))"

section \<open>Queries\<close>

definition writer_roles :: "role list" where
  "writer_roles = [OWNER, ADMIN, EDITOR]"

definition require_writer :: "role \<Rightarrow> string \<Rightarrow> exn + unit" where
  "require_writer role operation = ensure (role \<in> set writer_roles) (ResourceNotFoundError operation)"

definition job_member :: "actor \<Rightarrow> db \<Rightarrow> exn + uuid \<times> role" where
  "job_member a s = find_member ''run.identity'' a s"

definition active_project :: "uuid \<Rightarrow> uuid \<Rightarrow> db \<Rightarrow> bool" where
  "active_project org project_id s \<longleftrightarrow>
     list_ex (\<lambda>p. p_id p = project_id \<and> p_organization p = org \<and> p_lifecycle p = PROJECT_ACTIVE) (projects s)"

definition get_run :: "uuid \<Rightarrow> uuid \<Rightarrow> db \<Rightarrow> exn + run" where
  "get_run org run_id s =
     require (ResourceNotFoundError ''run.get'')
       (find (\<lambda>r. r_id r = run_id \<and> r_organization r = org \<and> active_project org (r_project r) s) (runs s))"

definition idempotent_run :: "uuid \<Rightarrow> string \<Rightarrow> db \<Rightarrow> run option" where
  "idempotent_run org key s = find (\<lambda>r. r_organization r = org \<and> r_idempotency_key r = key) (runs s)"

definition version_in_project :: "uuid \<Rightarrow> uuid \<Rightarrow> uuid \<Rightarrow> db \<Rightarrow> corpus_version option" where
  "version_in_project org project_id version_id s =
     find (\<lambda>v. v_id v = version_id \<and> v_organization v = org \<and>
       list_ex (\<lambda>c. c_id c = v_corpus v \<and> c_project c = project_id) (corpora s)) (corpus_versions s)"

definition submission_scope :: "uuid \<Rightarrow> run_submission \<Rightarrow> db \<Rightarrow> exn + unit" where
  "submission_scope org submission s =
     bindr (ensure (active_project org (sub_project submission) s) (ResourceNotFoundError ''run.submit'')) (\<lambda>_.
     case sub_corpus_version submission of
       None \<Rightarrow> Inr ()
     | Some version_id \<Rightarrow>
         ensure (version_in_project org (sub_project submission) version_id s \<noteq> None)
           (ResourceNotFoundError ''run.submit''))"

definition snapshot_run :: "run \<Rightarrow> db \<Rightarrow> exn + run_snapshot" where
  "snapshot_run run s =
     bindr (require (RuntimeError ''run has no durable dispatch intent'')
       (latest_by (\<lambda>m. (o_created_at m, o_id m))
         (filter (\<lambda>m. o_run m = r_id run \<and> o_event_type m = ''run.dispatch'') (outbox_messages s)))) (\<lambda>message.
     Inr \<lparr>rs_id = r_id run, rs_organization = r_organization run, rs_project = r_project run,
       rs_corpus_version = r_corpus_version run, rs_parent = r_parent run, rs_kind = r_kind run,
       rs_state = r_state run, rs_attempt = r_attempt run, rs_spec = r_spec run, rs_spec_sha256 = r_spec_sha256 run,
       rs_outbox_state = o_state message, rs_cancellation_requested_at = r_cancellation_requested_at run,
       rs_created_at = r_created_at run, rs_result_summary = r_result_summary run,
       rs_failure_code = r_failure_code run\<rparr>)"

section \<open>Helpers\<close>

definition idempotency_key :: "string \<Rightarrow> exn + string" where
  "idempotency_key v =
     (if v = [] \<or> 128 < length v \<or> list_ex (\<lambda>c. (of_char c :: nat) < 33 \<or> 126 < (of_char c :: nat)) v
      then Inl (InvalidRequestError ''run.idempotency'') else Inr v)"

definition same_submission :: "run \<Rightarrow> run_submission \<Rightarrow> string \<Rightarrow> uuid option \<Rightarrow> exn + unit" where
  "same_submission run submission spec_sha256 parent_run_id =
     ensure (\<not> (r_kind run \<noteq> sub_kind submission \<or> r_project run \<noteq> sub_project submission
         \<or> r_corpus_version run \<noteq> sub_corpus_version submission \<or> r_parent run \<noteq> parent_run_id
         \<or> r_spec_sha256 run \<noteq> spec_sha256))
       (ResourceConflictError ''run.idempotency'')"

definition new_outbox :: "uuid \<Rightarrow> time \<Rightarrow> run \<Rightarrow> string \<Rightarrow> outbox_message" where
  "new_outbox oid now run event_type =
     \<lparr>o_id = oid, o_organization = r_organization run, o_run = r_id run, o_event_type = event_type,
      o_payload = JObj [(''run_id'', JStr (uuid_str (r_id run))), (''kind'', JStr (run_kind_value (r_kind run))),
        (''spec_sha256'', JStr (r_spec_sha256 run))],
      o_state = PENDING, o_available_at = now, o_claimed_at = None, o_claimed_by = None,
      o_processed_at = None, o_attempts = 0, o_last_error_code = None, o_created_at = now\<rparr>"

definition new_event :: "uuid \<Rightarrow> uuid \<Rightarrow> nat \<Rightarrow> string \<Rightarrow> json \<Rightarrow> time \<Rightarrow> run_event" where
  "new_event org run_id sequence event_type payload now =
     \<lparr>e_organization = org, e_run = run_id, e_sequence = sequence, e_type = event_type, e_payload = payload,
      e_occurred_at = now\<rparr>"

definition state_payload :: "run_state \<Rightarrow> json" where
  "state_payload t = JObj [(''state'', JStr (run_state_value t))]"

section \<open>Admission\<close>

text \<open>
  The artifact a training or local-generation request takes as input: its identifier, digest and
  kind, and whether it must come from a successful training run.
\<close>

definition advanced_artifact ::
    "parsers \<Rightarrow> run_kind \<Rightarrow> json \<Rightarrow> exn + (uuid \<times> string \<times> artifact_kind \<times> bool) option" where
  "advanced_artifact ps kind spec =
     (case kind of
        TRAIN_PHON_RL \<Rightarrow>
          bindr (require (InvalidRequestError ''run.submit'') (parse_phon_rl ps spec)) (\<lambda>t.
          Inr (map_option (\<lambda>(aid, sha). (aid, sha, PROMPT_SET, False)) (tq_static_prompt_source t)))
      | GENERATE_LOCAL \<Rightarrow>
          bindr (require (InvalidRequestError ''run.submit'') (parse_local ps spec)) (\<lambda>l.
          Inr (map_option (\<lambda>(aid, sha). (aid, sha, RUN_RESULT, True)) (lq_phon_rl_adapter l)))
      | _ \<Rightarrow> Inr None)"

definition authorize_advanced_artifact ::
    "runtime \<Rightarrow> uuid \<Rightarrow> run_submission \<Rightarrow> json \<Rightarrow> db \<Rightarrow> exn + unit" where
  "authorize_advanced_artifact rt org submission spec s =
     bindr (advanced_artifact (rt_parsers rt) (sub_kind submission) spec) (\<lambda>input.
     case input of
       None \<Rightarrow> Inr ()
     | Some (artifact_id, expected_sha256, expected_kind, require_training_run) \<Rightarrow>
         bindr (require (ResourceNotFoundError ''run.input_artifact'')
           (find (\<lambda>a. a_id a = artifact_id \<and> a_organization a = org \<and> a_project a = sub_project submission
              \<and> a_kind a = artifact_kind_value expected_kind \<and> a_state a = ARTIFACT_ACTIVE
              \<and> a_sha256 a = expected_sha256) (artifacts s))) (\<lambda>a.
         if \<not> require_training_run then Inr ()
         else
           bindr (require (ResourceNotFoundError ''run.input_artifact'') (a_run a)) (\<lambda>source_id.
           ensure (list_ex (\<lambda>r. r_id r = source_id \<and> r_organization r = org \<and> r_project r = sub_project submission
               \<and> r_kind r = TRAIN_PHON_RL \<and> r_state r = SUCCEEDED) (runs s))
             (ResourceNotFoundError ''run.input_artifact''))))"

definition authorize_datg_index :: "runtime \<Rightarrow> uuid \<Rightarrow> run_submission \<Rightarrow> json \<Rightarrow> db \<Rightarrow> exn + unit" where
  "authorize_datg_index rt org submission spec s =
     (if sub_kind submission \<noteq> GENERATE_DATG then Inr ()
      else
        bindr (require (InvalidRequestError ''run.submit'') (parse_datg_generation (rt_parsers rt) spec)) (\<lambda>g.
        ensure (list_ex (\<lambda>d. d_organization d = org \<and> d_project d = sub_project submission
            \<and> d_cache_key_sha256 d = gq_index_cache_key_sha256 g \<and> d_runtime_id d = gq_runtime_id g
            \<and> d_language d = gq_language g \<and> d_unit d = gq_unit g) (datg_publications s))
          (ResourceNotFoundError ''run.datg_index'')))"

text \<open>The inline corpus of an executable request: its sentences and language.\<close>

definition inline_corpus :: "parsers \<Rightarrow> run_kind \<Rightarrow> json \<Rightarrow> exn + string list \<times> string" where
  "inline_corpus ps kind spec =
     (case kind of
        PHONEMIZE \<Rightarrow>
          bindr (require ValidationError (parse_phonemize ps spec)) (\<lambda>p.
          Inr (case ps_text p of Some text \<Rightarrow> [text] | None \<Rightarrow> ps_texts p, ps_language p))
      | EVALUATE \<Rightarrow>
          bindr (require ValidationError (parse_evaluate ps spec)) (\<lambda>e. Inr (es_sentences e, es_language e))
      | SELECT \<Rightarrow>
          bindr (require ValidationError (parse_select ps spec)) (\<lambda>x. Inr (ss_candidates x, ss_language x))
      | _ \<Rightarrow> Inl (InvalidRequestError ''run.corpus_lineage''))"

definition lineage_limits :: import_limits where
  "lineage_limits = \<lparr>il_max_sentences = 10000, il_max_sentence_characters = 2000\<rparr>"

definition authorize_corpus_lineage :: "runtime \<Rightarrow> uuid \<Rightarrow> run_submission \<Rightarrow> json \<Rightarrow> db \<Rightarrow> exn + unit" where
  "authorize_corpus_lineage rt org submission spec s =
     (case sub_corpus_version submission of
        None \<Rightarrow> Inr ()
      | Some version_id \<Rightarrow>
          bindr (reraise is_type_or_value_error (InvalidRequestError ''run.corpus_lineage'')
            (bindr (inline_corpus (rt_parsers rt) (sub_kind submission) spec) (\<lambda>(texts, language).
             bindr (make_import_request language texts) (\<lambda>request.
             prepare_corpus (rt_sha rt) (rt_nfc rt) lineage_limits request)))) (\<lambda>prepared.
          bindr (require (ResourceNotFoundError ''run.submit'')
            (version_in_project org (sub_project submission) version_id s)) (\<lambda>version.
          ensure (\<not> (v_language version \<noteq> pc_language prepared
              \<or> v_sentence_count version \<noteq> int (length (pc_sentences prepared))
              \<or> v_content_sha256 version \<noteq> pc_content_sha256 prepared))
            (InvalidRequestError ''run.corpus_lineage''))))"

section \<open>Submission\<close>

text \<open>
  \<open>_submit_in_session\<close>. Between the look-up of the key and the INSERT another transaction may
  commit: \<open>env\<close> is what it does to the database. The second component of the result is the
  database a rollback leaves.
\<close>

definition new_run ::
    "uuid \<Rightarrow> actor \<Rightarrow> uuid \<Rightarrow> run_submission \<Rightarrow> json \<Rightarrow> string \<Rightarrow> string \<Rightarrow> uuid option \<Rightarrow> nat \<Rightarrow> time \<Rightarrow> run" where
  "new_run run_id a user_id submission spec spec_sha256 key parent_run_id attempt now =
     \<lparr>r_id = run_id, r_organization = ac_organization a, r_project = sub_project submission,
      r_corpus_version = sub_corpus_version submission, r_parent = parent_run_id, r_created_by = user_id,
      r_kind = sub_kind submission, r_state = QUEUED, r_idempotency_key = key, r_attempt = attempt,
      r_event_sequence = 1, r_spec = spec, r_spec_sha256 = spec_sha256, r_result_summary = None,
      r_failure_code = None, r_cancellation_requested_at = None, r_created_at = now\<rparr>"

definition replay_submission :: "run \<Rightarrow> run_submission \<Rightarrow> string \<Rightarrow> uuid option \<Rightarrow> db \<Rightarrow> exn + submission_result \<times> db" where
  "replay_submission existing submission spec_sha256 parent_run_id s =
     bindr (same_submission existing submission spec_sha256 parent_run_id) (\<lambda>_.
     bindr (snapshot_run existing s) (\<lambda>snapshot.
     Inr (\<lparr>sr_run = snapshot, sr_created = False\<rparr>, s)))"

definition admit_submission ::
    "runtime \<Rightarrow> uuid \<Rightarrow> run_submission \<Rightarrow> json \<Rightarrow> uuid option \<Rightarrow> db \<Rightarrow> exn + unit" where
  "admit_submission rt org submission spec parent_run_id s =
     bindr (reraise is_type_or_value_error
       (InvalidRequestError (if parent_run_id \<noteq> None then ''run.retry'' else ''run.submit''))
       (rt_admission rt (sub_kind submission) spec)) (\<lambda>_.
     bindr (authorize_datg_index rt org submission spec s) (\<lambda>_.
     bindr (authorize_advanced_artifact rt org submission spec s) (\<lambda>_.
     authorize_corpus_lineage rt org submission spec s)))"

definition submission_metadata :: "run \<Rightarrow> nat \<Rightarrow> uuid option \<Rightarrow> metadata" where
  "submission_metadata run attempt parent_run_id =
     [(''attempt'', JInt (int attempt)), (''kind'', JStr (run_kind_value (r_kind run))),
      (''quota_class'', JStr (run_quota_class_value (run_quota_class (r_kind run))))]
     @ (case parent_run_id of None \<Rightarrow> [] | Some p \<Rightarrow> [(''source_run_id'', JStr (uuid_str p))])"

text \<open>The part after the INSERT: capacity, first event, dispatch intent and audit evidence.\<close>

definition finish_submission ::
    "runtime \<Rightarrow> tenant_context \<Rightarrow> time \<Rightarrow> submission_ids \<Rightarrow> actor \<Rightarrow> uuid \<Rightarrow> uuid option \<Rightarrow> nat \<Rightarrow> string \<Rightarrow> json
     \<Rightarrow> db \<Rightarrow> exn + submission_result \<times> db" where
  "finish_submission rt c now ids a user_id parent_run_id attempt event_type event_payload s =
     bindr (get_run (ac_organization a) (id_run ids) s) (\<lambda>run.
     bindr (reserve_run rt c now (id_reservation ids) (ac_organization a) run s) (\<lambda>(reserved, s).
     bindr (insert_row run_events_ok (new_event (ac_organization a) (r_id run) 1 event_type event_payload now)
       (run_events s)) (\<lambda>events.
     bindr (insert_row outbox_ok (new_outbox (id_outbox ids) now run ''run.dispatch'') (outbox_messages s)) (\<lambda>messages.
     bindr (audit_append rt c now (ac_organization a) (audit_user user_id)
       (if parent_run_id \<noteq> None then RUN_RETRY_SUBMITTED else RUN_SUBMITTED) RUN_RESOURCE (r_id run)
       (ac_request_id a) (submission_metadata run attempt parent_run_id)
       (s\<lparr>run_events := events, outbox_messages := messages\<rparr>)) (\<lambda>s.
     bindr (snapshot_run run s) (\<lambda>snapshot.
     Inr (\<lparr>sr_run = snapshot, sr_created = True\<rparr>, s)))))))"

definition submit_in_session ::
    "runtime \<Rightarrow> tenant_context \<Rightarrow> time \<Rightarrow> submission_ids \<Rightarrow> (db \<Rightarrow> db) \<Rightarrow> actor \<Rightarrow> uuid \<Rightarrow> run_submission \<Rightarrow> json
     \<Rightarrow> string \<Rightarrow> string \<Rightarrow> uuid option \<Rightarrow> nat \<Rightarrow> string \<Rightarrow> json \<Rightarrow> db \<Rightarrow> (exn + submission_result \<times> db) \<times> db" where
  "submit_in_session rt c now ids env a user_id submission spec spec_sha256 key parent_run_id attempt
     event_type event_payload s =
     (case idempotent_run (ac_organization a) key s of
        Some existing \<Rightarrow> (replay_submission existing submission spec_sha256 parent_run_id s, s)
      | None \<Rightarrow>
          (case admit_submission rt (ac_organization a) submission spec parent_run_id s of
             Inl e \<Rightarrow> (Inl e, s)
           | Inr _ \<Rightarrow>
               if rt_dialect rt = OtherDialect
               then (Inl (RuntimeError ''durable job idempotency requires PostgreSQL or SQLite''), s)
               else
                 (let s1 = env s in
                  case idempotent_run (ac_organization a) key s1 of
                    Some existing \<Rightarrow> (replay_submission existing submission spec_sha256 parent_run_id s1, s1)
                  | None \<Rightarrow>
                      (bindr (insert_row runs_ok
                         (new_run (id_run ids) a user_id submission spec spec_sha256 key parent_run_id attempt now)
                         (runs s1)) (\<lambda>rows.
                       finish_submission rt c now ids a user_id parent_run_id attempt event_type event_payload
                         (s1\<lparr>runs := rows\<rparr>)), s1))))"

text \<open>The transaction of \<open>submit\<close>, and \<open>submit\<close> itself.\<close>

definition submit_body ::
    "runtime \<Rightarrow> time \<Rightarrow> submission_ids \<Rightarrow> (db \<Rightarrow> db) \<Rightarrow> actor \<Rightarrow> run_submission \<Rightarrow> json \<Rightarrow> string \<Rightarrow> string
     \<Rightarrow> tenant_context \<Rightarrow> db \<Rightarrow> (exn + submission_result \<times> db) \<times> db" where
  "submit_body rt now ids env a submission spec spec_sha256 key c s =
     (case bindr (job_member a s) (\<lambda>(user_id, role).
           bindr (require_writer role ''run.submit'') (\<lambda>_.
           bindr (submission_scope (ac_organization a) submission s) (\<lambda>_. Inr user_id))) of
        Inl e \<Rightarrow> (Inl e, s)
      | Inr user_id \<Rightarrow>
          submit_in_session rt c now ids env a user_id submission spec spec_sha256 key None 1
            ''run.submitted'' (state_payload QUEUED) s)"

definition submit ::
    "runtime \<Rightarrow> time \<Rightarrow> submission_ids \<Rightarrow> (db \<Rightarrow> db) \<Rightarrow> actor \<Rightarrow> run_submission \<Rightarrow> string \<Rightarrow> db
     \<Rightarrow> (exn + submission_result) \<times> db" where
  "submit rt now ids env a submission key s =
     (case bindr (idempotency_key key) (\<lambda>key.
             bindr (reraise is_type_or_value_error (InvalidRequestError ''run.submit'')
               (normalize_run_spec (rt_sha rt) (sub_spec submission))) (\<lambda>normalized.
             Inr (key, normalized))) of
        Inl e \<Rightarrow> (Inl e, s)
      | Inr (key, spec, spec_sha256) \<Rightarrow>
          contended_session rt (user_context (ac_organization a) (ac_subject a))
            (submit_body rt now ids env a submission spec spec_sha256 key) s)"

definition retry_submission :: "run \<Rightarrow> run_submission" where
  "retry_submission source = \<lparr>sub_project = r_project source, sub_kind = r_kind source, sub_spec = r_spec source,
     sub_corpus_version = r_corpus_version source\<rparr>"

definition retry_body ::
    "runtime \<Rightarrow> time \<Rightarrow> submission_ids \<Rightarrow> (db \<Rightarrow> db) \<Rightarrow> actor \<Rightarrow> uuid \<Rightarrow> string
     \<Rightarrow> tenant_context \<Rightarrow> db \<Rightarrow> (exn + submission_result \<times> db) \<times> db" where
  "retry_body rt now ids env a run_id key c s =
     (case bindr (job_member a s) (\<lambda>(user_id, role).
           bindr (require_writer role ''run.retry'') (\<lambda>_.
           bindr (get_run (ac_organization a) run_id s) (\<lambda>source.
           bindr (ensure (r_state source \<in> {FAILED, CANCELLED}) (InvalidStateTransitionError ''run.retry'')) (\<lambda>_.
           Inr (user_id, source))))) of
        Inl e \<Rightarrow> (Inl e, s)
      | Inr (user_id, source) \<Rightarrow>
          submit_in_session rt c now ids env a user_id (retry_submission source)
            (r_spec source) (r_spec_sha256 source) key (Some (r_id source)) (Suc (r_attempt source))
            ''run.retry_submitted'' (JObj [(''source_run_id'', JStr (uuid_str (r_id source)))]) s)"

definition retry ::
    "runtime \<Rightarrow> time \<Rightarrow> submission_ids \<Rightarrow> (db \<Rightarrow> db) \<Rightarrow> actor \<Rightarrow> uuid \<Rightarrow> string \<Rightarrow> db
     \<Rightarrow> (exn + submission_result) \<times> db" where
  "retry rt now ids env a run_id key s =
     (case idempotency_key key of
        Inl e \<Rightarrow> (Inl e, s)
      | Inr key \<Rightarrow>
          contended_session rt (user_context (ac_organization a) (ac_subject a))
            (retry_body rt now ids env a run_id key) s)"

section \<open>Reading\<close>

definition get_job :: "runtime \<Rightarrow> actor \<Rightarrow> uuid \<Rightarrow> db \<Rightarrow> (exn + run_snapshot) \<times> db" where
  "get_job rt a run_id s =
     in_session rt (user_context (ac_organization a) (ac_subject a)) (\<lambda>c s.
       bindr (job_member a s) (\<lambda>_.
       bindr (get_run (ac_organization a) run_id s) (\<lambda>run.
       bindr (snapshot_run run s) (\<lambda>snapshot. Inr (snapshot, s))))) s"

fun map_result :: "('a \<Rightarrow> exn + 'b) \<Rightarrow> 'a list \<Rightarrow> exn + 'b list" where
  "map_result f [] = Inr []"
| "map_result f (x # xs) = bindr (f x) (\<lambda>y. bindr (map_result f xs) (\<lambda>ys. Inr (y # ys)))"

definition visible_runs :: "uuid \<Rightarrow> run_state option \<Rightarrow> run_kind option \<Rightarrow> db \<Rightarrow> run list" where
  "visible_runs org state kind s =
     rev (sort_key (\<lambda>r. (r_created_at r, r_id r))
       (filter (\<lambda>r. r_organization r = org \<and> active_project org (r_project r) s
          \<and> (case state of None \<Rightarrow> True | Some t \<Rightarrow> r_state r = t)
          \<and> (case kind of None \<Rightarrow> True | Some k \<Rightarrow> r_kind r = k)) (runs s)))"

definition list_jobs ::
    "runtime \<Rightarrow> actor \<Rightarrow> run_state option \<Rightarrow> run_kind option \<Rightarrow> nat \<Rightarrow> nat \<Rightarrow> db \<Rightarrow> (exn + run_snapshot list) \<times> db" where
  "list_jobs rt a state kind offset limit s =
     in_session rt (user_context (ac_organization a) (ac_subject a)) (\<lambda>c s.
       bindr (job_member a s) (\<lambda>_.
       bindr (map_result (\<lambda>run. snapshot_run run s)
         (take limit (drop offset (visible_runs (ac_organization a) state kind s)))) (\<lambda>snapshots.
       Inr (snapshots, s)))) s"

definition job_events ::
    "runtime \<Rightarrow> actor \<Rightarrow> uuid \<Rightarrow> nat \<Rightarrow> nat \<Rightarrow> db \<Rightarrow> (exn + event_snapshot list) \<times> db" where
  "job_events rt a run_id after limit s =
     in_session rt (user_context (ac_organization a) (ac_subject a)) (\<lambda>c s.
       bindr (job_member a s) (\<lambda>_.
       bindr (get_run (ac_organization a) run_id s) (\<lambda>_.
       Inr (map (\<lambda>e. \<lparr>es_sequence = e_sequence e, es_event_type = e_type e, es_payload = e_payload e,
              es_occurred_at = e_occurred_at e\<rparr>)
            (take limit (sort_key e_sequence
              (filter (\<lambda>e. e_organization e = ac_organization a \<and> e_run e = run_id \<and> after < e_sequence e)
                (run_events s)))), s)))) s"

section \<open>Cancellation\<close>

text \<open>
  The loop of \<open>request_cancellation\<close> with \<open>n\<close> attempts left. \<open>env n\<close> is what other transactions
  commit between reading the run and the UPDATE. The audit event's \<open>prior_state\<close> is read off the
  loaded row after the UPDATE.
\<close>

definition observed_state :: "runtime \<Rightarrow> run_state \<Rightarrow> run_state \<Rightarrow> run_state" where
  "observed_state rt prior current = (if rt_orm_refresh rt then current else prior)"

definition cas_matches :: "uuid \<Rightarrow> run \<Rightarrow> run \<Rightarrow> bool" where
  "cas_matches org seen r \<longleftrightarrow> r_id r = r_id seen \<and> r_organization r = org \<and> r_state r = r_state seen
     \<and> r_event_sequence r = r_event_sequence seen"

definition commit_cancellation ::
    "runtime \<Rightarrow> tenant_context \<Rightarrow> time \<Rightarrow> uuid \<Rightarrow> actor \<Rightarrow> uuid \<Rightarrow> run \<Rightarrow> db \<Rightarrow> exn + run_snapshot \<times> db" where
  "commit_cancellation rt c now oid a user_id run s =
     bindr (insert_row run_events_ok (new_event (ac_organization a) (r_id run) (Suc (r_event_sequence run))
       ''run.cancellation_requested'' (state_payload CANCELLING) now) (run_events s)) (\<lambda>events.
     bindr (insert_row outbox_ok (new_outbox oid now run ''run.cancel'') (outbox_messages s)) (\<lambda>messages.
     bindr (audit_append rt c now (ac_organization a) (audit_user user_id) RUN_CANCELLATION_REQUESTED RUN_RESOURCE
       (r_id run) (ac_request_id a)
       [(''prior_state'', JStr (run_state_value (observed_state rt (r_state run) CANCELLING)))]
       (s\<lparr>runs := update_where (cas_matches (ac_organization a) run)
            (\<lambda>r. r\<lparr>r_state := CANCELLING, r_cancellation_requested_at := Some now,
               r_event_sequence := Suc (r_event_sequence run)\<rparr>) (runs s),
          run_events := events, outbox_messages := messages\<rparr>)) (\<lambda>s.
     bindr (get_run (ac_organization a) (r_id run) s) (\<lambda>run.
     bindr (snapshot_run run s) (\<lambda>snapshot. Inr (snapshot, s))))))"

fun cancel_attempts ::
    "nat \<Rightarrow> runtime \<Rightarrow> tenant_context \<Rightarrow> time \<Rightarrow> uuid \<Rightarrow> (nat \<Rightarrow> db \<Rightarrow> db) \<Rightarrow> actor \<Rightarrow> uuid \<Rightarrow> uuid \<Rightarrow> db
     \<Rightarrow> (exn + run_snapshot \<times> db) \<times> db" where
  "cancel_attempts 0 rt c now oid env a user_id run_id s = (Inl (ResourceConflictError ''run.cancel''), s)"
| "cancel_attempts (Suc n) rt c now oid env a user_id run_id s =
     (case get_run (ac_organization a) run_id s of
        Inl e \<Rightarrow> (Inl e, s)
      | Inr run \<Rightarrow>
          if r_state run = CANCELLING
          then (bindr (snapshot_run run s) (\<lambda>snapshot. Inr (snapshot, s)), s)
          else
            (case ensure_transition (r_state run) CANCELLING of
               Inl e \<Rightarrow> (Inl e, s)
             | Inr _ \<Rightarrow>
                 let s1 = env n s in
                 if list_ex (cas_matches (ac_organization a) run) (runs s1)
                 then (commit_cancellation rt c now oid a user_id run s1, s1)
                 else cancel_attempts n rt c now oid env a user_id run_id s1))"

definition cancel_body ::
    "runtime \<Rightarrow> time \<Rightarrow> uuid \<Rightarrow> (nat \<Rightarrow> db \<Rightarrow> db) \<Rightarrow> actor \<Rightarrow> uuid \<Rightarrow> tenant_context \<Rightarrow> db
     \<Rightarrow> (exn + run_snapshot \<times> db) \<times> db" where
  "cancel_body rt now oid env a run_id c s =
     (case bindr (job_member a s) (\<lambda>(user_id, role).
           bindr (require_writer role ''run.cancel'') (\<lambda>_. Inr user_id)) of
        Inl e \<Rightarrow> (Inl e, s)
      | Inr user_id \<Rightarrow> cancel_attempts 3 rt c now oid env a user_id run_id s)"

definition request_cancellation ::
    "runtime \<Rightarrow> time \<Rightarrow> uuid \<Rightarrow> (nat \<Rightarrow> db \<Rightarrow> db) \<Rightarrow> actor \<Rightarrow> uuid \<Rightarrow> db \<Rightarrow> (exn + run_snapshot) \<times> db" where
  "request_cancellation rt now oid env a run_id s =
     contended_session rt (user_context (ac_organization a) (ac_subject a)) (cancel_body rt now oid env a run_id) s"

section \<open>Every operation keeps the invariants\<close>

text \<open>The well-formed databases of the job control plane.\<close>

definition jobs_inv :: "runtime \<Rightarrow> db \<Rightarrow> bool" where
  "jobs_inv rt s \<longleftrightarrow> constraints_ok s \<and> audit_ok rt s \<and> jobs_ok s \<and> log_ok s \<and> capacity_ok s \<and> dispatch_ok s"

lemma jobs_invD:
  assumes "jobs_inv rt s"
  shows "constraints_ok s" and "audit_ok rt s" and "jobs_ok s" and "log_ok s" and "capacity_ok s" and "dispatch_ok s"
  using assms by (simp_all add: jobs_inv_def)

lemma get_run_Inr:
  "get_run org run_id s = Inr r \<Longrightarrow> r \<in> set (runs s) \<and> r_id r = run_id \<and> r_organization r = org
     \<and> active_project org (r_project r) s"
  by (auto simp: get_run_def dest: find_SomeD)

lemma event_state_simps [simp]:
  "event_state (new_event org run_id n ''run.submitted'' p t) = Some QUEUED"
  "event_state (new_event org run_id n ''run.retry_submitted'' p t) = Some QUEUED"
  "event_state (new_event org run_id n ''run.provisioning'' p t) = Some PROVISIONING"
  "event_state (new_event org run_id n ''run.started'' p t) = Some RUNNING"
  "event_state (new_event org run_id n ''run.cancellation_requested'' p t) = Some CANCELLING"
  "event_state (new_event org run_id n ''run.cancellation_observed'' p t) = Some CANCELLING"
  "event_state (new_event org run_id n ''run.cancelled'' p t) = Some CANCELLED"
  "event_state (new_event org run_id n ''run.succeeded'' p t) = Some SUCCEEDED"
  "event_state (new_event org run_id n ''run.failed'' p t) = Some FAILED"
  "event_state (new_event org run_id n ''run.progress'' p t) = None"
  by (simp_all add: event_state_def new_event_def)

lemma new_event_simps [simp]:
  "e_organization (new_event org run_id n ty p t) = org" "e_run (new_event org run_id n ty p t) = run_id"
  "e_sequence (new_event org run_id n ty p t) = n" "e_type (new_event org run_id n ty p t) = ty"
  "e_payload (new_event org run_id n ty p t) = p"
  by (simp_all add: new_event_def)

lemma new_outbox_simps [simp]:
  "o_run (new_outbox oid t r ty) = r_id r" "o_organization (new_outbox oid t r ty) = r_organization r"
  "o_event_type (new_outbox oid t r ty) = ty" "o_state (new_outbox oid t r ty) = PENDING" "o_id (new_outbox oid t r ty) = oid"
  by (simp_all add: new_outbox_def)

lemma new_run_simps [simp]:
  "r_id (new_run i a u sub spec sha key p n t) = i"
  "r_organization (new_run i a u sub spec sha key p n t) = ac_organization a"
  "r_project (new_run i a u sub spec sha key p n t) = sub_project sub"
  "r_corpus_version (new_run i a u sub spec sha key p n t) = sub_corpus_version sub"
  "r_parent (new_run i a u sub spec sha key p n t) = p"
  "r_kind (new_run i a u sub spec sha key p n t) = sub_kind sub"
  "r_state (new_run i a u sub spec sha key p n t) = QUEUED"
  "r_idempotency_key (new_run i a u sub spec sha key p n t) = key"
  "r_attempt (new_run i a u sub spec sha key p n t) = n"
  "r_event_sequence (new_run i a u sub spec sha key p n t) = 1"
  "r_spec (new_run i a u sub spec sha key p n t) = spec"
  "r_spec_sha256 (new_run i a u sub spec sha key p n t) = sha"
  "r_created_by (new_run i a u sub spec sha key p n t) = u"
  by (simp_all add: new_run_def)

lemma finish_submission_steps:
  assumes "finish_submission rt c now ids a user_id parent attempt ty payload s = Inr (res, s')"
  obtains r b s2 ev ms sn where
    "get_run (ac_organization a) (id_run ids) s = Inr r"
    and "reserve_run rt c now (id_reservation ids) (ac_organization a) r s = Inr (b, s2)"
    and "ev = run_events s2 @ [new_event (ac_organization a) (r_id r) 1 ty payload now]"
    and "ms = outbox_messages s2 @ [new_outbox (id_outbox ids) now r ''run.dispatch'']"
    and "audit_append rt c now (ac_organization a) (audit_user user_id)
       (if parent \<noteq> None then RUN_RETRY_SUBMITTED else RUN_SUBMITTED) RUN_RESOURCE (r_id r)
       (ac_request_id a) (submission_metadata r attempt parent) (s2\<lparr>run_events := ev, outbox_messages := ms\<rparr>) = Inr s'"
    and "snapshot_run r s' = Inr sn" and "\<lparr>sr_run = sn, sr_created = True\<rparr> = res"
proof -
  from assms obtain r b s2 ev ms s3 sn where
    "get_run (ac_organization a) (id_run ids) s = Inr r"
    "reserve_run rt c now (id_reservation ids) (ac_organization a) r s = Inr (b, s2)"
    "ev = run_events s2 @ [new_event (ac_organization a) (r_id r) 1 ty payload now]"
    "ms = outbox_messages s2 @ [new_outbox (id_outbox ids) now r ''run.dispatch'']"
    "audit_append rt c now (ac_organization a) (audit_user user_id)
       (if parent \<noteq> None then RUN_RETRY_SUBMITTED else RUN_SUBMITTED) RUN_RESOURCE (r_id r)
       (ac_request_id a) (submission_metadata r attempt parent) (s2\<lparr>run_events := ev, outbox_messages := ms\<rparr>) = Inr s3"
    "snapshot_run r s3 = Inr sn" "\<lparr>sr_run = sn, sr_created = True\<rparr> = res" and s3: "s3 = s'"
    unfolding finish_submission_def bindr_eq_Inr split_paired_Ex prod.case insert_row_eq_Inr sum.inject prod.inject
    by - (elim exE conjE, rule that)
  then show thesis unfolding s3 by - (rule that)
qed

text \<open>
  What a created run adds to the database: the row itself, its first event, its dispatch intent
  and one active reservation of its class.
\<close>

lemma finish_submission_cases:
  assumes fin: "finish_submission rt c now ids a user_id parent attempt ty payload (s\<lparr>runs := runs s @ [run]\<rparr>) = Inr (res, s')"
    and rid: "r_id run = id_run ids" and uniq: "distinct (map r_id (runs s @ [run]))" and cap: "capacity_ok s"
  obtains q where "runs s' = runs s @ [run]"
    and "run_events s' = run_events s @ [new_event (ac_organization a) (id_run ids) 1 ty payload now]"
    and "outbox_messages s' = outbox_messages s @ [new_outbox (id_outbox ids) now run ''run.dispatch'']"
    and "quota_reservations s' = quota_reservations s @ [q]"
    and "r_organization run = ac_organization a" and "active_project (ac_organization a) (r_project run) s"
    and "qr_run q = id_run ids" and "qr_organization q = ac_organization a" and "qr_class q = run_quota_class (r_kind run)"
    and "qr_state q = RES_ACTIVE" and "sr_created res" and "rs_id (sr_run res) = id_run ids"
    and "rs_state (sr_run res) = r_state run" and "projects s' = projects s"
proof -
  let ?s = "s\<lparr>runs := runs s @ [run]\<rparr>"
  obtain r b s2 ev ms sn where
    r: "get_run (ac_organization a) (id_run ids) ?s = Inr r"
    and res: "reserve_run rt c now (id_reservation ids) (ac_organization a) r ?s = Inr (b, s2)"
    and ev: "ev = run_events s2 @ [new_event (ac_organization a) (r_id r) 1 ty payload now]"
    and ms: "ms = outbox_messages s2 @ [new_outbox (id_outbox ids) now r ''run.dispatch'']"
    and au: "audit_append rt c now (ac_organization a) (audit_user user_id)
       (if parent \<noteq> None then RUN_RETRY_SUBMITTED else RUN_SUBMITTED) RUN_RESOURCE (r_id r)
       (ac_request_id a) (submission_metadata r attempt parent) (s2\<lparr>run_events := ev, outbox_messages := ms\<rparr>) = Inr s'"
    and sn: "snapshot_run r s' = Inr sn" and rr: "\<lparr>sr_run = sn, sr_created = True\<rparr> = res"
    using fin by (rule finish_submission_steps)
  have "r \<in> set (runs s @ [run])" "r_id r = r_id run" and org: "r_organization r = ac_organization a"
    and act: "active_project (ac_organization a) (r_project r) ?s"
    using get_run_Inr [OF r] rid by auto
  moreover have "run \<in> set (runs s @ [run])" by simp
  ultimately have "r = run" by (intro distinct_map_inj [OF uniq])
  from res show thesis
  proof (cases rule: reserve_run_cases)
    case kept
    then obtain q where "find_reservation (ac_organization a) (r_id r) ?s = Some q" by blast
    then have "q \<in> set (quota_reservations s)" "qr_run q = id_run ids"
      using \<open>r = run\<close> rid by (auto simp: find_reservation_def dest: find_SomeD)
    with cap obtain x where "x \<in> set (runs s)" "r_id x = id_run ids" unfolding capacity_ok_def by fastforce
    with fresh_id [OF uniq] rid show thesis by auto
  next
    case (made q)
    note t2 = platform_frame_tables [OF made(2)]
    note t3 = platform_frame_tables [OF audit_append_frame(1) [OF au]] audit_append_frame(2) [OF au]
    show thesis
    proof (rule that [of q])
      show "rs_id (sr_run res) = id_run ids" "rs_state (sr_run res) = r_state run"
        using sn rid \<open>r = run\<close> by (auto simp: rr [symmetric] snapshot_run_def)
      show "active_project (ac_organization a) (r_project run) s"
        using act \<open>r = run\<close> by (simp add: active_project_def)
    qed (use t2 t3 made ev ms org \<open>r = run\<close> rid in \<open>simp_all add: rr [symmetric]\<close>)
  qed
qed

lemma finish_submission_inv:
  assumes fin: "finish_submission rt c now ids a user_id parent attempt ty payload (s\<lparr>runs := runs s @ [run]\<rparr>) = Inr (res, s')"
    and run: "r_id run = id_run ids" "r_state run = QUEUED" "r_event_sequence run = 1"
    and ty: "\<And>n p t org i. event_state (new_event org i n ty p t) = Some QUEUED"
    and inv: "jobs_inv rt s" and "digest_ok rt" and ok: "constraints_ok s'"
    and uniq: "distinct (map r_id (runs s @ [run]))"
  shows "jobs_inv rt s'"
proof -
  note inv = jobs_invD [OF inv]
  let ?s = "s\<lparr>runs := runs s @ [run]\<rparr>"
  obtain r b s2 ev ms where
    res: "reserve_run rt c now (id_reservation ids) (ac_organization a) r ?s = Inr (b, s2)"
    and au: "audit_append rt c now (ac_organization a) (audit_user user_id)
       (if parent \<noteq> None then RUN_RETRY_SUBMITTED else RUN_SUBMITTED) RUN_RESOURCE (r_id r)
       (ac_request_id a) (submission_metadata r attempt parent) (s2\<lparr>run_events := ev, outbox_messages := ms\<rparr>) = Inr s'"
    using fin by (rule finish_submission_steps) blast
  have "audit_ok rt ?s" using inv(2) by (simp add: audit_ok_cong [of ?s s])
  then have "audit_ok rt (s2\<lparr>run_events := ev, outbox_messages := ms\<rparr>)"
    using reserve_run_audit_ok [OF res] by (simp add: audit_ok_cong [of "s2\<lparr>run_events := ev, outbox_messages := ms\<rparr>" s2])
  then have audit: "audit_ok rt s'" using audit_append_audit_ok [OF assms(7) _ au] by blast
  have view: "usage_of o' (t\<lparr>run_events := e, outbox_messages := m\<rparr>) = usage_of o' t"
    "policy_of o' (t\<lparr>run_events := e, outbox_messages := m\<rparr>) = policy_of o' t"
    "usage_of o' (t\<lparr>runs := rr\<rparr>) = usage_of o' t" "policy_of o' (t\<lparr>runs := rr\<rparr>) = policy_of o' t" for o' t e m rr
    by (simp_all add: usage_of_def policy_of_def find_usage_def find_policy_def)
  have "jobs_ok ?s" using inv(3) by (simp add: jobs_ok_cong [of ?s s] view)
  then have "jobs_ok s2" using reserve_run_jobs_ok [OF res] by blast
  then have jobs: "jobs_ok s'"
    using audit_append_frame [OF au] by (simp add: jobs_ok_cong [of s' s2] view)
  obtain q where new: "runs s' = runs s @ [run]"
    "run_events s' = run_events s @ [new_event (ac_organization a) (id_run ids) 1 ty payload now]"
    "outbox_messages s' = outbox_messages s @ [new_outbox (id_outbox ids) now run ''run.dispatch'']"
    "quota_reservations s' = quota_reservations s @ [q]" "r_organization run = ac_organization a"
    "qr_run q = id_run ids" "qr_organization q = ac_organization a" "qr_class q = run_quota_class (r_kind run)"
    "qr_state q = RES_ACTIVE"
    using fin run(1) uniq inv(5) by (rule finish_submission_cases)
  have d: "distinct (map r_id (runs s'))" using uniq by (simp add: new)
  have "log_ok s'"
    by (rule log_ok_new_run [OF inv(4) new(1,2)]) (use run ty d new in simp_all)
  moreover have "capacity_ok s'"
    by (rule capacity_ok_new_run [OF inv(5) new(1,4)]) (use run d new in simp_all)
  moreover have "dispatch_ok s'"
    by (rule dispatch_ok_new_run [OF inv(6) new(1,3)]) (use run new in simp_all)
  ultimately show ?thesis using audit jobs ok by (simp add: jobs_inv_def)
qed


text \<open>\<open>_submit_in_session\<close> as a whole: it either replays a run that is there or creates one.\<close>

lemma submit_in_session_cases:
  assumes "submit_in_session rt c now ids env a user_id submission spec sha key parent attempt ty payload s = (r, base)"
  obtains (replayed) existing where "base \<in> {s, env s}" "idempotent_run (ac_organization a) key base = Some existing"
      "r = replay_submission existing submission sha parent base"
  | (refused) e where "r = Inl e" "base \<in> {s, env s}"
  | (created) res s' run where "r = Inr (res, s')" "base = env s" "idempotent_run (ac_organization a) key s = None"
      "idempotent_run (ac_organization a) key (env s) = None"
      "admit_submission rt (ac_organization a) submission spec parent s = Inr ()"
      "run = new_run (id_run ids) a user_id submission spec sha key parent attempt now"
      "runs_ok (runs (env s) @ [run])"
      "finish_submission rt c now ids a user_id parent attempt ty payload ((env s)\<lparr>runs := runs (env s) @ [run]\<rparr>) = Inr (res, s')"
proof (cases "idempotent_run (ac_organization a) key s")
  case (Some existing)
  with assms show thesis by (intro replayed) (auto simp: submit_in_session_def)
next
  case none: None
  show thesis
  proof (cases "admit_submission rt (ac_organization a) submission spec parent s")
    case (Inl e)
    with none assms show thesis by (intro refused) (auto simp: submit_in_session_def)
  next
    case admitted: (Inr u)
    show thesis
    proof (cases "rt_dialect rt = OtherDialect")
      case True
      with none admitted assms show thesis by (intro refused) (auto simp: submit_in_session_def)
    next
      case False
      show thesis
      proof (cases "idempotent_run (ac_organization a) key (env s)")
        case (Some existing)
        with none admitted False assms show thesis
          by (intro replayed) (auto simp: submit_in_session_def Let_def)
      next
        case none': None
        let ?run = "new_run (id_run ids) a user_id submission spec sha key parent attempt now"
        from none none' admitted False assms have base: "base = env s" and
          r: "r = bindr (insert_row runs_ok ?run (runs (env s))) (\<lambda>rows.
             finish_submission rt c now ids a user_id parent attempt ty payload ((env s)\<lparr>runs := rows\<rparr>))"
          by (auto simp: submit_in_session_def Let_def)
        show thesis
        proof (cases r)
          case (Inl e)
          with base show thesis by (intro refused) auto
        next
          case (Inr p)
          obtain res s' where "p = (res, s')" by fastforce
          with Inr r have "runs_ok (runs (env s) @ [?run])"
            "finish_submission rt c now ids a user_id parent attempt ty payload ((env s)\<lparr>runs := runs (env s) @ [?run]\<rparr>) = Inr (res, s')"
            by auto
          with none none' admitted base Inr \<open>p = (res, s')\<close> show thesis by (intro created) auto
        qed
      qed
    qed
  qed
qed

lemma replay_submission_Inr:
  assumes "replay_submission existing submission sha parent s = Inr (res, s')"
  shows "s' = s" and "\<not> sr_created res" and "same_submission existing submission sha parent = Inr ()"
    and "snapshot_run existing s = Inr (sr_run res)" and "rs_id (sr_run res) = r_id existing"
  using assms by (auto simp: replay_submission_def snapshot_run_def)

lemma submit_in_session_inv:
  assumes sub: "submit_in_session rt c now ids env a user_id submission spec sha key parent attempt ty payload s = (r, base)"
    and ty: "\<And>n p t org i. event_state (new_event org i n ty p t) = Some QUEUED"
    and "digest_ok rt" and "jobs_inv rt s" and "jobs_inv rt (env s)"
  shows "jobs_inv rt base" and "r = Inr (res, s') \<Longrightarrow> constraints_ok s' \<Longrightarrow> jobs_inv rt s'"
proof -
  show "jobs_inv rt base"
    using sub assms(4,5) by (cases rule: submit_in_session_cases) auto
  assume r: "r = Inr (res, s')" and ok: "constraints_ok s'"
  from sub show "jobs_inv rt s'"
  proof (cases rule: submit_in_session_cases)
    case (replayed existing)
    with r \<open>jobs_inv rt base\<close> show ?thesis by (auto dest: replay_submission_Inr(1))
  next
    case (refused e)
    with r show ?thesis by simp
  next
    case (created res' s'' run)
    have "distinct (map r_id (runs (env s) @ [run]))"
      using created(7) by (simp add: runs_ok_def unique_by_def)
    moreover have "r_id run = id_run ids" "r_state run = QUEUED" "r_event_sequence run = 1"
      using created(6) by simp_all
    moreover have "s'' = s'" using created(1) r by simp
    ultimately show ?thesis
      using finish_submission_inv [OF created(8) _ _ _ ty assms(5,3)] ok by simp
  qed
qed

lemma submit_body_inv:
  assumes "submit_body rt now ids env a submission spec sha key c s = (r, base)"
    and "digest_ok rt" and "jobs_inv rt s" and "\<And>t. jobs_inv rt t \<Longrightarrow> jobs_inv rt (env t)"
  shows "jobs_inv rt base" and "r = Inr (res, s') \<Longrightarrow> constraints_ok s' \<Longrightarrow> jobs_inv rt s'"
  using assms by (auto simp: submit_body_def split: sum.splits dest: submit_in_session_inv)

lemma submit_inv:
  assumes "digest_ok rt" and "jobs_inv rt s" and "\<And>t. jobs_inv rt t \<Longrightarrow> jobs_inv rt (env t)"
  shows "jobs_inv rt (snd (submit rt now ids env a submission key s))"
proof -
  have "jobs_inv rt (snd (contended_session rt ctx (submit_body rt now ids env a submission spec sha key') s))" for ctx spec sha key'
    by (rule contended_session_preserves [of "jobs_inv rt"])
       (use assms submit_body_inv [of rt now ids env a submission spec sha key'] in blast)+
  with assms(2) show ?thesis by (auto simp: submit_def split: sum.splits)
qed

lemma retry_body_inv:
  assumes "retry_body rt now ids env a run_id key c s = (r, base)"
    and "digest_ok rt" and "jobs_inv rt s" and "\<And>t. jobs_inv rt t \<Longrightarrow> jobs_inv rt (env t)"
  shows "jobs_inv rt base" and "r = Inr (res, s') \<Longrightarrow> constraints_ok s' \<Longrightarrow> jobs_inv rt s'"
  using assms by (auto simp: retry_body_def split: sum.splits dest: submit_in_session_inv)

lemma retry_inv:
  assumes "digest_ok rt" and "jobs_inv rt s" and "\<And>t. jobs_inv rt t \<Longrightarrow> jobs_inv rt (env t)"
  shows "jobs_inv rt (snd (retry rt now ids env a run_id key s))"
proof -
  have "jobs_inv rt (snd (contended_session rt ctx (retry_body rt now ids env a run_id key') s))" for ctx key'
    by (rule contended_session_preserves [of "jobs_inv rt"])
       (use assms retry_body_inv [of rt now ids env a run_id key'] in blast)+
  with assms(2) show ?thesis by (auto simp: retry_def split: sum.splits)
qed

text \<open>
  A compare-and-swap that finds its row changes exactly that row: with unique identifiers the four
  conditions select what the identifier alone selects.
\<close>

lemma cas_update:
  assumes "distinct (map r_id rows)" and "list_ex (cas_matches org seen) rows"
  obtains run where "run \<in> set rows" "r_id run = r_id seen" "r_organization run = org" "r_state run = r_state seen"
    "r_event_sequence run = r_event_sequence seen" "update_where (cas_matches org seen) f rows = update_run (r_id seen) f rows"
proof -
  obtain run where run: "run \<in> set rows" "cas_matches org seen run" using assms(2) by (auto simp: list_ex_iff)
  have "cas_matches org seen x = (r_id x = r_id seen)" if "x \<in> set rows" for x
  proof
    assume "r_id x = r_id seen"
    with run have "x = run" by (intro distinct_map_inj [OF assms(1) that run(1)]) (simp add: cas_matches_def)
    with run show "cas_matches org seen x" by simp
  qed (simp add: cas_matches_def)
  then have "update_where (cas_matches org seen) f rows = update_run (r_id seen) f rows"
    by (auto simp: update_run_def update_where_def)
  with run that show thesis by (auto simp: cas_matches_def)
qed

lemma commit_cancellation_steps:
  assumes "commit_cancellation rt c now oid a user_id run s = Inr (res, s')"
  obtains r where
    "run_events_ok (run_events s @ [new_event (ac_organization a) (r_id run) (Suc (r_event_sequence run))
       ''run.cancellation_requested'' (state_payload CANCELLING) now])"
    and "audit_append rt c now (ac_organization a) (audit_user user_id) RUN_CANCELLATION_REQUESTED RUN_RESOURCE
       (r_id run) (ac_request_id a)
       [(''prior_state'', JStr (run_state_value (observed_state rt (r_state run) CANCELLING)))]
       (s\<lparr>runs := update_where (cas_matches (ac_organization a) run)
            (\<lambda>r. r\<lparr>r_state := CANCELLING, r_cancellation_requested_at := Some now,
               r_event_sequence := Suc (r_event_sequence run)\<rparr>) (runs s),
          run_events := run_events s @ [new_event (ac_organization a) (r_id run) (Suc (r_event_sequence run))
             ''run.cancellation_requested'' (state_payload CANCELLING) now],
          outbox_messages := outbox_messages s @ [new_outbox oid now run ''run.cancel'']\<rparr>) = Inr s'"
    and "get_run (ac_organization a) (r_id run) s' = Inr r" and "snapshot_run r s' = Inr res"
  using assms unfolding commit_cancellation_def by auto

lemma cas_holds_capacity:
  "r_id run = r_id seen \<Longrightarrow> r_organization run = r_organization seen \<Longrightarrow> r_kind run = r_kind seen \<Longrightarrow>
   holds_capacity s run = holds_capacity s seen"
  by (simp add: holds_capacity_def)

lemma commit_cancellation_inv:
  assumes com: "commit_cancellation rt c now oid a user_id seen s = Inr (res, s')"
    and cas: "list_ex (cas_matches (ac_organization a) seen) (runs s)"
    and step: "CANCELLING \<in> set (transitions (r_state seen))"
    and inv: "jobs_inv rt s" and "digest_ok rt" and ok: "constraints_ok s'"
  shows "jobs_inv rt s'"
proof -
  note inv = jobs_invD [OF inv]
  let ?f = "\<lambda>r. r\<lparr>r_state := CANCELLING, r_cancellation_requested_at := Some now,
               r_event_sequence := Suc (r_event_sequence seen)\<rparr>"
  have d: "distinct (map r_id (runs s))" using inv(1) by (rule constraints_runs)
  from cas_update [OF d cas, of ?f] obtain run where
    run: "run \<in> set (runs s)" "r_id run = r_id seen" "r_organization run = ac_organization a" "r_state run = r_state seen"
    "r_event_sequence run = r_event_sequence seen"
    and upd: "update_where (cas_matches (ac_organization a) seen) ?f (runs s) = update_run (r_id run) ?f (runs s)"
    by metis
  let ?e = "new_event (ac_organization a) (r_id seen) (Suc (r_event_sequence seen))
       ''run.cancellation_requested'' (state_payload CANCELLING) now"
  let ?t = "s\<lparr>runs := update_run (r_id run) ?f (runs s), run_events := run_events s @ [?e],
          outbox_messages := outbox_messages s @ [new_outbox oid now seen ''run.cancel'']\<rparr>"
  have au: "audit_append rt c now (ac_organization a) (audit_user user_id) RUN_CANCELLATION_REQUESTED RUN_RESOURCE
       (r_id seen) (ac_request_id a)
       [(''prior_state'', JStr (run_state_value (observed_state rt (r_state seen) CANCELLING)))] ?t = Inr s'"
    using com by (rule commit_cancellation_steps) (simp add: upd)
  note t3 = platform_frame_tables [OF audit_append_frame(1) [OF au]] audit_append_frame(2) [OF au]
  have "audit_ok rt ?t" using inv(2) by (simp add: audit_ok_cong [of ?t s])
  then have "audit_ok rt s'" using audit_append_audit_ok [OF assms(5) _ au] by blast
  moreover have "jobs_ok s'"
  proof -
    have "usage_of o' ?t = usage_of o' s" "policy_of o' ?t = policy_of o' s" for o'
      by (simp_all add: usage_of_def policy_of_def find_usage_def find_policy_def)
    then have "jobs_ok s' = jobs_ok s"
      using t3 audit_append_frame(3,4) [OF au] by (intro jobs_ok_cong) simp_all
    with inv(3) show ?thesis by simp
  qed
  moreover have "log_ok s'"
    by (rule log_ok_event [OF inv(4) d run(1), where f = ?f and e = ?e]) (use t3 run step in simp_all)
  moreover have "capacity_ok s'"
  proof (rule capacity_ok_update [OF inv(5) d run(1), where f = ?f])
    show "holds_capacity s' run \<longleftrightarrow> \<not> is_terminal (r_state (?f run))"
    proof -
      have "holds_capacity s' run = holds_capacity s run" using t3 by (simp add: holds_capacity_def)
      also have "\<dots> \<longleftrightarrow> \<not> is_terminal (r_state run)" using inv(5) run(1) by (simp add: capacity_ok_def)
      also have "\<dots>" using step run(4) by (auto simp: is_terminal_def)
      finally show ?thesis by simp
    qed
  qed (use t3 in \<open>simp_all add: holds_capacity_def\<close>)
  moreover have "dispatch_ok s'"
    by (rule dispatch_ok_update [OF inv(6), where f = ?f and run_id = "r_id run"]) (use t3 in auto)
  ultimately show ?thesis using ok by (simp add: jobs_inv_def)
qed

lemma cancel_attempts_inv:
  assumes "cancel_attempts n rt c now oid env a user_id run_id s = (r, base)"
    and "digest_ok rt" and "jobs_inv rt s" and "\<And>i t. jobs_inv rt t \<Longrightarrow> jobs_inv rt (env i t)"
  shows "jobs_inv rt base \<and> (\<forall>res s'. r = Inr (res, s') \<longrightarrow> constraints_ok s' \<longrightarrow> jobs_inv rt s')"
  using assms(1,3)
proof (induction n arbitrary: s)
  case 0
  then show ?case by auto
next
  case (Suc n)
  show ?case
  proof (cases "get_run (ac_organization a) run_id s")
    case (Inl e)
    with Suc.prems show ?thesis by auto
  next
    case run: (Inr run)
    show ?thesis
    proof (cases "r_state run = CANCELLING")
      case True
      with run Suc.prems show ?thesis by auto
    next
      case False
      show ?thesis
      proof (cases "ensure_transition (r_state run) CANCELLING")
        case (Inl e)
        with run False Suc.prems show ?thesis by auto
      next
        case (Inr u)
        then have step: "CANCELLING \<in> set (transitions (r_state run))" by (simp add: lifecycle_step_iff)
        have env: "jobs_inv rt (env n s)" using assms(4) Suc.prems(2) by blast
        show ?thesis
        proof (cases "list_ex (cas_matches (ac_organization a) run) (runs (env n s))")
          case True
          with run False Inr Suc.prems have "base = env n s" "r = commit_cancellation rt c now oid a user_id run (env n s)"
            by (auto simp: Let_def simp del: ensure_transition_eq_Inr)
          with commit_cancellation_inv [OF _ True step env assms(2)] env show ?thesis by auto
        next
          case no: False
          with run False Inr Suc.prems have "cancel_attempts n rt c now oid env a user_id run_id (env n s) = (r, base)"
            by (auto simp: Let_def simp del: ensure_transition_eq_Inr)
          with Suc.IH env show ?thesis by blast
        qed
      qed
    qed
  qed
qed

lemma request_cancellation_inv:
  assumes "digest_ok rt" and "jobs_inv rt s" and "\<And>i t. jobs_inv rt t \<Longrightarrow> jobs_inv rt (env i t)"
  shows "jobs_inv rt (snd (request_cancellation rt now oid env a run_id s))"
  unfolding request_cancellation_def
proof (rule contended_session_preserves [of "jobs_inv rt"])
  show "jobs_inv rt base" if "cancel_body rt now oid env a run_id c s = (r, base)" for c r base
    using that assms by (auto simp: cancel_body_def split: sum.splits dest: cancel_attempts_inv)
  show "jobs_inv rt s'" if "cancel_body rt now oid env a run_id c s = (Inr (res, s'), base)" "constraints_ok s'" for c res s' base
    using that assms by (auto simp: cancel_body_def split: sum.splits dest!: cancel_attempts_inv)
qed (rule assms(2))


section \<open>Submission is idempotent\<close>

lemma find_append_new: "find P rows = None \<Longrightarrow> P r \<Longrightarrow> find P (rows @ [r]) = Some r"
  by (simp add: find_append)

lemma idempotent_run_Some:
  "idempotent_run org key s = Some r \<Longrightarrow> r \<in> set (runs s) \<and> r_organization r = org \<and> r_idempotency_key r = key"
  by (auto simp: idempotent_run_def dest: find_SomeD)

lemma same_submission_iff [simp]:
  "same_submission r submission sha parent = Inr () \<longleftrightarrow> r_kind r = sub_kind submission \<and> r_project r = sub_project submission
     \<and> r_corpus_version r = sub_corpus_version submission \<and> r_parent r = parent \<and> r_spec_sha256 r = sha"
  by (auto simp: same_submission_def)

lemma latest_by_ex: "rows \<noteq> [] \<Longrightarrow> \<exists>m. latest_by k rows = Some m"
  by (cases "latest_by k rows") auto

lemma snapshot_run_ok: "dispatch_ok s \<Longrightarrow> r \<in> set (runs s) \<Longrightarrow> \<exists>sn. snapshot_run r s = Inr sn"
proof -
  assume "dispatch_ok s" "r \<in> set (runs s)"
  then have "filter (\<lambda>m. o_run m = r_id r \<and> o_event_type m = ''run.dispatch'') (outbox_messages s) \<noteq> []"
    by (fastforce simp: dispatch_ok_def filter_empty_conv)
  then obtain m where "latest_by (\<lambda>m. (o_created_at m, o_id m))
      (filter (\<lambda>m. o_run m = r_id r \<and> o_event_type m = ''run.dispatch'') (outbox_messages s)) = Some m"
    using latest_by_ex by blast
  then show ?thesis by (auto simp: snapshot_run_def)
qed

text \<open>
  The run a submission returns is the one stored under its key, and it is the run that was asked
  for, whoever stored it.
\<close>

lemma submit_in_session_stored:
  assumes sub: "submit_in_session rt c now ids env a user_id submission spec sha key parent attempt ty payload s = (Inr (res, s'), base)"
    and "capacity_ok (env s)"
  shows "\<exists>r. idempotent_run (ac_organization a) key s' = Some r \<and> r_id r = rs_id (sr_run res)
    \<and> same_submission r submission sha parent = Inr ()"
  using sub
proof (cases rule: submit_in_session_cases)
  case (replayed existing)
  from replay_submission_Inr [OF replayed(3) [symmetric]] replayed(2) show ?thesis by auto
next
  case (refused e)
  then show ?thesis by simp
next
  case (created res' s'' run)
  then have eq: "res' = res" "s'' = s'" by simp_all
  have uniq: "distinct (map r_id (runs (env s) @ [run]))"
    using created(7) by (simp add: runs_ok_def unique_by_def)
  have rid: "r_id run = id_run ids" using created(6) by simp
  have runs': "runs s' = runs (env s) @ [run]" and "rs_id (sr_run res) = id_run ids"
    using finish_submission_cases [OF created(8) rid uniq assms(2)] eq by metis+
  moreover have "idempotent_run (ac_organization a) key s' = Some run"
    using created(4,6) unfolding idempotent_run_def runs' by (intro find_append_new) simp_all
  ultimately show ?thesis using created(6) by simp
qed

text \<open>What an authorised submission is: its guards, evaluated on one database.\<close>

definition may_submit :: "actor \<Rightarrow> run_submission \<Rightarrow> db \<Rightarrow> exn + uuid" where
  "may_submit a submission s =
     bindr (job_member a s) (\<lambda>(user_id, role).
     bindr (require_writer role ''run.submit'') (\<lambda>_.
     bindr (submission_scope (ac_organization a) submission s) (\<lambda>_. Inr user_id)))"

lemma may_submit_cong:
  assumes "users t = users s" "memberships t = memberships s" "projects t = projects s" "corpora t = corpora s"
    "corpus_versions t = corpus_versions s"
  shows "may_submit a submission t = may_submit a submission s"
  unfolding may_submit_def job_member_def find_member_def member_rows_def submission_scope_def active_project_def
    version_in_project_def assms ..

lemma submit_body_eq:
  "submit_body rt now ids env a submission spec sha key c s =
     (case may_submit a submission s of Inl e \<Rightarrow> (Inl e, s)
      | Inr user_id \<Rightarrow> submit_in_session rt c now ids env a user_id submission spec sha key None 1
            ''run.submitted'' (state_payload QUEUED) s)"
  by (simp only: submit_body_def may_submit_def)

lemma submit_eq:
  assumes "idempotency_key key = Inr key" and "normalize_run_spec (rt_sha rt) (sub_spec submission) = Inr (spec, sha)"
  shows "submit rt now ids env a submission key s =
    contended_session rt (user_context (ac_organization a) (ac_subject a)) (submit_body rt now ids env a submission spec sha key) s"
  using assms by (simp add: submit_def)

lemma submit_Inr:
  assumes "submit rt now ids env a submission key s = (Inr res, s')"
  obtains spec sha c user_id base where
    "idempotency_key key = Inr key" "normalize_run_spec (rt_sha rt) (sub_spec submission) = Inr (spec, sha)"
    "user_context (ac_organization a) (ac_subject a) = Inr c" "may_submit a submission s = Inr user_id"
    "submit_in_session rt c now ids env a user_id submission spec sha key None 1
            ''run.submitted'' (state_payload QUEUED) s = (Inr (res, s'), base)" "constraints_ok s'"
proof -
  have key: "idempotency_key key = Inr k \<Longrightarrow> k = key" for k by (auto simp: idempotency_key_def split: if_splits)
  from assms obtain k spec sha where ok: "idempotency_key key = Inr k"
    "normalize_run_spec (rt_sha rt) (sub_spec submission) = Inr (spec, sha)"
    by (auto simp: submit_def split: sum.splits)
  with key have k: "idempotency_key key = Inr key" by simp
  from assms have "contended_session rt (user_context (ac_organization a) (ac_subject a))
      (submit_body rt now ids env a submission spec sha key) s = (Inr res, s')"
    by (simp add: submit_eq [OF k ok(2)])
  then obtain c base where c: "user_context (ac_organization a) (ac_subject a) = Inr c"
    "submit_body rt now ids env a submission spec sha key c s = (Inr (res, s'), base)" "constraints_ok s'"
    by (blast dest: contended_session_Inr)
  from c(2) obtain user_id where "may_submit a submission s = Inr user_id"
    "submit_in_session rt c now ids env a user_id submission spec sha key None 1
            ''run.submitted'' (state_payload QUEUED) s = (Inr (res, s'), base)"
    by (auto simp: submit_body_eq split: sum.splits)
  with k ok(2) c(1,3) show thesis by (intro that)
qed

lemma contended_session_eq:
  assumes "user_context org subject = Inr c" and "body c s = (Inr (x, s'), base)" and "constraints_ok s'"
  shows "contended_session rt (user_context org subject) body s = (Inr x, s')"
  using assms open_session_valid [OF user_context_valid [OF assms(1)]] by (simp add: contended_session_def)

text \<open>The tables a submission without interference leaves alone.\<close>

lemma submit_in_session_frame:
  assumes sub: "submit_in_session rt c now ids (\<lambda>t. t) a user_id submission spec sha key parent attempt ty payload s = (Inr (res, s'), base)"
  shows "users s' = users s" "memberships s' = memberships s" "projects s' = projects s" "corpora s' = corpora s"
    "corpus_versions s' = corpus_versions s"
proof -
  have "users s' = users s \<and> memberships s' = memberships s \<and> projects s' = projects s \<and> corpora s' = corpora s
    \<and> corpus_versions s' = corpus_versions s"
    using sub
  proof (cases rule: submit_in_session_cases)
    case (replayed existing)
    with replay_submission_Inr(1) [OF replayed(3) [symmetric]] show ?thesis by auto
  next
    case (refused e)
    then show ?thesis by simp
  next
    case (created res' s'' run)
    then obtain r b s2 ev ms where
      res: "reserve_run rt c now (id_reservation ids) (ac_organization a) r (s\<lparr>runs := runs s @ [run]\<rparr>) = Inr (b, s2)"
      and au: "audit_append rt c now (ac_organization a) (audit_user user_id)
       (if parent \<noteq> None then RUN_RETRY_SUBMITTED else RUN_SUBMITTED) RUN_RESOURCE (r_id r)
       (ac_request_id a) (submission_metadata r attempt parent) (s2\<lparr>run_events := ev, outbox_messages := ms\<rparr>) = Inr s'"
      by (auto elim: finish_submission_steps)
    have f: "platform_frame (s\<lparr>runs := runs s @ [run]\<rparr>) s2"
      using res by (cases rule: reserve_run_cases) auto
    show ?thesis
      using platform_frame_tables [OF f] platform_frame_tables [OF audit_append_frame(1) [OF au]] by simp
  qed
  then show "users s' = users s" "memberships s' = memberships s" "projects s' = projects s" "corpora s' = corpora s"
    "corpus_versions s' = corpus_versions s" by simp_all
qed

lemma submit_again:
  assumes "digest_ok rt" and "jobs_inv rt s"
    and "submit rt now ids (\<lambda>t. t) a submission key s = (Inr res, s')"
  shows "\<exists>res'. submit rt now' ids' (\<lambda>t. t) a submission key s' = (Inr res', s') \<and> \<not> sr_created res'
    \<and> rs_id (sr_run res') = rs_id (sr_run res)"
  using assms(3)
proof (rule submit_Inr)
  fix spec sha c user_id base
  assume key: "idempotency_key key = Inr key"
    and norm: "normalize_run_spec (rt_sha rt) (sub_spec submission) = Inr (spec, sha)"
    and ctx: "user_context (ac_organization a) (ac_subject a) = Inr c" and may: "may_submit a submission s = Inr user_id"
    and sub: "submit_in_session rt c now ids (\<lambda>t. t) a user_id submission spec sha key None 1
            ''run.submitted'' (state_payload QUEUED) s = (Inr (res, s'), base)" and ok: "constraints_ok s'"
  have inv': "jobs_inv rt s'"
    using submit_in_session_inv(2) [OF sub _ assms(1,2,2) refl ok] by simp
  obtain r where r: "idempotent_run (ac_organization a) key s' = Some r" "r_id r = rs_id (sr_run res)"
    "same_submission r submission sha None = Inr ()"
    using submit_in_session_stored [OF sub] jobs_invD(5) [OF assms(2)] by blast
  obtain sn where sn: "snapshot_run r s' = Inr sn"
    using snapshot_run_ok [OF jobs_invD(6) [OF inv']] idempotent_run_Some [OF r(1)] by blast
  have may': "may_submit a submission s' = Inr user_id"
    using may_submit_cong [OF submit_in_session_frame [OF sub]] may by simp
  have "submit_body rt now' ids' (\<lambda>t. t) a submission spec sha key c s' = (Inr (\<lparr>sr_run = sn, sr_created = False\<rparr>, s'), s')"
    using r sn may' by (simp add: submit_body_eq submit_in_session_def replay_submission_def del: same_submission_iff)
  then have "submit rt now' ids' (\<lambda>t. t) a submission key s' = (Inr \<lparr>sr_run = sn, sr_created = False\<rparr>, s')"
    unfolding submit_eq [OF key norm] by (rule contended_session_eq [OF ctx _ ok])
  moreover have "rs_id sn = rs_id (sr_run res)" using sn r(2) by (auto simp: snapshot_run_def)
  ultimately show ?thesis by simp
qed


section \<open>Retry and cancellation\<close>

lemma retry_lineage:
  assumes "retry rt now ids env a run_id key s = (Inr res, s')" and "capacity_ok (env s)"
  shows "\<exists>source r. source \<in> set (runs s) \<and> r_id source = run_id \<and> r_organization source = ac_organization a
     \<and> r_state source \<in> {FAILED, CANCELLED}
     \<and> idempotent_run (ac_organization a) key s' = Some r \<and> r_id r = rs_id (sr_run res)
     \<and> r_parent r = Some run_id \<and> r_kind r = r_kind source \<and> r_project r = r_project source
     \<and> r_corpus_version r = r_corpus_version source \<and> r_spec_sha256 r = r_spec_sha256 source
     \<and> (sr_created res \<longrightarrow> r_spec r = r_spec source \<and> r_attempt r = Suc (r_attempt source) \<and> r_state r = QUEUED)"
proof -
  have key: "idempotency_key key = Inr k \<Longrightarrow> k = key" for k by (auto simp: idempotency_key_def split: if_splits)
  from assms(1) obtain k where "idempotency_key key = Inr k" "contended_session rt (user_context (ac_organization a) (ac_subject a))
      (retry_body rt now ids env a run_id k) s = (Inr res, s')"
    by (auto simp: retry_def split: sum.splits)
  with key obtain c base where "retry_body rt now ids env a run_id key c s = (Inr (res, s'), base)" "constraints_ok s'"
    by (blast dest: contended_session_Inr)
  then obtain user_id source where src: "get_run (ac_organization a) run_id s = Inr source" "r_state source \<in> {FAILED, CANCELLED}"
    and sub: "submit_in_session rt c now ids env a user_id (retry_submission source)
            (r_spec source) (r_spec_sha256 source) key (Some (r_id source)) (Suc (r_attempt source))
            ''run.retry_submitted'' (JObj [(''source_run_id'', JStr (uuid_str (r_id source)))]) s = (Inr (res, s'), base)"
    by (auto simp: retry_body_def split: sum.splits)
  obtain r where r: "idempotent_run (ac_organization a) key s' = Some r" "r_id r = rs_id (sr_run res)"
    "same_submission r (retry_submission source) (r_spec_sha256 source) (Some (r_id source)) = Inr ()"
    using submit_in_session_stored [OF sub assms(2)] by blast
  have fresh: "r_spec r = r_spec source \<and> r_attempt r = Suc (r_attempt source) \<and> r_state r = QUEUED" if "sr_created res"
    using sub
  proof (cases rule: submit_in_session_cases)
    case (replayed existing)
    with that replay_submission_Inr(2) [OF replayed(3) [symmetric]] show ?thesis by simp
  next
    case (refused e)
    then show ?thesis by simp
  next
    case (created res' s'' run)
    have uniq: "distinct (map r_id (runs (env s) @ [run]))"
      using created(7) by (simp add: runs_ok_def unique_by_def)
    have rid: "r_id run = id_run ids" using created(6) by simp
    have "runs s' = runs (env s) @ [run]"
      using finish_submission_cases [OF created(8) rid uniq assms(2)] created(1) by (metis prod.inject sum.inject(2))
    then have "idempotent_run (ac_organization a) key s' = Some run"
      using created(4,6) unfolding idempotent_run_def by (simp add: find_append_new)
    with r(1) have "r = run" by simp
    with created(6) show ?thesis by (simp add: new_run_def)
  qed
  from get_run_Inr [OF src(1)] src(2) r fresh show ?thesis
    by (intro exI [of _ source] exI [of _ r]) (simp add: retry_submission_def)
qed

lemma cancel_attempts_result:
  assumes "cancel_attempts n rt c now oid env a user_id run_id s = (Inr (snap, s'), base)"
  shows "rs_id snap = run_id \<and> rs_organization snap = ac_organization a \<and> rs_state snap = CANCELLING \<or>
    (\<exists>seen t. commit_cancellation rt c now oid a user_id seen t = Inr (snap, s') \<and> r_id seen = run_id
      \<and> list_ex (cas_matches (ac_organization a) seen) (runs t) \<and> lifecycle_step (r_state seen) CANCELLING)"
  using assms
proof (induction n arbitrary: s)
  case (Suc n)
  then show ?case
    by (auto simp: Let_def snapshot_run_def dest!: get_run_Inr split: sum.splits if_splits
        simp del: ensure_transition_eq_Inr) (auto dest!: ensure_transition_eq_Inr [THEN iffD1])
qed simp

text \<open>The audit trail's \<open>prior_state\<close> of a committed cancellation.\<close>

lemma audit_append_last_event:
  assumes "audit_append rt c now org actor action rtype rid request_id metadata s = Inr s'"
  shows "\<exists>e n. audit_events s' = audit_events s @ [e] \<and> normalize_audit_metadata action metadata = Inr n
    \<and> ap_metadata (ev_payload e) = n \<and> ap_action (ev_payload e) = action \<and> ap_organization (ev_payload e) = org
    \<and> ap_resource_id (ev_payload e) = rid \<and> ap_actor_id (ev_payload e) = ai_identifier actor"
  using assms
proof (rule audit_append_cases)
  fix normalized safe_request_id s1 head payload event_hash
  assume n: "normalize_audit_metadata action metadata = Inr normalized"
    and s1: "ensure_platform_rows rt c org now s = Inr s1"
    and p: "payload = \<lparr>ap_organization = org, ap_sequence = Suc (h_last_sequence head),
           ap_actor_kind = ai_kind actor, ap_actor_id = ai_identifier actor, ap_action = action,
           ap_resource_type = rtype, ap_resource_id = rid, ap_request_id = safe_request_id,
           ap_occurred_at = now, ap_metadata = normalized, ap_previous_hash = h_last_hash head\<rparr>"
    and s': "s' = s1\<lparr>audit_events := audit_events s1 @ [\<lparr>ev_payload = payload, ev_event_hash = event_hash\<rparr>],
           audit_heads := update_where (\<lambda>h. h_organization h = org)
             (\<lambda>h. h\<lparr>h_last_sequence := Suc (h_last_sequence head), h_last_hash := event_hash,
                    h_updated_at := now\<rparr>) (audit_heads s1)\<rparr>"
  have "audit_events s1 = audit_events s"
    using ensure_platform_rows_cases [OF s1] by (auto simp: insert_platform_rows_def)
  with n p s' show ?thesis by auto
qed

lemma commit_cancellation_prior_state:
  assumes "commit_cancellation rt c now oid a user_id seen s = Inr (snap, s')"
  shows "\<exists>e. audit_events s' = audit_events s @ [e] \<and> ap_action (ev_payload e) = RUN_CANCELLATION_REQUESTED
    \<and> ap_resource_id (ev_payload e) = r_id seen
    \<and> ap_metadata (ev_payload e) = [(''prior_state'', JStr (run_state_value (observed_state rt (r_state seen) CANCELLING)))]"
  using assms
proof (rule commit_cancellation_steps)
  fix r t
  assume au: "audit_append rt c now (ac_organization a) (audit_user user_id) RUN_CANCELLATION_REQUESTED RUN_RESOURCE
       (r_id seen) (ac_request_id a)
       [(''prior_state'', JStr (run_state_value (observed_state rt (r_state seen) CANCELLING)))]
       (s\<lparr>runs := update_where (cas_matches (ac_organization a) seen)
            (\<lambda>r. r\<lparr>r_state := CANCELLING, r_cancellation_requested_at := Some now,
               r_event_sequence := Suc (r_event_sequence seen)\<rparr>) (runs s),
          run_events := run_events s @ [new_event (ac_organization a) (r_id seen) (Suc (r_event_sequence seen))
             ''run.cancellation_requested'' (state_payload CANCELLING) now],
          outbox_messages := outbox_messages s @ [new_outbox oid now seen ''run.cancel'']\<rparr>) = Inr s'"
  from audit_append_last_event [OF au] show ?thesis
    by (auto simp: normalize_audit_metadata_iff)
qed

section \<open>Reads\<close>

lemma get_job_isolated:
  assumes "get_job rt a run_id s = (Inr snap, s')"
  shows "s' = s" and "\<exists>user_id role. job_member a s = Inr (user_id, role)"
    and "\<exists>r \<in> set (runs s). r_id r = run_id \<and> r_organization r = ac_organization a
      \<and> active_project (ac_organization a) (r_project r) s \<and> snapshot_run r s = Inr snap"
proof -
  from assms obtain c where "bindr (job_member a s) (\<lambda>_.
       bindr (get_run (ac_organization a) run_id s) (\<lambda>run.
       bindr (snapshot_run run s) (\<lambda>snapshot. Inr (snapshot, s)))) = Inr (snap, s')"
    unfolding get_job_def by (blast dest: in_session_Inr)
  then show "s' = s" "\<exists>user_id role. job_member a s = Inr (user_id, role)"
    and "\<exists>r \<in> set (runs s). r_id r = run_id \<and> r_organization r = ac_organization a
      \<and> active_project (ac_organization a) (r_project r) s \<and> snapshot_run r s = Inr snap"
    by (auto dest!: get_run_Inr)
qed

lemma map_result_Inr:
  "map_result f xs = Inr ys \<Longrightarrow> length ys = length xs \<and> (\<forall>y \<in> set ys. \<exists>x \<in> set xs. f x = Inr y)"
proof (induction xs arbitrary: ys)
  case (Cons x xs)
  then obtain z zs where "f x = Inr z" "map_result f xs = Inr zs" "ys = z # zs" by auto
  with Cons.IH [of zs] show ?case by auto
qed simp

lemma list_jobs_isolated:
  assumes "list_jobs rt a state kind offset limit s = (Inr snaps, s')" and "snap \<in> set snaps"
  shows "\<exists>r \<in> set (runs s). r_organization r = ac_organization a \<and> active_project (ac_organization a) (r_project r) s
      \<and> snapshot_run r s = Inr snap \<and> (\<forall>t. state = Some t \<longrightarrow> r_state r = t) \<and> (\<forall>k. kind = Some k \<longrightarrow> r_kind r = k)"
    and "length snaps \<le> limit"
proof -
  from assms(1) have "map_result (\<lambda>run. snapshot_run run s)
         (take limit (drop offset (visible_runs (ac_organization a) state kind s))) = Inr snaps"
    unfolding list_jobs_def by (auto dest!: in_session_Inr)
  then have len: "length snaps = length (take limit (drop offset (visible_runs (ac_organization a) state kind s)))"
    and "\<exists>r \<in> set (take limit (drop offset (visible_runs (ac_organization a) state kind s))). snapshot_run r s = Inr snap"
    using assms(2) by (auto dest!: map_result_Inr)
  then obtain r where r: "r \<in> set (take limit (drop offset (visible_runs (ac_organization a) state kind s)))"
    "snapshot_run r s = Inr snap" by blast
  show "length snaps \<le> limit" using len by simp
  from r(1) have "r \<in> set (visible_runs (ac_organization a) state kind s)" by (meson in_set_dropD in_set_takeD)
  with r(2) show "\<exists>r \<in> set (runs s). r_organization r = ac_organization a \<and> active_project (ac_organization a) (r_project r) s
      \<and> snapshot_run r s = Inr snap \<and> (\<forall>t. state = Some t \<longrightarrow> r_state r = t) \<and> (\<forall>k. kind = Some k \<longrightarrow> r_kind r = k)"
    by (auto simp: visible_runs_def split: option.splits)
qed

text \<open>Paging through the events of a run returns its event numbers without gap or repetition.\<close>

lemma sequences_page:
  assumes "map f xs = [1..<Suc n]"
  shows "map f (take limit (sort_key f (filter (\<lambda>x. after < f x) xs))) = take limit [Suc after..<Suc n]"
proof -
  have filt: "map f (filter (\<lambda>x. after < f x) xs) = filter (\<lambda>i. after < i) (map f xs)"
    by (simp add: filter_map comp_def)
  also have "\<dots> = [Suc after..<Suc n]"
    unfolding assms by (induction n) (auto simp: not_less)
  finally have m: "map f (filter (\<lambda>x. after < f x) xs) = [Suc after..<Suc n]" .
  then have "sorted (map f (filter (\<lambda>x. after < f x) xs))" by (metis sorted_upt)
  then have "sort_key f (filter (\<lambda>x. after < f x) xs) = filter (\<lambda>x. after < f x) xs"
    by (rule sort_key_id_if_sorted)
  with m show ?thesis by (simp add: take_map [symmetric])
qed

lemma job_events_page:
  assumes "log_ok s" and "job_events rt a run_id after limit s = (Inr page, s')"
  shows "\<exists>r \<in> set (runs s). r_id r = run_id \<and> r_organization r = ac_organization a
    \<and> map es_sequence page = take limit [Suc after..<Suc (r_event_sequence r)]"
proof -
  let ?es = "take limit (sort_key e_sequence
              (filter (\<lambda>e. e_organization e = ac_organization a \<and> e_run e = run_id \<and> after < e_sequence e) (run_events s)))"
  from assms(2) obtain r where r: "get_run (ac_organization a) run_id s = Inr r"
    and page: "map es_sequence page = map e_sequence ?es"
    unfolding job_events_def by (auto dest!: in_session_Inr simp: comp_def)
  from get_run_Inr [OF r] have mem: "r \<in> set (runs s)" "r_id r = run_id" "r_organization r = ac_organization a" by auto
  with assms(1) have log: "run_log_ok s r" by (simp add: log_ok_def)
  have "filter (\<lambda>e. e_organization e = ac_organization a \<and> e_run e = run_id \<and> after < e_sequence e) (run_events s)
      = filter (\<lambda>e. after < e_sequence e) (events_of run_id s)"
  proof -
    have "e_organization e = ac_organization a" if "e \<in> set (run_events s)" "e_run e = run_id" for e
      using log mem that by (auto simp: run_log_ok_def events_of_def)
    then show ?thesis unfolding events_of_def filter_filter by (intro filter_cong) auto
  qed
  with page have "map es_sequence page
      = map e_sequence (take limit (sort_key e_sequence (filter (\<lambda>e. after < e_sequence e) (events_of run_id s))))" by simp
  also have "\<dots> = take limit [Suc after..<Suc (r_event_sequence r)]"
    by (rule sequences_page) (use log mem in \<open>simp add: run_log_ok_def\<close>)
  finally show ?thesis using mem by blast
qed

end
