(* ===== verification/Outbox.thy ===== *)
theory Outbox imports JobControl begin

text \<open>
  src/corpuskit/services/jobs.py, \<open>TransactionalOutbox\<close>: leasing, publishing and releasing the
  dispatch intents that were committed with a run. The external dispatcher is the argument
  \<open>publish\<close>: whether its \<open>publish\<close> of a message returns or raises.
\<close>

record dispatch_message =
  dm_id :: uuid
  dm_organization :: uuid
  dm_run :: uuid
  dm_event_type :: string
  dm_payload :: json
  dm_attempt :: nat

record dispatch_result =
  dr_claimed :: nat
  dr_published :: nat
  dr_failed :: nat

definition dispatch_message_of :: "outbox_message \<Rightarrow> dispatch_message" where
  "dispatch_message_of m = \<lparr>dm_id = o_id m, dm_organization = o_organization m, dm_run = o_run m,
     dm_event_type = o_event_type m, dm_payload = o_payload m, dm_attempt = o_attempts m\<rparr>"

text \<open>A message nobody holds: pending, or claimed under a lease that has run out.\<close>

definition claimable :: "time \<Rightarrow> outbox_message \<Rightarrow> bool" where
  "claimable expired m \<longleftrightarrow> o_processed_at m = None \<and>
     (o_state m = PENDING \<or>
      o_state m = CLAIMED \<and> (case o_claimed_at m of None \<Rightarrow> False | Some t \<Rightarrow> t < expired))"

definition claim_row :: "time \<Rightarrow> string \<Rightarrow> outbox_message \<Rightarrow> outbox_message" where
  "claim_row now worker_id m = m\<lparr>o_state := CLAIMED, o_claimed_at := Some now, o_claimed_by := Some worker_id,
     o_attempts := Suc (o_attempts m), o_last_error_code := None\<rparr>"

text \<open>
  The UPDATE ... RETURNING of each candidate in turn, every one with its own check of the lease. \<open>env i\<close>
  is what other transactions commit before the \<open>i\<close>-th UPDATE. A statement of theirs that meets a row
  updated here waits for the commit and then checks the updated row, so it runs on the updated rows.
\<close>

fun claim_each ::
    "time \<Rightarrow> time \<Rightarrow> string \<Rightarrow> (nat \<Rightarrow> db \<Rightarrow> db) \<Rightarrow> nat \<Rightarrow> uuid list \<Rightarrow> db \<Rightarrow> dispatch_message list \<times> db" where
  "claim_each now expired worker_id env i [] s = ([], s)"
| "claim_each now expired worker_id env i (message_id # candidates) s =
     (let s = env i s; free = (\<lambda>m. o_id m = message_id \<and> claimable expired m) in
      case find free (outbox_messages s) of
        None \<Rightarrow> claim_each now expired worker_id env (Suc i) candidates s
      | Some m \<Rightarrow>
          (case claim_each now expired worker_id env (Suc i) candidates
               (s\<lparr>outbox_messages := update_where free (claim_row now worker_id) (outbox_messages s)\<rparr>) of
             (claimed, s') \<Rightarrow> (dispatch_message_of (claim_row now worker_id m) # claimed, s')))"

definition claim_candidates :: "time \<Rightarrow> time \<Rightarrow> nat \<Rightarrow> outbox_message list \<Rightarrow> uuid list" where
  "claim_candidates now expired limit rows =
     map o_id (take limit (sort_key (\<lambda>m. (o_created_at m, o_id m))
       (filter (\<lambda>m. claimable expired m \<and> o_available_at m \<le> now) rows)))"

text \<open>
  \<open>claim\<close>. Nothing in the session raises once it is open, and no lease violates a constraint
  (\<open>claim_each_constraints\<close>), so it always commits.
\<close>

definition claim ::
    "runtime \<Rightarrow> time \<Rightarrow> string \<Rightarrow> nat \<Rightarrow> int \<Rightarrow> (nat \<Rightarrow> db \<Rightarrow> db) \<Rightarrow> db \<Rightarrow> (exn + dispatch_message list) \<times> db" where
  "claim rt now worker_id limit lease_seconds env s =
     (if worker_id = [] \<or> 80 < str_len worker_id
      then (Inl (ValueError ''worker_id must be between 1 and 80 characters''), s)
      else
        let expired = now - lease_seconds * second in
        (case bindr (service_context DISPATCHER None) (\<lambda>c. open_session rt (Some c)) of
           Inl e \<Rightarrow> (Inl e, s)
         | Inr _ \<Rightarrow>
             (case claim_each now expired worker_id env 0 (claim_candidates now expired limit (outbox_messages s)) s of
                (claimed, s') \<Rightarrow> (Inr claimed, s'))))"

definition held_by :: "uuid \<Rightarrow> string \<Rightarrow> outbox_message \<Rightarrow> bool" where
  "held_by message_id worker_id m \<longleftrightarrow> o_id m = message_id \<and> o_state m = CLAIMED \<and> o_claimed_by m = Some worker_id"

definition mark_published :: "runtime \<Rightarrow> time \<Rightarrow> uuid \<Rightarrow> string \<Rightarrow> db \<Rightarrow> (exn + unit) \<times> db" where
  "mark_published rt now message_id worker_id s =
     in_session rt (service_context DISPATCHER None) (\<lambda>c s.
       bindr (ensure (list_ex (held_by message_id worker_id) (outbox_messages s))
         (ResourceConflictError ''outbox.acknowledge'')) (\<lambda>_.
       Inr ((), s\<lparr>outbox_messages := update_where (held_by message_id worker_id)
         (\<lambda>m. m\<lparr>o_state := PUBLISHED, o_processed_at := Some now\<rparr>) (outbox_messages s)\<rparr>))) s"

definition release_failed :: "runtime \<Rightarrow> time \<Rightarrow> uuid \<Rightarrow> string \<Rightarrow> db \<Rightarrow> (exn + unit) \<times> db" where
  "release_failed rt now message_id worker_id s =
     in_session rt (service_context DISPATCHER None) (\<lambda>c s.
       bindr (ensure (list_ex (held_by message_id worker_id) (outbox_messages s))
         (ResourceConflictError ''outbox.release'')) (\<lambda>_.
       Inr ((), s\<lparr>outbox_messages := update_where (held_by message_id worker_id)
         (\<lambda>m. m\<lparr>o_state := PENDING, o_claimed_at := None, o_claimed_by := None,
            o_available_at := now + 5 * second, o_last_error_code := Some ''publisher_unavailable''\<rparr>)
         (outbox_messages s)\<rparr>))) s"

text \<open>
  \<open>dispatch_batch\<close>: every claimed message is published, then acknowledged or released. A raised
  acknowledgement ends the batch. \<open>env\<close> is what other transactions commit while a message is
  being published, \<open>between\<close> what they commit during the claim.
\<close>

fun dispatch_each ::
    "runtime \<Rightarrow> (nat \<Rightarrow> time) \<Rightarrow> (nat \<Rightarrow> db \<Rightarrow> db) \<Rightarrow> (dispatch_message \<Rightarrow> bool) \<Rightarrow> string \<Rightarrow> nat \<Rightarrow> dispatch_message list
     \<Rightarrow> nat \<times> nat \<Rightarrow> db \<Rightarrow> (exn + nat \<times> nat) \<times> db" where
  "dispatch_each rt clock env publish worker_id i [] (published, failed) s = (Inr (published, failed), s)"
| "dispatch_each rt clock env publish worker_id i (m # ms) (published, failed) s =
     (let s1 = env i s in
      if publish m then
        (case mark_published rt (clock i) (dm_id m) worker_id s1 of
           (Inl e, s2) \<Rightarrow> (Inl e, s2)
         | (Inr _, s2) \<Rightarrow> dispatch_each rt clock env publish worker_id (Suc i) ms (Suc published, failed) s2)
      else
        (case release_failed rt (clock i) (dm_id m) worker_id s1 of
           (Inl e, s2) \<Rightarrow> (Inl e, s2)
         | (Inr _, s2) \<Rightarrow> dispatch_each rt clock env publish worker_id (Suc i) ms (published, Suc failed) s2))"

definition dispatch_batch ::
    "runtime \<Rightarrow> (nat \<Rightarrow> time) \<Rightarrow> (nat \<Rightarrow> db \<Rightarrow> db) \<Rightarrow> (nat \<Rightarrow> db \<Rightarrow> db) \<Rightarrow> (dispatch_message \<Rightarrow> bool) \<Rightarrow> string \<Rightarrow> nat \<Rightarrow> db
     \<Rightarrow> (exn + dispatch_result) \<times> db" where
  "dispatch_batch rt clock between env publish worker_id limit s =
     (case claim rt (clock 0) worker_id limit 60 between s of
        (Inl e, s1) \<Rightarrow> (Inl e, s1)
      | (Inr messages, s1) \<Rightarrow>
          (case dispatch_each rt clock env publish worker_id 1 messages (0, 0) s1 of
             (Inl e, s2) \<Rightarrow> (Inl e, s2)
           | (Inr (published, failed), s2) \<Rightarrow>
               (Inr \<lparr>dr_claimed = length messages, dr_published = published, dr_failed = failed\<rparr>, s2)))"

section \<open>A lease is exclusive\<close>

lemma claim_row_simps [simp]:
  "o_id (claim_row now w m) = o_id m" "o_state (claim_row now w m) = CLAIMED" "o_run (claim_row now w m) = o_run m"
  "o_organization (claim_row now w m) = o_organization m" "o_event_type (claim_row now w m) = o_event_type m"
  "o_claimed_at (claim_row now w m) = Some now" "o_claimed_by (claim_row now w m) = Some w"
  "o_processed_at (claim_row now w m) = o_processed_at m" "o_attempts (claim_row now w m) = Suc (o_attempts m)"
  by (simp_all add: claim_row_def)

lemma dispatch_message_of_simps [simp]:
  "dm_id (dispatch_message_of m) = o_id m" "dm_run (dispatch_message_of m) = o_run m"
  "dm_attempt (dispatch_message_of m) = o_attempts m" "dm_event_type (dispatch_message_of m) = o_event_type m"
  by (simp_all add: dispatch_message_of_def)

lemma update_where_key_only:
  assumes "distinct (map k rows)" and "m \<in> set rows" and "P m"
  shows "update_where (\<lambda>x. k x = k m \<and> P x) f rows = update_where (\<lambda>x. k x = k m) f rows"
proof -
  have "P x" if "x \<in> set rows" "k x = k m" for x
    using distinct_map_inj [OF assms(1) that(1) assms(2) that(2)] assms(3) by simp
  then show ?thesis by (auto simp: update_where_def)
qed

text \<open>One UPDATE of a claim, as it is when the identifiers are unique.\<close>

abbreviation claim_message :: "time \<Rightarrow> string \<Rightarrow> outbox_message \<Rightarrow> db \<Rightarrow> db" where
  "claim_message now w m s \<equiv>
     s\<lparr>outbox_messages := update_where (\<lambda>x. o_id x = o_id m) (claim_row now w) (outbox_messages s)\<rparr>"

lemma claim_each_step:
  assumes "claim_each now expired w env i (j # js) s = (claimed, s')" and "distinct (map o_id (outbox_messages (env i s)))"
  obtains (passed) "claim_each now expired w env (Suc i) js (env i s) = (claimed, s')"
  | (took) m rest where "m \<in> set (outbox_messages (env i s))" "o_id m = j" "claimable expired m"
      "claim_each now expired w env (Suc i) js (claim_message now w m (env i s)) = (rest, s')"
      "claimed = dispatch_message_of (claim_row now w m) # rest"
proof (cases "find (\<lambda>m. o_id m = j \<and> claimable expired m) (outbox_messages (env i s))")
  case None
  with assms(1) show thesis by (intro passed) (simp add: Let_def)
next
  case (Some m)
  then have m: "m \<in> set (outbox_messages (env i s))" "o_id m = j" "claimable expired m" by (auto dest: find_SomeD)
  have "update_where (\<lambda>x. o_id x = j \<and> claimable expired x) (claim_row now w) (outbox_messages (env i s))
      = update_where (\<lambda>x. o_id x = o_id m) (claim_row now w) (outbox_messages (env i s))"
    using update_where_key_only [of o_id "outbox_messages (env i s)" m "claimable expired"] assms(2) m by simp
  with assms(1) Some m that(2) show thesis by (auto simp: Let_def split: prod.splits)
qed

lemma map_claim_message [simp]: "map o_id (outbox_messages (claim_message now w m s)) = map o_id (outbox_messages s)"
  by (simp add: map_update_where)

lemma constraints_same_messages:
  assumes "map o_id rows = map o_id (outbox_messages s)"
  shows "constraints_ok (s\<lparr>outbox_messages := rows\<rparr>) = constraints_ok s"
  using assms by (simp add: constraints_ok_def outbox_ok_def unique_by_def)

lemma claim_each_keeps:
  assumes "\<And>i t. P t \<Longrightarrow> P (env i t)" and "\<And>m t. P t \<Longrightarrow> m \<in> set (outbox_messages t) \<Longrightarrow> claimable expired m \<Longrightarrow> P (claim_message now w m t)"
    and "\<And>t. P t \<Longrightarrow> distinct (map o_id (outbox_messages t))"
  shows "P s \<Longrightarrow> claim_each now expired w env i js s = (claimed, s') \<Longrightarrow> P s'"
proof (induction js arbitrary: i s claimed)
  case (Cons j js)
  have e: "P (env i s)" using assms(1) Cons.prems(1) .
  from Cons.prems(2) assms(3) [OF e] show ?case
  proof (cases rule: claim_each_step)
    case passed
    with Cons.IH e show ?thesis by blast
  next
    case (took m rest)
    with Cons.IH assms(2) [OF e] show ?thesis by blast
  qed
qed simp

lemma claim_each_constraints:
  assumes "\<And>i t. constraints_ok t \<Longrightarrow> constraints_ok (env i t)" and "constraints_ok s"
    and "claim_each now expired w env i js s = (claimed, s')"
  shows "constraints_ok s'"
  by (rule claim_each_keeps [where P = constraints_ok, OF _ _ _ assms(2,3)])
    (simp_all add: assms(1) constraints_same_messages map_update_where constraints_outbox)

lemma claim_Inr:
  "claim rt now w limit lease env s = (Inr claimed, s') \<Longrightarrow>
     claim_each now (now - lease * second) w env 0 (claim_candidates now (now - lease * second) limit (outbox_messages s)) s = (claimed, s')"
  by (auto simp: claim_def Let_def split: if_splits sum.splits prod.splits)

text \<open>A claim takes candidates only: at most \<open>limit\<close> of them, each claimable and available when selected.\<close>

lemma claim_each_candidates:
  "claim_each now expired w env i js s = (claimed, s') \<Longrightarrow> length claimed \<le> length js \<and> dm_id ` set claimed \<subseteq> set js"
proof (induction js arbitrary: i s claimed)
  case (Cons j js)
  then show ?case by (fastforce simp: Let_def dest!: find_SomeD split: option.splits prod.splits)
qed simp

lemma claim_selects:
  assumes "claim rt now w limit lease env s = (Inr claimed, s')"
  shows "length claimed \<le> limit"
    and "\<forall>d \<in> set claimed. \<exists>m \<in> set (outbox_messages s). o_id m = dm_id d \<and> claimable (now - lease * second) m \<and> o_available_at m \<le> now"
proof -
  let ?rows = "filter (\<lambda>m. claimable (now - lease * second) m \<and> o_available_at m \<le> now) (outbox_messages s)"
  let ?js = "claim_candidates now (now - lease * second) limit (outbox_messages s)"
  have c: "length claimed \<le> length ?js" "dm_id ` set claimed \<subseteq> set ?js"
    using claim_each_candidates [OF claim_Inr [OF assms]] by simp_all
  moreover have "length ?js \<le> limit" by (simp add: claim_candidates_def)
  ultimately show "length claimed \<le> limit" by simp
  have "set ?js \<subseteq> o_id ` set ?rows"
    unfolding claim_candidates_def by (auto dest!: in_set_takeD)
  with c(2) have "dm_id ` set claimed \<subseteq> o_id ` set ?rows" by (rule subset_trans)
  then show "\<forall>d \<in> set claimed. \<exists>m \<in> set (outbox_messages s). o_id m = dm_id d \<and> claimable (now - lease * second) m \<and> o_available_at m \<le> now"
    by (fastforce simp: image_subset_iff)
qed

lemma claim_keeps:
  assumes "P s" and "\<And>js claimed s'. claim_each now (now - lease * second) w env 0 js s = (claimed, s') \<Longrightarrow> P s'"
  shows "P (snd (claim rt now w limit lease env s))"
  using assms by (auto simp: claim_def Let_def split: sum.splits prod.splits)

text \<open>
  A message that worker \<open>w\<close> took at \<open>t0\<close> or later and that was not given back; and what others do beside
  that worker while such leases are live: writes that leave the messages there are as they are, claims
  by any worker whose idea of an expired lease lies before \<open>t0\<close>, with other steps in between, any
  acknowledgement, and releases by other workers.
\<close>

definition leased :: "string \<Rightarrow> time \<Rightarrow> outbox_message \<Rightarrow> bool" where
  "leased w t0 m \<longleftrightarrow> o_processed_at m \<noteq> None
     \<or> o_state m = CLAIMED \<and> o_claimed_by m = Some w \<and> (case o_claimed_at m of None \<Rightarrow> False | Some t \<Rightarrow> t0 \<le> t)"

definition keeps_messages :: "db \<Rightarrow> db \<Rightarrow> bool" where
  "keeps_messages s s' \<longleftrightarrow> outbox_ok (outbox_messages s') \<and> set (outbox_messages s) \<subseteq> set (outbox_messages s')"

inductive beside :: "runtime \<Rightarrow> string \<Rightarrow> time \<Rightarrow> db \<Rightarrow> db \<Rightarrow> bool" for rt :: runtime and w :: string and t0 :: time where
  idle: "beside rt w t0 s s"
| and_then_beside: "beside rt w t0 s t \<Longrightarrow> beside rt w t0 t u \<Longrightarrow> beside rt w t0 s u"
| writes: "keeps_messages s s' \<Longrightarrow> beside rt w t0 s s'"
| claims: "now - lease * second \<le> t0 \<Longrightarrow> (\<And>i t. beside rt w t0 t (env i t)) \<Longrightarrow>
     beside rt w t0 s (snd (claim rt now v limit lease env s))"
| acknowledges: "beside rt w t0 s (snd (mark_published rt now i v s))"
| releases: "v \<noteq> w \<Longrightarrow> beside rt w t0 s (snd (release_failed rt now i v s))"

definition leases_live :: "string \<Rightarrow> time \<Rightarrow> uuid set \<Rightarrow> db \<Rightarrow> bool" where
  "leases_live w t0 ids s \<longleftrightarrow> distinct (map o_id (outbox_messages s)) \<and> ids \<subseteq> set (map o_id (outbox_messages s))
     \<and> (\<forall>m \<in> set (outbox_messages s). o_id m \<in> ids \<longrightarrow> leased w t0 m)"

lemma leased_not_claimable: "leased w t0 m \<Longrightarrow> expired \<le> t0 \<Longrightarrow> \<not> claimable expired m"
  by (auto simp: leased_def claimable_def split: option.splits)

lemma claim_row_leased [simp]: "leased w now (claim_row now w m)"
  by (simp add: leased_def)

lemma leases_liveD:
  assumes "leases_live w t0 ids s"
  shows "distinct (map o_id (outbox_messages s))" and "ids \<subseteq> set (map o_id (outbox_messages s))"
    and "m \<in> set (outbox_messages s) \<Longrightarrow> o_id m \<in> ids \<Longrightarrow> leased w t0 m"
  using assms by (simp_all add: leases_live_def)

lemma leases_live_update:
  assumes "leases_live w t0 ids s" and "\<And>m. o_id (f m) = o_id m"
    and "\<And>m. m \<in> set (outbox_messages s) \<Longrightarrow> o_id m \<in> ids \<Longrightarrow> P m \<Longrightarrow> leased w t0 (f m)"
  shows "leases_live w t0 ids (s\<lparr>outbox_messages := update_where P f (outbox_messages s)\<rparr>)"
proof -
  have "map o_id (update_where P f (outbox_messages s)) = map o_id (outbox_messages s)" by (simp add: map_update_where assms(2))
  moreover have "leased w t0 x" if "x \<in> set (update_where P f (outbox_messages s))" "o_id x \<in> ids" for x
    using that assms(2,3) leases_liveD(3) [OF assms(1)] by (auto simp: set_update_where split: if_splits)
  ultimately show ?thesis using leases_liveD(1,2) [OF assms(1)] unfolding leases_live_def by simp
qed

lemma claim_message_live:
  assumes "leases_live w t0 ids s" and "m \<in> set (outbox_messages s)" and "o_id m \<notin> ids \<or> v = w \<and> t0 \<le> now"
  shows "leases_live w t0 ids (claim_message now v m s)"
  by (rule leases_live_update [OF assms(1)]) (use assms(3) in \<open>auto simp: leased_def\<close>)

lemma free_not_leased:
  "leases_live w t0 ids s \<Longrightarrow> m \<in> set (outbox_messages s) \<Longrightarrow> claimable expired m \<Longrightarrow> expired \<le> t0 \<Longrightarrow> o_id m \<notin> ids"
  using leases_liveD(3) leased_not_claimable by blast

lemma beside_keeps: "beside rt w t0 s s' \<Longrightarrow> leases_live w t0 ids s \<Longrightarrow> leases_live w t0 ids s'"
proof (induction rule: beside.induct)
  case (writes s s')
  note live = leases_liveD [OF writes(2)]
  have s': "distinct (map o_id (outbox_messages s'))" "set (outbox_messages s) \<subseteq> set (outbox_messages s')"
    using writes(1) by (simp_all add: keeps_messages_def outbox_ok_def unique_by_def)
  have "leased w t0 x" if x: "x \<in> set (outbox_messages s')" "o_id x \<in> ids" for x
  proof -
    from x(2) live(2) obtain m where m: "m \<in> set (outbox_messages s)" "o_id m = o_id x" by auto
    with s'(2) have "m = x" by (intro distinct_map_inj [OF s'(1) _ x(1)]) auto
    with m x(2) live(3) show ?thesis by simp
  qed
  moreover have "ids \<subseteq> set (map o_id (outbox_messages s'))"
    using subset_trans [OF live(2), of "set (map o_id (outbox_messages s'))"] image_mono [OF s'(2), of o_id] by simp
  ultimately show ?case using s'(1) by (simp add: leases_live_def)
next
  case (claims now lease env s v limit)
  have "leases_live w t0 ids s'" if c: "claim_each now (now - lease * second) v env 0 js s = (claimed, s')" for js claimed s'
  proof (rule claim_each_keeps [where P = "leases_live w t0 ids", OF _ _ _ claims.prems c])
    fix m t assume t: "leases_live w t0 ids t" "m \<in> set (outbox_messages t)" "claimable (now - lease * second) m"
    then show "leases_live w t0 ids (claim_message now v m t)"
      using free_not_leased [OF t claims.hyps(1)] by (intro claim_message_live) simp_all
  next
    show "leases_live w t0 ids (env i t)" if "leases_live w t0 ids t" for i t using claims.IH that by simp
  next
    show "distinct (map o_id (outbox_messages t))" if "leases_live w t0 ids t" for t by (rule leases_liveD(1) [OF that])
  qed
  then show ?case
    by (intro claim_keeps [where P = "leases_live w t0 ids", OF claims.prems]) simp
next
  case (acknowledges s now i v)
  show ?case
    unfolding mark_published_def
    by (rule in_session_preserves [where P = "leases_live w t0 ids", OF _ acknowledges])
      (auto intro!: leases_live_update [OF acknowledges] simp: leased_def)
next
  case (releases v s now i)
  have "o_processed_at m \<noteq> None" if "m \<in> set (outbox_messages s)" "o_id m \<in> ids" "held_by i v m" for m
    using leases_liveD(3) [OF releases(2) that(1,2)] that(3) releases(1) by (auto simp: leased_def held_by_def)
  then show ?case
    unfolding release_failed_def
    by (intro in_session_preserves [where P = "leases_live w t0 ids", OF _ releases(2)])
      (auto intro!: leases_live_update [OF releases(2)] simp: leased_def)
qed auto

text \<open>
  The lease of an outbox message is exclusive. What a claim returns is leased when it ends, and no
  UPDATE of a claim that holds the leases for live takes it, whenever its candidates were selected.
\<close>

lemma claim_each_leases:
  assumes "\<And>i t. beside rt w now t (env i t)"
  shows "leases_live w now ids s \<Longrightarrow> claim_each now expired w env i js s = (claimed, s') \<Longrightarrow>
    leases_live w now (ids \<union> dm_id ` set claimed) s'"
proof (induction js arbitrary: i s ids claimed)
  case (Cons j js)
  have e: "leases_live w now ids (env i s)" by (rule beside_keeps [OF assms Cons.prems(1)])
  from Cons.prems(2) leases_liveD(1) [OF e] show ?case
  proof (cases rule: claim_each_step)
    case passed
    with Cons.IH e show ?thesis by blast
  next
    case (took m rest)
    let ?t = "claim_message now w m (env i s)"
    have "leases_live w now ids ?t" using claim_message_live [OF e took(1)] by simp
    then have "leases_live w now (insert j ids) ?t"
      using took(1,2) leases_liveD [OF \<open>leases_live w now ids ?t\<close>]
      by (auto simp: leases_live_def set_update_where map_update_where)
    from Cons.IH [OF this took(4)] took(2,5) show ?thesis by simp
  qed
qed simp

lemma claim_each_exclusive:
  assumes "\<And>i t. beside rt w t0 t (env i t)" and "expired \<le> t0"
  shows "leases_live w t0 ids s \<Longrightarrow> claim_each now expired v env i js s = (claimed, s') \<Longrightarrow> dm_id ` set claimed \<inter> ids = {}"
proof (induction js arbitrary: i s claimed)
  case (Cons j js)
  have e: "leases_live w t0 ids (env i s)" by (rule beside_keeps [OF assms(1) Cons.prems(1)])
  from Cons.prems(2) leases_liveD(1) [OF e] show ?case
  proof (cases rule: claim_each_step)
    case passed
    with Cons.IH e show ?thesis by blast
  next
    case (took m rest)
    have m: "o_id m \<notin> ids" by (rule free_not_leased [OF e took(1,3) assms(2)])
    with Cons.IH [OF claim_message_live [OF e took(1)] took(4)] took(5) show ?thesis by simp
  qed
qed simp

lemma claim_exclusive:
  assumes "claim rt t1 w1 n1 lease1 env1 s = (Inr claimed1, s1)" and "outbox_ok (outbox_messages s)"
    and "\<And>i t. beside rt w1 t1 t (env1 i t)" and "beside rt w1 t1 s1 u"
    and "claim_each t2 expired w2 env2 i candidates u = (claimed2, s2)" and "\<And>i t. beside rt w1 t1 t (env2 i t)"
    and "expired \<le> t1"
  shows "dm_id ` set claimed1 \<inter> dm_id ` set claimed2 = {}"
proof -
  have "leases_live w1 t1 {} s" using assms(2) by (simp add: leases_live_def outbox_ok_def unique_by_def)
  from claim_each_leases [OF assms(3) this claim_Inr [OF assms(1)]]
  have "leases_live w1 t1 (dm_id ` set claimed1) s1" by simp
  from claim_each_exclusive [OF assms(6,7) beside_keeps [OF assms(4) this] assms(5)] show ?thesis by blast
qed

lemma mark_published_Inr:
  assumes "mark_published rt now i w s = (Inr u, s')"
  shows "list_ex (held_by i w) (outbox_messages s)"
    and "s' = s\<lparr>outbox_messages := update_where (held_by i w)
         (\<lambda>m. m\<lparr>o_state := PUBLISHED, o_processed_at := Some now\<rparr>) (outbox_messages s)\<rparr>"
  using assms by (auto simp: mark_published_def dest!: in_session_Inr)

lemma release_failed_Inr:
  assumes "release_failed rt now i w s = (Inr u, s')"
  shows "list_ex (held_by i w) (outbox_messages s)"
    and "s' = s\<lparr>outbox_messages := update_where (held_by i w)
         (\<lambda>m. m\<lparr>o_state := PENDING, o_claimed_at := None, o_claimed_by := None,
            o_available_at := now + 5 * second, o_last_error_code := Some ''publisher_unavailable''\<rparr>)
         (outbox_messages s)\<rparr>"
  using assms by (auto simp: release_failed_def dest!: in_session_Inr)

section \<open>The outbox operations keep the invariants\<close>

lemma jobs_inv_outbox:
  assumes "jobs_inv rt s" and "constraints_ok (s\<lparr>outbox_messages := rows\<rparr>)"
    and "map (\<lambda>m. (o_run m, o_organization m, o_event_type m)) rows
       = map (\<lambda>m. (o_run m, o_organization m, o_event_type m)) (outbox_messages s)"
  shows "jobs_inv rt (s\<lparr>outbox_messages := rows\<rparr>)"
proof -
  let ?t = "s\<lparr>outbox_messages := rows\<rparr>"
  note inv = jobs_invD [OF assms(1)]
  have "usage_of o' ?t = usage_of o' s" "policy_of o' ?t = policy_of o' s" for o'
    by (simp_all add: usage_of_def policy_of_def find_usage_def find_policy_def)
  then have "jobs_ok ?t" using inv(3) by (simp add: jobs_ok_cong [of ?t s])
  moreover have "audit_ok rt ?t" using inv(2) by (simp add: audit_ok_cong [of ?t s])
  moreover have "log_ok ?t" using inv(4) by (simp add: log_ok_cong [of ?t s])
  moreover have "capacity_ok ?t" using inv(5) by (simp add: capacity_ok_cong [of ?t s])
  moreover have "dispatch_ok ?t"
  proof -
    have "set (map (\<lambda>m. (o_run m, o_organization m, o_event_type m)) rows)
       = set (map (\<lambda>m. (o_run m, o_organization m, o_event_type m)) (outbox_messages s))" by (simp only: assms(3))
    then have eq: "(\<exists>m \<in> set rows. o_run m = i \<and> o_organization m = org \<and> o_event_type m = ty) \<longleftrightarrow>
        (\<exists>m \<in> set (outbox_messages s). o_run m = i \<and> o_organization m = org \<and> o_event_type m = ty)" for i org ty
      by (simp add: set_eq_iff image_iff) metis
    show ?thesis using inv(6) by (simp add: dispatch_ok_def eq)
  qed
  ultimately show ?thesis using assms(2) by (simp add: jobs_inv_def)
qed

lemma claim_inv:
  assumes "jobs_inv rt s" and "\<And>i t. jobs_inv rt t \<Longrightarrow> jobs_inv rt (env i t)"
  shows "jobs_inv rt (snd (claim rt now w limit lease env s))"
proof (rule claim_keeps [where P = "jobs_inv rt", OF assms(1)])
  fix js claimed s'
  assume c: "claim_each now (now - lease * second) w env 0 js s = (claimed, s')"
  show "jobs_inv rt s'"
  proof (rule claim_each_keeps [where P = "jobs_inv rt", OF _ _ _ assms(1) c])
    show "jobs_inv rt (claim_message now w m t)" if "jobs_inv rt t" for m t
      using that jobs_invD(1) [OF that]
      by (intro jobs_inv_outbox [OF that]) (simp_all add: constraints_same_messages map_update_where)
    show "distinct (map o_id (outbox_messages t))" if "jobs_inv rt t" for t
      by (rule constraints_outbox [OF jobs_invD(1) [OF that]])
  qed (use assms(2) in blast)
qed

lemma mark_published_inv:
  assumes "jobs_inv rt s"
  shows "jobs_inv rt (snd (mark_published rt now i w s))"
  unfolding mark_published_def
  by (rule in_session_preserves [where P = "jobs_inv rt", OF _ assms]) (auto intro!: jobs_inv_outbox [OF assms] map_update_where)

lemma release_failed_inv:
  assumes "jobs_inv rt s"
  shows "jobs_inv rt (snd (release_failed rt now i w s))"
  unfolding release_failed_def
  by (rule in_session_preserves [where P = "jobs_inv rt", OF _ assms]) (auto intro!: jobs_inv_outbox [OF assms] map_update_where)

lemma dispatch_each_inv:
  assumes "jobs_inv rt s" and "\<And>i t. jobs_inv rt t \<Longrightarrow> jobs_inv rt (env i t)"
  shows "jobs_inv rt (snd (dispatch_each rt clock env publish w i ms (p, f) s))"
  using assms(1)
proof (induction ms arbitrary: i p f s)
  case (Cons m ms)
  have env: "jobs_inv rt (env i s)" using assms(2) Cons.prems by blast
  note pub = mark_published_inv [OF env, of "clock i" "dm_id m" w]
  note rel = release_failed_inv [OF env, of "clock i" "dm_id m" w]
  show ?case
    using Cons.IH pub rel by (auto simp: Let_def split: prod.splits sum.splits)
qed simp

lemma dispatch_batch_inv:
  assumes "jobs_inv rt s" and "\<And>i t. jobs_inv rt t \<Longrightarrow> jobs_inv rt (env i t)"
    and "\<And>i t. jobs_inv rt t \<Longrightarrow> jobs_inv rt (between i t)"
  shows "jobs_inv rt (snd (dispatch_batch rt clock between env publish w limit s))"
proof -
  obtain r s1 where c: "claim rt (clock 0) w limit 60 between s = (r, s1)" by fastforce
  then have s1: "jobs_inv rt s1" using claim_inv [where env = between and now = "clock 0" and w = w and limit = limit and lease = 60, OF assms(1,3)] by simp
  show ?thesis
  proof (cases r)
    case (Inl e)
    with c s1 show ?thesis by (simp add: dispatch_batch_def)
  next
    case (Inr messages)
    obtain x s2 where d: "dispatch_each rt clock env publish w 1 messages (0, 0) s1 = (x, s2)" by fastforce
    then have "jobs_inv rt s2"
      using dispatch_each_inv [where env = env and clock = clock and publish = publish and w = w and i = 1 and ms = messages
        and p = 0 and f = 0, OF s1 assms(2)] by simp
    with c d Inr show ?thesis by (cases x) (auto simp: dispatch_batch_def)
  qed
qed

end
