(* ===== verification/RunStore.thy ===== *)
theory RunStore imports JobControl begin

text \<open>
  src/corpuskit/workflows/store.py with the two value types it takes from contracts.py and
  progress.py: \<open>DurableRunStore\<close>, the lifecycle of a run as the workflow's activities drive it.
  Every operation is a sequence of transactions. A \<open>world\<close> is what happens around them: the
  clock, and what other transactions commit at each of its points.
\<close>

section \<open>Values\<close>

record workflow_reference =
  wr_organization :: string
  wr_run :: string
  wr_spec_sha256 :: string

text \<open>
  \<open>UUID(_)\<close> on 32 hexadecimal digits with hyphens anywhere. Python also accepts prefixes, braces
  and digit separators; none of those spellings is the canonical one \<open>validate\<close> requires, and both
  failures are the same \<open>ValueError\<close>.
\<close>

definition hex_nibble :: "char \<Rightarrow> nat" where
  "hex_nibble c = (let n = of_char c :: nat in if n < 58 then n - 48 else if n < 71 then n - 55 else n - 87)"

definition is_any_hex_char :: "char \<Rightarrow> bool" where
  "is_any_hex_char c \<longleftrightarrow> is_hex_char (lower_char c)"

definition parse_uuid :: "string \<Rightarrow> exn + uuid" where
  "parse_uuid v =
     (let h = filter (\<lambda>c. c \<noteq> CHR ''-'') v in
      if length h = 32 \<and> list_all is_any_hex_char h
      then Inr (word_of_nat (foldl (\<lambda>n c. n * 16 + hex_nibble c) 0 h))
      else Inl (ValueError ''badly formed hexadecimal UUID string''))"

definition validate_reference :: "workflow_reference \<Rightarrow> exn + uuid \<times> uuid" where
  "validate_reference ref =
     bindr (parse_uuid (wr_organization ref)) (\<lambda>organization_id.
     bindr (parse_uuid (wr_run ref)) (\<lambda>run_id.
     bindr (ensure (uuid_str organization_id = wr_organization ref \<and> uuid_str run_id = wr_run ref)
       (ValueError ''workflow references require canonical UUIDs'')) (\<lambda>_.
     bindr (ensure (is_sha256_hex (wr_spec_sha256 ref))
       (ValueError ''workflow references require a lowercase SHA-256 digest'')) (\<lambda>_.
     Inr (organization_id, run_id)))))"

definition store_ids :: "workflow_reference \<Rightarrow> exn + uuid \<times> uuid" where
  "store_ids ref = reraise is_value_error (RunStoreError ''invalid_workflow_reference'') (validate_reference ref)"

definition workflow_id :: "workflow_reference \<Rightarrow> exn + string" where
  "workflow_id ref =
     bindr (validate_reference ref) (\<lambda>_.
     Inr (''corpuskit-run-'' @ wr_organization ref @ ''-'' @ wr_run ref))"

datatype progress_phase =
    VALIDATING | PREPARING_REPOSITORY | GENERATING | CANDIDATE_ACCEPTED | STAGING_RESULT
  | PREPARING_TRAINING | TRAINING | CHECKPOINTING | FINISHED | PROGRESS_FAILED

fun progress_phase_value :: "progress_phase \<Rightarrow> string" where
  "progress_phase_value VALIDATING = ''validating''"
| "progress_phase_value PREPARING_REPOSITORY = ''preparing_repository''"
| "progress_phase_value GENERATING = ''generating''"
| "progress_phase_value CANDIDATE_ACCEPTED = ''candidate_accepted''"
| "progress_phase_value STAGING_RESULT = ''staging_result''"
| "progress_phase_value PREPARING_TRAINING = ''preparing_training''"
| "progress_phase_value TRAINING = ''training''"
| "progress_phase_value CHECKPOINTING = ''checkpointing''"
| "progress_phase_value FINISHED = ''finished''"
| "progress_phase_value PROGRESS_FAILED = ''failed''"

text \<open>The coverage is a float in the unit interval, kept with the token it is written as.\<close>

record run_progress =
  rp_sequence :: int
  rp_phase :: progress_phase
  rp_completed :: "int option"
  rp_total :: "int option"
  rp_coverage :: "(rat \<times> string) option"
  rp_accepted_count :: "int option"

definition max_durable_progress_messages :: int where "max_durable_progress_messages = 128"
definition max_durable_progress_total :: int where "max_durable_progress_total = 10000"

definition in_bounds :: "int \<Rightarrow> int \<Rightarrow> int option \<Rightarrow> bool" where
  "in_bounds lo hi v = (case v of None \<Rightarrow> True | Some n \<Rightarrow> lo \<le> n \<and> n \<le> hi)"

definition valid_progress :: "run_progress \<Rightarrow> bool" where
  "valid_progress p \<longleftrightarrow>
     0 \<le> rp_sequence p \<and> rp_sequence p < max_durable_progress_messages
     \<and> in_bounds 0 max_durable_progress_total (rp_completed p)
     \<and> in_bounds 1 max_durable_progress_total (rp_total p)
     \<and> (case rp_coverage p of None \<Rightarrow> True | Some (q, token) \<Rightarrow> 0 \<le> q \<and> q \<le> 1)
     \<and> in_bounds 0 max_durable_progress_total (rp_accepted_count p)
     \<and> (case (rp_completed p, rp_total p) of
          (None, None) \<Rightarrow> True | (Some n, Some m) \<Rightarrow> n \<le> m | _ \<Rightarrow> False)"

definition json_int_option :: "int option \<Rightarrow> json" where
  "json_int_option v = (case v of None \<Rightarrow> JNull | Some n \<Rightarrow> JInt n)"

definition progress_payload :: "int \<Rightarrow> run_progress \<Rightarrow> json" where
  "progress_payload activity_attempt p = JObj
     [(''activity_attempt'', JInt activity_attempt), (''schema_version'', JInt 1),
      (''sequence'', JInt (rp_sequence p)), (''phase'', JStr (progress_phase_value (rp_phase p))),
      (''completed'', json_int_option (rp_completed p)), (''total'', json_int_option (rp_total p)),
      (''coverage'', case rp_coverage p of None \<Rightarrow> JNull | Some (q, token) \<Rightarrow> JFloat token),
      (''accepted_count'', json_int_option (rp_accepted_count p))]"

record execution_record =
  xr_organization :: uuid
  xr_project :: uuid
  xr_run :: uuid
  xr_created_by :: uuid
  xr_kind :: run_kind
  xr_state :: run_state
  xr_spec :: json
  xr_spec_sha256 :: string

record adopted_datg_index =
  ad_cache_key_sha256 :: string
  ad_content_sha256 :: string
  ad_runtime_id :: string
  ad_language :: string
  ad_unit :: string
  ad_vocabulary_size :: int
  ad_indexed_token_count :: int
  ad_size_bytes :: int

record adopted_artifact =
  aa_sha256 :: string
  aa_size_bytes :: int
  aa_storage_key :: string
  aa_media_type :: string
  aa_filename :: string
  aa_schema_id :: string
  aa_retention_until :: time
  aa_datg_index :: "adopted_datg_index option"

record artifact_commit =
  cm_state :: run_state
  cm_artifact :: "uuid option"
  cm_created :: bool

section \<open>Looking at a run\<close>

definition store_run :: "uuid \<Rightarrow> uuid \<Rightarrow> db \<Rightarrow> exn + run" where
  "store_run org run_id s =
     require (RunStoreError ''run_not_found'') (find (\<lambda>r. r_id r = run_id \<and> r_organization r = org) (runs s))"

definition verify_spec :: "runtime \<Rightarrow> run \<Rightarrow> string \<Rightarrow> exn + unit" where
  "verify_spec rt run expected_hash =
     bindr (ensure (r_spec_sha256 run = expected_hash) (RunStoreError ''spec_integrity_violation'')) (\<lambda>_.
     bindr (reraise is_type_or_value_error (RunStoreError ''spec_integrity_violation'')
       (normalize_run_spec (rt_sha rt) (r_spec run))) (\<lambda>(_, actual_hash).
     ensure (actual_hash = expected_hash) (RunStoreError ''spec_integrity_violation'')))"

definition verified_run :: "runtime \<Rightarrow> uuid \<Rightarrow> uuid \<Rightarrow> string \<Rightarrow> db \<Rightarrow> exn + run" where
  "verified_run rt org run_id expected_hash s =
     bindr (store_run org run_id s) (\<lambda>run. bindr (verify_spec rt run expected_hash) (\<lambda>_. Inr run))"

definition execution_record_of :: "runtime \<Rightarrow> workflow_reference \<Rightarrow> db \<Rightarrow> (exn + execution_record) \<times> db" where
  "execution_record_of rt ref s =
     (case store_ids ref of
        Inl e \<Rightarrow> (Inl e, s)
      | Inr (org, run_id) \<Rightarrow>
          in_session rt (service_context WORKER (Some org)) (\<lambda>c s.
            bindr (verified_run rt org run_id (wr_spec_sha256 ref) s) (\<lambda>run.
            Inr (\<lparr>xr_organization = r_organization run, xr_project = r_project run, xr_run = r_id run,
              xr_created_by = r_created_by run, xr_kind = r_kind run, xr_state = r_state run,
              xr_spec = r_spec run, xr_spec_sha256 = r_spec_sha256 run\<rparr>, s))) s)"

definition run_state_of :: "runtime \<Rightarrow> workflow_reference \<Rightarrow> db \<Rightarrow> (exn + run_state) \<times> db" where
  "run_state_of rt ref s =
     (case store_ids ref of
        Inl e \<Rightarrow> (Inl e, s)
      | Inr (org, run_id) \<Rightarrow>
          in_session rt (service_context WORKER (Some org)) (\<lambda>c s.
            bindr (verified_run rt org run_id (wr_spec_sha256 ref) s) (\<lambda>run. Inr (r_state run, s))) s)"

section \<open>One transition\<close>

text \<open>\<open>AuditWriter.append\<close> with the identity of a service.\<close>

definition service_append ::
    "runtime \<Rightarrow> tenant_context \<Rightarrow> time \<Rightarrow> uuid \<Rightarrow> service_identity \<Rightarrow> audit_action \<Rightarrow> resource_type \<Rightarrow> uuid
     \<Rightarrow> string option \<Rightarrow> metadata \<Rightarrow> db \<Rightarrow> exn + db" where
  "service_append rt c now org identity action rtype rid request_id metadata s =
     bindr (audit_service identity) (\<lambda>actor. audit_append rt c now org actor action rtype rid request_id metadata s)"

definition apply_transition_controls ::
    "runtime \<Rightarrow> tenant_context \<Rightarrow> time \<Rightarrow> run \<Rightarrow> run_state \<Rightarrow> string option \<Rightarrow> db \<Rightarrow> exn + db" where
  "apply_transition_controls rt c now run target failure_code s =
     (case target of
        RUNNING \<Rightarrow>
          bindr (renew_run rt now (r_organization run) run s) (\<lambda>(renewed, s).
          bindr (ensure renewed (RuntimeError ''active run has no quota reservation'')) (\<lambda>_. Inr s))
      | CANCELLING \<Rightarrow>
          service_append rt c now (r_organization run) WORKER RUN_CANCELLATION_REQUESTED RUN_RESOURCE
            (r_id run) None
            [(''prior_state'', JStr (run_state_value (observed_state rt (r_state run) target)))] s
      | _ \<Rightarrow>
          (case (case target of SUCCEEDED \<Rightarrow> Some RUN_SUCCEEDED | FAILED \<Rightarrow> Some RUN_FAILED
                 | CANCELLED \<Rightarrow> Some RUN_CANCELLED | _ \<Rightarrow> None) of
             None \<Rightarrow> Inr s
           | Some action \<Rightarrow>
               bindr (release_run rt c now (r_organization run) (r_id run) RES_RELEASED s) (\<lambda>(released, s).
               service_append rt c now (r_organization run) WORKER action RUN_RESOURCE (r_id run) None
                 ((''kind'', JStr (run_kind_value (r_kind run))) #
                  (if action = RUN_FAILED
                   then [(''failure_code'', JStr (case failure_code of
                            None \<Rightarrow> ''execution_failed''
                          | Some f \<Rightarrow> if f = [] then ''execution_failed'' else f))]
                   else [])) s)))"

record transition_request =
  tr_expected :: "run_state list"
  tr_target :: run_state
  tr_event_type :: string
  tr_payload :: json
  tr_result_summary :: "json option"
  tr_failure_code :: "string option"

definition store_matches :: "uuid \<Rightarrow> string \<Rightarrow> run \<Rightarrow> run \<Rightarrow> bool" where
  "store_matches org spec_sha256 seen r \<longleftrightarrow> r_id r = r_id seen \<and> r_organization r = org
     \<and> r_spec_sha256 r = spec_sha256 \<and> r_state r = r_state seen \<and> r_event_sequence r = r_event_sequence seen"

definition move_run :: "transition_request \<Rightarrow> run \<Rightarrow> run \<Rightarrow> run" where
  "move_run req seen r = r\<lparr>r_state := tr_target req, r_event_sequence := Suc (r_event_sequence seen),
     r_result_summary := tr_result_summary req, r_failure_code := tr_failure_code req\<rparr>"

definition commit_transition ::
    "runtime \<Rightarrow> tenant_context \<Rightarrow> time \<Rightarrow> uuid \<Rightarrow> string \<Rightarrow> transition_request \<Rightarrow> run \<Rightarrow> db \<Rightarrow> exn + db" where
  "commit_transition rt c now org spec_sha256 req seen s =
     bindr (insert_row run_events_ok (new_event org (r_id seen) (Suc (r_event_sequence seen))
       (tr_event_type req) (tr_payload req) now) (run_events s)) (\<lambda>events.
     apply_transition_controls rt c now seen (tr_target req) (tr_failure_code req)
       (s\<lparr>runs := update_where (store_matches org spec_sha256 seen) (move_run req seen) (runs s),
          run_events := events\<rparr>))"

text \<open>
  One attempt: its result is a state, or nothing when the compare-and-swap found the row changed.
  \<open>env\<close> is what others commit between the read and the UPDATE.
\<close>

definition transition_attempt ::
    "runtime \<Rightarrow> time \<Rightarrow> (db \<Rightarrow> db) \<Rightarrow> uuid \<Rightarrow> uuid \<Rightarrow> string \<Rightarrow> transition_request \<Rightarrow> tenant_context \<Rightarrow> db
     \<Rightarrow> (exn + run_state option \<times> db) \<times> db" where
  "transition_attempt rt now env org run_id spec_sha256 req c s =
     (case verified_run rt org run_id spec_sha256 s of
        Inl e \<Rightarrow> (Inl e, s)
      | Inr run \<Rightarrow>
          if r_state run = tr_target req then (Inr (Some (tr_target req), s), s)
          else if is_terminal (r_state run) then (Inr (Some (r_state run), s), s)
          else if r_state run \<notin> set (tr_expected req) then (Inr (Some (r_state run), s), s)
          else
            (case ensure_transition (r_state run) (tr_target req) of
               Inl e \<Rightarrow> (Inl e, s)
             | Inr _ \<Rightarrow>
                 let s1 = env s in
                 if list_ex (store_matches org spec_sha256 run) (runs s1)
                 then (bindr (commit_transition rt c now org spec_sha256 req run s1) (\<lambda>s2.
                       Inr (Some (tr_target req), s2)), s1)
                 else (Inr (None, s1), s1)))"

record world =
  w_clock :: "nat \<Rightarrow> time"
  w_env :: "nat \<Rightarrow> db \<Rightarrow> db"

text \<open>The world from its \<open>k\<close>-th point on.\<close>

definition later :: "nat \<Rightarrow> world \<Rightarrow> world" where
  "later k w = \<lparr>w_clock = (\<lambda>i. w_clock w (i + k)), w_env = (\<lambda>i. w_env w (i + k))\<rparr>"

text \<open>Attempts in sessions of their own: point \<open>2 n\<close> lies inside the attempt, point \<open>2 n + 1\<close> after it.\<close>

fun transition_attempts ::
    "nat \<Rightarrow> runtime \<Rightarrow> world \<Rightarrow> uuid \<Rightarrow> uuid \<Rightarrow> string \<Rightarrow> transition_request \<Rightarrow> db \<Rightarrow> (exn + run_state) \<times> db" where
  "transition_attempts 0 rt w org run_id spec_sha256 req s = (Inl (RunStoreError ''state_conflict''), s)"
| "transition_attempts (Suc n) rt w org run_id spec_sha256 req s =
     (case contended_session rt (service_context WORKER (Some org))
             (transition_attempt rt (w_clock w (2 * n)) (w_env w (2 * n)) org run_id spec_sha256 req) s of
        (Inl e, s1) \<Rightarrow> (Inl e, s1)
      | (Inr (Some state), s1) \<Rightarrow> (Inr state, s1)
      | (Inr None, s1) \<Rightarrow> transition_attempts n rt w org run_id spec_sha256 req (w_env w (2 * n + 1) s1))"

definition max_cas_attempts :: nat where "max_cas_attempts = 8"

definition transition :: "runtime \<Rightarrow> world \<Rightarrow> workflow_reference \<Rightarrow> transition_request \<Rightarrow> db \<Rightarrow> (exn + run_state) \<times> db" where
  "transition rt w ref req s =
     (case store_ids ref of
        Inl e \<Rightarrow> (Inl e, s)
      | Inr (org, run_id) \<Rightarrow> transition_attempts max_cas_attempts rt w org run_id (wr_spec_sha256 ref) req s)"

section \<open>The operations of the activities\<close>

text \<open>Two calls in sequence; others commit between them.\<close>

definition and_then ::
    "world \<Rightarrow> nat \<Rightarrow> (db \<Rightarrow> (exn + 'a) \<times> db) \<Rightarrow> ('a \<Rightarrow> db \<Rightarrow> (exn + 'b) \<times> db) \<Rightarrow> db \<Rightarrow> (exn + 'b) \<times> db" where
  "and_then w k m f s =
     (case m s of
        (Inl e, s1) \<Rightarrow> (Inl e, s1)
      | (Inr a, s1) \<Rightarrow> f a (w_env w k s1))"

definition return_state :: "'a \<Rightarrow> db \<Rightarrow> (exn + 'a) \<times> db" where
  "return_state a s = (Inr a, s)"

definition plain_request :: "run_state list \<Rightarrow> run_state \<Rightarrow> string \<Rightarrow> transition_request" where
  "plain_request expected target event_type =
     \<lparr>tr_expected = expected, tr_target = target, tr_event_type = event_type, tr_payload = state_payload target,
      tr_result_summary = None, tr_failure_code = None\<rparr>"

definition store_request_cancellation :: "runtime \<Rightarrow> world \<Rightarrow> workflow_reference \<Rightarrow> db \<Rightarrow> (exn + run_state) \<times> db" where
  "store_request_cancellation rt w ref =
     and_then w 0 (run_state_of rt ref) (\<lambda>state.
       if state \<in> {QUEUED, PROVISIONING, RUNNING}
       then transition rt (later 1 w) ref (plain_request [state] CANCELLING ''run.cancellation_observed'')
       else return_state state)"

definition acknowledge_cancellation :: "runtime \<Rightarrow> world \<Rightarrow> workflow_reference \<Rightarrow> db \<Rightarrow> (exn + run_state) \<times> db" where
  "acknowledge_cancellation rt w ref =
     and_then w 0 (store_request_cancellation rt (later 1 w) ref) (\<lambda>state.
       if state = CANCELLING
       then transition rt (later 20 w) ref (plain_request [CANCELLING] CANCELLED ''run.cancelled'')
       else return_state state)"

definition prepare :: "runtime \<Rightarrow> world \<Rightarrow> workflow_reference \<Rightarrow> db \<Rightarrow> (exn + run_state) \<times> db" where
  "prepare rt w ref =
     and_then w 0 (run_state_of rt ref) (\<lambda>state.
       if state = QUEUED
       then transition rt (later 1 w) ref (plain_request [QUEUED] PROVISIONING ''run.provisioning'')
       else if state = CANCELLING then acknowledge_cancellation rt (later 1 w) ref
       else if state \<in> {PROVISIONING, RUNNING, CANCELLED, SUCCEEDED, FAILED} then return_state state
       else (\<lambda>s. (Inl (RunStoreError ''invalid_run_state''), s)))"

definition begin_execution :: "runtime \<Rightarrow> world \<Rightarrow> workflow_reference \<Rightarrow> db \<Rightarrow> (exn + bool) \<times> db" where
  "begin_execution rt w ref =
     and_then w 0 (run_state_of rt ref) (\<lambda>state.
     and_then w 1 (if state = QUEUED then prepare rt (later 4 w) ref else return_state state) (\<lambda>state.
     and_then w 2 (if state = PROVISIONING
                   then transition rt (later 50 w) ref (plain_request [PROVISIONING] RUNNING ''run.started'')
                   else return_state state) (\<lambda>state.
     if state = CANCELLING
     then and_then w 3 (acknowledge_cancellation rt (later 70 w) ref) (\<lambda>_. return_state False)
     else return_state (state = RUNNING))))"

definition complete :: "runtime \<Rightarrow> world \<Rightarrow> workflow_reference \<Rightarrow> json \<Rightarrow> db \<Rightarrow> (exn + run_state) \<times> db" where
  "complete rt w ref summary s =
     (case normalize_result_summary summary of
        Inl e \<Rightarrow> (Inl e, s)
      | Inr normalized \<Rightarrow>
          and_then w 0 (run_state_of rt ref) (\<lambda>state.
            if state = CANCELLING then acknowledge_cancellation rt (later 1 w) ref
            else if state \<in> {CANCELLED, SUCCEEDED, FAILED} then return_state state
            else transition rt (later 1 w) ref
              \<lparr>tr_expected = [RUNNING], tr_target = SUCCEEDED, tr_event_type = ''run.succeeded'',
               tr_payload = JObj [(''result_summary'', normalized), (''state'', JStr (run_state_value SUCCEEDED))],
               tr_result_summary = Some normalized, tr_failure_code = None\<rparr>) s)"

definition is_code_char :: "char \<Rightarrow> bool" where
  "is_code_char c \<longleftrightarrow> is_lower_char c \<or> is_digit_char c \<or> c = CHR ''_''"

text \<open>\<open>_safe_code\<close> on the ASCII strings the handlers report.\<close>

definition safe_code :: "string \<Rightarrow> bool" where
  "safe_code v \<longleftrightarrow> v \<noteq> [] \<and> length v \<le> 80 \<and> list_all is_code_char v"

definition fail :: "runtime \<Rightarrow> world \<Rightarrow> workflow_reference \<Rightarrow> string \<Rightarrow> db \<Rightarrow> (exn + run_state) \<times> db" where
  "fail rt w ref code =
     (let code = (if safe_code code then code else ''execution_failed'') in
      and_then w 0 (run_state_of rt ref) (\<lambda>state.
        if state = CANCELLING then acknowledge_cancellation rt (later 1 w) ref
        else if state \<in> {CANCELLED, SUCCEEDED, FAILED} then return_state state
        else transition rt (later 1 w) ref
          \<lparr>tr_expected = [QUEUED, PROVISIONING, RUNNING], tr_target = FAILED, tr_event_type = ''run.failed'',
           tr_payload = JObj [(''failure_code'', JStr code), (''state'', JStr (run_state_value FAILED))],
           tr_result_summary = None, tr_failure_code = Some code\<rparr>))"

definition cancellation_requested :: "runtime \<Rightarrow> workflow_reference \<Rightarrow> db \<Rightarrow> (exn + bool) \<times> db" where
  "cancellation_requested rt ref s =
     (case run_state_of rt ref s of
        (Inl e, s1) \<Rightarrow> (Inl e, s1) | (Inr state, s1) \<Rightarrow> (Inr (state \<in> {CANCELLING, CANCELLED}), s1))"

definition store_is_terminal :: "runtime \<Rightarrow> workflow_reference \<Rightarrow> db \<Rightarrow> (exn + bool) \<times> db" where
  "store_is_terminal rt ref s =
     (case run_state_of rt ref s of
        (Inl e, s1) \<Rightarrow> (Inl e, s1) | (Inr state, s1) \<Rightarrow> (Inr (is_terminal state), s1))"

section \<open>Progress\<close>

definition latest_progress :: "uuid \<Rightarrow> uuid \<Rightarrow> db \<Rightarrow> run_event option" where
  "latest_progress org run_id s =
     latest_by e_sequence (filter (\<lambda>e. e_organization e = org \<and> e_run e = run_id \<and> e_type e = ''run.progress'')
       (run_events s))"

definition progress_position :: "json \<Rightarrow> exn + int \<times> int" where
  "progress_position payload =
     (case (obj_get ''activity_attempt'' payload, obj_get ''sequence'' payload) of
        (Some (JInt a), Some (JInt n)) \<Rightarrow> Inr (a, n)
      | _ \<Rightarrow> Inl (RunStoreError ''progress_integrity_violation''))"

definition stale_progress :: "int \<times> int \<Rightarrow> int \<times> int \<Rightarrow> bool" where
  "stale_progress new latest \<longleftrightarrow>
     fst new < fst latest \<or> fst new = fst latest \<and> snd new \<le> snd latest"

definition progress_attempt ::
    "runtime \<Rightarrow> time \<Rightarrow> (db \<Rightarrow> db) \<Rightarrow> uuid \<Rightarrow> uuid \<Rightarrow> string \<Rightarrow> int \<Rightarrow> run_progress \<Rightarrow> tenant_context \<Rightarrow> db
     \<Rightarrow> (exn + bool option \<times> db) \<times> db" where
  "progress_attempt rt now env org run_id spec_sha256 activity_attempt progress c s =
     (case verified_run rt org run_id spec_sha256 s of
        Inl e \<Rightarrow> (Inl e, s)
      | Inr run \<Rightarrow>
          if r_state run \<noteq> RUNNING then (Inr (Some False, s), s)
          else
            (case (case latest_progress org run_id s of None \<Rightarrow> Inr False
                   | Some latest \<Rightarrow> bindr (progress_position (e_payload latest)) (\<lambda>position.
                       Inr (stale_progress (activity_attempt, rp_sequence progress) position))) of
               Inl e \<Rightarrow> (Inl e, s)
             | Inr True \<Rightarrow> (Inr (Some False, s), s)
             | Inr False \<Rightarrow>
                 let s1 = env s in
                 if list_ex (store_matches org spec_sha256 run) (runs s1)
                 then (bindr (insert_row run_events_ok (new_event org run_id (Suc (r_event_sequence run))
                         ''run.progress'' (progress_payload activity_attempt progress) now) (run_events s1)) (\<lambda>events.
                       Inr (Some True, s1\<lparr>runs := update_where (store_matches org spec_sha256 run)
                           (\<lambda>r. r\<lparr>r_event_sequence := Suc (r_event_sequence run)\<rparr>) (runs s1),
                         run_events := events\<rparr>)), s1)
                 else (Inr (None, s1), s1)))"

fun progress_attempts ::
    "nat \<Rightarrow> runtime \<Rightarrow> world \<Rightarrow> uuid \<Rightarrow> uuid \<Rightarrow> string \<Rightarrow> int \<Rightarrow> run_progress \<Rightarrow> db \<Rightarrow> (exn + bool) \<times> db" where
  "progress_attempts 0 rt w org run_id spec_sha256 activity_attempt progress s =
     (Inl (RunStoreError ''state_conflict''), s)"
| "progress_attempts (Suc n) rt w org run_id spec_sha256 activity_attempt progress s =
     (case contended_session rt (service_context WORKER (Some org))
             (progress_attempt rt (w_clock w (2 * n)) (w_env w (2 * n)) org run_id spec_sha256 activity_attempt progress) s of
        (Inl e, s1) \<Rightarrow> (Inl e, s1)
      | (Inr (Some recorded), s1) \<Rightarrow> (Inr recorded, s1)
      | (Inr None, s1) \<Rightarrow>
          progress_attempts n rt w org run_id spec_sha256 activity_attempt progress (w_env w (2 * n + 1) s1))"

definition record_progress ::
    "runtime \<Rightarrow> world \<Rightarrow> workflow_reference \<Rightarrow> run_progress \<Rightarrow> int \<Rightarrow> db \<Rightarrow> (exn + bool) \<times> db" where
  "record_progress rt w ref progress activity_attempt s =
     (if \<not> (1 \<le> activity_attempt \<and> activity_attempt \<le> 100) then (Inl (RunStoreError ''invalid_progress''), s)
      else
        (case store_ids ref of
           Inl e \<Rightarrow> (Inl e, s)
         | Inr (org, run_id) \<Rightarrow>
             progress_attempts max_cas_attempts rt w org run_id (wr_spec_sha256 ref) activity_attempt progress s))"

section \<open>A run that moves\<close>

text \<open>
  The capacity of a run is kept while it stays unfinished and is given back when it finishes;
  every service that moves a run does one of the two.
\<close>

definition reservation_key :: "quota_reservation \<Rightarrow> uuid \<times> uuid \<times> quota_class \<times> reservation_state" where
  "reservation_key q = (qr_run q, qr_organization q, qr_class q, qr_state q)"

lemma holds_capacity_key:
  "holds_capacity s r \<longleftrightarrow>
     (r_id r, r_organization r, run_quota_class (r_kind r), RES_ACTIVE) \<in> set (map reservation_key (quota_reservations s))"
  by (auto simp: holds_capacity_def reservation_key_def image_iff) metis

lemma capacity_ok_keep:
  assumes "capacity_ok s" and "distinct (map r_id (runs s))" and "run \<in> set (runs s)"
    and "runs s' = update_run (r_id run) f (runs s)"
    and "r_id (f run) = r_id run" and "r_organization (f run) = r_organization run" and "r_kind (f run) = r_kind run"
    and keys: "map reservation_key (quota_reservations s') = map reservation_key (quota_reservations s)"
    and "is_terminal (r_state (f run)) = is_terminal (r_state run)"
  shows "capacity_ok s'"
proof (rule capacity_ok_update [OF assms(1-7)])
  have same: "holds_capacity s' x = holds_capacity s x" for x by (simp only: holds_capacity_key keys)
  then show "holds_capacity s' x = holds_capacity s x" if "x \<in> set (runs s)" "r_id x \<noteq> r_id run" for x .
  from assms(1,3,9) show "holds_capacity s' run \<longleftrightarrow> \<not> is_terminal (r_state (f run))"
    by (simp add: same capacity_ok_def)
  have "map (\<lambda>(a, b, c, d). (a, b, c)) (map reservation_key (quota_reservations s'))
      = map (\<lambda>(a, b, c, d). (a, b, c)) (map reservation_key (quota_reservations s))" by (simp only: keys)
  then show "map (\<lambda>q. (qr_run q, qr_organization q, qr_class q)) (quota_reservations s')
      = map (\<lambda>q. (qr_run q, qr_organization q, qr_class q)) (quota_reservations s)"
    by (simp add: reservation_key_def comp_def)
qed

lemma capacity_ok_release:
  assumes cap: "capacity_ok s" and "distinct (map r_id (runs s))" and run: "run \<in> set (runs s)"
    and "runs s' = update_run (r_id run) f (runs s)"
    and "r_id (f run) = r_id run" and "r_organization (f run) = r_organization run" and "r_kind (f run) = r_kind run"
    and ids: "distinct (map qr_id (quota_reservations s))"
    and uniq: "distinct (map (\<lambda>q. (qr_organization q, qr_run q)) (quota_reservations s))"
    and rel: "release_run rt c now (r_organization run) (r_id run) state t = Inr (b, t')" and "state \<noteq> RES_ACTIVE"
    and t: "quota_reservations t = quota_reservations s" and t': "quota_reservations s' = quota_reservations t'"
    and "\<not> is_terminal (r_state run)" and "is_terminal (r_state (f run))"
  shows "capacity_ok s'" and "b"
proof -
  have "holds_capacity s run" using cap run assms(14) by (simp add: capacity_ok_def)
  then obtain q where q: "q \<in> set (quota_reservations s)" "qr_run q = r_id run" "qr_organization q = r_organization run"
    "qr_state q = RES_ACTIVE" by (auto simp: holds_capacity_def)
  have found: "find_reservation (r_organization run) (r_id run) t = Some q"
    unfolding find_reservation_def t
    by (rule find_key [OF uniq q(1)]) (use q in auto)
  from rel have upd: "quota_reservations t' = update_where (\<lambda>x. qr_id x = qr_id q)
      (\<lambda>x. x\<lparr>qr_state := state, qr_released_at := Some now\<rparr>) (quota_reservations s)" and b
  proof (atomize (full), cases rule: release_run_cases)
    case idle
    with found q show "quota_reservations t' = update_where (\<lambda>x. qr_id x = qr_id q)
      (\<lambda>x. x\<lparr>qr_state := state, qr_released_at := Some now\<rparr>) (quota_reservations s) \<and> b" by simp
  next
    case (released p)
    with found t show "quota_reservations t' = update_where (\<lambda>x. qr_id x = qr_id q)
      (\<lambda>x. x\<lparr>qr_state := state, qr_released_at := Some now\<rparr>) (quota_reservations s) \<and> b" by simp
  qed
  then show b by simp
  have rows: "set (quota_reservations s') = insert (q\<lparr>qr_state := state, qr_released_at := Some now\<rparr>)
      {x \<in> set (quota_reservations s). qr_id x \<noteq> qr_id q}"
    unfolding t' upd by (rule set_update_where_key [OF ids q(1)])
  have only: "x = q" if "x \<in> set (quota_reservations s)" "qr_run x = r_id run" "qr_organization x = r_organization run" for x
    using that q by (intro distinct_map_inj [OF uniq that(1) q(1)]) simp
  show "capacity_ok s'"
  proof (rule capacity_ok_update [OF assms(1-7)])
    show "holds_capacity s' x = holds_capacity s x" if "x \<in> set (runs s)" "r_id x \<noteq> r_id run" for x
    proof -
      have "p \<in> set (quota_reservations s') \<longleftrightarrow> p \<in> set (quota_reservations s)" if "qr_run p \<noteq> r_id run" for p
        using that q(1,2) distinct_map_inj [OF ids, of p q] by (auto simp: rows)
      with that show ?thesis unfolding holds_capacity_def by metis
    qed
    show "holds_capacity s' run \<longleftrightarrow> \<not> is_terminal (r_state (f run))"
      using assms(11,15) rows only by (auto simp: holds_capacity_def)
    show "map (\<lambda>q. (qr_run q, qr_organization q, qr_class q)) (quota_reservations s')
      = map (\<lambda>q. (qr_run q, qr_organization q, qr_class q)) (quota_reservations s)"
      unfolding t' upd by (simp add: map_update_where)
  qed
qed

lemma jobs_inv_move:
  assumes "jobs_inv rt s" and "log_ok s'" and "capacity_ok s'" and "audit_ok rt s'" and "jobs_ok s'" and "constraints_ok s'"
    and "runs s' = update_run run_id f (runs s)" and "\<And>r. r_id (f r) = r_id r" and "\<And>r. r_organization (f r) = r_organization r"
    and "outbox_messages s' = outbox_messages s"
  shows "jobs_inv rt s'"
proof -
  have "dispatch_ok s'"
    by (rule dispatch_ok_update [OF jobs_invD(6) [OF assms(1)] assms(7)]) (use assms in auto)
  with assms show ?thesis by (simp add: jobs_inv_def)
qed

lemma service_append_frame:
  assumes "service_append rt c now org identity action rtype rid request_id metadata s = Inr s'"
  shows "platform_frame s s'" and "quota_reservations s' = quota_reservations s"
    and "policy_of o' s' = policy_of o' s" and "usage_of o' s' = usage_of o' s"
    and "digest_ok rt \<Longrightarrow> audit_ok rt s \<Longrightarrow> audit_ok rt s'" and "jobs_ok s' = jobs_ok s"
proof -
  from assms obtain actor where a: "audit_append rt c now org actor action rtype rid request_id metadata s = Inr s'"
    by (auto simp: service_append_def)
  note f = audit_append_frame [OF a]
  show "platform_frame s s'" "quota_reservations s' = quota_reservations s"
    "policy_of o' s' = policy_of o' s" "usage_of o' s' = usage_of o' s" by (rule f)+
  show "jobs_ok s' = jobs_ok s" using f by (intro jobs_ok_cong) simp_all
  show "digest_ok rt \<Longrightarrow> audit_ok rt s \<Longrightarrow> audit_ok rt s'" using audit_append_audit_ok [OF _ _ a] by blast
qed

lemma views_of_tables [simp]:
  "usage_of o' (s\<lparr>runs := rs, run_events := es\<rparr>) = usage_of o' s"
  "policy_of o' (s\<lparr>runs := rs, run_events := es\<rparr>) = policy_of o' s"
  by (simp_all add: usage_of_def policy_of_def find_usage_def find_policy_def)

lemma inv_of_tables:
  "jobs_ok (s\<lparr>runs := rs, run_events := es\<rparr>) = jobs_ok s"
  "audit_ok rt (s\<lparr>runs := rs, run_events := es\<rparr>) = audit_ok rt s"
  by (rule jobs_ok_cong; simp) (rule audit_ok_cong; simp)

section \<open>Transitions keep the invariants\<close>

text \<open>
  What the controls of a transition do besides moving the run: the reservation keys stay as they
  were for an unfinished target, and the run's reservation is released for a final one.
\<close>

lemma apply_transition_controls_steps:
  assumes "apply_transition_controls rt c now run target code s = Inr s'"
  obtains (renew) "target = RUNNING" "renew_run rt now (r_organization run) run s = Inr (True, s')"
  | (noted) identity action md where "target = CANCELLING" 
      "service_append rt c now (r_organization run) identity action RUN_RESOURCE (r_id run) None md s = Inr s'"
  | (final) b t identity action md where "is_terminal target"
      "release_run rt c now (r_organization run) (r_id run) RES_RELEASED s = Inr (b, t)"
      "service_append rt c now (r_organization run) identity action RUN_RESOURCE (r_id run) None md t = Inr s'"
  | (nothing) "target \<in> {DRAFT, QUEUED, PROVISIONING}" "s' = s"
  using assms by (cases target) (auto simp: apply_transition_controls_def)

lemma renew_run_frame:
  assumes "renew_run rt now org run s = Inr (b, s')"
  shows "platform_frame s s'" and "map reservation_key (quota_reservations s') = map reservation_key (quota_reservations s)"
    and "audit_ok rt s' = audit_ok rt s"
  using assms
proof (atomize (full), cases rule: renew_run_cases)
  case (renewed q expires)
  then show "platform_frame s s' \<and> map reservation_key (quota_reservations s') = map reservation_key (quota_reservations s)
      \<and> audit_ok rt s' = audit_ok rt s"
    by (simp add: map_update_where reservation_key_def platform_frame_def erase_platform_def)
qed simp

lemma release_run_frame:
  assumes "release_run rt c now org run_id state s = Inr (b, s')"
  shows "platform_frame s s'"
  using assms by (cases rule: release_run_cases) simp_all

lemma apply_transition_controls_frame:
  assumes "apply_transition_controls rt c now run target code s = Inr s'" and "digest_ok rt"
    and "audit_ok rt s" and "jobs_ok s" and "distinct (map qr_id (quota_reservations s))"
  shows "platform_frame s s'" and "audit_ok rt s'" and "jobs_ok s'"
    and "\<not> is_terminal target \<Longrightarrow> map reservation_key (quota_reservations s') = map reservation_key (quota_reservations s)"
    and "is_terminal target \<Longrightarrow> \<exists>b t. release_run rt c now (r_organization run) (r_id run) RES_RELEASED s = Inr (b, t)
          \<and> quota_reservations s' = quota_reservations t"
proof -
  have "platform_frame s s' \<and> audit_ok rt s' \<and> jobs_ok s'
    \<and> (\<not> is_terminal target \<longrightarrow> map reservation_key (quota_reservations s') = map reservation_key (quota_reservations s))
    \<and> (is_terminal target \<longrightarrow> (\<exists>b t. release_run rt c now (r_organization run) (r_id run) RES_RELEASED s = Inr (b, t)
          \<and> quota_reservations s' = quota_reservations t))"
    using assms(1)
  proof (cases rule: apply_transition_controls_steps)
    case renew
    with assms(3,4) renew_run_frame [OF renew(2)] renew_run_jobs_ok [OF renew(2)] show ?thesis by simp
  next
    case (noted identity action md)
    with assms service_append_frame [OF noted(2)] show ?thesis by simp
  next
    case (final b t identity action md)
    have "platform_frame s s'"
      using release_run_frame [OF final(2)] service_append_frame(1) [OF final(3)] by (rule platform_frame_trans)
    moreover have "jobs_ok t" using release_run_jobs_ok [OF final(2) assms(4) _ assms(5)] by simp
    moreover have "audit_ok rt t" using release_run_audit_ok [OF final(2) assms(3)] .
    ultimately show ?thesis using final service_append_frame [OF final(3)] assms(2) by blast
  next
    case nothing
    with assms show ?thesis by auto
  qed
  then show "platform_frame s s'" and "audit_ok rt s'" and "jobs_ok s'"
    and "\<not> is_terminal target \<Longrightarrow> map reservation_key (quota_reservations s') = map reservation_key (quota_reservations s)"
    and "is_terminal target \<Longrightarrow> \<exists>b t. release_run rt c now (r_organization run) (r_id run) RES_RELEASED s = Inr (b, t)
          \<and> quota_reservations s' = quota_reservations t" by blast+
qed

text \<open>The event of a request announces its target.\<close>

definition request_ok :: "transition_request \<Rightarrow> bool" where
  "request_ok req \<longleftrightarrow> tr_target req \<notin> {DRAFT, QUEUED} \<and> tr_event_type req =
     (case tr_target req of PROVISIONING \<Rightarrow> ''run.provisioning'' | RUNNING \<Rightarrow> ''run.started''
      | CANCELLING \<Rightarrow> ''run.cancellation_observed'' | CANCELLED \<Rightarrow> ''run.cancelled''
      | SUCCEEDED \<Rightarrow> ''run.succeeded'' | _ \<Rightarrow> ''run.failed'')"

lemma request_ok_event: "request_ok req \<Longrightarrow> event_state (new_event org i n (tr_event_type req) p t) = Some (tr_target req)"
  by (cases "tr_target req") (simp_all add: request_ok_def)

lemma store_update:
  assumes "distinct (map r_id rows)" and "list_ex (store_matches org sha seen) rows"
  obtains run where "run \<in> set rows" "r_id run = r_id seen" "r_organization run = org" "r_state run = r_state seen"
    "r_event_sequence run = r_event_sequence seen" "update_where (store_matches org sha seen) f rows = update_run (r_id seen) f rows"
proof -
  obtain run where run: "run \<in> set rows" "store_matches org sha seen run" using assms(2) by (auto simp: list_ex_iff)
  have "store_matches org sha seen x = (r_id x = r_id seen)" if "x \<in> set rows" for x
  proof
    assume "r_id x = r_id seen"
    with run have "x = run" by (intro distinct_map_inj [OF assms(1) that run(1)]) (simp add: store_matches_def)
    with run show "store_matches org sha seen x" by simp
  qed (simp add: store_matches_def)
  then have "update_where (store_matches org sha seen) f rows = update_run (r_id seen) f rows"
    by (auto simp: update_run_def update_where_def)
  with run that show thesis by (auto simp: store_matches_def)
qed

lemma move_run_simps [simp]:
  "r_id (move_run req seen r) = r_id r" "r_organization (move_run req seen r) = r_organization r"
  "r_kind (move_run req seen r) = r_kind r" "r_state (move_run req seen r) = tr_target req"
  "r_event_sequence (move_run req seen r) = Suc (r_event_sequence seen)"
  "r_result_summary (move_run req seen r) = tr_result_summary req"
  "r_failure_code (move_run req seen r) = tr_failure_code req"
  by (simp_all add: move_run_def)

lemma commit_transition_inv:
  assumes com: "commit_transition rt c now org sha req seen s = Inr s'"
    and cas: "list_ex (store_matches org sha seen) (runs s)" and org: "r_organization seen = org"
    and step: "tr_target req \<in> set (transitions (r_state seen))" and req: "request_ok req"
    and inv: "jobs_inv rt s" and dig: "digest_ok rt" and ok: "constraints_ok s'"
  shows "jobs_inv rt s'"
    and "\<exists>run \<in> set (runs s). r_id run = r_id seen \<and> runs s' = update_run (r_id seen) (move_run req seen) (runs s)"
proof -
  note j = jobs_invD [OF inv]
  have d: "distinct (map r_id (runs s))" using j(1) by (rule constraints_runs)
  from store_update [OF d cas, of "move_run req seen"] obtain run where
    run: "run \<in> set (runs s)" "r_id run = r_id seen" "r_organization run = org" "r_state run = r_state seen"
    "r_event_sequence run = r_event_sequence seen"
    and upd: "update_where (store_matches org sha seen) (move_run req seen) (runs s) = update_run (r_id run) (move_run req seen) (runs s)"
    by metis
  let ?e = "new_event org (r_id seen) (Suc (r_event_sequence seen)) (tr_event_type req) (tr_payload req) now"
  let ?t = "s\<lparr>runs := update_run (r_id run) (move_run req seen) (runs s), run_events := run_events s @ [?e]\<rparr>"
  from com have ctl: "apply_transition_controls rt c now seen (tr_target req) (tr_failure_code req) ?t = Inr s'"
    by (auto simp: commit_transition_def upd)
  have dq: "distinct (map qr_id (quota_reservations ?t))" using constraints_reservations(1) [OF j(1)] by simp
  note f = apply_transition_controls_frame [OF ctl dig, unfolded inv_of_tables, OF j(2,3) dq]
  note t = platform_frame_tables [OF f(1)]
  have step': "tr_target req \<in> set (transitions (r_state run))" using step run(4) by simp
  have nt: "\<not> is_terminal (r_state run)" using step' by (auto simp: is_terminal_def)
  have rows: "runs s' = update_run (r_id run) (move_run req seen) (runs s)" using t by simp
  have log: "log_ok s'"
    by (rule log_ok_event [OF j(4) d run(1), where f = "move_run req seen" and e = ?e])
      (use t run step' request_ok_event [OF req] in simp_all)
  have cap: "capacity_ok s'"
  proof (cases "is_terminal (tr_target req)")
    case False
    show ?thesis
      by (rule capacity_ok_keep [OF j(5) d run(1) rows]) (use f(4) [OF False] False nt in simp_all)
  next
    case True
    from f(5) [OF True] obtain b u where
      rel: "release_run rt c now (r_organization run) (r_id run) RES_RELEASED ?t = Inr (b, u)"
      and u: "quota_reservations s' = quota_reservations u" using org run(2,3) by auto
    show ?thesis
      by (rule capacity_ok_release(1) [OF j(5) d run(1) rows _ _ _ constraints_reservations [OF j(1)] rel _ _ u nt])
        (use True in simp_all)
  qed
  show "jobs_inv rt s'"
    by (rule jobs_inv_move [OF inv log cap f(2,3) ok rows]) (use t in simp_all)
  show "\<exists>run \<in> set (runs s). r_id run = r_id seen \<and> runs s' = update_run (r_id seen) (move_run req seen) (runs s)"
    using run(1,2) rows by auto
qed

lemma verified_run_Inr:
  "verified_run rt org run_id sha s = Inr run \<Longrightarrow> run \<in> set (runs s) \<and> r_id run = run_id \<and> r_organization run = org
     \<and> r_spec_sha256 run = sha"
  by (auto simp: verified_run_def store_run_def verify_spec_def dest: find_SomeD)

lemma transition_attempt_cases:
  assumes att: "transition_attempt rt now env org run_id sha req c s = (r, base)"
  obtains (failed) e where "r = Inl e" "base \<in> {s, env s}"
  | (seen) run where "verified_run rt org run_id sha s = Inr run" "r = Inr (Some (r_state run), s)" "base = s"
      "r_state run = tr_target req \<or> is_terminal (r_state run) \<or> r_state run \<notin> set (tr_expected req)"
  | (moved) run s2 where "verified_run rt org run_id sha s = Inr run" "r_state run \<in> set (tr_expected req)"
      "tr_target req \<in> set (transitions (r_state run))" "list_ex (store_matches org sha run) (runs (env s))" "base = env s"
      "commit_transition rt c now org sha req run (env s) = Inr s2" "r = Inr (Some (tr_target req), s2)"
  | (lost) "r = Inr (None, env s)" "base = env s"
proof (cases "verified_run rt org run_id sha s")
  case (Inl e)
  with att show thesis by (intro failed) (auto simp: transition_attempt_def)
next
  case run: (Inr run)
  show thesis
  proof (cases "r_state run = tr_target req \<or> is_terminal (r_state run) \<or> r_state run \<notin> set (tr_expected req)")
    case True
    with run att show thesis by (intro seen) (auto simp: transition_attempt_def split: if_splits)
  next
    case False
    show thesis
    proof (cases "ensure_transition (r_state run) (tr_target req)")
      case (Inl e)
      with run False att show thesis by (intro failed) (auto simp: transition_attempt_def)
    next
      case step: (Inr u)
      show thesis
      proof (cases "list_ex (store_matches org sha run) (runs (env s))")
        case no: False
        with run False step att show thesis
          by (intro lost) (auto simp: transition_attempt_def Let_def simp del: ensure_transition_eq_Inr)
      next
        case cas: True
        from run False step cas att have base: "base = env s" and
          r: "r = bindr (commit_transition rt c now org sha req run (env s)) (\<lambda>s2. Inr (Some (tr_target req), s2))"
          by (auto simp: transition_attempt_def Let_def simp del: ensure_transition_eq_Inr)
        show thesis
        proof (cases "commit_transition rt c now org sha req run (env s)")
          case (Inl e)
          with r base show thesis by (intro failed) auto
        next
          case (Inr s2)
          from step have "tr_target req \<in> set (transitions (r_state run))" by (simp add: lifecycle_step_iff)
          with run False cas base r Inr show thesis by (intro moved [of run s2]) auto
        qed
      qed
    qed
  qed
qed

definition world_ok :: "runtime \<Rightarrow> world \<Rightarrow> bool" where
  "world_ok rt w \<longleftrightarrow> (\<forall>i t. jobs_inv rt t \<longrightarrow> jobs_inv rt (w_env w i t))"

lemma world_okD: "world_ok rt w \<Longrightarrow> jobs_inv rt t \<Longrightarrow> jobs_inv rt (w_env w i t)"
  by (simp add: world_ok_def)

lemma world_ok_later [simp]: "world_ok rt w \<Longrightarrow> world_ok rt (later k w)"
  by (simp add: world_ok_def later_def)

lemma transition_attempt_inv:
  assumes "transition_attempt rt now env org run_id sha req c s = (r, base)" and "request_ok req"
    and "digest_ok rt" and "jobs_inv rt s" and "jobs_inv rt (env s)"
  shows "jobs_inv rt base" and "r = Inr (a, s') \<Longrightarrow> constraints_ok s' \<Longrightarrow> jobs_inv rt s'"
proof -
  show "jobs_inv rt base" using assms(1) by (cases rule: transition_attempt_cases) (use assms in auto)
  assume r: "r = Inr (a, s')" and ok: "constraints_ok s'"
  from assms(1) show "jobs_inv rt s'"
  proof (cases rule: transition_attempt_cases)
    case (moved run s2)
    with r have "s2 = s'" by simp
    with moved commit_transition_inv(1) [OF moved(6,4) _ moved(3) assms(2,5,3)] ok show ?thesis
      by (auto dest: verified_run_Inr)
  qed (use r assms in auto)
qed

lemma transition_attempts_inv:
  assumes "request_ok req" and "digest_ok rt" and "world_ok rt w" and "jobs_inv rt s"
  shows "jobs_inv rt (snd (transition_attempts n rt w org run_id sha req s))"
  using assms(4)
proof (induction n arbitrary: s)
  case (Suc n)
  let ?att = "transition_attempt rt (w_clock w (2 * n)) (w_env w (2 * n)) org run_id sha req"
  have env: "jobs_inv rt (w_env w i t)" if "jobs_inv rt t" for i t
    using world_okD [OF assms(3) that] .
  obtain r s1 where c: "contended_session rt (service_context WORKER (Some org)) ?att s = (r, s1)" by fastforce
  have "jobs_inv rt (snd (contended_session rt (service_context WORKER (Some org)) ?att s))"
  proof (rule contended_session_preserves [of "jobs_inv rt", OF Suc.prems])
    fix ctx r base assume a: "?att ctx s = (r, base)"
    show "jobs_inv rt base" by (rule transition_attempt_inv(1) [OF a assms(1,2) Suc.prems env [OF Suc.prems]])
  next
    fix ctx x t base assume a: "?att ctx s = (Inr (x, t), base)" and ok: "constraints_ok t"
    show "jobs_inv rt t" by (rule transition_attempt_inv(2) [OF a assms(1,2) Suc.prems env [OF Suc.prems] refl ok])
  qed
  with c have s1: "jobs_inv rt s1" by simp
  show ?case
  proof (cases r)
    case (Inl e)
    with c s1 show ?thesis by simp
  next
    case (Inr o1)
    with c s1 Suc.IH env show ?thesis by (cases o1) simp_all
  qed
qed simp

lemma transition_inv:
  assumes "request_ok req" and "digest_ok rt" and "world_ok rt w" and "jobs_inv rt s"
  shows "jobs_inv rt (snd (transition rt w ref req s))"
  using transition_attempts_inv [OF assms] assms(4) by (auto simp: transition_def split: sum.splits)

lemma run_state_of_same [simp]: "snd (run_state_of rt ref s) = s"
proof -
  have "snd (in_session rt ctx (\<lambda>c s. bindr (verified_run rt org run_id sha s) (\<lambda>run. Inr (r_state run, s))) s) = s" for ctx org run_id sha
    by (rule in_session_preserves [where P = "\<lambda>t. t = s"]) auto
  then show ?thesis by (auto simp: run_state_of_def split: sum.splits)
qed

lemma run_state_of_Inr:
  "run_state_of rt ref s = (Inr st, s') \<Longrightarrow> s' = s \<and> (\<exists>org i run. store_ids ref = Inr (org, i)
     \<and> verified_run rt org i (wr_spec_sha256 ref) s = Inr run \<and> r_state run = st)"
  using run_state_of_same [of rt ref s]
  by (auto simp: run_state_of_def split: sum.splits dest!: in_session_Inr)

lemma and_then_inv:
  assumes "jobs_inv rt (snd (m s))" and "world_ok rt w" and "\<And>a t. jobs_inv rt t \<Longrightarrow> jobs_inv rt (snd (f a t))"
  shows "jobs_inv rt (snd (and_then w k m f s))"
  using assms by (cases "m s"; cases "fst (m s)") (auto simp: and_then_def world_okD)

lemma return_state_inv [simp]: "snd (return_state a s) = s"
  by (simp add: return_state_def)

lemma plain_request_ok [simp]:
  "request_ok (plain_request ex PROVISIONING ''run.provisioning'')" "request_ok (plain_request ex RUNNING ''run.started'')"
  "request_ok (plain_request ex CANCELLING ''run.cancellation_observed'')"
  "request_ok (plain_request ex CANCELLED ''run.cancelled'')"
  by (simp_all add: request_ok_def plain_request_def)

lemma store_request_cancellation_inv:
  assumes "digest_ok rt" and "world_ok rt w" and "jobs_inv rt s"
  shows "jobs_inv rt (snd (store_request_cancellation rt w ref s))"
  unfolding store_request_cancellation_def
  by (rule and_then_inv [OF _ assms(2)]) (use assms in \<open>auto intro: transition_inv\<close>)

lemma acknowledge_cancellation_inv:
  assumes "digest_ok rt" and "world_ok rt w" and "jobs_inv rt s"
  shows "jobs_inv rt (snd (acknowledge_cancellation rt w ref s))"
  unfolding acknowledge_cancellation_def
  by (rule and_then_inv [OF _ assms(2)]) (use assms in \<open>auto intro: transition_inv store_request_cancellation_inv\<close>)

lemma prepare_inv:
  assumes "digest_ok rt" and "world_ok rt w" and "jobs_inv rt s"
  shows "jobs_inv rt (snd (prepare rt w ref s))"
  unfolding prepare_def
  by (rule and_then_inv [OF _ assms(2)]) (use assms in \<open>auto intro: transition_inv acknowledge_cancellation_inv\<close>)

lemma begin_execution_inv:
  assumes "digest_ok rt" and "world_ok rt w" and "jobs_inv rt s"
  shows "jobs_inv rt (snd (begin_execution rt w ref s))"
  unfolding begin_execution_def
  by (intro and_then_inv [OF _ assms(2)])
     (use assms in \<open>auto intro!: and_then_inv transition_inv prepare_inv acknowledge_cancellation_inv\<close>)

lemma complete_inv:
  assumes "digest_ok rt" and "world_ok rt w" and "jobs_inv rt s"
  shows "jobs_inv rt (snd (complete rt w ref summary s))"
proof (cases "normalize_result_summary summary")
  case (Inr v)
  show ?thesis unfolding complete_def Inr sum.case
    by (rule and_then_inv [OF _ assms(2)])
       (use assms in \<open>auto intro!: transition_inv acknowledge_cancellation_inv simp: request_ok_def\<close>)
qed (simp add: complete_def assms)

lemma fail_inv:
  assumes "digest_ok rt" and "world_ok rt w" and "jobs_inv rt s"
  shows "jobs_inv rt (snd (fail rt w ref code s))"
  unfolding fail_def Let_def
  by (rule and_then_inv [OF _ assms(2)])
     (use assms in \<open>auto intro!: transition_inv acknowledge_cancellation_inv simp: request_ok_def\<close>)

text \<open>
  What a transition returns is the state the run is in when it returns: the target, or the state
  that kept it from moving.
\<close>

definition run_in_state :: "workflow_reference \<Rightarrow> run_state \<Rightarrow> db \<Rightarrow> bool" where
  "run_in_state ref st s \<longleftrightarrow> (\<exists>org i. store_ids ref = Inr (org, i) \<and>
     (\<exists>r \<in> set (runs s). r_id r = i \<and> r_organization r = org \<and> r_state r = st))"

lemma transition_attempts_result:
  assumes "transition_attempts n rt w org i sha req s = (Inr st, s')" and "request_ok req" and "digest_ok rt"
    and "world_ok rt w" and "jobs_inv rt s"
  shows "(\<exists>r \<in> set (runs s'). r_id r = i \<and> r_organization r = org \<and> r_state r = st)
    \<and> (st = tr_target req \<or> is_terminal st \<or> st \<notin> set (tr_expected req))"
  using assms(1,5)
proof (induction n arbitrary: s)
  case (Suc n)
  let ?att = "transition_attempt rt (w_clock w (2 * n)) (w_env w (2 * n)) org i sha req"
  have env: "jobs_inv rt (w_env w k t)" if "jobs_inv rt t" for k t using world_okD [OF assms(4) that] .
  obtain r s1 where c: "contended_session rt (service_context WORKER (Some org)) ?att s = (r, s1)" by fastforce
  from c Suc.prems(1) obtain o1 where r: "r = Inr o1" by (cases r) auto
  with c obtain ctx base where att: "?att ctx s = (Inr (o1, s1), base)" and ok: "constraints_ok s1"
    by (blast dest: contended_session_Inr)
  have s1: "jobs_inv rt s1"
    using transition_attempt_inv(2) [OF att assms(2,3) Suc.prems(2) env [OF Suc.prems(2)] refl ok] .
  from att show ?case
  proof (cases rule: transition_attempt_cases)
    case (seen run)
    with c r Suc.prems(1) have "st = r_state run" "s' = s" by auto
    with seen(4) verified_run_Inr [OF seen(1)] show ?thesis by auto
  next
    case (moved run s2)
    with c r Suc.prems(1) have "st = tr_target req" "s' = s2" by auto
    moreover have "r_organization run = org" "r_id run = i" using verified_run_Inr [OF moved(1)] by auto
    moreover from this obtain x where "x \<in> set (runs (w_env w (2 * n) s))" "r_id x = i"
      "runs s2 = update_run i (move_run req run) (runs (w_env w (2 * n) s))"
      using commit_transition_inv(2) [OF moved(6,4) _ moved(3) assms(2) env [OF Suc.prems(2)] assms(3)] moved(7) ok by auto
    moreover from moved(4) obtain y where "y \<in> set (runs (w_env w (2 * n) s))" "r_id y = i" "r_organization y = org"
      using verified_run_Inr [OF moved(1)] by (auto simp: list_ex_iff store_matches_def)
    ultimately show ?thesis
      by (auto simp: update_run_def set_update_where intro!: bexI [of _ "move_run req run y"])
  next
    case lost
    with c r Suc.prems(1) have "transition_attempts n rt w org i sha req (w_env w (2 * n + 1) s1) = (Inr st, s')" by simp
    with Suc.IH env [OF s1] show ?thesis by blast
  qed simp
qed simp

lemma transition_result:
  assumes "transition rt w ref req s = (Inr st, s')" and "request_ok req" and "digest_ok rt"
    and "world_ok rt w" and "jobs_inv rt s"
  shows "run_in_state ref st s'" and "st = tr_target req \<or> is_terminal st \<or> st \<notin> set (tr_expected req)"
proof -
  from assms(1) obtain org i where "store_ids ref = Inr (org, i)"
    "transition_attempts max_cas_attempts rt w org i (wr_spec_sha256 ref) req s = (Inr st, s')"
    by (auto simp: transition_def split: sum.splits)
  with transition_attempts_result [OF _ assms(2-5)] show "run_in_state ref st s'"
    "st = tr_target req \<or> is_terminal st \<or> st \<notin> set (tr_expected req)"
    unfolding run_in_state_def by blast+
qed

section \<open>Progress only advances\<close>

lemma progress_attempt_cases:
  assumes att: "progress_attempt rt now env org run_id sha n p c s = (r, base)"
  obtains (failed) e where "r = Inl e" "base \<in> {s, env s}"
  | (stale) "r = Inr (Some False, s)" "base = s"
  | (recorded) run s2 where "verified_run rt org run_id sha s = Inr run" "r_state run = RUNNING"
      "list_ex (store_matches org sha run) (runs (env s))" "base = env s" "r = Inr (Some True, s2)"
      "s2 = (env s)\<lparr>runs := update_where (store_matches org sha run)
           (\<lambda>r. r\<lparr>r_event_sequence := Suc (r_event_sequence run)\<rparr>) (runs (env s)),
         run_events := run_events (env s) @ [new_event org run_id (Suc (r_event_sequence run)) ''run.progress''
           (progress_payload n p) now]\<rparr>"
      "\<And>latest. latest_progress org run_id s = Some latest \<Longrightarrow> \<exists>position. progress_position (e_payload latest) = Inr position
         \<and> \<not> stale_progress (n, rp_sequence p) position"
  | (lost) "r = Inr (None, env s)" "base = env s"
proof -
  let ?check = "case latest_progress org run_id s of None \<Rightarrow> Inr False
                   | Some latest \<Rightarrow> bindr (progress_position (e_payload latest)) (\<lambda>position.
                       Inr (stale_progress (n, rp_sequence p) position))"
  show thesis
  proof (cases "verified_run rt org run_id sha s")
    case (Inl e)
    with att show thesis by (intro failed) (auto simp: progress_attempt_def)
  next
    case run: (Inr run)
    show thesis
    proof (cases "r_state run = RUNNING")
      case False
      with run att show thesis by (intro stale) (auto simp: progress_attempt_def)
    next
      case running: True
      consider e where "?check = Inl e" | "?check = Inr True" | "?check = Inr False"
        by (cases ?check) (metis (full_types))+
      then show thesis
      proof cases
        case 1
        with run running att show thesis by (intro failed [of e]) (auto simp: progress_attempt_def)
      next
        case 2
        with run running att show thesis by (intro stale) (auto simp: progress_attempt_def)
      next
        case fresh: 3
        show thesis
        proof (cases "list_ex (store_matches org sha run) (runs (env s))")
          case False
          with run running fresh att show thesis by (intro lost) (auto simp: progress_attempt_def Let_def)
        next
          case cas: True
          let ?e = "new_event org run_id (Suc (r_event_sequence run)) ''run.progress'' (progress_payload n p) now"
          show thesis
          proof (cases "run_events_ok (run_events (env s) @ [?e])")
            case False
            with run running fresh cas att show thesis
              by (intro failed [of IntegrityError]) (auto simp: progress_attempt_def Let_def insert_row_def)
          next
            case True
            with run running fresh cas att show thesis
              by (intro recorded [OF run running cas]) (auto simp: progress_attempt_def Let_def insert_row_def split: option.splits)
          qed
        qed
      qed
    qed
  qed
qed

lemma progress_attempt_inv:
  assumes "progress_attempt rt now env org run_id sha n p c s = (r, base)"
    and "jobs_inv rt s" and inv: "jobs_inv rt (env s)"
  shows "jobs_inv rt base" and "r = Inr (a, s') \<Longrightarrow> constraints_ok s' \<Longrightarrow> jobs_inv rt s'"
proof -
  show "jobs_inv rt base" using assms(1) by (cases rule: progress_attempt_cases) (use assms in auto)
  assume r: "r = Inr (a, s')" and ok: "constraints_ok s'"
  from assms(1) show "jobs_inv rt s'"
  proof (cases rule: progress_attempt_cases)
    case (recorded seen s2)
    note j = jobs_invD [OF inv]
    let ?f = "\<lambda>r. r\<lparr>r_event_sequence := Suc (r_event_sequence seen)\<rparr>"
    have d: "distinct (map r_id (runs (env s)))" using j(1) by (rule constraints_runs)
    from store_update [OF d recorded(3), of ?f] obtain run where
      run: "run \<in> set (runs (env s))" "r_id run = r_id seen" "r_organization run = org" "r_state run = r_state seen"
      "r_event_sequence run = r_event_sequence seen"
      and upd: "update_where (store_matches org sha seen) ?f (runs (env s)) = update_run (r_id run) ?f (runs (env s))"
      by metis
    have id: "r_id seen = run_id" using verified_run_Inr [OF recorded(1)] by simp
    let ?e = "new_event org run_id (Suc (r_event_sequence seen)) ''run.progress'' (progress_payload n p) now"
    have s': "s' = (env s)\<lparr>runs := update_run (r_id run) ?f (runs (env s)), run_events := run_events (env s) @ [?e]\<rparr>"
      using r recorded(5,6) upd by simp
    have rows: "runs s' = update_run (r_id run) ?f (runs (env s))" by (simp add: s')
    have log: "log_ok s'"
      by (rule log_ok_event [OF j(4) d run(1), where f = ?f and e = ?e]) (use run id in \<open>simp_all add: s'\<close>)
    have cap: "capacity_ok s'"
      by (rule capacity_ok_keep [OF j(5) d run(1) rows]) (simp_all add: s')
    show ?thesis
      by (rule jobs_inv_move [OF inv log cap _ _ ok rows]) (simp_all add: s' inv_of_tables j)
  qed (use r assms in auto)
qed

lemma progress_attempts_inv:
  assumes "world_ok rt w" and "jobs_inv rt s"
  shows "jobs_inv rt (snd (progress_attempts k rt w org run_id sha n p s))"
  using assms(2)
proof (induction k arbitrary: s)
  case (Suc k)
  let ?att = "progress_attempt rt (w_clock w (2 * k)) (w_env w (2 * k)) org run_id sha n p"
  have env: "jobs_inv rt (w_env w i t)" if "jobs_inv rt t" for i t
    using world_okD [OF assms(1) that] .
  obtain r s1 where c: "contended_session rt (service_context WORKER (Some org)) ?att s = (r, s1)" by fastforce
  have "jobs_inv rt (snd (contended_session rt (service_context WORKER (Some org)) ?att s))"
  proof (rule contended_session_preserves [of "jobs_inv rt", OF Suc.prems])
    fix ctx r base assume a: "?att ctx s = (r, base)"
    show "jobs_inv rt base" by (rule progress_attempt_inv(1) [OF a Suc.prems env [OF Suc.prems]])
  next
    fix ctx x t base assume a: "?att ctx s = (Inr (x, t), base)" and ok: "constraints_ok t"
    show "jobs_inv rt t" by (rule progress_attempt_inv(2) [OF a Suc.prems env [OF Suc.prems] refl ok])
  qed
  with c have s1: "jobs_inv rt s1" by simp
  show ?case
  proof (cases r)
    case (Inl e)
    with c s1 show ?thesis by simp
  next
    case (Inr o1)
    with c s1 Suc.IH env show ?thesis by (cases o1) simp_all
  qed
qed simp

lemma record_progress_inv:
  assumes "world_ok rt w" and "jobs_inv rt s"
  shows "jobs_inv rt (snd (record_progress rt w ref p n s))"
  using progress_attempts_inv [OF assms] assms(2) by (auto simp: record_progress_def split: sum.splits)

text \<open>
  The trail of a run's progress events advances: every one of them is at a later activity attempt
  than those before it, or further along the same attempt.
\<close>

definition progress_events :: "uuid \<Rightarrow> uuid \<Rightarrow> db \<Rightarrow> run_event list" where
  "progress_events org run_id s =
     filter (\<lambda>e. e_organization e = org \<and> e_run e = run_id \<and> e_type e = ''run.progress'') (run_events s)"

definition advances :: "run_event \<Rightarrow> run_event \<Rightarrow> bool" where
  "advances d e = (case (progress_position (e_payload d), progress_position (e_payload e)) of
     (Inr (a, m), Inr (b, n)) \<Rightarrow> a < b \<or> a = b \<and> m < n | _ \<Rightarrow> False)"

lemma fresh_advances:
  "progress_position (e_payload d) = Inr p \<Longrightarrow> progress_position (e_payload e) = Inr q \<Longrightarrow>
   advances d e \<longleftrightarrow> \<not> stale_progress q p"
  by (auto simp: advances_def stale_progress_def split: prod.splits)

definition progress_ok :: "db \<Rightarrow> bool" where
  "progress_ok s \<longleftrightarrow> (\<forall>org run_id. sorted_wrt advances (progress_events org run_id s))"

lemma advances_trans: "advances a b \<Longrightarrow> advances b c \<Longrightarrow> advances a c"
  by (auto simp: advances_def split: sum.splits prod.splits)

lemma progress_position_payload [simp]: "progress_position (progress_payload n p) = Inr (n, rp_sequence p)"
  by (simp add: progress_position_def progress_payload_def obj_get_def)

lemma latest_by_sorted: "sorted (map k rows) \<Longrightarrow> latest_by k rows = (if rows = [] then None else Some (last rows))"
  by (cases rows rule: rev_cases) (simp_all add: latest_by_def sort_key_id_if_sorted)

lemma progress_events_of:
  "progress_events org run_id s
     = filter (\<lambda>e. e_organization e = org \<and> e_type e = ''run.progress'') (events_of run_id s)"
  by (auto simp: progress_events_def events_of_def intro: filter_cong)

lemma progress_sequences: "log_ok s \<Longrightarrow> sorted (map e_sequence (progress_events org run_id s))"
proof -
  assume log: "log_ok s"
  show ?thesis
  proof (cases "\<exists>r \<in> set (runs s). r_id r = run_id")
    case True
    then obtain r where r: "r \<in> set (runs s)" "r_id r = run_id" by blast
    then have "map e_sequence (events_of run_id s) = [1..<Suc (r_event_sequence r)]"
      using log by (auto simp: log_ok_def run_log_ok_def)
    then have "sorted (map e_sequence (events_of run_id s))" by (metis sorted_upt)
    then show ?thesis by (simp add: progress_events_of sorted_map sorted_wrt_filter)
  next
    case False
    then have "progress_events org run_id s = []"
      using log by (auto simp: progress_events_def log_ok_def filter_empty_conv)
    then show ?thesis by simp
  qed
qed

lemma latest_progress_last:
  "log_ok s \<Longrightarrow> latest_progress org run_id s =
     (if progress_events org run_id s = [] then None else Some (last (progress_events org run_id s)))"
  unfolding latest_progress_def progress_events_def [symmetric]
  by (rule latest_by_sorted) (rule progress_sequences)

text \<open>What others do between a read and the compare-and-swap: they append events of their own.\<close>

definition world_advances :: "runtime \<Rightarrow> world \<Rightarrow> bool" where
  "world_advances rt w \<longleftrightarrow> (\<forall>i t. jobs_inv rt t \<longrightarrow> progress_ok t \<longrightarrow>
     jobs_inv rt (w_env w i t) \<and> progress_ok (w_env w i t) \<and> (\<exists>es. run_events (w_env w i t) = run_events t @ es))"

lemma events_kept:
  assumes "log_ok s" and "log_ok t" and "run_events t = run_events s @ es"
    and "r \<in> set (runs s)" and "x \<in> set (runs t)" and "r_id x = r_id r" and "r_event_sequence x = r_event_sequence r"
  shows "events_of (r_id r) t = events_of (r_id r) s"
proof -
  have "map e_sequence (events_of (r_id r) s) = [1..<Suc (r_event_sequence r)]"
    using assms(1,4) by (simp add: log_ok_def run_log_ok_def)
  then have "length (events_of (r_id r) s) = r_event_sequence r" by (metis diff_Suc_1 length_map length_upt)
  moreover have "map e_sequence (events_of (r_id r) t) = [1..<Suc (r_event_sequence r)]"
    using assms(2,5-7) by (auto simp: log_ok_def run_log_ok_def)
  then have "length (events_of (r_id r) t) = r_event_sequence r" by (metis diff_Suc_1 length_map length_upt)
  ultimately show ?thesis using assms(3) by (simp add: events_of_def)
qed

lemma progress_recorded:
  assumes ok: "progress_ok s" "log_ok s" and t: "progress_ok t" "log_ok t" "run_events t = run_events s @ es"
    and run: "verified_run rt org run_id sha s = Inr run" and cas: "list_ex (store_matches org sha run) (runs t)"
    and fresh: "\<And>latest. latest_progress org run_id s = Some latest \<Longrightarrow>
       \<exists>position. progress_position (e_payload latest) = Inr position \<and> \<not> stale_progress (n, rp_sequence p) position"
    and s': "run_events s' = run_events t @ [new_event org run_id m ''run.progress'' (progress_payload n p) now]"
  shows "progress_ok s'"
proof -
  let ?e = "new_event org run_id m ''run.progress'' (progress_payload n p) now"
  from cas obtain x where x: "x \<in> set (runs t)" "r_id x = r_id run" "r_event_sequence x = r_event_sequence run"
    by (auto simp: list_ex_iff store_matches_def)
  have r: "run \<in> set (runs s)" "r_id run = run_id" using verified_run_Inr [OF run] by auto
  have "events_of run_id t = events_of run_id s"
    using events_kept [OF ok(2) t(2,3) r(1) x] r(2) by simp
  then have same: "progress_events org run_id t = progress_events org run_id s"
    by (simp only: progress_events_of)
  have adv: "advances d ?e" if "d \<in> set (progress_events org run_id s)" for d
  proof -
    let ?es = "progress_events org run_id s"
    have ne: "?es \<noteq> []" using that by auto
    then have "advances (last ?es) ?e"
      using fresh [of "last ?es"] latest_progress_last [OF ok(2), of org run_id]
      by (auto simp: fresh_advances new_event_def)
    moreover have "d = last ?es \<or> advances d (last ?es)"
    proof -
      have "sorted_wrt advances (butlast ?es @ [last ?es])" using ok(1) ne by (simp add: progress_ok_def)
      moreover have "d \<in> set (butlast ?es) \<or> d = last ?es"
        using that ne by (metis append_butlast_last_id in_set_conv_decomp rotate1.simps(2) set_ConsD set_rotate1)
      ultimately show ?thesis by (auto simp: sorted_wrt_append)
    qed
    ultimately show ?thesis using advances_trans by blast
  qed
  have "sorted_wrt advances (progress_events o' i' s')" for o' i'
  proof (cases "o' = org \<and> i' = run_id")
    case True
    then have "progress_events o' i' s' = progress_events org run_id s @ [?e]"
      using same by (simp add: s' progress_events_def)
    with adv ok(1) show ?thesis by (auto simp: sorted_wrt_append progress_ok_def)
  next
    case False
    then have "progress_events o' i' s' = progress_events o' i' t" by (auto simp: s' progress_events_def)
    with t(1) show ?thesis by (simp add: progress_ok_def)
  qed
  then show ?thesis by (simp add: progress_ok_def)
qed

lemma progress_attempts_ok:
  assumes "world_advances rt w" and "jobs_inv rt s" and "progress_ok s"
    and "progress_attempts k rt w org run_id sha n p s = (r, s')"
  shows "progress_ok s' \<and> (r = Inr True \<longrightarrow> progress_events org run_id s' \<noteq> []
     \<and> progress_position (e_payload (last (progress_events org run_id s'))) = Inr (n, rp_sequence p))"
  using assms(2-4)
proof (induction k arbitrary: s)
  case (Suc k)
  let ?att = "progress_attempt rt (w_clock w (2 * k)) (w_env w (2 * k)) org run_id sha n p"
  have env: "jobs_inv rt (w_env w i t)" "progress_ok (w_env w i t)" "\<exists>es. run_events (w_env w i t) = run_events t @ es"
    if "jobs_inv rt t" "progress_ok t" for i t
    using assms(1) that by (auto simp: world_advances_def)
  note env0 = env [OF Suc.prems(1,2)]
  have log: "log_ok s" "log_ok (w_env w i s)" for i using jobs_invD(4) Suc.prems(1) env0(1) by blast+
  obtain r1 s1 where c: "contended_session rt (service_context WORKER (Some org)) ?att s = (r1, s1)" by fastforce
  show ?case
  proof (cases r1)
    case (Inl e)
    have "progress_ok s1"
    proof -
      have "progress_ok (snd (contended_session rt (service_context WORKER (Some org)) ?att s))"
      proof (rule contended_session_preserves [of progress_ok, OF Suc.prems(2)])
        fix ctx r base assume a: "?att ctx s = (r, base)"
        then show "progress_ok base" by (cases rule: progress_attempt_cases) (use Suc.prems env0 in auto)
      next
        fix ctx x t base assume a: "?att ctx s = (Inr (x, t), base)"
        then show "progress_ok t"
        proof (cases rule: progress_attempt_cases)
          case (recorded run s2)
          obtain es where es: "run_events (w_env w (2 * k) s) = run_events s @ es" using env0(3) by blast
          from progress_recorded [OF Suc.prems(2) log(1) env0(2) log(2) es recorded(1,3,7)] recorded(5,6)
          show ?thesis by simp
        qed (use Suc.prems env0 in auto)
      qed
      with c show ?thesis by simp
    qed
    with c Inl Suc.prems(3) show ?thesis by auto
  next
    case (Inr o1)
    with c obtain ctx base where att: "?att ctx s = (Inr (o1, s1), base)" and ok: "constraints_ok s1"
      by (blast dest: contended_session_Inr)
    from att show ?thesis
    proof (cases rule: progress_attempt_cases)
      case stale
      with c Inr Suc.prems show ?thesis by auto
    next
      case (recorded run s2)
      obtain es where es: "run_events (w_env w (2 * k) s) = run_events s @ es" using env0(3) by blast
      from progress_recorded [OF Suc.prems(2) log(1) env0(2) log(2) es recorded(1,3,7)] recorded(5,6)
      have "progress_ok s1" by simp
      moreover have "progress_events org run_id s1 \<noteq> []
         \<and> progress_position (e_payload (last (progress_events org run_id s1))) = Inr (n, rp_sequence p)"
        using recorded(5,6) by (simp add: progress_events_def)
      moreover have "s' = s1" "r = Inr True" using c Inr recorded(5) Suc.prems(3) by auto
      ultimately show ?thesis by simp
    next
      case lost
      with c Inr Suc.prems(3) have "s1 = w_env w (2 * k) s"
        "progress_attempts k rt w org run_id sha n p (w_env w (2 * k + 1) s1) = (r, s')" by auto
      with Suc.IH env env0 show ?thesis by metis
    qed simp
  qed
qed auto

section \<open>What the activities can rely on\<close>

text \<open>A world in which nobody else commits.\<close>

definition quiet :: "world \<Rightarrow> bool" where
  "quiet w \<longleftrightarrow> (\<forall>i t. w_env w i t = t)"

lemma quiet_simps:
  assumes "quiet w"
  shows "w_env w i t = t" and "quiet (later k w)" and "world_ok rt w"
  using assms by (simp_all add: quiet_def later_def world_ok_def)

lemma verified_run_unique:
  assumes "distinct (map r_id (runs s))" and "verified_run rt org i sha s = Inr run"
    and "r \<in> set (runs s)" and "r_id r = i"
  shows "r = run"
  using distinct_map_inj [OF assms(1) assms(3)] verified_run_Inr [OF assms(2)] assms(4) by metis

lemma quiet_transition:
  assumes "transition rt w ref req s = (Inr st, s')" and "quiet w"
  shows "\<exists>org i run. store_ids ref = Inr (org, i) \<and> verified_run rt org i (wr_spec_sha256 ref) s = Inr run
    \<and> (st = tr_target req \<or> st = r_state run)"
proof -
  have "\<exists>run. verified_run rt org i sha s = Inr run \<and> (st = tr_target req \<or> st = r_state run)"
    if t: "transition_attempts (Suc n) rt w org i sha req s = (Inr st, s')" for n org i sha
  proof -
    let ?att = "transition_attempt rt (w_clock w (2 * n)) (w_env w (2 * n)) org i sha req"
    obtain r s1 where c: "contended_session rt (service_context WORKER (Some org)) ?att s = (r, s1)" by fastforce
    from c t obtain o1 where r: "r = Inr o1" by (cases r) auto
    with c obtain ctx base where att: "?att ctx s = (Inr (o1, s1), base)" by (blast dest: contended_session_Inr)
    from att show ?thesis
    proof (cases rule: transition_attempt_cases)
      case (failed e)
      then show ?thesis by simp
    next
      case (seen x)
      with c r t show ?thesis by auto
    next
      case (moved x s2)
      with c r t show ?thesis by auto
    next
      case lost
      from lost(1) att have none: "?att ctx s = (Inr (None, s1), base)" by simp
      then obtain run where run: "verified_run rt org i sha s = Inr run"
        by (cases "verified_run rt org i sha s") (auto simp: transition_attempt_def)
      then have "list_ex (store_matches org sha run) (runs s)"
        by (auto simp: list_ex_iff store_matches_def dest: verified_run_Inr)
      with none run quiet_simps(1) [OF assms(2)] have False
        by (auto simp: transition_attempt_def Let_def split: if_splits sum.splits)
      then show ?thesis ..
    qed
  qed
  with assms(1) show ?thesis
    by (auto simp: transition_def max_cas_attempts_def numeral_eq_Suc simp del: transition_attempts.simps split: sum.splits)
qed

lemma run_state_of_now:
  assumes "run_in_state ref st s" and "run_state_of rt ref s = (Inr cur, s)" and "constraints_ok s"
  shows "cur = st"
proof -
  obtain org i run where ids: "store_ids ref = Inr (org, i)" and run: "verified_run rt org i (wr_spec_sha256 ref) s = Inr run"
    and cur: "r_state run = cur" using run_state_of_Inr [OF assms(2)] by blast
  from assms(1) ids obtain r where "r \<in> set (runs s)" "r_id r = i" "r_state r = st" by (auto simp: run_in_state_def)
  with verified_run_unique [OF constraints_runs(1) [OF assms(3)] run] cur show ?thesis by blast
qed

text \<open>
  Acknowledging a cancellation with nobody interfering ends the run: it is cancelled, or it was
  final already.
\<close>

lemma acknowledge_cancellation_result:
  assumes "acknowledge_cancellation rt w ref s = (Inr st, s')" and "digest_ok rt" and "quiet w" and "jobs_inv rt s"
    and drafts: "run_state_of rt ref s = (Inr cur, s)"
  shows "run_in_state ref st s'" and "if is_terminal cur then st = cur else st = CANCELLED"
proof -
  note q = quiet_simps [OF assms(3)]
  have w: "quiet (later k w)" "w_env (later k w) i t = t" "quiet (later j (later k w))" for k i j t
    using q(2) [of k] by (auto simp: quiet_def later_def)
  obtain org i run where ids: "store_ids ref = Inr (org, i)" and run: "verified_run rt org i (wr_spec_sha256 ref) s = Inr run"
    and cur: "r_state run = cur" using run_state_of_Inr [OF drafts] by blast
  have mem: "run \<in> set (runs s)" "r_id run = i" "r_organization run = org" using verified_run_Inr [OF run] by auto
  then have here: "run_in_state ref cur s" using ids cur by (auto simp: run_in_state_def)
  have nodraft: "cur \<noteq> DRAFT" using jobs_invD(4) [OF assms(4)] mem(1) cur by (auto simp: log_ok_def)
  obtain r1 s1 where r1: "store_request_cancellation rt (later 1 w) ref s = (r1, s1)" by fastforce
  then obtain st1 where st1: "r1 = Inr st1" using assms(1) by (cases r1) (auto simp: acknowledge_cancellation_def and_then_def)
  have ack: "(if st1 = CANCELLING then transition rt (later 20 w) ref (plain_request [CANCELLING] CANCELLED ''run.cancelled'')
       else return_state st1) s1 = (Inr st, s')"
    using assms(1) r1 st1 by (simp add: acknowledge_cancellation_def and_then_def q(1))
  have req: "(if cur \<in> {QUEUED, PROVISIONING, RUNNING}
       then transition rt (later 1 (later 1 w)) ref (plain_request [cur] CANCELLING ''run.cancellation_observed'')
       else return_state cur) s = (Inr st1, s1)"
    using r1 st1 drafts by (simp add: store_request_cancellation_def and_then_def w(2) del: One_nat_def)
  have s1: "jobs_inv rt s1"
    using store_request_cancellation_inv [OF assms(2) world_ok_later [OF q(3)] assms(4), of 1 ref] r1 by simp
  have step1: "run_in_state ref st1 s1 \<and> (if is_terminal cur then st1 = cur else st1 = CANCELLING)"
  proof (cases "cur \<in> {QUEUED, PROVISIONING, RUNNING}")
    case True
    with req have t: "transition rt (later 1 (later 1 w)) ref (plain_request [cur] CANCELLING ''run.cancellation_observed'') s = (Inr st1, s1)" by simp
    note res = transition_result [OF t _ assms(2) quiet_simps(3) [OF w(3)] assms(4)]
    have "st1 = CANCELLING \<or> st1 = cur"
      using quiet_transition [OF t w(3)] ids run cur by (auto simp: plain_request_def)
    with res True show ?thesis by (auto simp: plain_request_def request_ok_def)
  next
    case False
    with req here nodraft show ?thesis by (cases cur) (auto simp: return_state_def)
  qed
  show "run_in_state ref st s'" "if is_terminal cur then st = cur else st = CANCELLED"
  proof (atomize (full), cases "st1 = CANCELLING")
    case True
    with ack have t: "transition rt (later 20 w) ref (plain_request [CANCELLING] CANCELLED ''run.cancelled'') s1 = (Inr st, s')" by simp
    note res = transition_result [OF t _ assms(2) world_ok_later [OF q(3)] s1]
    have "st = CANCELLED \<or> st = CANCELLING"
    proof -
      obtain org' j r where r: "store_ids ref = Inr (org', j)" "verified_run rt org' j (wr_spec_sha256 ref) s1 = Inr r"
        "st = CANCELLED \<or> st = r_state r"
        using quiet_transition [OF t w(1)] by (auto simp: plain_request_def)
      moreover have "r_state r = CANCELLING"
        using step1 True r(1) verified_run_unique [OF constraints_runs(1) [OF jobs_invD(1) [OF s1]] r(2)]
        by (auto simp: run_in_state_def)
      ultimately show ?thesis by auto
    qed
    moreover have "st \<noteq> CANCELLING" using res(2) by (auto simp: plain_request_def request_ok_def)
    ultimately have "st = CANCELLED" by blast
    with res(1) step1 True show "run_in_state ref st s' \<and> (if is_terminal cur then st = cur else st = CANCELLED)"
      by (auto simp: plain_request_def request_ok_def split: if_splits)
  next
    case False
    with ack step1 show "run_in_state ref st s' \<and> (if is_terminal cur then st = cur else st = CANCELLED)"
      by (auto simp: return_state_def split: if_splits)
  qed
qed

end
