(* ===== verification/Usage.thy ===== *)
theory Usage imports Quota begin

text \<open>
  The metered resources of an organization: artifact bytes and corpus sentences
  (src/corpuskit/services/platform.py, \<open>QuotaManager.consume_*\<close> and \<open>release_*\<close>). What the two
  pairs of operations promise is the locale \<open>metered\<close>; a client may charge and refund in any order
  and stays within the limit of the policy.
\<close>

section \<open>Changing one usage row\<close>

lemma locked_update:
  assumes l: "locked rt c now org s = Inr ((policy, usage), s1)"
    and f: "\<And>u. qu_organization (f u) = qu_organization u"
    and jobs: "\<And>u k. used_jobs k (counters_of (f u)) = used_jobs k (counters_of u)"
  shows "platform_frame s (update_usage org f s1)"
    and "quota_reservations (update_usage org f s1) = quota_reservations s"
    and "policy_of o' (update_usage org f s1) = policy_of o' s"
    and "usage_of o' (update_usage org f s1) = (if o' = org then counters_of (f usage) else usage_of o' s)"
    and "audit_ok rt s \<Longrightarrow> audit_ok rt (update_usage org f s1)"
    and "jobs_ok s \<Longrightarrow> jobs_ok (update_usage org f s1)"
proof -
  note lc = locked_cases [OF l]
  show "platform_frame s (update_usage org f s1)" using locked_frame [OF l] by simp
  show r: "quota_reservations (update_usage org f s1) = quota_reservations s"
    using locked_reservations [OF l] by (simp add: update_usage_def)
  show p: "policy_of o' (update_usage org f s1) = policy_of o' s" for o'
    using locked_views [OF l] by simp
  show u: "usage_of o' (update_usage org f s1) = (if o' = org then counters_of (f usage) else usage_of o' s)" for o'
    using lc locked_views [OF l] by (simp add: usage_of_update [OF f])
  show "audit_ok rt s \<Longrightarrow> audit_ok rt (update_usage org f s1)" using locked_audit_ok [OF l] by simp
  have "used_jobs k (usage_of o' (update_usage org f s1)) = used_jobs k (usage_of o' s)" for k o'
    using lc by (simp add: u jobs)
  then show "jobs_ok s \<Longrightarrow> jobs_ok (update_usage org f s1)"
    unfolding jobs_ok_def held_jobs_def r p by metis
qed

text \<open>What the charge of an artifact or of corpus sentences leaves as it was.\<close>

definition charge_frame :: "runtime \<Rightarrow> db \<Rightarrow> db \<Rightarrow> bool" where
  "charge_frame rt s s' \<longleftrightarrow> platform_frame s s' \<and> quota_reservations s' = quota_reservations s
     \<and> (\<forall>o'. policy_of o' s' = policy_of o' s) \<and> (audit_ok rt s \<longrightarrow> audit_ok rt s') \<and> (jobs_ok s \<longrightarrow> jobs_ok s')"

lemma charge_frameD:
  assumes "charge_frame rt s s'"
  shows "platform_frame s s'" and "quota_reservations s' = quota_reservations s" and "policy_of o' s' = policy_of o' s"
    and "audit_ok rt s \<Longrightarrow> audit_ok rt s'" and "jobs_ok s \<Longrightarrow> jobs_ok s'"
  using assms by (simp_all add: charge_frame_def)

lemma charge_frame_intro:
  assumes "locked rt c now org s = Inr ((policy, usage), s1)" and "\<And>u. qu_organization (f u) = qu_organization u"
    and "\<And>u k. used_jobs k (counters_of (f u)) = used_jobs k (counters_of u)"
  shows "charge_frame rt s (update_usage org f s1)"
  unfolding charge_frame_def using locked_update [OF assms] by simp

lemma used_jobs_counters: 
  "used_jobs k (counters_of u) = (case k of CPU \<Rightarrow> qu_active_cpu_jobs u | EXPENSIVE \<Rightarrow> qu_active_expensive_jobs u)"
  by (simp add: used_jobs_def counters_of_def split: quota_class.splits)

lemma consume_artifact_Inr:
  assumes "consume_artifact rt c now org kind n s = Inr s'"
  shows "charge_frame rt s s'" and "0 < n"
    and "usage_of o' s' = (if o' = org then (usage_of org s)\<lparr>used_artifact_count := used_artifact_count (usage_of org s) + 1,
      used_artifact_bytes := used_artifact_bytes (usage_of org s) + n\<rparr> else usage_of o' s)"
    and "used_artifact_bytes (usage_of org s') \<le> max_artifact_bytes (policy_of org s')"
    and "used_artifact_count (usage_of org s') \<le> max_artifact_count (policy_of org s')"
    and "kind \<in> {CHECKPOINT, MODEL_ADAPTER} \<Longrightarrow> n \<le> max_checkpoint_bytes (policy_of org s')"
proof -
  from assms obtain policy usage s1 where l: "locked rt c now org s = Inr ((policy, usage), s1)" and n: "0 < n"
    and k: "\<not> (kind \<in> {CHECKPOINT, MODEL_ADAPTER} \<and> max_checkpoint_bytes (qp_values policy) < n)"
    and b: "qu_artifact_count usage + 1 \<le> max_artifact_count (qp_values policy)"
      "qu_artifact_bytes usage + n \<le> max_artifact_bytes (qp_values policy)"
    and s': "s' = update_usage org (\<lambda>u. u\<lparr>qu_artifact_count := qu_artifact_count u + 1,
       qu_artifact_bytes := qu_artifact_bytes u + n, qu_updated_at := now\<rparr>) s1"
    unfolding consume_artifact_def bindr_eq_Inr split_paired_Ex prod.case sum.inject ensure_eq_Inr by blast
  let ?f = "\<lambda>u. u\<lparr>qu_artifact_count := qu_artifact_count u + 1, qu_artifact_bytes := qu_artifact_bytes u + n, qu_updated_at := now\<rparr>"
  have u: "\<And>u. qu_organization (?f u) = qu_organization u" "\<And>u k. used_jobs k (counters_of (?f u)) = used_jobs k (counters_of u)"
    by (simp_all add: used_jobs_counters split: quota_class.splits)
  note lu = locked_update [OF l u]
  note lc = locked_cases [OF l]
  show "charge_frame rt s s'" unfolding s' by (rule charge_frame_intro [OF l u])
  show "0 < n" by (rule n)
  show "usage_of o' s' = (if o' = org then (usage_of org s)\<lparr>used_artifact_count := used_artifact_count (usage_of org s) + 1,
      used_artifact_bytes := used_artifact_bytes (usage_of org s) + n\<rparr> else usage_of o' s)" for o'
    using lc by (simp add: s' lu(4) counters_of_def)
  show "used_artifact_bytes (usage_of org s') \<le> max_artifact_bytes (policy_of org s')"
    "used_artifact_count (usage_of org s') \<le> max_artifact_count (policy_of org s')"
    using lc b by (simp_all add: s' lu(4) locked_views [OF l] counters_of_def)
  show "kind \<in> {CHECKPOINT, MODEL_ADAPTER} \<Longrightarrow> n \<le> max_checkpoint_bytes (policy_of org s')"
    using lc k by (simp add: s' locked_views [OF l])
qed

lemma release_artifact_Inr:
  assumes "release_artifact rt c now org n s = Inr s'"
  shows "charge_frame rt s s'"
    and "usage_of o' s' = (if o' = org then (usage_of org s)\<lparr>used_artifact_count := used_artifact_count (usage_of org s) - 1,
      used_artifact_bytes := used_artifact_bytes (usage_of org s) - n\<rparr> else usage_of o' s)"
    and "n \<le> used_artifact_bytes (usage_of org s)" and "0 < used_artifact_count (usage_of org s)"
proof -
  from assms obtain policy usage s1 where l: "locked rt c now org s = Inr ((policy, usage), s1)"
    and b: "0 < qu_artifact_count usage \<and> n \<le> qu_artifact_bytes usage"
    and s': "s' = update_usage org (\<lambda>u. u\<lparr>qu_artifact_count := qu_artifact_count u - 1,
       qu_artifact_bytes := qu_artifact_bytes u - n, qu_updated_at := now\<rparr>) s1"
    unfolding release_artifact_def bindr_eq_Inr split_paired_Ex prod.case sum.inject ensure_eq_Inr by blast
  let ?f = "\<lambda>u. u\<lparr>qu_artifact_count := qu_artifact_count u - 1, qu_artifact_bytes := qu_artifact_bytes u - n, qu_updated_at := now\<rparr>"
  have u: "\<And>u. qu_organization (?f u) = qu_organization u" "\<And>u k. used_jobs k (counters_of (?f u)) = used_jobs k (counters_of u)"
    by (simp_all add: used_jobs_counters split: quota_class.splits)
  note lu = locked_update [OF l u]
  note lc = locked_cases [OF l]
  show "charge_frame rt s s'" unfolding s' by (rule charge_frame_intro [OF l u])
  show "usage_of o' s' = (if o' = org then (usage_of org s)\<lparr>used_artifact_count := used_artifact_count (usage_of org s) - 1,
      used_artifact_bytes := used_artifact_bytes (usage_of org s) - n\<rparr> else usage_of o' s)" for o'
    using lc by (simp add: s' lu(4) counters_of_def)
  show "n \<le> used_artifact_bytes (usage_of org s)" "0 < used_artifact_count (usage_of org s)"
    using lc b by (simp_all add: counters_of_def)
qed

lemma consume_corpus_sentences_Inr:
  assumes "consume_corpus_sentences rt c now org n operation s = Inr s'"
  shows "charge_frame rt s s'" and "0 < n"
    and "usage_of o' s' = (if o' = org then (usage_of org s)\<lparr>used_corpus_sentences := used_corpus_sentences (usage_of org s) + n\<rparr>
      else usage_of o' s)"
    and "used_corpus_sentences (usage_of org s') \<le> max_corpus_sentences (policy_of org s')"
proof -
  from assms obtain policy usage s1 where l: "locked rt c now org s = Inr ((policy, usage), s1)" and n: "0 < n"
    and b: "qu_corpus_sentences usage + n \<le> max_corpus_sentences (qp_values policy)"
    and s': "s' = update_usage org (\<lambda>u. u\<lparr>qu_corpus_sentences := qu_corpus_sentences u + n, qu_updated_at := now\<rparr>) s1"
    unfolding consume_corpus_sentences_def bindr_eq_Inr split_paired_Ex prod.case sum.inject ensure_eq_Inr by blast
  let ?f = "\<lambda>u. u\<lparr>qu_corpus_sentences := qu_corpus_sentences u + n, qu_updated_at := now\<rparr>"
  have u: "\<And>u. qu_organization (?f u) = qu_organization u" "\<And>u k. used_jobs k (counters_of (?f u)) = used_jobs k (counters_of u)"
    by (simp_all add: used_jobs_counters split: quota_class.splits)
  note lu = locked_update [OF l u]
  note lc = locked_cases [OF l]
  show "charge_frame rt s s'" unfolding s' by (rule charge_frame_intro [OF l u])
  show "0 < n" by (rule n)
  show "usage_of o' s' = (if o' = org then (usage_of org s)\<lparr>used_corpus_sentences := used_corpus_sentences (usage_of org s) + n\<rparr>
      else usage_of o' s)" for o'
    using lc by (simp add: s' lu(4) counters_of_def)
  show "used_corpus_sentences (usage_of org s') \<le> max_corpus_sentences (policy_of org s')"
    using lc b by (simp add: s' lu(4) locked_views [OF l] counters_of_def)
qed

lemma release_corpus_sentences_Inr:
  assumes "release_corpus_sentences rt c now org n s = Inr s'"
  shows "charge_frame rt s s'" and "0 < n"
    and "usage_of o' s' = (if o' = org then (usage_of org s)\<lparr>used_corpus_sentences := used_corpus_sentences (usage_of org s) - n\<rparr>
      else usage_of o' s)"
    and "n \<le> used_corpus_sentences (usage_of org s)"
proof -
  from assms obtain policy usage s1 where l: "locked rt c now org s = Inr ((policy, usage), s1)" and n: "0 < n"
    and b: "n \<le> qu_corpus_sentences usage"
    and s': "s' = update_usage org (\<lambda>u. u\<lparr>qu_corpus_sentences := qu_corpus_sentences u - n, qu_updated_at := now\<rparr>) s1"
    unfolding release_corpus_sentences_def bindr_eq_Inr split_paired_Ex prod.case sum.inject ensure_eq_Inr by blast
  let ?f = "\<lambda>u. u\<lparr>qu_corpus_sentences := qu_corpus_sentences u - n, qu_updated_at := now\<rparr>"
  have u: "\<And>u. qu_organization (?f u) = qu_organization u" "\<And>u k. used_jobs k (counters_of (?f u)) = used_jobs k (counters_of u)"
    by (simp_all add: used_jobs_counters split: quota_class.splits)
  note lu = locked_update [OF l u]
  note lc = locked_cases [OF l]
  show "charge_frame rt s s'" unfolding s' by (rule charge_frame_intro [OF l u])
  show "0 < n" by (rule n)
  show "usage_of o' s' = (if o' = org then (usage_of org s)\<lparr>used_corpus_sentences := used_corpus_sentences (usage_of org s) - n\<rparr>
      else usage_of o' s)" for o'
    using lc by (simp add: s' lu(4) counters_of_def)
  show "n \<le> used_corpus_sentences (usage_of org s)" using lc b by (simp add: counters_of_def)
qed

section \<open>The contract of a metered resource\<close>

datatype charge = Consume uuid int | Release uuid int

text \<open>A refused charge changes nothing; the accepted ones are what the usage adds up to.\<close>

fun settle :: "(uuid \<Rightarrow> int \<Rightarrow> db \<Rightarrow> exn + db) \<Rightarrow> (uuid \<Rightarrow> int \<Rightarrow> db \<Rightarrow> exn + db) \<Rightarrow> charge list \<Rightarrow> db \<Rightarrow> charge list \<times> db" where
  "settle consume release [] s = ([], s)"
| "settle consume release (ch # chs) s =
     (case (case ch of Consume org n \<Rightarrow> consume org n s | Release org n \<Rightarrow> release org n s) of
        Inl e \<Rightarrow> settle consume release chs s
      | Inr s' \<Rightarrow> (case settle consume release chs s' of (accepted, s'') \<Rightarrow> (ch # accepted, s'')))"

definition net :: "uuid \<Rightarrow> charge list \<Rightarrow> int" where
  "net org chs = sum_list (map (\<lambda>ch. case ch of Consume o' n \<Rightarrow> if o' = org then n else 0
     | Release o' n \<Rightarrow> if o' = org then - n else 0) chs)"

locale metered =
  fixes used :: "usage_counters \<Rightarrow> int" and cap :: "quota_policy_values \<Rightarrow> int"
    and consume :: "uuid \<Rightarrow> int \<Rightarrow> db \<Rightarrow> exn + db" and release :: "uuid \<Rightarrow> int \<Rightarrow> db \<Rightarrow> exn + db"
  assumes consume_law: "consume org n s = Inr s' \<Longrightarrow> 0 < n \<and> used (usage_of org s') = used (usage_of org s) + n
        \<and> used (usage_of org s') \<le> cap (policy_of org s')"
    and release_law: "release org n s = Inr s' \<Longrightarrow> n \<le> used (usage_of org s) \<and> used (usage_of org s') = used (usage_of org s) - n"
    and consume_other: "consume org n s = Inr s' \<Longrightarrow> o' \<noteq> org \<Longrightarrow> used (usage_of o' s') = used (usage_of o' s)"
    and release_other: "release org n s = Inr s' \<Longrightarrow> o' \<noteq> org \<Longrightarrow> used (usage_of o' s') = used (usage_of o' s)"
    and consume_policy: "consume org n s = Inr s' \<Longrightarrow> policy_of o' s' = policy_of o' s"
    and release_policy: "release org n s = Inr s' \<Longrightarrow> policy_of o' s' = policy_of o' s"
begin

lemma settle_balance:
  "settle consume release chs s = (accepted, s') \<Longrightarrow> used (usage_of org s') = used (usage_of org s) + net org accepted"
proof (induction chs arbitrary: s accepted s')
  case (Cons ch chs)
  show ?case
  proof (cases "case ch of Consume org n \<Rightarrow> consume org n s | Release org n \<Rightarrow> release org n s")
    case (Inl e)
    with Cons show ?thesis by simp
  next
    case (Inr t)
    obtain acc u where st: "settle consume release chs t = (acc, u)" by fastforce
    with Inr Cons.prems have eq: "accepted = ch # acc" "s' = u" by auto
    have "used (usage_of org u) = used (usage_of org t) + net org acc" using Cons.IH [OF st] .
    moreover have "used (usage_of org t) = used (usage_of org s) + net org [ch]"
    proof (cases ch)
      case (Consume o' n)
      with Inr consume_law [of o' n s t] consume_other [of o' n s t org] show ?thesis by (auto simp: net_def)
    next
      case (Release o' n)
      with Inr release_law [of o' n s t] release_other [of o' n s t org] show ?thesis by (auto simp: net_def)
    qed
    ultimately show ?thesis by (simp add: eq net_def)
  qed
qed (simp add: net_def)

lemma settle_bounded:
  "settle consume release chs s = (accepted, s') \<Longrightarrow> 0 \<le> used (usage_of org s) \<Longrightarrow> used (usage_of org s) \<le> cap (policy_of org s) \<Longrightarrow>
     (\<forall>o' n. Release o' n \<in> set chs \<longrightarrow> 0 \<le> n) \<Longrightarrow>
   0 \<le> used (usage_of org s') \<and> used (usage_of org s') \<le> cap (policy_of org s') \<and> policy_of org s' = policy_of org s"
proof (induction chs arbitrary: s accepted s')
  case (Cons ch chs)
  show ?case
  proof (cases "case ch of Consume org n \<Rightarrow> consume org n s | Release org n \<Rightarrow> release org n s")
    case (Inl e)
    with Cons.prems(1) have st: "settle consume release chs s = (accepted, s')" by simp
    show ?thesis by (rule Cons.IH [OF st Cons.prems(2,3)]) (use Cons.prems(4) in auto)
  next
    case (Inr t)
    obtain acc u where st: "settle consume release chs t = (acc, u)" by fastforce
    with Inr Cons.prems have eq: "s' = u" by auto
    have "0 \<le> used (usage_of org t) \<and> used (usage_of org t) \<le> cap (policy_of org t) \<and> policy_of org t = policy_of org s"
    proof (cases ch)
      case (Consume o' n)
      with Inr Cons.prems consume_law [of o' n s t] consume_other [of o' n s t org] consume_policy [of o' n s t org]
      show ?thesis by (cases "o' = org") auto
    next
      case (Release o' n)
      then have "0 \<le> n" using Cons.prems(4) by auto
      with Release Inr Cons.prems(2,3) release_law [of o' n s t] release_other [of o' n s t org] release_policy [of o' n s t org]
      show ?thesis by (cases "o' = org") auto
    qed
    moreover from this have "0 \<le> used (usage_of org u) \<and> used (usage_of org u) \<le> cap (policy_of org u) \<and> policy_of org u = policy_of org t"
      by (intro Cons.IH [OF st]) (use Cons.prems(4) in auto)
    ultimately show ?thesis unfolding eq by metis
  qed
qed simp

end

lemma consume_fits:
  "consume_artifact rt c now org kind n s = Inr s' \<Longrightarrow> used_artifact_bytes (usage_of org s) + n \<le> max_artifact_bytes (policy_of org s)"
  "consume_corpus_sentences rt c now org n operation s = Inr s' \<Longrightarrow>
     used_corpus_sentences (usage_of org s) + n \<le> max_corpus_sentences (policy_of org s)"
  using consume_artifact_Inr(3,4) [of rt c now org kind n s s'] charge_frameD(3) [OF consume_artifact_Inr(1)]
    consume_corpus_sentences_Inr(3,4) [of rt c now org n operation s s'] charge_frameD(3) [OF consume_corpus_sentences_Inr(1)]
  by auto

interpretation artifact_bytes: metered used_artifact_bytes max_artifact_bytes
    "\<lambda>org n s. consume_artifact rt c now org kind n s" "\<lambda>org n s. release_artifact rt c now org n s"
  for rt c now kind
  by unfold_locales (simp_all add: consume_artifact_Inr(2) consume_fits release_artifact_Inr(3) consume_artifact_Inr(3) release_artifact_Inr(2)
    charge_frameD(3) [OF consume_artifact_Inr(1)] charge_frameD(3) [OF release_artifact_Inr(1)])

interpretation corpus_sentences: metered used_corpus_sentences max_corpus_sentences
    "\<lambda>org n s. consume_corpus_sentences rt c now org n operation s" "\<lambda>org n s. release_corpus_sentences rt c now org n s"
  for rt c now operation
  by unfold_locales (simp_all add: consume_corpus_sentences_Inr(2) consume_fits release_corpus_sentences_Inr(4)
    consume_corpus_sentences_Inr(3) release_corpus_sentences_Inr(3)
    charge_frameD(3) [OF consume_corpus_sentences_Inr(1)] charge_frameD(3) [OF release_corpus_sentences_Inr(1)])

end
