(* ===== verification/Publication.thy ===== *)
theory Publication imports RunStore Usage begin

text \<open>
  src/corpuskit/workflows/store.py, \<open>commit_adopted_result\<close>: the one transaction that publishes an
  adopted artifact, charges its bytes, records the DATG index it may carry and ends the run with
  success, or honours a cancellation that came first.
\<close>

section \<open>Publishing an adopted result\<close>

definition artifact_result_summary :: "uuid \<Rightarrow> adopted_artifact \<Rightarrow> json" where
  "artifact_result_summary artifact_id adopted = JObj
     [(''artifact_id'', JStr (uuid_str artifact_id)), (''artifact_type'', JStr (artifact_kind_value RUN_RESULT)),
      (''media_type'', JStr (aa_media_type adopted)), (''schema_id'', JStr (aa_schema_id adopted)),
      (''sha256'', JStr (aa_sha256 adopted)), (''size_bytes'', JInt (aa_size_bytes adopted))]"

definition same_datg_publication :: "datg_publication \<Rightarrow> adopted_datg_index \<Rightarrow> bool" where
  "same_datg_publication existing expected \<longleftrightarrow>
     d_cache_key_sha256 existing = ad_cache_key_sha256 expected
     \<and> d_content_sha256 existing = ad_content_sha256 expected
     \<and> d_runtime_id existing = ad_runtime_id expected \<and> d_language existing = ad_language expected
     \<and> d_unit existing = ad_unit expected \<and> d_vocabulary_size existing = ad_vocabulary_size expected
     \<and> d_indexed_token_count existing = ad_indexed_token_count expected
     \<and> d_size_bytes existing = ad_size_bytes expected"

definition find_publication :: "run \<Rightarrow> string \<Rightarrow> db \<Rightarrow> datg_publication option" where
  "find_publication run cache_key s =
     find (\<lambda>d. d_organization d = r_organization run \<and> d_project d = r_project run
        \<and> d_cache_key_sha256 d = cache_key) (datg_publications s)"

definition verify_existing_datg_publication :: "run \<Rightarrow> adopted_artifact \<Rightarrow> db \<Rightarrow> exn + unit" where
  "verify_existing_datg_publication run adopted s =
     (case aa_datg_index adopted of
        None \<Rightarrow> Inr ()
      | Some publication \<Rightarrow>
          (case find_publication run (ad_cache_key_sha256 publication) s of
             None \<Rightarrow> Inl (RunStoreError ''artifact_integrity_violation'')
           | Some existing \<Rightarrow> ensure (same_datg_publication existing publication)
               (RunStoreError ''artifact_integrity_violation'')))"

text \<open>INSERT ... ON CONFLICT DO NOTHING: a row that collides on a unique key is not inserted.\<close>

definition publication_conflicts :: "datg_publication \<Rightarrow> datg_publication list \<Rightarrow> bool" where
  "publication_conflicts new rows \<longleftrightarrow> list_ex (\<lambda>d. d_id d = d_id new \<or> d_build_run d = d_build_run new
     \<or> (d_organization d, d_project d, d_cache_key_sha256 d)
         = (d_organization new, d_project new, d_cache_key_sha256 new)) rows"

definition new_publication :: "uuid \<Rightarrow> time \<Rightarrow> run \<Rightarrow> adopted_datg_index \<Rightarrow> datg_publication" where
  "new_publication did now run p =
     \<lparr>d_id = did, d_organization = r_organization run, d_project = r_project run, d_build_run = r_id run,
      d_created_by = r_created_by run, d_cache_key_sha256 = ad_cache_key_sha256 p,
      d_content_sha256 = ad_content_sha256 p, d_runtime_id = ad_runtime_id p, d_language = ad_language p,
      d_unit = ad_unit p, d_vocabulary_size = ad_vocabulary_size p,
      d_indexed_token_count = ad_indexed_token_count p, d_size_bytes = ad_size_bytes p, d_created_at = now\<rparr>"

definition commit_datg_publication ::
    "runtime \<Rightarrow> time \<Rightarrow> uuid \<Rightarrow> run \<Rightarrow> adopted_artifact \<Rightarrow> db \<Rightarrow> exn + db" where
  "commit_datg_publication rt now did run adopted s =
     (case aa_datg_index adopted of
        None \<Rightarrow> Inr s
      | Some publication \<Rightarrow>
          bindr (ensure (r_kind run = BUILD_DATG_INDEX) (RunStoreError ''artifact_integrity_violation'')) (\<lambda>_.
          bindr (ensure (rt_dialect rt \<noteq> OtherDialect) (RunStoreError ''persistence_unavailable'')) (\<lambda>_.
          if publication_conflicts (new_publication did now run publication) (datg_publications s)
          then bindr (verify_existing_datg_publication run adopted s) (\<lambda>_. Inr s)
          else
            bindr (insert_row datg_publications_ok (new_publication did now run publication) (datg_publications s)) (\<lambda>rows.
            Inr (s\<lparr>datg_publications := rows\<rparr>)))))"

definition record_terminal_audit ::
    "runtime \<Rightarrow> tenant_context \<Rightarrow> time \<Rightarrow> run \<Rightarrow> audit_action \<Rightarrow> service_identity \<Rightarrow> db \<Rightarrow> exn + db" where
  "record_terminal_audit rt c now run action identity s =
     bindr (release_run rt c now (r_organization run) (r_id run) RES_RELEASED s) (\<lambda>(released, s).
     service_append rt c now (r_organization run) identity action RUN_RESOURCE (r_id run) None
       [(''kind'', JStr (run_kind_value (r_kind run)))] s)"

text \<open>\<open>_cancel_locked\<close>: the one or two transitions a locked run still has to make.\<close>

definition cancel_locked :: "time \<Rightarrow> run \<Rightarrow> db \<Rightarrow> exn + bool \<times> db" where
  "cancel_locked now run s =
     (let observe = r_state run \<notin> {CANCELLING, CANCELLED};
          n = r_event_sequence run in
      bindr (if observe then ensure_transition (r_state run) CANCELLING else Inr ()) (\<lambda>_.
      bindr (if observe
             then insert_row run_events_ok (new_event (r_organization run) (r_id run) (Suc n)
               ''run.cancellation_observed'' (state_payload CANCELLING) now) (run_events s)
             else Inr (run_events s)) (\<lambda>events.
      let n1 = (if observe then Suc n else n);
          cancelled = (r_state run \<noteq> CANCELLED) in
      bindr (if cancelled
             then insert_row run_events_ok (new_event (r_organization run) (r_id run) (Suc n1)
               ''run.cancelled'' (state_payload CANCELLED) now) events
             else Inr events) (\<lambda>events.
      Inr (cancelled, s\<lparr>run_events := events, runs := update_run (r_id run)
        (\<lambda>r. r\<lparr>r_state := CANCELLED, r_event_sequence := (if cancelled then Suc n1 else n1),
           r_cancellation_requested_at := (case r_cancellation_requested_at r of None \<Rightarrow> Some now | t \<Rightarrow> t),
           r_result_summary := None, r_failure_code := None\<rparr>) (runs s)\<rparr>)))))"

definition find_result :: "run \<Rightarrow> string \<Rightarrow> db \<Rightarrow> artifact option" where
  "find_result run sha256 s =
     find (\<lambda>a. a_organization a = r_organization run \<and> a_project a = r_project run \<and> a_run a = Some (r_id run)
        \<and> a_kind a = artifact_kind_value RUN_RESULT \<and> a_sha256 a = sha256) (artifacts s)"

definition result_matches :: "runtime \<Rightarrow> run \<Rightarrow> adopted_artifact \<Rightarrow> artifact \<Rightarrow> exn + bool" where
  "result_matches rt run adopted a =
     (if a_created_by a \<noteq> r_created_by run \<or> a_scope_key a \<noteq> uuid_str (r_id run)
         \<or> a_size_bytes a \<noteq> aa_size_bytes adopted \<or> a_storage_key a \<noteq> aa_storage_key adopted
         \<or> a_media_type a \<noteq> aa_media_type adopted \<or> a_filename a \<noteq> aa_filename adopted
         \<or> a_state a \<noteq> ARTIFACT_ACTIVE
      then Inr False
      else bindr (normalize_result_summary (artifact_result_summary (a_id a) adopted)) (\<lambda>expected.
        Inr (r_result_summary run = Some expected)))"

definition new_result_artifact :: "uuid \<Rightarrow> time \<Rightarrow> run \<Rightarrow> adopted_artifact \<Rightarrow> artifact" where
  "new_result_artifact aid now run adopted =
     \<lparr>a_id = aid, a_organization = r_organization run, a_project = r_project run, a_run = Some (r_id run),
      a_created_by = r_created_by run, a_scope_key = uuid_str (r_id run), a_kind = artifact_kind_value RUN_RESULT,
      a_sha256 = aa_sha256 adopted, a_size_bytes = aa_size_bytes adopted, a_storage_key = aa_storage_key adopted,
      a_media_type = aa_media_type adopted, a_filename = aa_filename adopted, a_state = ARTIFACT_ACTIVE,
      a_retention_until = aa_retention_until adopted, a_tombstoned_at = None, a_deleted_at = None,
      a_created_at = now\<rparr>"

definition succeed_run :: "run \<Rightarrow> json \<Rightarrow> run \<Rightarrow> run" where
  "succeed_run seen normalized r = r\<lparr>r_state := SUCCEEDED, r_event_sequence := Suc (r_event_sequence seen),
     r_result_summary := Some normalized, r_failure_code := None\<rparr>"

text \<open>The publication of a result of a running run.\<close>

definition publish_result ::
    "runtime \<Rightarrow> tenant_context \<Rightarrow> time \<Rightarrow> uuid \<Rightarrow> uuid \<Rightarrow> run \<Rightarrow> adopted_artifact \<Rightarrow> db \<Rightarrow> exn + artifact_commit \<times> db" where
  "publish_result rt c now aid did run adopted s =
     bindr (normalize_result_summary (artifact_result_summary aid adopted)) (\<lambda>normalized.
     bindr (insert_row artifacts_ok (new_result_artifact aid now run adopted) (artifacts s)) (\<lambda>rows.
     bindr (commit_datg_publication rt now did run adopted (s\<lparr>artifacts := rows\<rparr>)) (\<lambda>s.
     bindr (consume_artifact rt c now (r_organization run) RUN_RESULT (aa_size_bytes adopted) s) (\<lambda>s.
     bindr (ensure_transition (r_state run) SUCCEEDED) (\<lambda>_.
     bindr (insert_row run_events_ok (new_event (r_organization run) (r_id run) (Suc (r_event_sequence run)) ''run.succeeded''
       (JObj [(''result_summary'', normalized), (''state'', JStr (run_state_value SUCCEEDED))]) now) (run_events s)) (\<lambda>events.
     bindr (service_append rt c now (r_organization run) ADOPTION ARTIFACT_ADOPTED ARTIFACT_RESOURCE aid None
       [(''kind'', JStr (artifact_kind_value RUN_RESULT)), (''schema_id'', JStr (aa_schema_id adopted)),
        (''sha256'', JStr (aa_sha256 adopted)), (''size_bytes'', JInt (aa_size_bytes adopted))]
       (s\<lparr>runs := update_run (r_id run) (succeed_run run normalized) (runs s), run_events := events\<rparr>)) (\<lambda>s.
     bindr (record_terminal_audit rt c now run RUN_SUCCEEDED ADOPTION s) (\<lambda>s.
     Inr (\<lparr>cm_state = SUCCEEDED, cm_artifact = Some aid, cm_created = True\<rparr>, s)))))))))"

definition commit_adopted_body ::
    "runtime \<Rightarrow> time \<Rightarrow> uuid \<Rightarrow> uuid \<Rightarrow> uuid \<Rightarrow> uuid \<Rightarrow> string \<Rightarrow> adopted_artifact \<Rightarrow> tenant_context \<Rightarrow> db
     \<Rightarrow> exn + artifact_commit \<times> db" where
  "commit_adopted_body rt now aid did org run_id spec_sha256 adopted c s =
     bindr (verified_run rt org run_id spec_sha256 s) (\<lambda>run.
     bindr (artifact_storage_key (r_organization run) (r_project run) (Some (r_id run)) RUN_RESULT (aa_sha256 adopted)) (\<lambda>expected_key.
     bindr (ensure (aa_storage_key adopted = expected_key) (RunStoreError ''artifact_integrity_violation'')) (\<lambda>_.
     if r_state run \<in> {CANCELLING, CANCELLED} \<or> r_cancellation_requested_at run \<noteq> None
     then
       bindr (cancel_locked now run s) (\<lambda>(cancelled, s).
       bindr (if cancelled then record_terminal_audit rt c now run RUN_CANCELLED ADOPTION s else Inr s) (\<lambda>s.
       Inr (\<lparr>cm_state = CANCELLED, cm_artifact = None, cm_created = False\<rparr>, s)))
     else if r_state run = SUCCEEDED
     then
       bindr (require (RunStoreError ''artifact_integrity_violation'') (find_result run (aa_sha256 adopted) s)) (\<lambda>existing.
       bindr (result_matches rt run adopted existing) (\<lambda>matches.
       bindr (ensure matches (RunStoreError ''artifact_integrity_violation'')) (\<lambda>_.
       bindr (verify_existing_datg_publication run adopted s) (\<lambda>_.
       Inr (\<lparr>cm_state = SUCCEEDED, cm_artifact = Some (a_id existing), cm_created = False\<rparr>, s)))))
     else if r_state run \<noteq> RUNNING then Inl (RunStoreError ''invalid_run_state'')
     else publish_result rt c now aid did run adopted s)))"

definition commit_adopted_result ::
    "runtime \<Rightarrow> time \<Rightarrow> uuid \<Rightarrow> uuid \<Rightarrow> workflow_reference \<Rightarrow> adopted_artifact \<Rightarrow> db \<Rightarrow> (exn + artifact_commit) \<times> db" where
  "commit_adopted_result rt now aid did ref adopted s =
     (case store_ids ref of
        Inl e \<Rightarrow> (Inl e, s)
      | Inr (org, run_id) \<Rightarrow>
          in_session rt (service_context ADOPTION (Some org))
            (commit_adopted_body rt now aid did org run_id (wr_spec_sha256 ref) adopted) s)"

section \<open>Publishing a result keeps the invariants\<close>

lemma update_run_update_run:
  "(\<And>r. r_id (g r) = r_id r) \<Longrightarrow> update_run i h (update_run i g rows) = update_run i (\<lambda>r. h (g r)) rows"
  by (induction rows) (simp_all add: update_run_def)

lemma log_ok_silent:
  assumes "log_ok s" and "runs s' = update_run i f (runs s)" and "run_events s' = run_events s"
    and "\<And>r. r \<in> set (runs s) \<Longrightarrow> r_id r = i \<Longrightarrow> r_id (f r) = r_id r \<and> r_organization (f r) = r_organization r
      \<and> r_state (f r) = r_state r \<and> r_event_sequence (f r) = r_event_sequence r"
  shows "log_ok s'"
proof -
  have row: "\<exists>x \<in> set (runs s). r_id y = r_id x \<and> r_organization y = r_organization x \<and> r_state y = r_state x
      \<and> r_event_sequence y = r_event_sequence x" if "y \<in> set (runs s')" for y
    using that assms(4) unfolding assms(2) update_run_def set_update_where by (auto split: if_splits)
  have ev: "events_of j s' = events_of j s" for j by (simp add: events_of_def assms(3))
  have "run_log_ok s' y \<and> r_state y \<noteq> DRAFT \<and> 0 < r_event_sequence y" if "y \<in> set (runs s')" for y
  proof -
    from row [OF that] obtain x where "x \<in> set (runs s)" "r_id y = r_id x" "r_organization y = r_organization x"
      "r_state y = r_state x" "r_event_sequence y = r_event_sequence x" by blast
    with assms(1) show ?thesis by (simp add: log_ok_def run_log_ok_def ev)
  qed
  moreover have "\<exists>y \<in> set (runs s'). r_id y = r_id x" if "x \<in> set (runs s)" for x
    using that assms(4) unfolding assms(2) update_run_def set_update_where by (cases "r_id x = i") (fastforce, force)
  ultimately show ?thesis using assms(1) unfolding log_ok_def assms(3) by metis
qed

lemma cancel_locked_Inr:
  assumes "cancel_locked now run s = Inr (b, s')"
  obtains f evs where "b = (r_state run \<noteq> CANCELLED)"
    and "s' = s\<lparr>runs := update_run (r_id run) f (runs s), run_events := run_events s @ evs\<rparr>"
    and "\<And>r. r_id (f r) = r_id r \<and> r_organization (f r) = r_organization r \<and> r_kind (f r) = r_kind r \<and> r_state (f r) = CANCELLED
       \<and> r_result_summary (f r) = None"
    and "\<And>r. r_event_sequence (f r) = r_event_sequence run + length evs"
    and "r_state run \<notin> {CANCELLED, CANCELLING} \<Longrightarrow> CANCELLING \<in> set (transitions (r_state run))
       \<and> evs = [new_event (r_organization run) (r_id run) (Suc (r_event_sequence run)) ''run.cancellation_observed'' (state_payload CANCELLING) now,
                new_event (r_organization run) (r_id run) (Suc (Suc (r_event_sequence run))) ''run.cancelled'' (state_payload CANCELLED) now]
       \<and> (\<forall>r st n. f (r\<lparr>r_state := st, r_event_sequence := n\<rparr>) = f r)"
    and "r_state run = CANCELLING \<Longrightarrow>
       evs = [new_event (r_organization run) (r_id run) (Suc (r_event_sequence run)) ''run.cancelled'' (state_payload CANCELLED) now]"
    and "r_state run = CANCELLED \<Longrightarrow> evs = []"
proof -
  let ?f = "\<lambda>n r. r\<lparr>r_state := CANCELLED, r_event_sequence := n,
           r_cancellation_requested_at := (case r_cancellation_requested_at r of None \<Rightarrow> Some now | t \<Rightarrow> t),
           r_result_summary := None, r_failure_code := None\<rparr>"
  consider "r_state run \<notin> {CANCELLED, CANCELLING}" | "r_state run = CANCELLING" | "r_state run = CANCELLED" by blast
  then show thesis
  proof cases
    case 1
    with assms show thesis
      by (intro that [where f = "?f (r_event_sequence run + 2)"])
        (auto simp: cancel_locked_def Let_def lifecycle_step_iff)
  next
    case 2
    with assms show thesis
      by (intro that [where f = "?f (r_event_sequence run + 1)"]) (auto simp: cancel_locked_def Let_def)
  next
    case 3
    with assms show thesis
      by (intro that [where f = "?f (r_event_sequence run)"]) (auto simp: cancel_locked_def Let_def)
  qed
qed

lemma cancel_locked_log:
  assumes can: "cancel_locked now run s = Inr (b, s')" and "log_ok s" and "distinct (map r_id (runs s))" and "run \<in> set (runs s)"
  shows "log_ok s'"
  using can
proof (rule cancel_locked_Inr)
  fix f evs
  assume s': "s' = s\<lparr>runs := update_run (r_id run) f (runs s), run_events := run_events s @ evs\<rparr>"
    and f: "\<And>r. r_id (f r) = r_id r \<and> r_organization (f r) = r_organization r \<and> r_kind (f r) = r_kind r \<and> r_state (f r) = CANCELLED
       \<and> r_result_summary (f r) = None"
    and seq: "\<And>r. r_event_sequence (f r) = r_event_sequence run + length evs"
    and two: "r_state run \<notin> {CANCELLED, CANCELLING} \<Longrightarrow> CANCELLING \<in> set (transitions (r_state run))
       \<and> evs = [new_event (r_organization run) (r_id run) (Suc (r_event_sequence run)) ''run.cancellation_observed'' (state_payload CANCELLING) now,
                new_event (r_organization run) (r_id run) (Suc (Suc (r_event_sequence run))) ''run.cancelled'' (state_payload CANCELLED) now]
       \<and> (\<forall>r st n. f (r\<lparr>r_state := st, r_event_sequence := n\<rparr>) = f r)"
    and one: "r_state run = CANCELLING \<Longrightarrow>
       evs = [new_event (r_organization run) (r_id run) (Suc (r_event_sequence run)) ''run.cancelled'' (state_payload CANCELLED) now]"
    and none: "r_state run = CANCELLED \<Longrightarrow> evs = []"
  consider "r_state run \<notin> {CANCELLED, CANCELLING}" | "r_state run = CANCELLING" | "r_state run = CANCELLED" by blast
  then show "log_ok s'"
  proof cases
    case 1
    note t = two [OF 1]
    let ?g = "\<lambda>r. r\<lparr>r_state := CANCELLING, r_event_sequence := Suc (r_event_sequence run)\<rparr>"
    let ?e1 = "new_event (r_organization run) (r_id run) (Suc (r_event_sequence run)) ''run.cancellation_observed'' (state_payload CANCELLING) now"
    let ?e2 = "new_event (r_organization run) (r_id run) (Suc (Suc (r_event_sequence run))) ''run.cancelled'' (state_payload CANCELLED) now"
    define m where "m = s\<lparr>runs := update_run (r_id run) ?g (runs s), run_events := run_events s @ [?e1]\<rparr>"
    have "log_ok m"
      by (rule log_ok_event [OF assms(2-4), where f = ?g and e = ?e1]) (use t in \<open>simp_all add: m_def\<close>)
    moreover have "distinct (map r_id (runs m))" using assms(3) by (simp add: m_def ids_update_run)
    moreover have "?g run \<in> set (runs m)" using assms(4) by (auto simp: m_def update_run_def set_update_where)
    ultimately show ?thesis
    proof (rule log_ok_event [where f = f and e = ?e2])
      show "runs s' = update_run (r_id (?g run)) f (runs m)"
        using t by (simp add: s' m_def update_run_update_run)
    qed (use t f seq in \<open>simp_all add: s' m_def\<close>)
  next
    case 2
    let ?e = "new_event (r_organization run) (r_id run) (Suc (r_event_sequence run)) ''run.cancelled'' (state_payload CANCELLED) now"
    show ?thesis
      by (rule log_ok_event [OF assms(2-4), where f = f and e = ?e]) (use one [OF 2] 2 f seq in \<open>simp_all add: s'\<close>)
  next
    case 3
    have "r_state x = CANCELLED \<and> r_event_sequence x = r_event_sequence run" if "x \<in> set (runs s)" "r_id x = r_id run" for x
      using distinct_map_inj [OF assms(3) that(1) assms(4) that(2)] 3 by simp
    then show ?thesis
      by (intro log_ok_silent [OF assms(2), of s' "r_id run" f]) (use none [OF 3] f seq in \<open>simp_all add: s'\<close>)
  qed
qed

lemma succeed_run_simps [simp]:
  "r_id (succeed_run seen v r) = r_id r" "r_organization (succeed_run seen v r) = r_organization r"
  "r_kind (succeed_run seen v r) = r_kind r" "r_state (succeed_run seen v r) = SUCCEEDED"
  "r_event_sequence (succeed_run seen v r) = Suc (r_event_sequence seen)"
  "r_result_summary (succeed_run seen v r) = Some v" "r_project (succeed_run seen v r) = r_project r"
  "r_created_by (succeed_run seen v r) = r_created_by r" "r_spec (succeed_run seen v r) = r_spec r"
  "r_spec_sha256 (succeed_run seen v r) = r_spec_sha256 r"
  "r_cancellation_requested_at (succeed_run seen v r) = r_cancellation_requested_at r"
  by (simp_all add: succeed_run_def)

lemma record_terminal_audit_frame:
  assumes "record_terminal_audit rt c now run action identity s = Inr s'" and "digest_ok rt"
    and "audit_ok rt s" and "jobs_ok s" and "distinct (map qr_id (quota_reservations s))"
  obtains b t where "release_run rt c now (r_organization run) (r_id run) RES_RELEASED s = Inr (b, t)"
    and "quota_reservations s' = quota_reservations t" and "platform_frame s s'" and "audit_ok rt s'" and "jobs_ok s'"
proof -
  from assms(1) obtain b t md where rel: "release_run rt c now (r_organization run) (r_id run) RES_RELEASED s = Inr (b, t)"
    and app: "service_append rt c now (r_organization run) identity action RUN_RESOURCE (r_id run) None md t = Inr s'"
    by (auto simp: record_terminal_audit_def)
  note f = service_append_frame [OF app]
  have "platform_frame s s'" using release_run_frame [OF rel] f(1) by (rule platform_frame_trans)
  moreover have "audit_ok rt s'" using f(5) [OF assms(2) release_run_audit_ok [OF rel assms(3)]] .
  moreover have "jobs_ok s'" using release_run_jobs_ok [OF rel assms(4) _ assms(5)] f(6) by simp
  ultimately show thesis using rel f(2) that by blast
qed

lemma commit_datg_publication_Inr:
  assumes "commit_datg_publication rt now did run adopted s = Inr s'"
  obtains rows where "s' = s\<lparr>datg_publications := rows\<rparr>"
    and "verify_existing_datg_publication run adopted s' = Inr ()"
proof (cases "aa_datg_index adopted")
  case None
  with assms show ?thesis
    by (intro that [of "datg_publications s"]) (auto simp: commit_datg_publication_def verify_existing_datg_publication_def)
next
  case (Some p)
  let ?new = "new_publication did now run p"
  show thesis
  proof (cases "publication_conflicts ?new (datg_publications s)")
    case True
    with assms Some show thesis
      by (intro that [of "datg_publications s"]) (auto simp: commit_datg_publication_def)
  next
    case False
    with assms Some have s': "s' = s\<lparr>datg_publications := datg_publications s @ [?new]\<rparr>"
      by (auto simp: commit_datg_publication_def)
    have none: "find_publication run (ad_cache_key_sha256 p) s = None"
      using False by (auto simp: find_publication_def find_None_iff publication_conflicts_def list_ex_iff new_publication_def)
    have "find_publication run (ad_cache_key_sha256 p) s' = Some ?new"
      using none unfolding find_publication_def
      by (simp add: s' find_append find_publication_def) (simp add: new_publication_def)
    then have "verify_existing_datg_publication run adopted s' = Inr ()"
      by (simp add: verify_existing_datg_publication_def Some same_datg_publication_def new_publication_def)
    with s' show thesis by (rule that)
  qed
qed

lemma verify_existing_cong:
  "datg_publications t = datg_publications s \<Longrightarrow>
     verify_existing_datg_publication run adopted t = verify_existing_datg_publication run adopted s"
  by (cases "aa_datg_index adopted") (simp_all add: verify_existing_datg_publication_def find_publication_def)

lemma publish_result_steps:
  assumes "publish_result rt c now aid did run adopted s = Inr (res, s')"
  obtains normalized s2 s3 s5 where
    "normalize_result_summary (artifact_result_summary aid adopted) = Inr normalized"
    and "artifacts_ok (artifacts s @ [new_result_artifact aid now run adopted])"
    and "commit_datg_publication rt now did run adopted (s\<lparr>artifacts := artifacts s @ [new_result_artifact aid now run adopted]\<rparr>) = Inr s2"
    and "consume_artifact rt c now (r_organization run) RUN_RESULT (aa_size_bytes adopted) s2 = Inr s3"
    and "SUCCEEDED \<in> set (transitions (r_state run))"
    and "service_append rt c now (r_organization run) ADOPTION ARTIFACT_ADOPTED ARTIFACT_RESOURCE aid None
       [(''kind'', JStr (artifact_kind_value RUN_RESULT)), (''schema_id'', JStr (aa_schema_id adopted)),
        (''sha256'', JStr (aa_sha256 adopted)), (''size_bytes'', JInt (aa_size_bytes adopted))]
       (s3\<lparr>runs := update_run (r_id run) (succeed_run run normalized) (runs s3),
          run_events := run_events s3 @ [new_event (r_organization run) (r_id run) (Suc (r_event_sequence run)) ''run.succeeded''
            (JObj [(''result_summary'', normalized), (''state'', JStr (run_state_value SUCCEEDED))]) now]\<rparr>) = Inr s5"
    and "record_terminal_audit rt c now run RUN_SUCCEEDED ADOPTION s5 = Inr s'"
    and "res = \<lparr>cm_state = SUCCEEDED, cm_artifact = Some aid, cm_created = True\<rparr>"
  using assms unfolding publish_result_def bindr_eq_Inr split_paired_Ex insert_row_eq_Inr ensure_transition_eq_Inr lifecycle_step_iff
    sum.inject prod.inject
  by (elim exE conjE) (rule that; (assumption | simp only: | rule refl)?)

lemma views_of_artifacts [simp]:
  "usage_of o' (s\<lparr>artifacts := a\<rparr>) = usage_of o' s" "policy_of o' (s\<lparr>artifacts := a\<rparr>) = policy_of o' s"
  "usage_of o' (s\<lparr>datg_publications := d\<rparr>) = usage_of o' s" "policy_of o' (s\<lparr>datg_publications := d\<rparr>) = policy_of o' s"
  by (simp_all add: usage_of_def policy_of_def find_usage_def find_policy_def)

lemma inv_of_artifacts:
  "jobs_ok (s\<lparr>artifacts := a\<rparr>) = jobs_ok s" "audit_ok rt (s\<lparr>artifacts := a\<rparr>) = audit_ok rt s"
  "jobs_ok (s\<lparr>datg_publications := d\<rparr>) = jobs_ok s" "audit_ok rt (s\<lparr>datg_publications := d\<rparr>) = audit_ok rt s"
  by (rule jobs_ok_cong audit_ok_cong; simp)+

text \<open>The tables a publication leaves behind.\<close>

lemma publish_result_tables:
  assumes "publish_result rt c now aid did run adopted s = Inr (res, s')" and "digest_ok rt" and "audit_ok rt s" and "jobs_ok s"
    and "distinct (map qr_id (quota_reservations s))"
  obtains normalized b t t' where
    "normalize_result_summary (artifact_result_summary aid adopted) = Inr normalized"
    and "res = \<lparr>cm_state = SUCCEEDED, cm_artifact = Some aid, cm_created = True\<rparr>"
    and "SUCCEEDED \<in> set (transitions (r_state run))"
    and "artifacts s' = artifacts s @ [new_result_artifact aid now run adopted]"
    and "runs s' = update_run (r_id run) (succeed_run run normalized) (runs s)"
    and "run_events s' = run_events s @ [new_event (r_organization run) (r_id run) (Suc (r_event_sequence run)) ''run.succeeded''
            (JObj [(''result_summary'', normalized), (''state'', JStr (run_state_value SUCCEEDED))]) now]"
    and "outbox_messages s' = outbox_messages s" and "audit_ok rt s'" and "jobs_ok s'"
    and "release_run rt c now (r_organization run) (r_id run) RES_RELEASED t = Inr (b, t')"
    and "quota_reservations t = quota_reservations s" and "quota_reservations s' = quota_reservations t'"
    and "verify_existing_datg_publication run adopted s' = Inr ()"
  using assms(1)
proof (rule publish_result_steps)
  fix normalized s2 s3 s5
  let ?art = "new_result_artifact aid now run adopted"
  let ?e = "new_event (r_organization run) (r_id run) (Suc (r_event_sequence run)) ''run.succeeded''
            (JObj [(''result_summary'', normalized), (''state'', JStr (run_state_value SUCCEEDED))]) now"
  assume n: "normalize_result_summary (artifact_result_summary aid adopted) = Inr normalized"
    and datg: "commit_datg_publication rt now did run adopted (s\<lparr>artifacts := artifacts s @ [?art]\<rparr>) = Inr s2"
    and con: "consume_artifact rt c now (r_organization run) RUN_RESULT (aa_size_bytes adopted) s2 = Inr s3"
    and step: "SUCCEEDED \<in> set (transitions (r_state run))"
    and app: "service_append rt c now (r_organization run) ADOPTION ARTIFACT_ADOPTED ARTIFACT_RESOURCE aid None
       [(''kind'', JStr (artifact_kind_value RUN_RESULT)), (''schema_id'', JStr (aa_schema_id adopted)),
        (''sha256'', JStr (aa_sha256 adopted)), (''size_bytes'', JInt (aa_size_bytes adopted))]
       (s3\<lparr>runs := update_run (r_id run) (succeed_run run normalized) (runs s3), run_events := run_events s3 @ [?e]\<rparr>) = Inr s5"
    and ter: "record_terminal_audit rt c now run RUN_SUCCEEDED ADOPTION s5 = Inr s'"
    and res: "res = \<lparr>cm_state = SUCCEEDED, cm_artifact = Some aid, cm_created = True\<rparr>"
  from datg obtain rows where s2: "s2 = s\<lparr>artifacts := artifacts s @ [?art], datg_publications := rows\<rparr>"
    and ver: "verify_existing_datg_publication run adopted s2 = Inr ()"
    by (rule commit_datg_publication_Inr) simp
  note c3 = charge_frameD [OF consume_artifact_Inr(1) [OF con]]
  note t3 = platform_frame_tables [OF c3(1)]
  note f5 = service_append_frame [OF app]
  note t5 = platform_frame_tables [OF f5(1)]
  have inv3: "audit_ok rt s3" "jobs_ok s3" using c3(4,5) assms(3,4) by (simp_all add: s2 inv_of_artifacts)
  have inv5: "audit_ok rt s5" "jobs_ok s5" using f5(5,6) inv3 assms(2) by (simp_all add: inv_of_tables)
  have qr: "quota_reservations s5 = quota_reservations s" using f5(2) c3(2) by (simp add: s2)
  with assms(5) have "distinct (map qr_id (quota_reservations s5))" by simp
  with ter assms(2) inv5 obtain b t' where rel: "release_run rt c now (r_organization run) (r_id run) RES_RELEASED s5 = Inr (b, t')"
    and t': "quota_reservations s' = quota_reservations t'" and fr: "platform_frame s5 s'" and inv': "audit_ok rt s'" "jobs_ok s'"
    by (rule record_terminal_audit_frame)
  note t6 = platform_frame_tables [OF fr]
  have "datg_publications s' = datg_publications s2" using t3 t5 t6 by simp
  then have ver': "verify_existing_datg_publication run adopted s' = Inr ()"
    using ver verify_existing_cong by metis
  show thesis
    by (rule that [OF n res step _ _ _ _ inv' rel qr t' ver']) (use t3 t5 t6 in \<open>simp_all add: s2\<close>)
qed

lemma publish_result_inv:
  assumes pub: "publish_result rt c now aid did run adopted s = Inr (res, s')" and dig: "digest_ok rt"
    and inv: "jobs_inv rt s" and run: "run \<in> set (runs s)" and ok: "constraints_ok s'"
  shows "jobs_inv rt s'"
  using pub dig jobs_invD(2,3) [OF inv] constraints_reservations(1) [OF jobs_invD(1) [OF inv]]
proof (rule publish_result_tables)
  fix normalized b t t'
  let ?f = "succeed_run run normalized"
  let ?e = "new_event (r_organization run) (r_id run) (Suc (r_event_sequence run)) ''run.succeeded''
            (JObj [(''result_summary'', normalized), (''state'', JStr (run_state_value SUCCEEDED))]) now"
  note j = jobs_invD [OF inv]
  assume step: "SUCCEEDED \<in> set (transitions (r_state run))" and rows: "runs s' = update_run (r_id run) ?f (runs s)"
    and ev: "run_events s' = run_events s @ [?e]" and out: "outbox_messages s' = outbox_messages s"
    and au: "audit_ok rt s'" and jo: "jobs_ok s'"
    and rel: "release_run rt c now (r_organization run) (r_id run) RES_RELEASED t = Inr (b, t')"
    and t: "quota_reservations t = quota_reservations s" and t': "quota_reservations s' = quota_reservations t'"
  have d: "distinct (map r_id (runs s))" using j(1) by (rule constraints_runs)
  have nt: "\<not> is_terminal (r_state run)" using step by (auto simp: is_terminal_def)
  have log: "log_ok s'"
    by (rule log_ok_event [OF j(4) d run rows ev]) (use step in simp_all)
  have cap: "capacity_ok s'"
    by (rule capacity_ok_release(1) [OF j(5) d run rows _ _ _ constraints_reservations [OF j(1)] rel _ t t' nt]) simp_all
  show "jobs_inv rt s'"
    by (rule jobs_inv_move [OF inv log cap au jo ok rows]) (use out in simp_all)
qed

lemma cancel_path_inv:
  assumes can: "cancel_locked now run s = Inr (b, s1)"
    and aud: "(if b then record_terminal_audit rt c now run RUN_CANCELLED ADOPTION s1 else Inr s1) = Inr s'"
    and dig: "digest_ok rt" and inv: "jobs_inv rt s" and run: "run \<in> set (runs s)" and ok: "constraints_ok s'"
  shows "jobs_inv rt s'" and "artifacts s' = artifacts s" and "\<exists>f. runs s' = update_run (r_id run) f (runs s) \<and>
    r_state (f run) = CANCELLED \<and> r_id (f run) = r_id run \<and> r_organization (f run) = r_organization run"
proof -
  note j = jobs_invD [OF inv]
  have d: "distinct (map r_id (runs s))" using j(1) by (rule constraints_runs)
  obtain f evs where b: "b = (r_state run \<noteq> CANCELLED)"
    and s1: "s1 = s\<lparr>runs := update_run (r_id run) f (runs s), run_events := run_events s @ evs\<rparr>"
    and f: "\<And>r. r_id (f r) = r_id r \<and> r_organization (f r) = r_organization r \<and> r_kind (f r) = r_kind r \<and> r_state (f r) = CANCELLED
       \<and> r_result_summary (f r) = None"
    and two: "r_state run \<notin> {CANCELLED, CANCELLING} \<Longrightarrow> CANCELLING \<in> set (transitions (r_state run))"
    using can by (rule cancel_locked_Inr) blast
  have log1: "log_ok s1" by (rule cancel_locked_log [OF can j(4) d run])
  have inv1: "audit_ok rt s1" "jobs_ok s1" using j(2,3) by (simp_all add: s1 inv_of_tables)
  show "artifacts s' = artifacts s" "\<exists>f. runs s' = update_run (r_id run) f (runs s) \<and>
    r_state (f run) = CANCELLED \<and> r_id (f run) = r_id run \<and> r_organization (f run) = r_organization run" "jobs_inv rt s'"
  proof (atomize (full), cases b)
    case False
    then have s': "s' = s1" using aud by simp
    have rows: "runs s1 = update_run (r_id run) f (runs s)" by (simp add: s1)
    have cap: "capacity_ok s1"
      by (rule capacity_ok_keep [OF j(5) d run rows]) (use f b False in \<open>simp_all add: s1\<close>)
    have "jobs_inv rt s1"
      by (rule jobs_inv_move [OF inv log1 cap inv1 _ rows]) (use f ok s' in \<open>simp_all add: s1\<close>)
    with f show "artifacts s' = artifacts s \<and> (\<exists>f. runs s' = update_run (r_id run) f (runs s) \<and>
      r_state (f run) = CANCELLED \<and> r_id (f run) = r_id run \<and> r_organization (f run) = r_organization run) \<and> jobs_inv rt s'"
      unfolding s' by (auto simp: s1)
  next
    case True
    have ids: "distinct (map qr_id (quota_reservations s1))" using constraints_reservations(1) [OF j(1)] by (simp add: s1)
    from aud True have "record_terminal_audit rt c now run RUN_CANCELLED ADOPTION s1 = Inr s'" by simp
    from this dig inv1 ids obtain b' t where
      rel: "release_run rt c now (r_organization run) (r_id run) RES_RELEASED s1 = Inr (b', t)"
      and t: "quota_reservations s' = quota_reservations t" and fr: "platform_frame s1 s'" and inv': "audit_ok rt s'" "jobs_ok s'"
      by (rule record_terminal_audit_frame)
    note t6 = platform_frame_tables [OF fr]
    have rows: "runs s' = update_run (r_id run) f (runs s)" using t6 by (simp add: s1)
    have nt: "\<not> is_terminal (r_state run)"
    proof (cases "r_state run = CANCELLING")
      case False
      with True b two show ?thesis by (auto simp: is_terminal_def)
    qed simp
    have log: "log_ok s'" using log1 t6 by (simp add: log_ok_cong [of s' s1])
    have cap: "capacity_ok s'"
      by (rule capacity_ok_release(1) [OF j(5) d run rows _ _ _ constraints_reservations [OF j(1)] rel _ _ t nt])
        (use f in \<open>simp_all add: s1\<close>)
    have "jobs_inv rt s'"
      by (rule jobs_inv_move [OF inv log cap inv' ok rows]) (use f t6 in \<open>simp_all add: s1\<close>)
    with f rows t6 show "artifacts s' = artifacts s \<and> (\<exists>f. runs s' = update_run (r_id run) f (runs s) \<and>
      r_state (f run) = CANCELLED \<and> r_id (f run) = r_id run \<and> r_organization (f run) = r_organization run) \<and> jobs_inv rt s'"
      by (auto simp: s1)
  qed
qed

text \<open>The four ways a commit of an adopted result can return.\<close>

lemma commit_adopted_cases:
  assumes "commit_adopted_body rt now aid did org run_id sha adopted c s = Inr (res, s')"
  obtains (cancelled) run b s1 where "verified_run rt org run_id sha s = Inr run"
      "r_state run \<in> {CANCELLING, CANCELLED} \<or> r_cancellation_requested_at run \<noteq> None"
      "cancel_locked now run s = Inr (b, s1)"
      "(if b then record_terminal_audit rt c now run RUN_CANCELLED ADOPTION s1 else Inr s1) = Inr s'"
      "res = \<lparr>cm_state = CANCELLED, cm_artifact = None, cm_created = False\<rparr>"
  | (again) run existing where "verified_run rt org run_id sha s = Inr run" "r_state run = SUCCEEDED" "r_cancellation_requested_at run = None" "s' = s"
      "find_result run (aa_sha256 adopted) s = Some existing" "result_matches rt run adopted existing = Inr True"
      "res = \<lparr>cm_state = SUCCEEDED, cm_artifact = Some (a_id existing), cm_created = False\<rparr>"
  | (published) run where "verified_run rt org run_id sha s = Inr run" "r_state run = RUNNING" "r_cancellation_requested_at run = None"
      "artifact_storage_key (r_organization run) (r_project run) (Some (r_id run)) RUN_RESULT (aa_sha256 adopted) = Inr (aa_storage_key adopted)"
      "publish_result rt c now aid did run adopted s = Inr (res, s')"
proof -
  from assms obtain run where run: "verified_run rt org run_id sha s = Inr run"
    and key: "artifact_storage_key (r_organization run) (r_project run) (Some (r_id run)) RUN_RESULT (aa_sha256 adopted) = Inr (aa_storage_key adopted)"
    by (auto simp: commit_adopted_body_def)
  note body = assms [unfolded commit_adopted_body_def run key bindr_simps ensure_def simp_thms if_True]
  show thesis
  proof (cases "r_state run \<in> {CANCELLING, CANCELLED} \<or> r_cancellation_requested_at run \<noteq> None")
    case True
    with body obtain b s1 where "cancel_locked now run s = Inr (b, s1)"
      "(if b then record_terminal_audit rt c now run RUN_CANCELLED ADOPTION s1 else Inr s1) = Inr s'"
      "res = \<lparr>cm_state = CANCELLED, cm_artifact = None, cm_created = False\<rparr>"
      by (simp only: if_True bindr_eq_Inr split_paired_Ex prod.case) auto
    with run True show thesis by (intro cancelled)
  next
    case False
    show thesis
    proof (cases "r_state run = SUCCEEDED")
      case True
      with body False obtain existing where "find_result run (aa_sha256 adopted) s = Some existing"
        "result_matches rt run adopted existing = Inr True"
        "res = \<lparr>cm_state = SUCCEEDED, cm_artifact = Some (a_id existing), cm_created = False\<rparr>" "s' = s"
        by (auto split: if_splits)
      with run True False show thesis by (intro again) auto
    next
      case no: False
      with body False have "r_state run = RUNNING" "publish_result rt c now aid did run adopted s = Inr (res, s')"
        by (auto split: if_splits)
      with run False key show thesis by (intro published) auto
    qed
  qed
qed

lemma commit_adopted_result_inv:
  assumes "digest_ok rt" and "jobs_inv rt s"
  shows "jobs_inv rt (snd (commit_adopted_result rt now aid did ref adopted s))"
proof -
  have "jobs_inv rt s'" if body: "commit_adopted_body rt now aid did org run_id sha adopted c s = Inr (res, s')"
    and ok: "constraints_ok s'" for org run_id sha c res s'
    using body
  proof (cases rule: commit_adopted_cases)
    case (cancelled run b s1)
    with cancel_path_inv(1) [OF cancelled(3,4) assms _ ok] verified_run_Inr show ?thesis by blast
  next
    case (again run existing)
    with assms show ?thesis by simp
  next
    case (published run)
    with publish_result_inv [OF published(5) assms _ ok] verified_run_Inr show ?thesis by blast
  qed
  then have "jobs_inv rt (snd (in_session rt ctx (commit_adopted_body rt now aid did org run_id sha adopted) s))" for ctx org run_id sha
    by (intro in_session_preserves [where P = "jobs_inv rt", OF _ assms(2)]) blast
  with assms(2) show ?thesis by (auto simp: commit_adopted_result_def split: sum.splits)
qed

section \<open>A result is published once\<close>

text \<open>The results in the artifact table are scoped by the run they came from.\<close>

definition results_scoped :: "db \<Rightarrow> bool" where
  "results_scoped s \<longleftrightarrow> (\<forall>a \<in> set (artifacts s). \<forall>r. a_run a = Some r \<longrightarrow> a_kind a = artifact_kind_value RUN_RESULT \<longrightarrow>
     a_scope_key a = uuid_str r)"

lemma new_result_artifact_simps [simp]:
  "a_id (new_result_artifact aid now run adopted) = aid"
  "a_organization (new_result_artifact aid now run adopted) = r_organization run"
  "a_project (new_result_artifact aid now run adopted) = r_project run"
  "a_run (new_result_artifact aid now run adopted) = Some (r_id run)"
  "a_kind (new_result_artifact aid now run adopted) = artifact_kind_value RUN_RESULT"
  "a_sha256 (new_result_artifact aid now run adopted) = aa_sha256 adopted"
  "a_scope_key (new_result_artifact aid now run adopted) = uuid_str (r_id run)"
  "a_size_bytes (new_result_artifact aid now run adopted) = aa_size_bytes adopted"
  "a_storage_key (new_result_artifact aid now run adopted) = aa_storage_key adopted"
  "a_state (new_result_artifact aid now run adopted) = ARTIFACT_ACTIVE"
  by (simp_all add: new_result_artifact_def)

lemma find_update_run:
  assumes "distinct (map r_id rows)" and "run \<in> set rows" and "\<And>r. r_id (f r) = r_id r" and "\<And>r. r_organization (f r) = r_organization r"
  shows "find (\<lambda>r. r_id r = r_id run \<and> r_organization r = r_organization run) (update_run (r_id run) f rows) = Some (f run)"
proof (rule find_key [where k = r_id])
  show "distinct (map r_id (update_run (r_id run) f rows))" using assms(1,3) by (simp add: ids_update_run)
  show "f run \<in> set (update_run (r_id run) f rows)" using assms(2) by (auto simp: update_run_def set_update_where)
qed (use assms in auto)

lemma find_result_published:
  assumes "results_scoped s" and "artifacts_ok (artifacts s @ [new_result_artifact aid now run adopted])"
    and "r_id run' = r_id run" and "r_organization run' = r_organization run" and "r_project run' = r_project run"
    and "artifacts s' = artifacts s @ [new_result_artifact aid now run adopted]"
  shows "find_result run' (aa_sha256 adopted) s' = Some (new_result_artifact aid now run adopted)"
proof -
  let ?new = "new_result_artifact aid now run adopted"
  let ?k = "\<lambda>a. (a_organization a, a_project a, a_scope_key a, a_kind a, a_sha256 a)"
  have fresh: "?k a \<noteq> ?k ?new" if "a \<in> set (artifacts s)" for a
    using fresh_id [of ?k "artifacts s" ?new a] assms(2) that by (simp add: artifacts_ok_def unique_by_def)
  have "find (\<lambda>a. a_organization a = r_organization run' \<and> a_project a = r_project run' \<and> a_run a = Some (r_id run')
        \<and> a_kind a = artifact_kind_value RUN_RESULT \<and> a_sha256 a = aa_sha256 adopted) (artifacts s) = None"
    unfolding find_None_iff using fresh assms(1,3-5) by (auto simp: results_scoped_def)
  then show ?thesis unfolding find_result_def assms(6) by (subst find_append_new) (use assms(3-5) in simp_all)
qed

lemma commit_adopted_again:
  assumes dig: "digest_ok rt" and inv: "jobs_inv rt s" and scoped: "results_scoped s"
    and first: "commit_adopted_result rt now aid did ref adopted s = (Inr res, s')" and new: "cm_created res"
  shows "commit_adopted_result rt now' aid' did' ref adopted s' = (Inr (res\<lparr>cm_created := False\<rparr>), s')"
proof -
  from first obtain org i c where ids: "store_ids ref = Inr (org, i)" and ctx: "service_context ADOPTION (Some org) = Inr c"
    and body: "commit_adopted_body rt now aid did org i (wr_spec_sha256 ref) adopted c s = Inr (res, s')" and ok: "constraints_ok s'"
    by (auto simp: commit_adopted_result_def split: sum.splits dest!: in_session_Inr)
  let ?sha = "wr_spec_sha256 ref"
  note j = jobs_invD [OF inv]
  from body obtain run where run: "verified_run rt org i ?sha s = Inr run" and st: "r_state run = RUNNING"
    and nc: "r_cancellation_requested_at run = None"
    and key: "artifact_storage_key (r_organization run) (r_project run) (Some (r_id run)) RUN_RESULT (aa_sha256 adopted) = Inr (aa_storage_key adopted)"
    and pub: "publish_result rt c now aid did run adopted s = Inr (res, s')"
    by (cases rule: commit_adopted_cases) (use new in auto)
  note mem = verified_run_Inr [OF run]
  have d: "distinct (map r_id (runs s))" using j(1) by (rule constraints_runs)
  have arts: "artifacts_ok (artifacts s @ [new_result_artifact aid now run adopted])"
    using pub by (rule publish_result_steps)
  obtain normalized where n: "normalize_result_summary (artifact_result_summary aid adopted) = Inr normalized"
    and res: "res = \<lparr>cm_state = SUCCEEDED, cm_artifact = Some aid, cm_created = True\<rparr>"
    and art: "artifacts s' = artifacts s @ [new_result_artifact aid now run adopted]"
    and rows: "runs s' = update_run (r_id run) (succeed_run run normalized) (runs s)"
    and ver: "verify_existing_datg_publication run adopted s' = Inr ()"
    using pub dig j(2,3) constraints_reservations(1) [OF j(1)] by (rule publish_result_tables) blast
  let ?run = "succeed_run run normalized run"
  have found: "store_run org i s' = Inr ?run"
    using find_update_run [OF d, of run "succeed_run run normalized"] mem by (simp add: store_run_def rows)
  have "verify_spec rt ?run ?sha = verify_spec rt run ?sha" by (simp add: verify_spec_def)
  with run found have run': "verified_run rt org i ?sha s' = Inr ?run" by (auto simp: verified_run_def)
  have res': "find_result ?run (aa_sha256 adopted) s' = Some (new_result_artifact aid now run adopted)"
    by (rule find_result_published [OF scoped arts _ _ _ art]) simp_all
  have match: "result_matches rt ?run adopted (new_result_artifact aid now run adopted) = Inr True"
    by (simp add: result_matches_def n) (simp add: new_result_artifact_def)
  have ver': "verify_existing_datg_publication ?run adopted s' = Inr ()"
    using ver by (cases "aa_datg_index adopted") (simp_all add: verify_existing_datg_publication_def find_publication_def)
  have "commit_adopted_body rt now' aid' did' org i ?sha adopted c s' = Inr (res\<lparr>cm_created := False\<rparr>, s')"
    using run' key res' match ver' nc by (simp add: commit_adopted_body_def res)
  then show ?thesis
    using ids ctx ok open_session_valid [OF service_context_valid [OF ctx], of rt]
    by (simp add: commit_adopted_result_def in_session_def session_def)
qed

lemma cancelled_run_publishes_nothing:
  assumes dig: "digest_ok rt" and inv: "jobs_inv rt s"
    and com: "commit_adopted_result rt now aid did ref adopted s = (Inr res, s')"
    and run: "store_ids ref = Inr (org, i)" "r \<in> set (runs s)" "r_id r = i"
      "r_state r \<in> {CANCELLING, CANCELLED} \<or> r_cancellation_requested_at r \<noteq> None"
  shows "res = \<lparr>cm_state = CANCELLED, cm_artifact = None, cm_created = False\<rparr>" and "artifacts s' = artifacts s"
    and "run_in_state ref CANCELLED s'"
proof -
  note j = jobs_invD [OF inv]
  have d: "distinct (map r_id (runs s))" using j(1) by (rule constraints_runs)
  from com run(1) obtain c where body: "commit_adopted_body rt now aid did org i (wr_spec_sha256 ref) adopted c s = Inr (res, s')"
    and ok: "constraints_ok s'"
    by (auto simp: commit_adopted_result_def dest!: in_session_Inr)
  from body show "res = \<lparr>cm_state = CANCELLED, cm_artifact = None, cm_created = False\<rparr>" "artifacts s' = artifacts s"
    "run_in_state ref CANCELLED s'"
  proof (atomize (full), cases rule: commit_adopted_cases)
    case (cancelled run b s1)
    note mem = verified_run_Inr [OF cancelled(1)]
    note c = cancel_path_inv [OF cancelled(3,4) dig inv _ ok]
    from c(3) mem obtain f where f: "runs s' = update_run (r_id run) f (runs s)" "r_state (f run) = CANCELLED"
      "r_id (f run) = r_id run" "r_organization (f run) = r_organization run" by blast
    have "f run \<in> set (runs s')" using mem f(1) by (auto simp: update_run_def set_update_where)
    with f mem run(1) have "run_in_state ref CANCELLED s'" unfolding run_in_state_def by auto
    with cancelled(5) c(2) mem show "res = \<lparr>cm_state = CANCELLED, cm_artifact = None, cm_created = False\<rparr> \<and>
      artifacts s' = artifacts s \<and> run_in_state ref CANCELLED s'" by simp
  next
    case (again run existing)
    with verified_run_unique [OF d again(1) run(2,3)] run(4)
    show "res = \<lparr>cm_state = CANCELLED, cm_artifact = None, cm_created = False\<rparr> \<and>
      artifacts s' = artifacts s \<and> run_in_state ref CANCELLED s'" by auto
  next
    case (published run)
    with verified_run_unique [OF d published(1) run(2,3)] run(4)
    show "res = \<lparr>cm_state = CANCELLED, cm_artifact = None, cm_created = False\<rparr> \<and>
      artifacts s' = artifacts s \<and> run_in_state ref CANCELLED s'" by auto
  qed
qed

end
