(* ===== verification/Platform.thy ===== *)
theory Platform imports RunStore begin

text \<open>
  src/corpuskit/services/platform.py: the expiry of stale capacity reservations
  (\<open>QuotaManager.expire_stale\<close>) and \<open>PlatformService\<close>, the administrators' read surface and the
  replacement of an organization's quota policy.
\<close>

section \<open>Expiring stale reservations\<close>

definition stale_reservation :: "time \<Rightarrow> quota_reservation \<Rightarrow> bool" where
  "stale_reservation cutoff q \<longleftrightarrow> qr_state q = RES_ACTIVE \<and> qr_expires_at q \<le> cutoff"

definition expiry_candidates :: "time \<Rightarrow> nat \<Rightarrow> db \<Rightarrow> (uuid \<times> uuid \<times> uuid) list" where
  "expiry_candidates cutoff limit s =
     map (\<lambda>q. (qr_id q, qr_organization q, qr_run q))
       (take limit (sort_key (\<lambda>q. (qr_expires_at q, qr_id q))
         (filter (stale_reservation cutoff) (quota_reservations s))))"

text \<open>The end an unfinished run comes to when its reservation lapses, and the failure code it gets.\<close>

definition expiry_target :: "run_state \<Rightarrow> (run_state \<times> string option) option" where
  "expiry_target st =
     (if is_terminal st then None
      else if st = CANCELLING then Some (CANCELLED, None)
      else Some (FAILED, Some ''quota_reservation_expired''))"

definition expire_run :: "time \<Rightarrow> run \<Rightarrow> run_state \<Rightarrow> string option \<Rightarrow> db \<Rightarrow> exn + db" where
  "expire_run now run target failure_code s =
     bindr (ensure_transition (r_state run) target) (\<lambda>_.
     bindr (insert_row run_events_ok (new_event (r_organization run) (r_id run) (Suc (r_event_sequence run))
       (if target = CANCELLED then ''run.cancelled'' else ''run.failed'')
       (case failure_code of None \<Rightarrow> state_payload target
        | Some code \<Rightarrow> JObj [(''failure_code'', JStr code), (''state'', JStr (run_state_value target))]) now)
       (run_events s)) (\<lambda>events.
     Inr (s\<lparr>runs := update_run (r_id run)
         (\<lambda>r. r\<lparr>r_state := target, r_event_sequence := Suc (r_event_sequence run), r_result_summary := None,
            r_failure_code := failure_code\<rparr>) (runs s),
       run_events := events\<rparr>)))"

text \<open>The session of one candidate; its result is whether a reservation was expired.\<close>

definition expire_one ::
    "runtime \<Rightarrow> time \<Rightarrow> time \<Rightarrow> uuid \<times> uuid \<times> uuid \<Rightarrow> tenant_context \<Rightarrow> db \<Rightarrow> exn + bool \<times> db" where
  "expire_one rt now cutoff candidate c s =
     (case candidate of (reservation_id, org, run_id) \<Rightarrow>
        bindr (require (RuntimeError ''quota reservation run is unavailable'')
          (find (\<lambda>r. r_id r = run_id \<and> r_organization r = org) (runs s))) (\<lambda>run.
        case find (\<lambda>q. qr_id q = reservation_id \<and> qr_organization q = org \<and> stale_reservation cutoff q)
               (quota_reservations s) of
          None \<Rightarrow> Inr (False, s)
        | Some reservation \<Rightarrow>
            bindr (case expiry_target (r_state run) of None \<Rightarrow> Inr s
                   | Some (target, failure_code) \<Rightarrow> expire_run now run target failure_code s) (\<lambda>s.
            bindr (release_run rt c now org run_id RES_EXPIRED s) (\<lambda>(released, s).
            if \<not> released then Inr (False, s)
            else
              bindr (service_append rt c now org MAINTENANCE QUOTA_RESERVATION_EXPIRED QUOTA_RESERVATION_RESOURCE
                reservation_id None
                [(''kind'', JStr (run_kind_value (r_kind run))),
                 (''quota_class'', JStr (run_quota_class_value (qr_class reservation)))] s) (\<lambda>s.
              bindr (case expiry_target (r_state run) of
                       None \<Rightarrow> Inr s
                     | Some (target, failure_code) \<Rightarrow>
                         service_append rt c now org MAINTENANCE
                           (if target = CANCELLED then RUN_CANCELLED else RUN_FAILED) RUN_RESOURCE (r_id run) None
                           ((''kind'', JStr (run_kind_value (r_kind run))) #
                            (if target = CANCELLED then [] else [(''failure_code'', JStr ''quota_reservation_expired'')])) s)
                (\<lambda>s. Inr (True, s)))))))"

fun expire_each ::
    "runtime \<Rightarrow> world \<Rightarrow> time \<Rightarrow> nat \<Rightarrow> (uuid \<times> uuid \<times> uuid) list \<Rightarrow> nat \<Rightarrow> db \<Rightarrow> (exn + nat) \<times> db" where
  "expire_each rt w cutoff i [] expired s = (Inr expired, s)"
| "expire_each rt w cutoff i (candidate # candidates) expired s =
     (case in_session rt (service_context MAINTENANCE (Some (fst (snd candidate))))
             (expire_one rt (w_clock w i) cutoff candidate) (w_env w i s) of
        (Inl e, s1) \<Rightarrow> (Inl e, s1)
      | (Inr b, s1) \<Rightarrow> expire_each rt w cutoff (Suc i) candidates (if b then Suc expired else expired) s1)"

definition expire_stale :: "runtime \<Rightarrow> world \<Rightarrow> time \<Rightarrow> int \<Rightarrow> db \<Rightarrow> (exn + nat) \<times> db" where
  "expire_stale rt w now limit s =
     (if \<not> (1 \<le> limit \<and> limit \<le> 10000)
      then (Inl (ValueError ''quota expiry limit must be between 1 and 10000''), s)
      else
        (case in_session rt (service_context MAINTENANCE None)
                (\<lambda>c s. Inr (expiry_candidates now (nat limit) s, s)) s of
           (Inl e, s1) \<Rightarrow> (Inl e, s1)
         | (Inr candidates, s1) \<Rightarrow> expire_each rt w now 0 candidates 0 s1))"

section \<open>Platform service\<close>

definition admin_roles :: "role list" where
  "admin_roles = [OWNER, ADMIN]"

definition admin_actor :: "actor \<Rightarrow> db \<Rightarrow> exn + uuid \<times> role" where
  "admin_actor a s =
     bindr (find_member ''platform.identity'' a s) (\<lambda>(user_id, role).
     bindr (ensure (role \<in> set admin_roles) (ResourceNotFoundError ''platform.identity'')) (\<lambda>_. Inr (user_id, role)))"

definition platform_quota :: "runtime \<Rightarrow> time \<Rightarrow> actor \<Rightarrow> db \<Rightarrow> (exn + quota_snapshot) \<times> db" where
  "platform_quota rt now a s =
     in_session rt (user_context (ac_organization a) (ac_subject a)) (\<lambda>c s.
       bindr (admin_actor a s) (\<lambda>_. quota_snapshot_of rt c now (ac_organization a) s)) s"

text \<open>\<open>[1-9][0-9]{0,18}\<close>, read as a number.\<close>

definition audit_cursor :: "string option \<Rightarrow> exn + nat" where
  "audit_cursor v =
     (case v of None \<Rightarrow> Inr 0
      | Some t \<Rightarrow>
          if t \<noteq> [] \<and> hd t \<noteq> CHR ''0'' \<and> list_all is_digit_char t \<and> length t \<le> 19
          then Inr (foldl (\<lambda>n c. 10 * n + digit_value c) 0 t)
          else Inl (InvalidRequestError ''audit.list''))"

text \<open>A \<open>datetime\<close> filter: with a time zone, or without one, which is refused.\<close>

datatype instant = Aware time | Naive

record audit_filter =
  af_from :: "instant option"
  af_to :: "instant option"
  af_action :: "audit_action option"
  af_resource_type :: "resource_type option"

definition instant_bounds :: "audit_filter \<Rightarrow> exn + time option \<times> time option" where
  "instant_bounds f =
     bindr (case af_from f of None \<Rightarrow> Inr None | Some Naive \<Rightarrow> Inl (InvalidRequestError ''audit.list'')
            | Some (Aware t) \<Rightarrow> Inr (Some t)) (\<lambda>lo.
     bindr (case af_to f of None \<Rightarrow> Inr None | Some Naive \<Rightarrow> Inl (InvalidRequestError ''audit.list'')
            | Some (Aware t) \<Rightarrow> Inr (Some t)) (\<lambda>hi.
     bindr (ensure (case (lo, hi) of (Some l, Some h) \<Rightarrow> l \<le> h | _ \<Rightarrow> True) (InvalidRequestError ''audit.list'')) (\<lambda>_.
     Inr (lo, hi))))"

record audit_page =
  pg_events :: "audit_event list"
  pg_next_cursor :: "string option"

definition audit_selects :: "uuid \<Rightarrow> time option \<times> time option \<Rightarrow> audit_filter \<Rightarrow> audit_event \<Rightarrow> bool" where
  "audit_selects org bounds f e \<longleftrightarrow> ap_organization (ev_payload e) = org
     \<and> (case fst bounds of None \<Rightarrow> True | Some l \<Rightarrow> l \<le> ap_occurred_at (ev_payload e))
     \<and> (case snd bounds of None \<Rightarrow> True | Some h \<Rightarrow> ap_occurred_at (ev_payload e) \<le> h)
     \<and> (case af_action f of None \<Rightarrow> True | Some x \<Rightarrow> ap_action (ev_payload e) = x)
     \<and> (case af_resource_type f of None \<Rightarrow> True | Some x \<Rightarrow> ap_resource_type (ev_payload e) = x)"

definition audit_page_of :: "(audit_event \<Rightarrow> bool) \<Rightarrow> nat \<Rightarrow> nat \<Rightarrow> audit_event list \<Rightarrow> audit_page" where
  "audit_page_of selects after limit events =
     (let rows = take (limit + 1) (sort_key (\<lambda>e. ap_sequence (ev_payload e))
             (filter (\<lambda>e. selects e \<and> after < ap_sequence (ev_payload e)) events));
          visible = take limit rows in
      \<lparr>pg_events = visible,
       pg_next_cursor = (if limit < length rows \<and> visible \<noteq> []
         then Some (nat_digits (ap_sequence (ev_payload (last visible)))) else None)\<rparr>)"

definition list_audit_events ::
    "runtime \<Rightarrow> actor \<Rightarrow> string option \<Rightarrow> int \<Rightarrow> audit_filter \<Rightarrow> db \<Rightarrow> (exn + audit_page) \<times> db" where
  "list_audit_events rt a cursor limit f s =
     (if \<not> (1 \<le> limit \<and> limit \<le> 200) then (Inl (InvalidRequestError ''audit.list''), s)
      else
        (case bindr (audit_cursor cursor) (\<lambda>after. bindr (instant_bounds f) (\<lambda>bounds. Inr (after, bounds))) of
           Inl e \<Rightarrow> (Inl e, s)
         | Inr (after, bounds) \<Rightarrow>
             in_session rt (user_context (ac_organization a) (ac_subject a)) (\<lambda>c s.
               bindr (admin_actor a s) (\<lambda>_.
               Inr (audit_page_of (audit_selects (ac_organization a) bounds f) after (nat limit) (audit_events s), s))) s))"

text \<open>The fields in which two policies differ, in the order of their names.\<close>

definition changed_fields :: "quota_policy_values \<Rightarrow> quota_policy_values \<Rightarrow> string list" where
  "changed_fields p q = map fst (filter snd
     [(''max_activity_deadline_seconds'', max_activity_deadline_seconds p \<noteq> max_activity_deadline_seconds q),
      (''max_artifact_bytes'', max_artifact_bytes p \<noteq> max_artifact_bytes q),
      (''max_artifact_count'', max_artifact_count p \<noteq> max_artifact_count q),
      (''max_checkpoint_bytes'', max_checkpoint_bytes p \<noteq> max_checkpoint_bytes q),
      (''max_concurrent_cpu_jobs'', max_concurrent_cpu_jobs p \<noteq> max_concurrent_cpu_jobs q),
      (''max_concurrent_expensive_jobs'', max_concurrent_expensive_jobs p \<noteq> max_concurrent_expensive_jobs q),
      (''max_corpus_sentences'', max_corpus_sentences p \<noteq> max_corpus_sentences q),
      (''max_generation_accepted_sentences'', max_generation_accepted_sentences p \<noteq> max_generation_accepted_sentences q),
      (''max_generation_iterations'', max_generation_iterations p \<noteq> max_generation_iterations q),
      (''max_provider_cost_microusd'', max_provider_cost_microusd p \<noteq> max_provider_cost_microusd q),
      (''max_provider_input_tokens'', max_provider_input_tokens p \<noteq> max_provider_input_tokens q),
      (''max_provider_output_tokens'', max_provider_output_tokens p \<noteq> max_provider_output_tokens q),
      (''max_rl_steps'', max_rl_steps p \<noteq> max_rl_steps q),
      (''max_rl_tokens'', max_rl_tokens p \<noteq> max_rl_tokens q)])"

definition usage_within :: "quota_usage \<Rightarrow> quota_policy_values \<Rightarrow> bool" where
  "usage_within u p \<longleftrightarrow> qu_active_cpu_jobs u \<le> max_concurrent_cpu_jobs p
     \<and> qu_active_expensive_jobs u \<le> max_concurrent_expensive_jobs p \<and> qu_artifact_bytes u \<le> max_artifact_bytes p
     \<and> qu_artifact_count u \<le> max_artifact_count p \<and> qu_corpus_sentences u \<le> max_corpus_sentences p"

definition holds_reservation :: "uuid \<Rightarrow> db \<Rightarrow> run \<Rightarrow> bool" where
  "holds_reservation org s r \<longleftrightarrow> r_organization r = org
     \<and> list_ex (\<lambda>q. qr_run q = r_id r \<and> qr_organization q = org \<and> qr_state q = RES_ACTIVE) (quota_reservations s)"

definition replace_policy ::
    "runtime \<Rightarrow> time \<Rightarrow> tenant_context \<Rightarrow> uuid \<Rightarrow> quota_policy_values \<Rightarrow> string option \<Rightarrow> db \<Rightarrow> (exn + quota_snapshot) \<times> db" where
  "replace_policy rt now c org policy request_id s =
     (if tc_identity c \<noteq> PLATFORM \<or> tc_organization c \<noteq> Some org
      then (Inl (ResourceNotFoundError ''quota.policy.update''), s)
      else session rt (Some c) (\<lambda>s.
        bindr (locked rt c now org s) (\<lambda>((current, usage), s).
        bindr (ensure (usage_within usage policy) (QuotaExceededError ''quota.policy.update'' None)) (\<lambda>_.
        bindr (reraise is_value_error (QuotaExceededError ''quota.policy.update'' None)
          (map_result (\<lambda>r. validate_run_resource_policy (rt_parsers rt) (r_kind r) (r_spec r) policy)
            (filter (holds_reservation org s) (runs s)))) (\<lambda>_.
        bindr (service_append rt c now org PLATFORM QUOTA_POLICY_CHANGED QUOTA_POLICY_RESOURCE org request_id
          [(''changed_fields'', JList (map JStr (changed_fields (qp_values current) policy)))]
          (s\<lparr>quota_policies := update_where (\<lambda>q. qp_organization q = org)
             (\<lambda>q. q\<lparr>qp_values := policy, qp_updated_at := now\<rparr>) (quota_policies s)\<rparr>)) (\<lambda>s.
        quota_snapshot_of rt c now org s))))) s)"

section \<open>Expiry keeps the invariants\<close>

lemma expire_run_Inr:
  assumes "expire_run now run target code s = Inr s'" and "target \<in> {CANCELLED, FAILED}"
    and "log_ok s" and "distinct (map r_id (runs s))" and "run \<in> set (runs s)"
  obtains f ev where "s' = s\<lparr>runs := update_run (r_id run) f (runs s), run_events := ev\<rparr>" and "log_ok s'"
    and "\<And>r. r_id (f r) = r_id r" and "\<And>r. r_organization (f r) = r_organization r"
    and "\<And>r. r_kind (f r) = r_kind r" and "\<And>r. r_state (f r) = target"
proof -
  let ?f = "\<lambda>r. r\<lparr>r_state := target, r_event_sequence := Suc (r_event_sequence run), r_result_summary := None,
            r_failure_code := code\<rparr>"
  let ?e = "new_event (r_organization run) (r_id run) (Suc (r_event_sequence run))
       (if target = CANCELLED then ''run.cancelled'' else ''run.failed'')
       (case code of None \<Rightarrow> state_payload target
        | Some code \<Rightarrow> JObj [(''failure_code'', JStr code), (''state'', JStr (run_state_value target))]) now"
  from assms(1) have step: "target \<in> set (transitions (r_state run))"
    and s': "s' = s\<lparr>runs := update_run (r_id run) ?f (runs s), run_events := run_events s @ [?e]\<rparr>"
    by (auto simp: expire_run_def lifecycle_step_iff)
  have "log_ok s'"
    by (rule log_ok_event [OF assms(3-5), where f = ?f and e = ?e]) (use assms(2) step in \<open>auto simp: s'\<close>)
  show thesis by (rule that [OF s' \<open>log_ok s'\<close>]) simp_all
qed

lemma expiry_target_Some:
  "expiry_target st = Some (target, code) \<Longrightarrow> target \<in> {CANCELLED, FAILED} \<and> \<not> is_terminal st"
  by (auto simp: expiry_target_def split: if_splits)

lemma expiry_target_None: "expiry_target st = None \<longleftrightarrow> is_terminal st"
  by (simp add: expiry_target_def)

lemma finished_release_idle:
  assumes "capacity_ok s" and "run \<in> set (runs s)" and "is_terminal (r_state run)" and "distinct (map r_id (runs s))"
    and "release_run rt c now (r_organization run) (r_id run) state s = Inr (b, s')"
  shows "\<not> b \<and> s' = s"
  using assms(5)
proof (cases rule: release_run_cases)
  case idle
  then show ?thesis by simp
next
  case (released q)
  then have q: "q \<in> set (quota_reservations s)" "qr_run q = r_id run" "qr_organization q = r_organization run"
    using find_SomeD [of _ "quota_reservations s" q] by (auto simp: find_reservation_def)
  with assms(1) obtain r where "r \<in> set (runs s)" "r_id r = qr_run q" "qr_class q = run_quota_class (r_kind r)"
    by (auto simp: capacity_ok_def)
  then have "r = run" using distinct_map_inj [OF assms(4) _ assms(2)] q by simp
  with q released \<open>qr_class q = _\<close> have "holds_capacity s run" by (auto simp: holds_capacity_def)
  with assms(1-3) show ?thesis by (simp add: capacity_ok_def)
qed

lemma expire_tail_frame:
  assumes "service_append rt c now org MAINTENANCE QUOTA_RESERVATION_EXPIRED QUOTA_RESERVATION_RESOURCE rid None m s2 = Inr s3"
    and "(case x of None \<Rightarrow> Inr s3 | Some (target, code) \<Rightarrow>
       service_append rt c now org MAINTENANCE (action target) RUN_RESOURCE run_id None (metadata target) s3) = Inr s'"
    and "digest_ok rt" and "audit_ok rt s2"
  shows "platform_frame s2 s'" and "quota_reservations s' = quota_reservations s2"
    and "audit_ok rt s'" and "jobs_ok s' = jobs_ok s2"
proof -
  note a = service_append_frame [OF assms(1)]
  have "platform_frame s2 s' \<and> quota_reservations s' = quota_reservations s2 \<and> audit_ok rt s' \<and> jobs_ok s' = jobs_ok s2"
  proof (cases x)
    case None
    with assms a show ?thesis by simp
  next
    case (Some y)
    obtain target code where y: "y = (target, code)" by (cases y)
    from assms(2) have "service_append rt c now org MAINTENANCE (action target) RUN_RESOURCE run_id None (metadata target) s3 = Inr s'"
      by (simp add: Some y)
    note b = service_append_frame [OF this]
    from a(1) b(1) have "platform_frame s2 s'" by (rule platform_frame_trans)
    with a b assms(3,4) show ?thesis by simp
  qed
  then show "platform_frame s2 s'" "quota_reservations s' = quota_reservations s2" "audit_ok rt s'" "jobs_ok s' = jobs_ok s2"
    by auto
qed

lemma expire_one_steps:
  assumes one: "expire_one rt now cutoff (reservation_id, org, run_id) c s = Inr (b, s')"
  obtains (none) "\<not> b" "s' = s"
  | (stale) run q s1 released s2 where
      "run \<in> set (runs s)" and "r_id run = run_id" and "r_organization run = org"
      and "q \<in> set (quota_reservations s)" and "qr_id q = reservation_id" and "stale_reservation cutoff q"
      and "(case expiry_target (r_state run) of None \<Rightarrow> Inr s
           | Some (target, failure_code) \<Rightarrow> expire_run now run target failure_code s) = Inr s1"
      and "release_run rt c now org run_id RES_EXPIRED s1 = Inr (released, s2)"
      and "(if \<not> released then Inr (False, s2)
            else
              bindr (service_append rt c now org MAINTENANCE QUOTA_RESERVATION_EXPIRED QUOTA_RESERVATION_RESOURCE
                reservation_id None
                [(''kind'', JStr (run_kind_value (r_kind run))),
                 (''quota_class'', JStr (run_quota_class_value (qr_class q)))] s2) (\<lambda>s.
              bindr (case expiry_target (r_state run) of
                       None \<Rightarrow> Inr s
                     | Some (target, failure_code) \<Rightarrow>
                         service_append rt c now org MAINTENANCE
                           (if target = CANCELLED then RUN_CANCELLED else RUN_FAILED) RUN_RESOURCE (r_id run) None
                           ((''kind'', JStr (run_kind_value (r_kind run))) #
                            (if target = CANCELLED then [] else [(''failure_code'', JStr ''quota_reservation_expired'')])) s)
                (\<lambda>s. Inr (True, s)))) = Inr (b, s')"
proof -
  from one obtain run where run: "find (\<lambda>r. r_id r = run_id \<and> r_organization r = org) (runs s) = Some run"
    by (auto simp: expire_one_def)
  have mem: "run \<in> set (runs s)" "r_id run = run_id" "r_organization run = org" using find_SomeD [OF run] by auto
  show thesis
  proof (cases "find (\<lambda>q. qr_id q = reservation_id \<and> qr_organization q = org \<and> stale_reservation cutoff q) (quota_reservations s)")
    case None
    with one run show ?thesis by (intro none) (simp_all add: expire_one_def)
  next
    case (Some q)
    have q: "q \<in> set (quota_reservations s)" "qr_id q = reservation_id" "stale_reservation cutoff q"
      using find_SomeD [OF Some] by auto
    from one show ?thesis
      unfolding expire_one_def prod.case run require_def Some option.case bindr_simps
      unfolding bindr_eq_Inr split_paired_Ex prod.case by - (elim exE conjE, rule stale [OF mem q])
  qed
qed

text \<open>A run whose reservation ran out: how it moves, and what the sessions of its expiry leave alone.\<close>

lemma expire_one_cases:
  assumes one: "expire_one rt now cutoff (reservation_id, org, run_id) c s = Inr (b, s')" and dig: "digest_ok rt"
    and inv: "jobs_inv rt s" and ok: "constraints_ok s'"
  obtains (none) "\<not> b" "s' = s"
  | (expired) run target code f where "b" and "jobs_inv rt s'" and "run \<in> set (runs s)" and "r_id run = run_id"
      and "r_organization run = org" and "expiry_target (r_state run) = Some (target, code)"
      and "runs s' = update_run (r_id run) f (runs s)" and "r_state (f run) = target" and "r_id (f run) = r_id run"
      and "r_organization (f run) = r_organization run" and "r_kind (f run) = r_kind run"
proof -
  note j = jobs_invD [OF inv]
  have d: "distinct (map r_id (runs s))" using j(1) by (rule constraints_runs)
  from one show thesis
  proof (cases rule: expire_one_steps)
    case none
    then show ?thesis by (rule that(1))
  next
    case (stale run q s1 released s2)
    note mem = stale(1-3) and s1 = stale(7) and rel = stale(8) and rest = stale(9)
    show ?thesis
    proof (cases "expiry_target (r_state run)")
      case None
      with s1 have "s1 = s" by simp
      from None have "is_terminal (r_state run)" by (simp add: expiry_target_None)
      from finished_release_idle [OF j(5) mem(1) this d rel [folded mem(2,3), unfolded \<open>s1 = s\<close>]]
      have "\<not> released" "s2 = s" by simp_all
      with rest show ?thesis by (intro that(1)) simp_all
    next
      case target: (Some x)
      then obtain target code where x: "x = (target, code)" by (cases x)
      with target expiry_target_Some have t: "target \<in> {CANCELLED, FAILED}" "\<not> is_terminal (r_state run)" by blast+
      from s1 have "expire_run now run target code s = Inr s1" by (simp add: target x)
      from expire_run_Inr [OF this t(1) j(4) d mem(1)] obtain f ev where
        f: "s1 = s\<lparr>runs := update_run (r_id run) f (runs s), run_events := ev\<rparr>" "log_ok s1"
          "\<And>r. r_id (f r) = r_id r" "\<And>r. r_organization (f r) = r_organization r"
          "\<And>r. r_kind (f r) = r_kind r" "\<And>r. r_state (f r) = target" by blast
      have ids: "distinct (map qr_id (quota_reservations s))" 
        and uniq: "distinct (map (\<lambda>q. (qr_organization q, qr_run q)) (quota_reservations s))"
        using constraints_reservations [OF j(1)] by auto
      note rel' = rel [folded mem(2,3)]
      have s1': "quota_reservations s1 = quota_reservations s" by (simp add: f(1))
      have released: "released"
        by (rule capacity_ok_release(2) [where s = s and s' = "s2\<lparr>runs := runs s1\<rparr>" and f = f,
              OF j(5) d mem(1) _ f(3) f(4) f(5) ids uniq rel' _ s1']) (use t in \<open>auto simp: f\<close>)
      note fr = release_run_frame [OF rel]
      have a2: "audit_ok rt s2" using release_run_audit_ok [OF rel] j(2) by (simp add: f(1) inv_of_tables)
      have j2: "jobs_ok s2"
        by (rule release_run_jobs_ok [OF rel]) (use j(3) ids in \<open>simp_all add: f(1) inv_of_tables\<close>)
      from rest released obtain s3 where
        s3: "service_append rt c now org MAINTENANCE QUOTA_RESERVATION_EXPIRED QUOTA_RESERVATION_RESOURCE reservation_id None
                [(''kind'', JStr (run_kind_value (r_kind run))),
                 (''quota_class'', JStr (run_quota_class_value (qr_class q)))] s2 = Inr s3"
        and s': "(case expiry_target (r_state run) of None \<Rightarrow> Inr s3
            | Some (target, failure_code) \<Rightarrow> service_append rt c now org MAINTENANCE
                           (if target = CANCELLED then RUN_CANCELLED else RUN_FAILED) RUN_RESOURCE (r_id run) None
                           ((''kind'', JStr (run_kind_value (r_kind run))) #
                            (if target = CANCELLED then [] else [(''failure_code'', JStr ''quota_reservation_expired'')])) s3)
             = Inr s'"
        by (auto simp: bindr_eq_Inr)
      note tail = expire_tail_frame [OF s3 s' dig a2]
      note frame = platform_frame_trans [OF fr tail(1)]
      have runs: "runs s' = update_run (r_id run) f (runs s)" and out: "outbox_messages s' = outbox_messages s"
        and evs: "run_events s' = run_events s1"
        using platform_frame_tables [OF frame] by (simp_all add: f(1))
      have cap: "capacity_ok s'"
        by (rule capacity_ok_release(1) [where f = f, OF j(5) d mem(1) runs f(3) f(4) f(5) ids uniq rel' _ s1' tail(2)])
          (use t in \<open>auto simp: f\<close>)
      have log: "log_ok s'" using f(2) runs evs by (subst log_ok_cong [of _ s1]) (simp_all add: f(1))
      have "jobs_inv rt s'"
        by (rule jobs_inv_move [OF inv log cap tail(3) _ ok runs f(3) f(4) out]) (use j2 tail(4) in simp)
      moreover have "b" using rest released by auto
      ultimately show ?thesis using mem target x runs f(3-6) by (intro that(2) [of run target code f]) auto
    qed
  qed
qed

lemma expire_one_inv:
  assumes "expire_one rt now cutoff candidate c s = Inr (b, s')" and "digest_ok rt"
    and "jobs_inv rt s" and "constraints_ok s'"
  shows "jobs_inv rt s'"
proof -
  obtain reservation_id org run_id where cand: "candidate = (reservation_id, org, run_id)" by (cases candidate)
  from assms(1) [unfolded cand] assms(2-4) show ?thesis
    by (cases rule: expire_one_cases) (use assms(3) in simp_all)
qed

lemma expire_each_inv:
  assumes "digest_ok rt" and "world_ok rt w" and "jobs_inv rt s"
  shows "jobs_inv rt (snd (expire_each rt w cutoff i candidates n s))"
  using assms(3)
proof (induction candidates arbitrary: i n s)
  case (Cons candidate candidates)
  let ?t = "in_session rt (service_context MAINTENANCE (Some (fst (snd candidate))))
      (expire_one rt (w_clock w i) cutoff candidate) (w_env w i s)"
  have "jobs_inv rt (snd ?t)"
    by (rule in_session_preserves [where P = "jobs_inv rt"])
      (use expire_one_inv [OF _ assms(1)] world_okD [OF assms(2) Cons.prems] in auto)
  with Cons.IH show ?case by (auto split: prod.split sum.split)
qed simp

lemma expire_stale_inv:
  assumes "digest_ok rt" and "world_ok rt w" and "jobs_inv rt s"
  shows "jobs_inv rt (snd (expire_stale rt w now limit s))"
proof -
  have "snd (in_session rt (service_context MAINTENANCE None) (\<lambda>c s. Inr (expiry_candidates now (nat limit) s, s)) s) = s"
    by (rule in_session_preserves) auto
  then have "jobs_inv rt t" if "in_session rt (service_context MAINTENANCE None)
      (\<lambda>c s. Inr (expiry_candidates now (nat limit) s, s)) s = (r, t)" for r t
    using assms(3) that by simp
  then show ?thesis
    using assms by (auto simp: expire_stale_def expire_each_inv split: prod.split sum.split)
qed

section \<open>The administrators' operations keep the invariants\<close>

lemma jobs_inv_frame:
  assumes "jobs_inv rt s" and f: "platform_frame s s'" and "quota_reservations s' = quota_reservations s"
    and "audit_ok rt s'" and "jobs_ok s'" and "constraints_ok s'"
  shows "jobs_inv rt s'"
  using jobs_invD [OF assms(1)] assms platform_frame_tables [OF f]
  by (simp add: jobs_inv_def log_ok_cong [of s' s] capacity_ok_cong [of s' s] dispatch_ok_cong [of s' s])

lemma quota_snapshot_inv:
  assumes "quota_snapshot_of rt c now org s = Inr (q, s')" and "jobs_inv rt s" and "constraints_ok s'"
  shows "jobs_inv rt s'" and "q = \<lparr>qs_policy = policy_of org s, qs_usage = usage_of org s\<rparr>"
proof -
  from assms(1) obtain policy usage where l: "locked rt c now org s = Inr ((policy, usage), s')"
    and q: "q = \<lparr>qs_policy = qp_values policy, qs_usage = counters_of usage\<rparr>"
    by (auto simp: quota_snapshot_of_def)
  note j = jobs_invD [OF assms(2)]
  have "jobs_ok s' = jobs_ok s"
    by (rule jobs_ok_cong) (use locked_reservations [OF l] locked_views [OF l] in auto)
  then show "jobs_inv rt s'"
    by (intro jobs_inv_frame [OF assms(2) locked_frame [OF l] locked_reservations [OF l] locked_audit_ok [OF l] _ assms(3)])
      (use j in simp_all)
  show "q = \<lparr>qs_policy = policy_of org s, qs_usage = usage_of org s\<rparr>" using locked_cases [OF l] by (simp add: q)
qed

lemma platform_quota_inv:
  assumes "jobs_inv rt s"
  shows "jobs_inv rt (snd (platform_quota rt now a s))"
  unfolding platform_quota_def
  by (rule in_session_preserves [where P = "jobs_inv rt"]) (use assms quota_snapshot_inv(1) [OF _ assms] in auto)

lemma list_audit_events_same [simp]: "snd (list_audit_events rt a cursor limit f s) = s"
proof -
  have "snd (in_session rt ctx (\<lambda>c s. bindr (admin_actor a s) (\<lambda>_. Inr (p s, s))) s) = s" for ctx and p :: "db \<Rightarrow> audit_page"
    by (rule in_session_preserves) auto
  then show ?thesis by (auto simp: list_audit_events_def split: sum.split prod.split)
qed

lemma policy_of_replace:
  assumes "find_policy org s = Some q"
  shows "policy_of o' (s\<lparr>quota_policies := update_where (\<lambda>q. qp_organization q = org)
             (\<lambda>q. q\<lparr>qp_values := policy, qp_updated_at := now\<rparr>) (quota_policies s)\<rparr>)
      = (if o' = org then policy else policy_of o' s)"
  using assms by (auto simp: policy_of_def find_policy_def find_update_where_key)

lemma usage_within_max_jobs: "usage_within u policy \<Longrightarrow> used_jobs k (counters_of u) \<le> max_jobs k policy"
  by (cases k) (auto simp: usage_within_def used_jobs_def max_jobs_def counters_of_def)

lemma replace_policy_Inr:
  assumes "replace_policy rt now c org policy request_id s = (Inr q, s')"
  obtains current usage s1 s2 s3 where "locked rt c now org s = Inr ((current, usage), s1)" and "usage_within usage policy"
    and "s2 = s1\<lparr>quota_policies := update_where (\<lambda>q. qp_organization q = org)
             (\<lambda>q. q\<lparr>qp_values := policy, qp_updated_at := now\<rparr>) (quota_policies s1)\<rparr>"
    and "service_append rt c now org PLATFORM QUOTA_POLICY_CHANGED QUOTA_POLICY_RESOURCE org request_id
          [(''changed_fields'', JList (map JStr (changed_fields (qp_values current) policy)))] s2 = Inr s3"
    and "quota_snapshot_of rt c now org s3 = Inr (q, s')" and "constraints_ok s'"
  using assms unfolding replace_policy_def
  by (auto split: if_splits dest!: session_Inr)

lemma replace_policy_inv:
  assumes "jobs_inv rt s" and "digest_ok rt"
  shows "jobs_inv rt (snd (replace_policy rt now c org policy request_id s))"
proof (cases "replace_policy rt now c org policy request_id s")
  case (Pair r s')
  show ?thesis
  proof (cases r)
    case (Inl e)
    with Pair have "s' = s" by (auto simp: replace_policy_def split: if_splits dest: session_Inl)
    with Pair assms show ?thesis by simp
  next
    case (Inr q)
    from Pair [unfolded Inr] obtain current usage s1 s2 s3 where l: "locked rt c now org s = Inr ((current, usage), s1)"
      and w: "usage_within usage policy"
      and s2: "s2 = s1\<lparr>quota_policies := update_where (\<lambda>q. qp_organization q = org)
             (\<lambda>q. q\<lparr>qp_values := policy, qp_updated_at := now\<rparr>) (quota_policies s1)\<rparr>"
      and a: "service_append rt c now org PLATFORM QUOTA_POLICY_CHANGED QUOTA_POLICY_RESOURCE org request_id
          [(''changed_fields'', JList (map JStr (changed_fields (qp_values current) policy)))] s2 = Inr s3"
      and q: "quota_snapshot_of rt c now org s3 = Inr (q, s')" and ok: "constraints_ok s'"
      by (rule replace_policy_Inr)
    from q obtain p u where l': "locked rt c now org s3 = Inr ((p, u), s')" by (auto simp: quota_snapshot_of_def)
    note j = jobs_invD [OF assms(1)]
    note lc = locked_cases [OF l] and ap = service_append_frame [OF a]
    have f2: "platform_frame s1 s2" by (simp add: s2 platform_frame_def erase_platform_def)
    have a2: "audit_ok rt s2" using locked_audit_ok [OF l] j(2) by (subst audit_ok_cong [of _ s1]) (simp_all add: s2)
    have view2: "usage_of o' s2 = usage_of o' s" "policy_of o' s2 = (if o' = org then policy else policy_of o' s)" for o'
      using lc locked_views [OF l] policy_of_replace [of org s1 current o' now policy]
      by (simp_all add: s2 usage_of_def find_usage_def)
    have res: "quota_reservations s' = quota_reservations s"
      using locked_reservations [OF l] locked_reservations [OF l'] ap(2) by (simp add: s2)
    have "jobs_ok s'"
      unfolding jobs_ok_def
    proof (intro allI)
      fix o' k
      have "usage_of o' s' = usage_of o' s" "policy_of o' s' = (if o' = org then policy else policy_of o' s)"
        using locked_views [OF l'] ap(3,4) view2 by simp_all
      moreover have "held_jobs o' k s' = held_jobs o' k s" by (simp add: held_jobs_def res)
      moreover have "used_jobs k (usage_of org s) \<le> max_jobs k policy" using usage_within_max_jobs [OF w] lc by simp
      ultimately show "used_jobs k (usage_of o' s') = int (held_jobs o' k s') \<and> used_jobs k (usage_of o' s') \<le> max_jobs k (policy_of o' s')"
        using jobs_okD [OF j(3)] by simp
    qed
    moreover have "platform_frame s s'"
      using locked_frame [OF l] f2 ap(1) locked_frame [OF l'] by (blast intro: platform_frame_trans)
    moreover have "audit_ok rt s'" using ap(5) assms(2) a2 locked_audit_ok [OF l'] by simp
    ultimately show ?thesis using jobs_inv_frame [OF assms(1) _ res _ _ ok] Pair by simp
  qed
qed

section \<open>Paging through the audit log\<close>

abbreviation event_sequence :: "audit_event \<Rightarrow> nat" where
  "event_sequence e \<equiv> ap_sequence (ev_payload e)"

definition events_after :: "(audit_event \<Rightarrow> bool) \<Rightarrow> nat \<Rightarrow> audit_event list \<Rightarrow> audit_event list" where
  "events_after selects after events =
     sort_key event_sequence (filter (\<lambda>e. selects e \<and> after < event_sequence e) events)"

text \<open>A client that follows the cursors, \<open>n\<close> requests at most.\<close>

fun follow_cursors :: "(audit_event \<Rightarrow> bool) \<Rightarrow> nat \<Rightarrow> nat \<Rightarrow> string option \<Rightarrow> audit_event list \<Rightarrow> exn + audit_event list" where
  "follow_cursors selects limit 0 cursor events = Inl (RuntimeError ''too many pages'')"
| "follow_cursors selects limit (Suc n) cursor events =
     bindr (audit_cursor cursor) (\<lambda>after.
     let page = audit_page_of selects after limit events in
     case pg_next_cursor page of None \<Rightarrow> Inr (pg_events page)
     | Some t \<Rightarrow> bindr (follow_cursors selects limit n (Some t) events) (\<lambda>es. Inr (pg_events page @ es)))"

lemma nat_digits_length: "n < 10 ^ k \<Longrightarrow> 0 < k \<Longrightarrow> length (nat_digits n) \<le> k"
proof (induction n arbitrary: k rule: nat_digits.induct)
  case (1 n)
  show ?case
  proof (cases "n < 10")
    case True
    with 1(3) show ?thesis by (subst nat_digits.simps) simp
  next
    case False
    with 1(2,3) obtain m where k: "k = Suc m" "0 < m" by (cases k; cases "k - 1") auto
    with False 1 have "length (nat_digits (n div 10)) \<le> m" by simp
    with False k show ?thesis by (subst nat_digits.simps) simp
  qed
qed

lemma nat_digits_head: "0 < n \<Longrightarrow> hd (nat_digits n) \<noteq> CHR ''0''"
proof (induction n rule: nat_digits.induct)
  case (1 n)
  show ?case
  proof (cases "n < 10")
    case True
    have "of_char (char_of (48 + n) :: char) \<noteq> (of_char CHR ''0'' :: nat)" using True 1(2) by simp
    then have "char_of (48 + n) \<noteq> CHR ''0''" by metis
    with True show ?thesis by (subst nat_digits.simps) simp
  next
    case False
    with 1 show ?thesis by (subst nat_digits.simps) (auto simp: hd_append nat_digits_nonempty)
  qed
qed

lemma audit_cursor_digits: "0 < n \<Longrightarrow> n < 10 ^ 19 \<Longrightarrow> audit_cursor (Some (nat_digits n)) = Inr n"
  using nat_digits_head [of n] nat_digits_length [of n 19]
  by (simp add: audit_cursor_def nat_digits_nonempty nat_digits_all_digits nat_digits_value)

lemma sort_key_filter_split:
  fixes k :: "'a \<Rightarrow> nat"
  assumes "sort_key k xs = ys @ zs" and "distinct (map k xs)" and "ys \<noteq> []"
  shows "sort_key k (filter (\<lambda>x. k (last ys) < k x) xs) = zs"
proof -
  have d: "distinct (map k (ys @ zs))" and so: "sorted (map k (ys @ zs))"
    using assms(1,2) by (metis distinct_map distinct_sort set_sort) (metis assms(1) sorted_sort_key)
  obtain us u where ys: "ys = us @ [u]" using assms(3) by (cases ys rule: rev_cases) auto
  have lo: "\<not> k u < k x" if "x \<in> set ys" for x
    using so that by (auto simp: ys sorted_append)
  have hi: "k u < k x" if "x \<in> set zs" for x
    using so d that by (force simp: ys sorted_append less_le)
  have "sort_key k (filter (\<lambda>x. k u < k x) xs) = filter (\<lambda>x. k u < k x) (sort_key k xs)"
    by (simp add: filter_sort)
  also have "\<dots> = zs" using lo hi by (simp add: assms(1) filter_True cong: filter_cong)
  finally show ?thesis by (simp add: ys)
qed

lemma audit_page_next:
  assumes "distinct (map event_sequence (filter selects events))" and "1 \<le> limit"
    and small: "\<And>e. e \<in> set events \<Longrightarrow> event_sequence e < 10 ^ 19"
  shows "case pg_next_cursor (audit_page_of selects after limit events) of
      None \<Rightarrow> events_after selects after events = pg_events (audit_page_of selects after limit events)
    | Some t \<Rightarrow> \<exists>n. audit_cursor (Some t) = Inr n \<and> length (pg_events (audit_page_of selects after limit events)) = limit
        \<and> events_after selects after events = pg_events (audit_page_of selects after limit events) @ events_after selects n events"
proof -
  let ?E = "events_after selects after events" and ?k = event_sequence
  have page: "audit_page_of selects after limit events = \<lparr>pg_events = take limit ?E,
      pg_next_cursor = (if limit < length ?E then Some (nat_digits (?k (last (take limit ?E)))) else None)\<rparr>"
  proof -
    have "take limit ?E \<noteq> []" if "limit < length ?E" using that assms(2) by (cases ?E) auto
    moreover have "limit < length (take (Suc limit) ?E) \<longleftrightarrow> limit < length ?E" by auto
    ultimately show ?thesis
      by (simp add: audit_page_of_def events_after_def [symmetric] Let_def min_def del: length_take)
  qed
  show ?thesis
  proof (cases "limit < length ?E")
    case True
    let ?v = "take limit ?E"
    have v: "?v \<noteq> []" and len: "length ?v = limit" using True assms(2) by auto
    have "last ?v \<in> set ?E" using last_in_set [OF v] by (meson in_set_takeD)
    then have "last ?v \<in> set events" "after < ?k (last ?v)" by (auto simp: events_after_def)
    then have cur: "audit_cursor (Some (nat_digits (?k (last ?v)))) = Inr (?k (last ?v))"
      by (intro audit_cursor_digits small) auto
    have d: "distinct (map ?k (filter (\<lambda>e. selects e \<and> after < ?k e) events))"
      using distinct_map_filter [OF assms(1), of "\<lambda>e. after < ?k e"] by (simp add: conj_commute)
    have "sort_key ?k (filter (\<lambda>e. ?k (last ?v) < ?k e) (filter (\<lambda>e. selects e \<and> after < ?k e) events)) = drop limit ?E"
      by (rule sort_key_filter_split [OF _ d v]) (simp add: events_after_def)
    moreover have "filter (\<lambda>e. ?k (last ?v) < ?k e) (filter (\<lambda>e. selects e \<and> after < ?k e) events)
        = filter (\<lambda>e. selects e \<and> ?k (last ?v) < ?k e) events"
      using \<open>after < ?k (last ?v)\<close> by (auto intro: filter_cong)
    ultimately have "events_after selects (?k (last ?v)) events = drop limit ?E" by (simp add: events_after_def)
    with True cur len show ?thesis by (simp add: page)
  qed (simp add: page)
qed

text \<open>
  Following the cursors visits every selected event once, in order, and ends: as many requests as
  there are events, and one more, are enough.
\<close>

lemma follow_cursors_from:
  assumes "distinct (map event_sequence (filter selects events))" and "1 \<le> limit"
    and "\<And>e. e \<in> set events \<Longrightarrow> event_sequence e < 10 ^ 19"
    and "audit_cursor cursor = Inr after" and "length (events_after selects after events) < n"
  shows "follow_cursors selects limit n cursor events = Inr (events_after selects after events)"
  using assms(4,5)
proof (induction n arbitrary: cursor after)
  case (Suc n)
  let ?p = "audit_page_of selects after limit events"
  note nx = audit_page_next [OF assms(1-3), of after]
  show ?case
  proof (cases "pg_next_cursor ?p")
    case None
    with nx Suc.prems show ?thesis by (simp add: Let_def)
  next
    case (Some t)
    with nx obtain m where m: "audit_cursor (Some t) = Inr m" "length (pg_events ?p) = limit"
      "events_after selects after events = pg_events ?p @ events_after selects m events" by auto
    then have "length (events_after selects m events) < n" using Suc.prems(2) assms(2) by simp
    from Suc.IH [OF m(1) this] Some m Suc.prems show ?thesis by (simp add: Let_def)
  qed
qed simp

end
