(* ===== verification/History.thy ===== *)
theory History imports Outbox Publication Platform "HOL-Library.Sublist" begin

text \<open>
  Every operation of the job control plane leaves the recorded history alone: it only appends to
  the run events and to the audit log, it deletes no run and rewrites no immutable column of one.
  What a run's log says of its past therefore stays true.
\<close>

section \<open>Extending a history\<close>

text \<open>The columns of a run that no operation rewrites.\<close>

definition run_identity ::
    "run \<Rightarrow> (uuid \<times> uuid \<times> uuid \<times> uuid option) \<times> (uuid option \<times> uuid \<times> run_kind) \<times> (string \<times> nat) \<times> json \<times> string \<times> time" where
  "run_identity r = ((r_id r, r_organization r, r_project r, r_corpus_version r), (r_parent r, r_created_by r, r_kind r),
     (r_idempotency_key r, r_attempt r), r_spec r, r_spec_sha256 r, r_created_at r)"

definition extends :: "db \<Rightarrow> db \<Rightarrow> bool" where
  "extends s s' \<longleftrightarrow> prefix (run_events s) (run_events s') \<and> prefix (audit_events s) (audit_events s')
     \<and> prefix (map run_identity (runs s)) (map run_identity (runs s'))"

lemma extends_refl [simp]: "extends s s"
  by (simp add: extends_def)

lemma extends_trans [trans]: "extends s t \<Longrightarrow> extends t u \<Longrightarrow> extends s u"
  unfolding extends_def by (blast intro: prefix_order.order_trans)

lemma extends_tables:
  assumes "extends s0 s" and "prefix (run_events s) (run_events t)" and "prefix (audit_events s) (audit_events t)"
    and "prefix (map run_identity (runs s)) (map run_identity (runs t))"
  shows "extends s0 t"
  using assms extends_trans [of s0 s t] by (simp add: extends_def)

lemma insert_row_prefix: "insert_row ok r rows = Inr rows' \<Longrightarrow> prefix rows rows'"
  by (simp add: insert_row_eq_Inr)

lemma insert_row_run_prefix: "insert_row ok r rows = Inr rows' \<Longrightarrow> prefix (map run_identity rows) (map run_identity rows')"
  by (simp add: insert_row_eq_Inr)

lemma run_identity_update:
  assumes "\<And>r. run_identity (f r) = run_identity r"
  shows "map run_identity (update_where P f rows) = map run_identity rows"
  using assms by (simp add: update_where_def)

text \<open>The writes of a transaction: each extends whatever its input extends.\<close>

named_theorems extending

lemma ensure_platform_rows_extends [extending]:
  "ensure_platform_rows rt c org now s = Inr s' \<Longrightarrow> extends s0 s \<Longrightarrow> extends s0 s'"
  using ensure_platform_rows_cases [of rt c org now s s']
  by (auto simp: insert_platform_rows_def intro: extends_tables)

lemma locked_extends [extending]: "locked rt c now org s = Inr (p, s') \<Longrightarrow> extends s0 s \<Longrightarrow> extends s0 s'"
  by (cases p) (auto simp: locked_def split: option.splits intro: extending)

lemma update_usage_extends [simp]: "extends s0 (update_usage org f s) = extends s0 s"
  by (simp add: update_usage_def extends_def)

lemma other_tables_extends [simp]:
  "extends s0 (s\<lparr>quota_reservations := a\<rparr>) = extends s0 s"
  "extends s0 (s\<lparr>outbox_messages := b\<rparr>) = extends s0 s"
  "extends s0 (s\<lparr>artifacts := d\<rparr>) = extends s0 s"
  "extends s0 (s\<lparr>datg_publications := e\<rparr>) = extends s0 s"
  "extends s0 (s\<lparr>quota_policies := f\<rparr>) = extends s0 s"
  by (simp_all add: extends_def)

lemma reserve_run_extends [extending]:
  "reserve_run rt c now qid org run s = Inr (b, s') \<Longrightarrow> extends s0 s \<Longrightarrow> extends s0 s'"
  by (auto simp: reserve_run_def Let_def split: option.splits if_splits dest: locked_extends)

lemma release_run_extends [extending]:
  "release_run rt c now org run_id st s = Inr (b, s') \<Longrightarrow> extends s0 s \<Longrightarrow> extends s0 s'"
  by (auto simp: release_run_def split: option.splits if_splits dest: locked_extends)

lemma renew_run_extends [extending]:
  "renew_run rt now org run s = Inr (b, s') \<Longrightarrow> extends s0 s \<Longrightarrow> extends s0 s'"
  by (auto simp: renew_run_def split: option.splits if_splits)

lemma consume_artifact_extends [extending]:
  "consume_artifact rt c now org kind n s = Inr s' \<Longrightarrow> extends s0 s \<Longrightarrow> extends s0 s'"
  by (auto simp: consume_artifact_def split: if_splits dest: locked_extends)

lemma audit_append_extends [extending]:
  assumes "audit_append rt c now org actor action rtype rid request_id metadata s = Inr s'" and "extends s0 s"
  shows "extends s0 s'"
  using assms unfolding audit_append_def Let_def
  by (auto dest!: insert_row_prefix ensure_platform_rows_extends intro: extends_tables)

lemma service_append_extends [extending]:
  "service_append rt c now org identity action rtype rid request_id metadata s = Inr s' \<Longrightarrow> extends s0 s \<Longrightarrow> extends s0 s'"
  by (auto simp: service_append_def intro: extending)

section \<open>The steps that write runs\<close>

lemma extends_append:
  assumes "extends s0 s" and "run_events t = run_events s @ es" and "audit_events t = audit_events s"
    and "map run_identity (runs t) = map run_identity (runs s)"
  shows "extends s0 t"
  by (rule extends_tables [OF assms(1)]) (simp_all add: assms)

lemma finish_submission_extends [extending]:
  assumes "finish_submission rt c now ids a user_id parent attempt ty payload s = Inr (res, s')" and "extends s0 s"
  shows "extends s0 s'"
proof -
  from assms(1) obtain run b s1 e messages action where
    r: "reserve_run rt c now (id_reservation ids) (ac_organization a) run s = Inr (b, s1)"
    and a: "audit_append rt c now (ac_organization a) (audit_user user_id) action RUN_RESOURCE (r_id run)
       (ac_request_id a) (submission_metadata run attempt parent)
       (s1\<lparr>run_events := run_events s1 @ [e], outbox_messages := messages\<rparr>) = Inr s'"
    unfolding finish_submission_def bindr_eq_Inr split_paired_Ex prod.case insert_row_eq_Inr sum.inject prod.inject
    by - (elim exE conjE, hypsubst, rule that)
  show ?thesis
    by (rule audit_append_extends [OF a], rule extends_append [OF reserve_run_extends [OF r assms(2)]]) simp_all
qed

lemma commit_cancellation_extends [extending]:
  assumes "commit_cancellation rt c now oid a user_id run s = Inr (res, s')" and "extends s0 s"
  shows "extends s0 s'"
proof -
  from assms(1) obtain e messages m where
    a: "audit_append rt c now (ac_organization a) (audit_user user_id) RUN_CANCELLATION_REQUESTED RUN_RESOURCE
       (r_id run) (ac_request_id a) m
       (s\<lparr>runs := update_where (cas_matches (ac_organization a) run)
            (\<lambda>r. r\<lparr>r_state := CANCELLING, r_cancellation_requested_at := Some now,
               r_event_sequence := Suc (r_event_sequence run)\<rparr>) (runs s),
          run_events := run_events s @ [e], outbox_messages := messages\<rparr>) = Inr s'"
    unfolding commit_cancellation_def bindr_eq_Inr split_paired_Ex prod.case insert_row_eq_Inr sum.inject prod.inject
    by - (elim exE conjE, hypsubst, rule that)
  show ?thesis
    by (rule audit_append_extends [OF a], rule extends_append [OF assms(2)])
      (simp_all add: run_identity_update run_identity_def)
qed

lemma apply_transition_controls_extends [extending]:
  "apply_transition_controls rt c now run target code s = Inr s' \<Longrightarrow> extends s0 s \<Longrightarrow> extends s0 s'"
  by (cases target)
     (auto simp: apply_transition_controls_def intro: extending split: prod.splits)

lemma commit_transition_extends [extending]:
  assumes "commit_transition rt c now org sha req seen s = Inr s'" and "extends s0 s"
  shows "extends s0 s'"
proof -
  from assms(1) obtain e where
    a: "apply_transition_controls rt c now seen (tr_target req) (tr_failure_code req)
       (s\<lparr>runs := update_where (store_matches org sha seen) (move_run req seen) (runs s),
          run_events := run_events s @ [e]\<rparr>) = Inr s'"
    unfolding commit_transition_def bindr_eq_Inr insert_row_eq_Inr by - (elim exE conjE, hypsubst, rule that)
  show ?thesis
    by (rule apply_transition_controls_extends [OF a], rule extends_append [OF assms(2)])
      (simp_all add: run_identity_update run_identity_def move_run_def)
qed

lemma record_terminal_audit_extends [extending]:
  "record_terminal_audit rt c now run action identity s = Inr s' \<Longrightarrow> extends s0 s \<Longrightarrow> extends s0 s'"
  by (auto simp: record_terminal_audit_def intro: extending)

lemma insert_row_if_append: "(if b then insert_row ok r rows else Inr rows) = Inr rows' \<Longrightarrow> \<exists>es. rows' = rows @ es"
  by (cases b) (auto simp: insert_row_eq_Inr)

lemma cancel_locked_extends [extending]:
  assumes "cancel_locked now run s = Inr (b, s')" and "extends s0 s"
  shows "extends s0 s'"
proof -
  from assms(1) obtain e1 e2 ev1 ev2 b1 b2 x y z where
    e1: "(if b1 then insert_row run_events_ok ev1 (run_events s) else Inr (run_events s)) = Inr e1"
    and e2: "(if b2 then insert_row run_events_ok ev2 e1 else Inr e1) = Inr e2"
    and s': "s' = s\<lparr>run_events := e2, runs := update_run (r_id run)
        (\<lambda>r. r\<lparr>r_state := CANCELLED, r_event_sequence := x, r_cancellation_requested_at :=
             (case r_cancellation_requested_at r of None \<Rightarrow> Some now | t \<Rightarrow> t),
           r_result_summary := None, r_failure_code := None\<rparr>) (runs s)\<rparr>"
    unfolding cancel_locked_def Let_def bindr_eq_Inr sum.inject prod.inject
    by - (elim exE conjE, rule that, assumption, assumption, erule sym)
  from insert_row_if_append [OF e1] insert_row_if_append [OF e2] obtain es where "e2 = run_events s @ es" by auto
  then show ?thesis
    by (intro extends_append [OF assms(2), of s' es]) (simp_all add: s' update_run_def run_identity_update run_identity_def)
qed

lemma commit_datg_publication_extends [extending]:
  "commit_datg_publication rt now did run adopted s = Inr s' \<Longrightarrow> extends s0 s \<Longrightarrow> extends s0 s'"
  by (auto simp: commit_datg_publication_def split: option.splits if_splits)

lemma publish_result_extends [extending]:
  assumes "publish_result rt c now aid did run adopted s = Inr (res, s')" and "extends s0 s"
  shows "extends s0 s'"
proof -
  from assms(1) obtain rows s1 s2 events s3 normalized where
    d: "commit_datg_publication rt now did run adopted (s\<lparr>artifacts := rows\<rparr>) = Inr s1"
    and c: "consume_artifact rt c now (r_organization run) RUN_RESULT (aa_size_bytes adopted) s1 = Inr s2"
    and ev: "insert_row run_events_ok (new_event (r_organization run) (r_id run) (Suc (r_event_sequence run)) ''run.succeeded''
       (JObj [(''result_summary'', normalized), (''state'', JStr (run_state_value SUCCEEDED))]) now) (run_events s2) = Inr events"
    and a: "service_append rt c now (r_organization run) ADOPTION ARTIFACT_ADOPTED ARTIFACT_RESOURCE aid None
       [(''kind'', JStr (artifact_kind_value RUN_RESULT)), (''schema_id'', JStr (aa_schema_id adopted)),
        (''sha256'', JStr (aa_sha256 adopted)), (''size_bytes'', JInt (aa_size_bytes adopted))]
       (s2\<lparr>runs := update_run (r_id run) (succeed_run run normalized) (runs s2), run_events := events\<rparr>) = Inr s3"
    and t: "record_terminal_audit rt c now run RUN_SUCCEEDED ADOPTION s3 = Inr s'"
    unfolding publish_result_def by auto
  have "extends s0 s1" using commit_datg_publication_extends [OF d, of s0] assms(2) by simp
  then have "extends s0 s2" using c by (blast intro: extending)
  then have "extends s0 (s2\<lparr>runs := update_run (r_id run) (succeed_run run normalized) (runs s2), run_events := events\<rparr>)"
    by (rule extends_append) (use ev in \<open>simp_all add: insert_row_eq_Inr update_run_def run_identity_update run_identity_def succeed_run_def\<close>)
  from record_terminal_audit_extends [OF t service_append_extends [OF a this]] show ?thesis .
qed

lemma expire_run_extends [extending]:
  assumes "expire_run now run target code s = Inr s'" and "extends s0 s"
  shows "extends s0 s'"
proof -
  let ?e = "new_event (r_organization run) (r_id run) (Suc (r_event_sequence run))
       (if target = CANCELLED then ''run.cancelled'' else ''run.failed'')
       (case code of None \<Rightarrow> state_payload target
        | Some code \<Rightarrow> JObj [(''failure_code'', JStr code), (''state'', JStr (run_state_value target))]) now"
  from assms(1) have s': "s' = s\<lparr>runs := update_run (r_id run)
         (\<lambda>r. r\<lparr>r_state := target, r_event_sequence := Suc (r_event_sequence run), r_result_summary := None,
            r_failure_code := code\<rparr>) (runs s), run_events := run_events s @ [?e]\<rparr>"
    by (auto simp: expire_run_def)
  show ?thesis
    by (rule extends_append [OF assms(2), where es = "[?e]"])
      (simp_all add: s' update_run_def run_identity_update run_identity_def)
qed

section \<open>Operations\<close>

definition world_extends :: "world \<Rightarrow> bool" where
  "world_extends w \<longleftrightarrow> (\<forall>i t. extends t (w_env w i t))"

lemma world_extendsD: "world_extends w \<Longrightarrow> extends s0 t \<Longrightarrow> extends s0 (w_env w i t)"
  unfolding world_extends_def by (blast intro: extends_trans)

lemma world_extends_later [simp]: "world_extends w \<Longrightarrow> world_extends (later k w)"
  by (simp add: world_extends_def later_def)

lemma submit_in_session_extends:
  assumes "submit_in_session rt c now ids env a user_id submission spec sha key parent attempt ty payload s = (r, base)"
    and "extends s0 s" and "extends s0 (env s)"
  shows "extends s0 base" and "r = Inr (res, s') \<Longrightarrow> extends s0 s'"
proof -
  show base: "extends s0 base"
    using assms by (cases rule: submit_in_session_cases) auto
  assume r: "r = Inr (res, s')"
  from assms(1) show "extends s0 s'"
  proof (cases rule: submit_in_session_cases)
    case (created res' s'' run)
    have "extends s0 ((env s)\<lparr>runs := runs (env s) @ [run]\<rparr>)" by (rule extends_tables [OF assms(3)]) simp_all
    with finish_submission_extends [OF created(8)] created(1) r show ?thesis by simp
  next
    case (replayed existing)
    with r have "s' = base" by (metis replay_submission_Inr(1))
    with base show ?thesis by simp
  qed (use r in simp)
qed

lemma submit_extends:
  assumes "\<And>t. extends t (env t)" and "extends s0 s"
  shows "extends s0 (snd (submit rt now ids env a submission key s))"
proof -
  have env: "extends s0 (env s)" using assms by (blast intro: extends_trans)
  have "extends s0 (snd (contended_session rt ctx (submit_body rt now ids env a submission spec sha key') s))" for ctx spec sha key'
    by (rule contended_session_preserves [of "extends s0", OF assms(2)])
      (use assms(2) env in \<open>auto simp: submit_body_def split: sum.splits dest: submit_in_session_extends\<close>)
  with assms(2) show ?thesis by (auto simp: submit_def split: sum.splits)
qed

lemma retry_extends:
  assumes "\<And>t. extends t (env t)" and "extends s0 s"
  shows "extends s0 (snd (retry rt now ids env a run_id key s))"
proof -
  have env: "extends s0 (env s)" using assms by (blast intro: extends_trans)
  have "extends s0 (snd (contended_session rt ctx (retry_body rt now ids env a run_id key') s))" for ctx key'
    by (rule contended_session_preserves [of "extends s0", OF assms(2)])
      (use assms(2) env in \<open>auto simp: retry_body_def split: sum.splits dest: submit_in_session_extends\<close>)
  with assms(2) show ?thesis by (auto simp: retry_def split: sum.splits)
qed

lemma cancel_attempts_extends:
  assumes "cancel_attempts n rt c now oid env a user_id run_id s = (r, base)"
    and "\<And>i t. extends t (env i t)" and "extends s0 s"
  shows "extends s0 base \<and> (\<forall>res s'. r = Inr (res, s') \<longrightarrow> extends s0 s')"
  using assms(1,3)
proof (induction n arbitrary: s)
  case (Suc n)
  have env: "extends s0 (env n s)" using assms(2) Suc.prems(2) by (blast intro: extends_trans)
  from Suc.prems(1) consider "base = s" "\<And>res s'. r = Inr (res, s') \<Longrightarrow> s' = s"
    | run where "base = env n s" "r = commit_cancellation rt c now oid a user_id run (env n s)"
    | "cancel_attempts n rt c now oid env a user_id run_id (env n s) = (r, base)"
    by (auto simp: Let_def simp del: ensure_transition_eq_Inr split: sum.splits if_splits)
  then show ?case
  proof cases
    case 1
    with Suc.prems(2) show ?thesis by auto
  next
    case (2 run)
    with env commit_cancellation_extends [of rt c now oid a user_id run "env n s"] show ?thesis by auto
  next
    case 3
    with Suc.IH env show ?thesis by blast
  qed
qed auto

lemma request_cancellation_extends:
  assumes "\<And>i t. extends t (env i t)" and "extends s0 s"
  shows "extends s0 (snd (request_cancellation rt now oid env a run_id s))"
  unfolding request_cancellation_def
proof (rule contended_session_preserves [of "extends s0"])
  show "extends s0 base" if "cancel_body rt now oid env a run_id c s = (r, base)" for c r base
    using that assms by (auto simp: cancel_body_def split: sum.splits dest: cancel_attempts_extends)
  show "extends s0 s'" if "cancel_body rt now oid env a run_id c s = (Inr (res, s'), base)" for c res s' base
    using that assms by (auto simp: cancel_body_def split: sum.splits dest!: cancel_attempts_extends)
qed (rule assms(2))

text \<open>The attempts of a compare-and-swap loop, over one attempt.\<close>

lemma attempt_extends:
  assumes "\<And>ctx r base. att ctx s = (r, base) \<Longrightarrow> extends s0 base \<and> (\<forall>a s'. r = Inr (a, s') \<longrightarrow> extends s0 s')"
    and "extends s0 s"
  shows "extends s0 (snd (contended_session rt context att s))"
  by (rule contended_session_preserves [of "extends s0", OF assms(2)]) (use assms(1) in blast)+

lemma transition_attempt_extends:
  assumes "transition_attempt rt now env org run_id sha req c s = (r, base)" and "extends s0 s" and "extends s0 (env s)"
  shows "extends s0 base \<and> (\<forall>a s'. r = Inr (a, s') \<longrightarrow> extends s0 s')"
  using assms(1)
proof (cases rule: transition_attempt_cases)
  case (moved run s2)
  with assms(3) commit_transition_extends [OF moved(6)] show ?thesis by auto
qed (use assms in auto)

lemma progress_attempt_extends:
  assumes "progress_attempt rt now env org run_id sha n p c s = (r, base)" and "extends s0 s" and "extends s0 (env s)"
  shows "extends s0 base \<and> (\<forall>a s'. r = Inr (a, s') \<longrightarrow> extends s0 s')"
  using assms(1)
proof (cases rule: progress_attempt_cases)
  case (recorded run s2)
  have "extends s0 s2"
    by (rule extends_append [OF assms(3)]) (simp_all add: recorded(6) run_identity_update run_identity_def)
  with recorded assms(3) show ?thesis by auto
qed (use assms in auto)

lemma transition_attempts_extends:
  assumes "world_extends w" and "extends s0 s"
  shows "extends s0 (snd (transition_attempts n rt w org run_id sha req s))"
  using assms(2)
proof (induction n arbitrary: s)
  case (Suc n)
  let ?c = "contended_session rt (service_context WORKER (Some org))
      (transition_attempt rt (w_clock w (2 * n)) (w_env w (2 * n)) org run_id sha req) s"
  have "extends s0 (snd ?c)"
    by (rule attempt_extends) (use transition_attempt_extends Suc.prems world_extendsD [OF assms(1)] in blast)+
  with Suc.IH world_extendsD [OF assms(1)] show ?case by (auto split: prod.splits sum.splits option.splits)
qed simp

lemma progress_attempts_extends:
  assumes "world_extends w" and "extends s0 s"
  shows "extends s0 (snd (progress_attempts n rt w org run_id sha k p s))"
  using assms(2)
proof (induction n arbitrary: s)
  case (Suc n)
  let ?c = "contended_session rt (service_context WORKER (Some org))
      (progress_attempt rt (w_clock w (2 * n)) (w_env w (2 * n)) org run_id sha k p) s"
  have "extends s0 (snd ?c)"
    by (rule attempt_extends) (use progress_attempt_extends Suc.prems world_extendsD [OF assms(1)] in blast)+
  with Suc.IH world_extendsD [OF assms(1)] show ?case by (auto split: prod.splits sum.splits option.splits)
qed simp

lemma transition_extends:
  "world_extends w \<Longrightarrow> extends s0 s \<Longrightarrow> extends s0 (snd (transition rt w ref req s))"
  using transition_attempts_extends by (auto simp: transition_def split: sum.splits)

lemma record_progress_extends:
  "world_extends w \<Longrightarrow> extends s0 s \<Longrightarrow> extends s0 (snd (record_progress rt w ref p n s))"
  using progress_attempts_extends by (auto simp: record_progress_def split: sum.splits)

lemma and_then_extends:
  assumes "world_extends w" and "extends s0 (snd (m s))" and "\<And>a t. extends s0 t \<Longrightarrow> extends s0 (snd (f a t))"
  shows "extends s0 (snd (and_then w k m f s))"
  using assms by (cases "m s"; cases "fst (m s)") (auto simp: and_then_def world_extendsD)

lemma store_request_cancellation_extends:
  assumes "world_extends w" and "extends s0 s"
  shows "extends s0 (snd (store_request_cancellation rt w ref s))"
  unfolding store_request_cancellation_def
  by (rule and_then_extends [OF assms(1)]) (use assms in \<open>auto intro: transition_extends\<close>)

lemma acknowledge_cancellation_extends:
  assumes "world_extends w" and "extends s0 s"
  shows "extends s0 (snd (acknowledge_cancellation rt w ref s))"
  unfolding acknowledge_cancellation_def
  by (rule and_then_extends [OF assms(1)]) (use assms in \<open>auto intro: transition_extends store_request_cancellation_extends\<close>)

lemma prepare_extends:
  assumes "world_extends w" and "extends s0 s"
  shows "extends s0 (snd (prepare rt w ref s))"
  unfolding prepare_def
  by (rule and_then_extends [OF assms(1)]) (use assms in \<open>auto intro: transition_extends acknowledge_cancellation_extends\<close>)

lemma begin_execution_extends:
  assumes "world_extends w" and "extends s0 s"
  shows "extends s0 (snd (begin_execution rt w ref s))"
  unfolding begin_execution_def
  by (intro and_then_extends [OF assms(1)])
     (use assms in \<open>auto intro!: and_then_extends transition_extends prepare_extends acknowledge_cancellation_extends\<close>)

lemma complete_extends:
  assumes "world_extends w" and "extends s0 s"
  shows "extends s0 (snd (complete rt w ref summary s))"
proof (cases "normalize_result_summary summary")
  case (Inr v)
  show ?thesis unfolding complete_def Inr sum.case
    by (rule and_then_extends [OF assms(1)]) (use assms in \<open>auto intro!: transition_extends acknowledge_cancellation_extends\<close>)
qed (simp add: complete_def assms)

lemma fail_extends:
  assumes "world_extends w" and "extends s0 s"
  shows "extends s0 (snd (fail rt w ref code s))"
  unfolding fail_def Let_def
  by (rule and_then_extends [OF assms(1)]) (use assms in \<open>auto intro!: transition_extends acknowledge_cancellation_extends\<close>)

lemma commit_adopted_result_extends:
  assumes "extends s0 s"
  shows "extends s0 (snd (commit_adopted_result rt now aid did ref adopted s))"
proof -
  have "extends s0 s'" if body: "commit_adopted_body rt now aid did org run_id sha adopted c s = Inr (res, s')" for org run_id sha c res s'
    using body
  proof (cases rule: commit_adopted_cases)
    case (cancelled run b s1)
    from cancel_locked_extends [OF cancelled(3) assms] have "extends s0 s1" .
    with cancelled(4) record_terminal_audit_extends show ?thesis by (cases b) auto
  next
    case (again run existing)
    with assms show ?thesis by simp
  next
    case (published run)
    from publish_result_extends [OF published(5) assms] show ?thesis .
  qed
  then have "extends s0 (snd (in_session rt ctx (commit_adopted_body rt now aid did org run_id sha adopted) s))" for ctx org run_id sha
    by (intro in_session_preserves [where P = "extends s0", OF _ assms]) blast
  with assms show ?thesis by (auto simp: commit_adopted_result_def split: sum.splits)
qed

lemma claim_each_extends:
  assumes "\<And>i t. extends t (env i t)"
  shows "extends s0 s \<Longrightarrow> claim_each now expired w env i js s = (claimed, s') \<Longrightarrow> extends s0 s'"
proof (induction js arbitrary: i s claimed)
  case (Cons j js)
  have e: "extends s0 (env i s)" using assms Cons.prems(1) by (blast intro: extends_trans)
  show ?case
  proof (cases "find (\<lambda>m. o_id m = j \<and> claimable expired m) (outbox_messages (env i s))")
    case None
    with Cons.prems(2) Cons.IH [OF e] show ?thesis by (simp add: Let_def)
  next
    case (Some m)
    have "extends s0 (env i s\<lparr>outbox_messages := rows\<rparr>)" for rows using e by simp
    from Cons.IH [OF this] Cons.prems(2) Some show ?thesis by (auto simp: Let_def split: prod.splits)
  qed
qed simp

lemma claim_extends:
  assumes "\<And>i t. extends t (env i t)" and "extends s0 s"
  shows "extends s0 (snd (claim rt now w limit lease env s))"
  by (rule claim_keeps [where P = "extends s0", OF assms(2)]) (rule claim_each_extends [OF assms])

lemma mark_published_extends: "extends s0 s \<Longrightarrow> extends s0 (snd (mark_published rt now i w s))"
  unfolding mark_published_def by (rule in_session_preserves [where P = "extends s0"]) auto

lemma release_failed_extends: "extends s0 s \<Longrightarrow> extends s0 (snd (release_failed rt now i w s))"
  unfolding release_failed_def by (rule in_session_preserves [where P = "extends s0"]) auto

lemma dispatch_each_extends:
  assumes "\<And>i t. extends t (env i t)" and "extends s0 s"
  shows "extends s0 (snd (dispatch_each rt clock env publish w i ms (p, f) s))"
  using assms(2)
proof (induction ms arbitrary: i p f s)
  case (Cons m ms)
  have env: "extends s0 (env i s)" using assms(1) Cons.prems by (blast intro: extends_trans)
  show ?case
    using Cons.IH mark_published_extends [OF env, of rt "clock i" "dm_id m" w]
      release_failed_extends [OF env, of rt "clock i" "dm_id m" w]
    by (auto simp: Let_def split: prod.splits sum.splits)
qed simp

lemma dispatch_batch_extends:
  assumes "\<And>i t. extends t (env i t)" and "\<And>i t. extends t (between i t)" and "extends s0 s"
  shows "extends s0 (snd (dispatch_batch rt clock between env publish w limit s))"
proof -
  obtain r s1 where c: "claim rt (clock 0) w limit 60 between s = (r, s1)" by fastforce
  then have "extends s0 s1"
    using claim_extends [where env = between and rt = rt and now = "clock 0" and w = w and limit = limit and lease = 60, OF assms(2,3)]
    by simp
  from dispatch_each_extends [where env = env and i = 1 and p = 0 and f = 0 and rt = rt and clock = clock and publish = publish
      and w = w, OF assms(1) this]
  have "extends s0 (snd (dispatch_each rt clock env publish w 1 ms (0, 0) s1))" for ms .
  with c \<open>extends s0 s1\<close> show ?thesis by (auto simp: dispatch_batch_def split: prod.splits sum.splits) (metis snd_conv)+
qed

lemma expire_one_extends:
  assumes "expire_one rt now cutoff candidate c s = Inr (b, s')" and "extends s0 s"
  shows "extends s0 s'"
  using assms unfolding expire_one_def
  by (auto split: prod.splits option.splits if_splits dest!: expire_run_extends release_run_extends service_append_extends)

lemma expire_each_extends:
  assumes "world_extends w" and "extends s0 s"
  shows "extends s0 (snd (expire_each rt w cutoff i candidates n s))"
  using assms(2)
proof (induction candidates arbitrary: i n s)
  case (Cons candidate candidates)
  let ?t = "in_session rt (service_context MAINTENANCE (Some (fst (snd candidate))))
      (expire_one rt (w_clock w i) cutoff candidate) (w_env w i s)"
  have "extends s0 (snd ?t)"
    by (rule in_session_preserves [where P = "extends s0"])
      (use expire_one_extends world_extendsD [OF assms(1) Cons.prems] in auto)
  with Cons.IH show ?case by (auto split: prod.split sum.split)
qed simp

lemma expire_stale_extends:
  assumes "world_extends w" and "extends s0 s"
  shows "extends s0 (snd (expire_stale rt w now limit s))"
proof -
  have "snd (in_session rt (service_context MAINTENANCE None) (\<lambda>c s. Inr (expiry_candidates now (nat limit) s, s)) s) = s"
    by (rule in_session_preserves) auto
  then have "extends s0 t" if "in_session rt (service_context MAINTENANCE None)
      (\<lambda>c s. Inr (expiry_candidates now (nat limit) s, s)) s = (r, t)" for r t
    using assms(2) that by simp
  then show ?thesis
    using assms by (auto simp: expire_stale_def expire_each_extends split: prod.split sum.split)
qed

lemma quota_snapshot_extends: "quota_snapshot_of rt c now org s = Inr (q, s') \<Longrightarrow> extends s0 s \<Longrightarrow> extends s0 s'"
  by (auto simp: quota_snapshot_of_def dest: locked_extends)

lemma platform_quota_extends: "extends s0 s \<Longrightarrow> extends s0 (snd (platform_quota rt now a s))"
  unfolding platform_quota_def
  by (rule in_session_preserves [where P = "extends s0"]) (auto dest: quota_snapshot_extends)

lemma replace_policy_extends:
  assumes "extends s0 s"
  shows "extends s0 (snd (replace_policy rt now c org policy request_id s))"
proof (cases "replace_policy rt now c org policy request_id s")
  case (Pair r s')
  show ?thesis
  proof (cases r)
    case (Inl e)
    with Pair assms show ?thesis by (auto simp: replace_policy_def split: if_splits dest: session_Inl)
  next
    case (Inr q)
    from Pair [unfolded Inr] show ?thesis
    proof (rule replace_policy_Inr)
      fix current usage s1 s2 s3
      assume l: "locked rt c now org s = Inr ((current, usage), s1)"
        and s2: "s2 = s1\<lparr>quota_policies := update_where (\<lambda>q. qp_organization q = org)
             (\<lambda>q. q\<lparr>qp_values := policy, qp_updated_at := now\<rparr>) (quota_policies s1)\<rparr>"
        and a: "service_append rt c now org PLATFORM QUOTA_POLICY_CHANGED QUOTA_POLICY_RESOURCE org request_id
          [(''changed_fields'', JList (map JStr (changed_fields (qp_values current) policy)))] s2 = Inr s3"
        and q: "quota_snapshot_of rt c now org s3 = Inr (q, s')"
      have "extends s0 s2" using locked_extends [OF l assms] by (simp add: s2)
      from quota_snapshot_extends [OF q service_append_extends [OF a this]] show ?thesis by (simp add: Pair)
    qed
  qed
qed

end
