(* ===== verification/System.thy ===== *)
theory System imports History begin

text \<open>
  The control plane as a whole: the transactions of its services in any order and interleaved in
  any way, with what holds of every database they reach.
\<close>

section \<open>Interleaved operations\<close>

text \<open>
  \<open>evolves rt s s'\<close>: operations of the control plane lead from \<open>s\<close> to \<open>s'\<close>. What other transactions
  commit while an operation runs (\<open>env\<close>, \<open>w\<close>) is itself such a sequence of operations. A directory
  step is a committed change of the tables that the control plane only reads: tenants, users,
  projects, corpora, artifacts.
\<close>

definition directory_step :: "db \<Rightarrow> db \<Rightarrow> bool" where
  "directory_step s s' \<longleftrightarrow> constraints_ok s' \<and> runs s' = runs s \<and> run_events s' = run_events s
     \<and> outbox_messages s' = outbox_messages s \<and> quota_policies s' = quota_policies s
     \<and> quota_usages s' = quota_usages s \<and> quota_reservations s' = quota_reservations s
     \<and> audit_heads s' = audit_heads s \<and> audit_events s' = audit_events s"

inductive evolves :: "runtime \<Rightarrow> db \<Rightarrow> db \<Rightarrow> bool" for rt :: runtime where
  stay: "evolves rt s s"
| andthen: "evolves rt s t \<Longrightarrow> evolves rt t u \<Longrightarrow> evolves rt s u"
| directory: "directory_step s s' \<Longrightarrow> evolves rt s s'"
| submits: "(\<And>t. evolves rt t (env t)) \<Longrightarrow> evolves rt s (snd (submit rt now ids env a submission key s))"
| retries: "(\<And>t. evolves rt t (env t)) \<Longrightarrow> evolves rt s (snd (retry rt now ids env a run_id key s))"
| requests_cancellation: "(\<And>i t. evolves rt t (envs i t)) \<Longrightarrow>
     evolves rt s (snd (request_cancellation rt now oid envs a run_id s))"
| dispatches: "(\<And>i t. evolves rt t (envs i t)) \<Longrightarrow> (\<And>i t. evolves rt t (claim_envs i t)) \<Longrightarrow>
     evolves rt s (snd (dispatch_batch rt clock claim_envs envs publish worker limit s))"
| prepares: "(\<And>i t. evolves rt t (w_env w i t)) \<Longrightarrow> evolves rt s (snd (prepare rt w ref s))"
| begins: "(\<And>i t. evolves rt t (w_env w i t)) \<Longrightarrow> evolves rt s (snd (begin_execution rt w ref s))"
| progresses: "(\<And>i t. evolves rt t (w_env w i t)) \<Longrightarrow> evolves rt s (snd (record_progress rt w ref p n s))"
| completes: "(\<And>i t. evolves rt t (w_env w i t)) \<Longrightarrow> evolves rt s (snd (complete rt w ref summary s))"
| fails: "(\<And>i t. evolves rt t (w_env w i t)) \<Longrightarrow> evolves rt s (snd (fail rt w ref code s))"
| observes_cancellation: "(\<And>i t. evolves rt t (w_env w i t)) \<Longrightarrow>
     evolves rt s (snd (store_request_cancellation rt w ref s))"
| acknowledges_cancellation: "(\<And>i t. evolves rt t (w_env w i t)) \<Longrightarrow>
     evolves rt s (snd (acknowledge_cancellation rt w ref s))"
| adopts: "evolves rt s (snd (commit_adopted_result rt now aid did ref adopted s))"
| expires: "(\<And>i t. evolves rt t (w_env w i t)) \<Longrightarrow> evolves rt s (snd (expire_stale rt w now bound s))"
| reads_quota: "evolves rt s (snd (platform_quota rt now a s))"
| replaces_policy: "evolves rt s (snd (replace_policy rt now c org policy request_id s))"

section \<open>Invariant and history\<close>

lemma directory_step_inv:
  assumes "directory_step s s'" and "jobs_inv rt s"
  shows "jobs_inv rt s'"
proof -
  have "jobs_ok s' = jobs_ok s"
    by (rule jobs_ok_cong)
      (use assms(1) in \<open>simp_all add: directory_step_def usage_of_def policy_of_def find_usage_def find_policy_def\<close>)
  with assms show ?thesis
    unfolding directory_step_def jobs_inv_def
    by (simp add: log_ok_cong [of s' s] capacity_ok_cong [of s' s] dispatch_ok_cong [of s' s] audit_ok_cong [of s' s])
qed

lemma directory_step_extends: "directory_step s s' \<Longrightarrow> extends s s'"
  by (simp add: directory_step_def extends_def)

lemma evolves_inv:
  assumes "evolves rt s s'" and "digest_ok rt"
  shows "jobs_inv rt s \<Longrightarrow> jobs_inv rt s'"
  using assms(1)
proof (induction rule: evolves.induct)
  case (directory s s')
  then show ?case by (rule directory_step_inv)
qed (use assms(2) in \<open>auto intro!: submit_inv retry_inv request_cancellation_inv dispatch_batch_inv prepare_inv
    begin_execution_inv record_progress_inv complete_inv fail_inv store_request_cancellation_inv
    acknowledge_cancellation_inv commit_adopted_result_inv expire_stale_inv platform_quota_inv replace_policy_inv
    simp: world_ok_def\<close>)

lemma evolves_extends: "evolves rt s s' \<Longrightarrow> extends s s'"
proof (induction rule: evolves.induct)
  case (andthen s t u)
  then show ?case by (blast intro: extends_trans)
next
  case (directory s s')
  then show ?case by (simp add: directory_step_extends)
qed (auto intro!: submit_extends retry_extends request_cancellation_extends dispatch_batch_extends prepare_extends
    begin_execution_extends record_progress_extends complete_extends fail_extends store_request_cancellation_extends
    acknowledge_cancellation_extends commit_adopted_result_extends expire_stale_extends platform_quota_extends
    replace_policy_extends simp: world_extends_def)

section \<open>The past of a run\<close>

lemma replay_path: "replay st es = Some st' \<Longrightarrow> lifecycle_step\<^sup>*\<^sup>* st st'"
proof (induction st es rule: replay.induct)
  case (2 st e es)
  show ?case
  proof (cases "event_state e")
    case None
    with 2 show ?thesis by simp
  next
    case (Some t)
    with 2(3) have t: "t \<in> set (transitions st)" "replay t es = Some st'" by (auto split: if_splits)
    from 2(2) [OF Some t] have "lifecycle_step\<^sup>*\<^sup>* t st'" .
    moreover have "lifecycle_step st t" using t(1) by (simp add: lifecycle_step_iff)
    ultimately show ?thesis by (rule converse_rtranclp_into_rtranclp [rotated])
  qed
qed simp

lemma history_kept:
  assumes "extends s s'" and "log_ok s" and "log_ok s'" and "distinct (map r_id (runs s'))" and "r \<in> set (runs s)"
  shows "\<exists>r' \<in> set (runs s'). run_identity r' = run_identity r \<and> r_event_sequence r \<le> r_event_sequence r'
     \<and> prefix (events_of (r_id r) s) (events_of (r_id r) s') \<and> lifecycle_step\<^sup>*\<^sup>* (r_state r) (r_state r')"
proof -
  have "run_identity r \<in> set (map run_identity (runs s))" using assms(5) by simp
  then have "run_identity r \<in> set (map run_identity (runs s'))"
    using assms(1) set_mono_prefix unfolding extends_def by blast
  then obtain r' where r': "r' \<in> set (runs s')" "run_identity r' = run_identity r" by auto
  then have id: "r_id r' = r_id r" by (simp add: run_identity_def)
  obtain es where es: "events_of (r_id r) s' = events_of (r_id r) s @ es"
    using assms(1) by (auto simp: extends_def prefix_def events_of_def)
  have ok: "run_log_ok s r" "run_log_ok s' r'" using assms(2,3,5) r'(1) by (auto simp: log_ok_def)
  then have "replay DRAFT (events_of (r_id r) s @ es) = Some (r_state r')" "replay DRAFT (events_of (r_id r) s) = Some (r_state r)"
    by (simp_all add: run_log_ok_def id es)
  then have "replay (r_state r) es = Some (r_state r')" by (simp add: replay_append)
  then have "lifecycle_step\<^sup>*\<^sup>* (r_state r) (r_state r')" by (rule replay_path)
  moreover have "r_event_sequence r \<le> r_event_sequence r'"
  proof -
    have "length (map e_sequence (events_of (r_id r) s)) = r_event_sequence r"
      using ok(1) by (simp only: run_log_ok_def length_upt)
    moreover have "length (map e_sequence (events_of (r_id r) s')) = r_event_sequence r'"
      using ok(2) by (simp only: run_log_ok_def length_upt id)
    ultimately have "length (events_of (r_id r) s) = r_event_sequence r" "length (events_of (r_id r) s') = r_event_sequence r'"
      by simp_all
    then show ?thesis by (simp add: es)
  qed
  ultimately show ?thesis using r' es by (auto simp: prefix_def)
qed

section \<open>The quota bounds the unfinished runs\<close>

definition unfinished_runs :: "uuid \<Rightarrow> quota_class \<Rightarrow> db \<Rightarrow> run list" where
  "unfinished_runs org k s =
     filter (\<lambda>r. r_organization r = org \<and> run_quota_class (r_kind r) = k \<and> \<not> is_terminal (r_state r)) (runs s)"

lemma unfinished_runs_held:
  assumes "capacity_ok s" and "constraints_ok s"
  shows "length (unfinished_runs org k s) = held_jobs org k s"
proof -
  let ?active = "filter (\<lambda>q. qr_organization q = org \<and> qr_class q = k \<and> qr_state q = RES_ACTIVE) (quota_reservations s)"
  have run: "\<exists>r \<in> set (runs s). r_id r = qr_run q \<and> r_organization r = org \<and> run_quota_class (r_kind r) = k \<and> \<not> is_terminal (r_state r)"
    if "q \<in> set ?active" for q
  proof -
    from that assms(1) obtain r where r: "r \<in> set (runs s)" "r_id r = qr_run q" "r_organization r = qr_organization q"
      "qr_class q = run_quota_class (r_kind r)" by (auto simp: capacity_ok_def)
    with that have "holds_capacity s r" by (auto simp: holds_capacity_def)
    with assms(1) r that show ?thesis by (auto simp: capacity_ok_def)
  qed
  have reservation: "\<exists>q \<in> set ?active. qr_run q = r_id r" if "r \<in> set (unfinished_runs org k s)" for r
    using that assms(1) by (fastforce simp: unfinished_runs_def capacity_ok_def holds_capacity_def)
  have "r_id ` set (unfinished_runs org k s) = qr_run ` set ?active"
    using run reservation by (force simp: unfinished_runs_def)
  moreover have "distinct (map r_id (unfinished_runs org k s))"
    using constraints_runs [OF assms(2)] by (simp add: unfinished_runs_def distinct_map_filter)
  moreover have "distinct (map qr_run ?active)"
  proof -
    have "distinct (map (\<lambda>q. (qr_organization q, qr_run q)) ?active)"
      using constraints_reservations(2) [OF assms(2)] by (rule distinct_map_filter)
    then have "distinct ?active" "inj_on (\<lambda>q. (qr_organization q, qr_run q)) (set ?active)" by (simp_all only: distinct_map)
    moreover have "inj_on qr_run (set ?active)"
      by (rule inj_onI, rule inj_onD [OF calculation(2)]) simp_all
    ultimately show ?thesis by (simp only: distinct_map)
  qed
  ultimately have "length (map r_id (unfinished_runs org k s)) = length (map qr_run ?active)"
    using distinct_card [of "map r_id (unfinished_runs org k s)"] distinct_card [of "map qr_run ?active"]
    by (simp only: set_map)
  then show ?thesis by (simp add: held_jobs_def count_where_def)
qed

section \<open>From the empty database\<close>

lemma jobs_inv_empty: "jobs_inv rt empty_db"
  using constraints_empty audit_ok_empty jobs_ok_empty
  by (simp add: jobs_inv_def log_ok_def capacity_ok_def dispatch_ok_def empty_db_def)

definition reachable :: "runtime \<Rightarrow> db \<Rightarrow> bool" where
  "reachable rt s \<longleftrightarrow> evolves rt empty_db s"

lemma reachable_inv: "reachable rt s \<Longrightarrow> digest_ok rt \<Longrightarrow> jobs_inv rt s"
  unfolding reachable_def using evolves_inv jobs_inv_empty by blast

lemma reachable_evolves: "reachable rt s \<Longrightarrow> evolves rt s t \<Longrightarrow> reachable rt t"
  unfolding reachable_def by (rule andthen)

end
