(* ===== verification/Samples.thy ===== *)
theory Samples imports System "HOL-Library.Code_Target_Numeral" begin

text \<open>
  A small concrete deployment: one organization with one member and one project, a stand-in hash
  with the right output format, and the databases that a submission and the start of its execution
  lead to. The examples of the theorems are computed on them.
\<close>

declare bindr_def [code_unfold] ensure_def [code_unfold] require_def [code_unfold] rescue_def [code_unfold] reraise_def [code_unfold]

definition sample_parsers :: parsers where
  "sample_parsers = \<lparr>parse_repository = (\<lambda>_. None), parse_hosted = (\<lambda>_. None), parse_local = (\<lambda>_. None),
     parse_analysis = (\<lambda>_. None), parse_datg_index = (\<lambda>_. None), parse_datg_generation = (\<lambda>_. None),
     parse_phon_rl = (\<lambda>_. None), parse_phonemize = (\<lambda>_. None), parse_evaluate = (\<lambda>_. None),
     parse_select = (\<lambda>_. None)\<rparr>"

definition sample_digest :: string where
  "sample_digest = replicate 64 (CHR ''a'')"

definition sample_runtime :: runtime where
  "sample_runtime = \<lparr>rt_sha = (\<lambda>_. sample_digest), rt_dialect = SQLite, rt_parsers = sample_parsers,
     rt_nfc = (\<lambda>s. s), rt_nfkd = (\<lambda>s. s), rt_admission = deny_advanced, rt_orm_refresh = True\<rparr>"

definition sample_db :: db where
  "sample_db = empty_db
     \<lparr>organizations := [\<lparr>org_id = 1, org_slug = ''acme'', org_name = ''Acme''\<rparr>],
      users := [\<lparr>u_id = 2, u_oidc_subject = ''alice'', u_display_name = ''Alice''\<rparr>],
      memberships := [\<lparr>m_id = 3, m_organization = 1, m_user = 2, m_role = ADMIN\<rparr>],
      projects := [\<lparr>p_id = 4, p_organization = 1, p_created_by = 2, p_name = ''demo'', p_description = '''',
        p_lifecycle = PROJECT_ACTIVE, p_deletion_requested_at = None, p_deletion_retention_until = None,
        p_deletion_corpus_sentences = None, p_created_at = 0\<rparr>]\<rparr>"

definition sample_actor :: actor where
  "sample_actor = \<lparr>ac_subject = ''alice'', ac_organization = 1, ac_request_id = None\<rparr>"

definition sample_submission :: run_submission where
  "sample_submission = \<lparr>sub_project = 4, sub_kind = DISTRIBUTION, sub_spec = JObj [(''n'', JInt 1)],
     sub_corpus_version = None\<rparr>"

definition sample_ids :: submission_ids where
  "sample_ids = \<lparr>id_run = 10, id_reservation = 11, id_outbox = 12\<rparr>"

definition sample_submit :: "db \<Rightarrow> (exn + submission_result) \<times> db" where
  "sample_submit s = submit sample_runtime 100 sample_ids (\<lambda>t. t) sample_actor sample_submission ''key'' s"

definition sample_ref :: workflow_reference where
  "sample_ref = \<lparr>wr_organization = uuid_str 1, wr_run = uuid_str 10, wr_spec_sha256 = sample_digest\<rparr>"

text \<open>A world in which nothing else happens, at time 200.\<close>

definition calm :: world where
  "calm = \<lparr>w_clock = (\<lambda>_. 200), w_env = (\<lambda>_ s. s)\<rparr>"

lemma calm_env [simp]: "w_env calm i t = t"
  by (simp add: calm_def)

definition sample_run :: "run_state \<Rightarrow> nat \<Rightarrow> run" where
  "sample_run st n = \<lparr>r_id = 10, r_organization = 1, r_project = 4, r_corpus_version = None, r_parent = None,
     r_created_by = 2, r_kind = DISTRIBUTION, r_state = st, r_idempotency_key = ''key'', r_attempt = 1,
     r_event_sequence = n, r_spec = JObj [(''n'', JInt 1)], r_spec_sha256 = sample_digest,
     r_result_summary = None, r_failure_code = None, r_cancellation_requested_at = None, r_created_at = 100\<rparr>"

definition sample_event :: "nat \<Rightarrow> string \<Rightarrow> string \<Rightarrow> time \<Rightarrow> run_event" where
  "sample_event n ty st t = \<lparr>e_organization = 1, e_run = 10, e_sequence = n, e_type = ty,
     e_payload = JObj [(''state'', JStr st)], e_occurred_at = t\<rparr>"

definition sample_reservation :: "time \<Rightarrow> quota_reservation" where
  "sample_reservation expires = \<lparr>qr_id = 11, qr_organization = 1, qr_run = 10, qr_class = CPU, qr_amount = 1,
     qr_state = RES_ACTIVE, qr_expires_at = expires, qr_released_at = None, qr_created_at = 100\<rparr>"

definition sample_message :: "uuid \<Rightarrow> string \<Rightarrow> time \<Rightarrow> outbox_message" where
  "sample_message i ty t = \<lparr>o_id = i, o_organization = 1, o_run = 10, o_event_type = ty,
     o_payload = JObj [(''run_id'', JStr ''00000000-0000-0000-0000-00000000000a''),
       (''kind'', JStr ''distribution''), (''spec_sha256'', JStr sample_digest)],
     o_state = PENDING, o_available_at = t, o_claimed_at = None, o_claimed_by = None,
     o_processed_at = None, o_attempts = 0, o_last_error_code = None, o_created_at = t\<rparr>"

definition sample_usage :: "int \<Rightarrow> time \<Rightarrow> quota_usage" where
  "sample_usage n t = \<lparr>qu_organization = 1, qu_active_cpu_jobs = n, qu_active_expensive_jobs = 0,
     qu_artifact_bytes = 0, qu_artifact_count = 0, qu_corpus_sentences = 0, qu_updated_at = t\<rparr>"

definition sample_head :: "nat \<Rightarrow> time \<Rightarrow> audit_head" where
  "sample_head n t = \<lparr>h_organization = 1, h_last_sequence = n, h_last_hash = sample_digest, h_updated_at = t\<rparr>"

definition sample_audit ::
    "nat \<Rightarrow> actor_kind \<Rightarrow> string \<Rightarrow> audit_action \<Rightarrow> metadata \<Rightarrow> string \<Rightarrow> time \<Rightarrow> audit_event" where
  "sample_audit n kind actor action metadata previous t = \<lparr>ev_payload = \<lparr>ap_organization = 1, ap_sequence = n,
     ap_actor_kind = kind, ap_actor_id = actor, ap_action = action, ap_resource_type = RUN_RESOURCE,
     ap_resource_id = 10, ap_request_id = None, ap_occurred_at = t, ap_metadata = metadata,
     ap_previous_hash = previous\<rparr>, ev_event_hash = sample_digest\<rparr>"

definition sample_submission_audit :: audit_event where
  "sample_submission_audit = sample_audit 1 USER_ACTOR ''00000000-0000-0000-0000-000000000002'' RUN_SUBMITTED
     [(''attempt'', JInt 1), (''kind'', JStr ''distribution''), (''quota_class'', JStr ''cpu'')] audit_genesis_hash 100"

text \<open>The databases after a submission, after the start of its execution, and then after a
  cancellation request or a failure.\<close>

definition submitted_db :: db where
  "submitted_db = sample_db
     \<lparr>runs := [sample_run QUEUED 1],
      run_events := [sample_event 1 ''run.submitted'' ''queued'' 100],
      outbox_messages := [sample_message 12 ''run.dispatch'' 100],
      quota_policies := [\<lparr>qp_organization = 1, qp_values = default_policy, qp_updated_at = 100\<rparr>],
      quota_usages := [sample_usage 1 100],
      quota_reservations := [sample_reservation 600000100],
      audit_heads := [sample_head 1 100],
      audit_events := [sample_submission_audit]\<rparr>"

definition running_db :: db where
  "running_db = submitted_db
     \<lparr>runs := [sample_run RUNNING 3],
      run_events := [sample_event 1 ''run.submitted'' ''queued'' 100,
        sample_event 2 ''run.provisioning'' ''provisioning'' 200, sample_event 3 ''run.started'' ''running'' 200],
      quota_reservations := [sample_reservation 600000200]\<rparr>"

definition cancelling_db :: db where
  "cancelling_db = running_db
     \<lparr>runs := [(sample_run CANCELLING 4)\<lparr>r_cancellation_requested_at := Some 300\<rparr>],
      run_events := run_events running_db @ [sample_event 4 ''run.cancellation_requested'' ''cancelling'' 300],
      outbox_messages := [sample_message 12 ''run.dispatch'' 100, sample_message 13 ''run.cancel'' 300],
      audit_heads := [sample_head 2 300],
      audit_events := [sample_submission_audit,
        sample_audit 2 USER_ACTOR ''00000000-0000-0000-0000-000000000002'' RUN_CANCELLATION_REQUESTED
          [(''prior_state'', JStr ''cancelling'')] sample_digest 300]\<rparr>"

definition failed_db :: db where
  "failed_db = running_db
     \<lparr>runs := [(sample_run FAILED 4)\<lparr>r_failure_code := Some ''boom''\<rparr>],
      run_events := run_events running_db @ [(sample_event 4 ''run.failed'' ''failed'' 200)
        \<lparr>e_payload := JObj [(''failure_code'', JStr ''boom''), (''state'', JStr ''failed'')]\<rparr>],
      quota_usages := [sample_usage 0 200],
      quota_reservations := [(sample_reservation 600000200)\<lparr>qr_state := RES_RELEASED, qr_released_at := Some 200\<rparr>],
      audit_heads := [sample_head 2 200],
      audit_events := [sample_submission_audit, sample_audit 2 SERVICE_ACTOR ''service:worker'' RUN_FAILED
          [(''failure_code'', JStr ''boom''), (''kind'', JStr ''distribution'')] sample_digest 200]\<rparr>"

definition is_Inr :: "'a + 'b \<Rightarrow> bool" where
  "is_Inr x = (case x of Inl _ \<Rightarrow> False | Inr _ \<Rightarrow> True)"

lemma is_InrD: "is_Inr (fst p) \<Longrightarrow> \<exists>a. p = (Inr a, snd p)"
  by (cases p) (auto simp: is_Inr_def split: sum.splits)

section \<open>The databases are reached\<close>

lemma sample_digest_ok: "digest_ok sample_runtime"
  by (simp add: digest_ok_def sample_runtime_def sample_digest_def is_sha256_hex_def is_hex_char_def list_all_iff)

lemma sample_submit_db: "snd (sample_submit sample_db) = submitted_db"
  by code_simp

lemma sample_submit_result: "is_Inr (fst (sample_submit sample_db))"
  by code_simp

lemma sample_begin: "begin_execution sample_runtime calm sample_ref submitted_db = (Inr True, running_db)"
  by code_simp

lemma sample_cancel:
  "snd (request_cancellation sample_runtime 300 13 (\<lambda>_ t. t) sample_actor 10 running_db) = cancelling_db"
  by code_simp

lemma sample_fail: "fail sample_runtime calm sample_ref ''boom'' running_db = (Inr FAILED, failed_db)"
  by code_simp

lemma sample_db_reachable: "reachable sample_runtime sample_db"
  unfolding reachable_def
proof (rule directory)
  have "constraints_ok sample_db" by code_simp
  then show "directory_step empty_db sample_db" by (simp add: directory_step_def sample_db_def)
qed

lemma submitted_db_evolves: "evolves sample_runtime sample_db submitted_db"
proof -
  have "evolves sample_runtime sample_db (snd (sample_submit sample_db))"
    unfolding sample_submit_def by (intro submits stay)
  then show ?thesis by (simp only: sample_submit_db)
qed

lemma running_db_evolves: "evolves sample_runtime submitted_db running_db"
proof -
  have "evolves sample_runtime submitted_db (snd (begin_execution sample_runtime calm sample_ref submitted_db))"
    by (rule begins) (simp add: stay)
  then show ?thesis by (simp only: sample_begin snd_conv)
qed

lemmas submitted_db_reachable = reachable_evolves [OF sample_db_reachable submitted_db_evolves]
lemmas running_db_reachable = reachable_evolves [OF submitted_db_reachable running_db_evolves]

lemma cancelling_db_reachable: "reachable sample_runtime cancelling_db"
  using reachable_evolves [OF running_db_reachable requests_cancellation [of _ "\<lambda>_ t. t" _ 300 13 sample_actor 10]]
  by (simp add: sample_cancel stay)

lemma failed_db_reachable: "reachable sample_runtime failed_db"
  using reachable_evolves [OF running_db_reachable fails [of _ calm _ sample_ref "''boom''"]]
  by (simp add: sample_fail stay)

lemmas submitted_db_inv = reachable_inv [OF submitted_db_reachable sample_digest_ok]
lemmas running_db_inv = reachable_inv [OF running_db_reachable sample_digest_ok]

lemma calm_ok: "world_ok rt calm"
  by (simp add: world_ok_def)

lemma sample_constraints: "constraints_ok sample_db"
  using reachable_inv [OF sample_db_reachable sample_digest_ok] by (rule jobs_invD(1))

end
