(* ===== verification/Guarantees.thy ===== *)
theory Guarantees imports Samples begin

text \<open>
  The guarantees of the job control plane, over every interleaving of its operations: the
  invariant, the history of a run, the quota, the idempotency of submissions and the audit log.
  Each is followed by an instance on the sample deployment.
\<close>

section \<open>Reachable databases\<close>

text \<open>
  C1. Whatever the interleaving of submissions, retries, cancellations, dispatches, worker steps,
  publications, expiries and policy changes, every database that is reached satisfies the schema's
  constraints; each run's event log is gapless and replays to the state of its row; a run holds an
  active capacity reservation exactly while it is unfinished and has a dispatch intent; the usage
  counters equal the active reservations and stay within the policy; and every audit chain links up.
\<close>

theorem control_plane_invariant:
  assumes "reachable rt s" and "digest_ok rt"
  shows "constraints_ok s \<and> log_ok s \<and> capacity_ok s \<and> dispatch_ok s \<and> jobs_ok s \<and> audit_ok rt s"
  using reachable_inv [OF assms] by (simp add: jobs_inv_def)

theorem control_plane_invariant_witness:
  "capacity_ok running_db \<and> log_ok running_db \<and> runs running_db \<noteq> []"
  using control_plane_invariant [OF running_db_reachable sample_digest_ok] by (simp add: running_db_def)

text \<open>
  C5. No operation of the control plane (no step of \<open>evolves\<close>) deletes a run, rewrites its identity
  (project, specification, idempotency key, lineage) or its recorded events; its state only moves
  along the lifecycle, and a finished run stays as it is. The purge of a deleted project, which
  removes its runs, is an operation of the workspaces and not one of these.
\<close>

theorem run_history_kept:
  assumes "digest_ok rt" and "reachable rt s" and "evolves rt s s'" and "r \<in> set (runs s)"
  shows "\<exists>r' \<in> set (runs s'). run_identity r' = run_identity r
     \<and> prefix (events_of (r_id r) s) (events_of (r_id r) s') \<and> lifecycle_step\<^sup>*\<^sup>* (r_state r) (r_state r')
     \<and> (is_terminal (r_state r) \<longrightarrow> r_state r' = r_state r)"
proof -
  note j = reachable_inv [OF assms(2,1)]
  note j' = evolves_inv [OF assms(3,1) j]
  from history_kept [OF evolves_extends [OF assms(3)] jobs_invD(4) [OF j] jobs_invD(4) [OF j']
      constraints_runs(1) [OF jobs_invD(1) [OF j']] assms(4)]
  show ?thesis using lifecycle_terminal_stuck by blast
qed

theorem run_history_kept_witness:
  "\<exists>r' \<in> set (runs running_db). run_identity r' = run_identity (sample_run QUEUED 1)
     \<and> lifecycle_step\<^sup>*\<^sup>* QUEUED (r_state r')"
proof -
  have "sample_run QUEUED 1 \<in> set (runs submitted_db)" by (simp add: submitted_db_def)
  from run_history_kept [OF sample_digest_ok submitted_db_reachable running_db_evolves this]
  show ?thesis by (auto simp: sample_run_def)
qed

text \<open>
  C3. An organization never has more unfinished runs of a class than its quota policy allows, at
  any moment and under any interleaving, retries and policy replacements included.
\<close>

theorem quota_bounds_unfinished_runs:
  assumes "reachable rt s" and "digest_ok rt"
  shows "int (length (unfinished_runs org k s)) = used_jobs k (usage_of org s)
    \<and> int (length (unfinished_runs org k s)) \<le> max_jobs k (policy_of org s)"
proof -
  note j = reachable_inv [OF assms]
  have eq: "int (length (unfinished_runs org k s)) = used_jobs k (usage_of org s)"
    using unfinished_runs_held [OF jobs_invD(5,1) [OF j]] jobs_okD(1) [OF jobs_invD(3) [OF j]] by simp
  with jobs_okD(2) [OF jobs_invD(3) [OF j], of k org] show ?thesis by simp
qed

theorem quota_bounds_unfinished_runs_witness:
  "length (unfinished_runs 1 CPU running_db) = 1 \<and> max_jobs CPU (policy_of 1 running_db) = 3 \<and> (1::int) \<le> 3"
proof -
  have n: "length (unfinished_runs 1 CPU running_db) = 1" and m: "max_jobs CPU (policy_of 1 running_db) = 3"
    by code_simp+
  with quota_bounds_unfinished_runs [OF running_db_reachable sample_digest_ok, of 1 CPU] show ?thesis by simp
qed

section \<open>Submissions\<close>

lemma idempotent_run_kept:
  assumes "extends s s'" and "idempotent_run org key s = Some r" and "constraints_ok s'"
  shows "\<exists>r'. idempotent_run org key s' = Some r' \<and> run_identity r' = run_identity r"
proof -
  note r = idempotent_run_Some [OF assms(2)]
  then have "run_identity r \<in> set (map run_identity (runs s'))"
    using assms(1) set_mono_prefix unfolding extends_def by fastforce
  then obtain r' where r': "r' \<in> set (runs s')" "run_identity r' = run_identity r" by auto
  with r have key: "r_organization r' = org" "r_idempotency_key r' = key" by (simp_all add: run_identity_def)
  then obtain x where x: "idempotent_run org key s' = Some x"
    using r'(1) by (cases "idempotent_run org key s'") (auto simp: idempotent_run_def find_None_iff_set)
  note d = constraints_runs(2) [OF assms(3)]
  have "x = r'" using idempotent_run_Some [OF x] r' key by (intro distinct_map_inj [OF d]) simp_all
  with x r' show ?thesis by simp
qed

text \<open>
  C2. An idempotency key is bound for good: however the database evolves after a submission, a
  later submission of the same request under the same key creates nothing and returns the same run.
\<close>

theorem submission_idempotent:
  assumes "digest_ok rt" and "reachable rt s" and "\<And>t. evolves rt t (env t)"
    and first: "submit rt now ids env a submission key s = (Inr res, s')" and "evolves rt s' u"
    and later: "submit rt now' ids' env' a submission key u = (Inr res', u')"
  shows "\<not> sr_created res' \<and> rs_id (sr_run res') = rs_id (sr_run res) \<and> u' = u"
proof -
  note j = reachable_inv [OF assms(2,1)]
  have "evolves rt s s'" using submits [OF assms(3), of s now ids a submission key] first by simp
  then have ju: "jobs_inv rt u" using evolves_inv [OF _ assms(1)] assms(5) j by blast
  from first obtain r spec sha where r: "idempotent_run (ac_organization a) key s' = Some r" "r_id r = rs_id (sr_run res)"
  proof (rule submit_Inr)
    fix spec sha c user_id base
    assume "submit_in_session rt c now ids env a user_id submission spec sha key None 1 ''run.submitted''
        (state_payload QUEUED) s = (Inr (res, s'), base)"
    from submit_in_session_stored [OF this] jobs_invD(5) [OF evolves_inv [OF assms(3,1) j]] that show thesis by blast
  qed
  from idempotent_run_kept [OF evolves_extends [OF assms(5)] r(1) jobs_invD(1) [OF ju]]
  obtain x where x: "idempotent_run (ac_organization a) key u = Some x" "r_id x = r_id r" by (auto simp: run_identity_def)
  from later show ?thesis
  proof (rule submit_Inr)
    fix spec sha c user_id base
    assume "submit_in_session rt c now' ids' env' a user_id submission spec sha key None 1 ''run.submitted''
        (state_payload QUEUED) u = (Inr (res', u'), base)"
    with x(1) have "replay_submission x submission sha None u = Inr (res', u')" by (auto simp: submit_in_session_def)
    from replay_submission_Inr [OF this] x(2) r(2) show ?thesis by simp
  qed
qed

theorem submission_idempotent_witness:
  "\<exists>res res' u'. sample_submit sample_db = (Inr res, submitted_db) \<and> sample_submit running_db = (Inr res', u')
     \<and> \<not> sr_created res' \<and> rs_id (sr_run res') = rs_id (sr_run res)"
proof -
  obtain res where a: "sample_submit sample_db = (Inr res, submitted_db)"
    using is_InrD [OF sample_submit_result] by (auto simp: sample_submit_db)
  have "is_Inr (fst (sample_submit running_db))" by code_simp
  then obtain res' where b: "sample_submit running_db = (Inr res', snd (sample_submit running_db))" using is_InrD by blast
  from submission_idempotent [OF sample_digest_ok sample_db_reachable _ a [unfolded sample_submit_def] running_db_evolves
      b [unfolded sample_submit_def]] a b
  show ?thesis by (auto intro: stay)
qed

section \<open>Audit\<close>

text \<open>
  C6. The audit log is append-only under the operations of the control plane (the steps of \<open>evolves\<close>),
  and in every database they reach the log of an organization verifies exactly when the organization
  has a chain head. One without a head has no event either, so no log is left unverified.
\<close>

theorem audit_log_append_only:
  assumes "digest_ok rt" and "reachable rt s" and "evolves rt s s'"
  shows "audit_verify rt org s' = Inr (find_head org s' \<noteq> None)
    \<and> (find_head org s' \<noteq> None \<or> organization_events org s' = [])
    \<and> prefix (audit_events s) (audit_events s')"
proof -
  have "jobs_inv rt s'" using evolves_inv [OF assms(3,1)] reachable_inv [OF assms(2,1)] by blast
  then have ok: "chain_ok rt s' org" using jobs_invD(2) by (simp add: audit_ok_def)
  have "audit_verify rt org s' = Inr (find_head org s' \<noteq> None)"
    using chain_ok_verifies [OF ok] by (cases "find_head org s'") (simp_all add: audit_verify_def)
  moreover have "find_head org s' \<noteq> None \<or> organization_events org s' = []"
    using ok by (auto simp: chain_ok_def split: option.splits)
  ultimately show ?thesis using evolves_extends [OF assms(3)] by (simp add: extends_def)
qed

theorem audit_log_append_only_witness:
  "audit_verify sample_runtime 1 running_db = Inr True \<and> length (audit_events running_db) = 1
     \<and> audit_verify sample_runtime 99 running_db = Inr False"
proof -
  have "find_head 1 running_db \<noteq> None" "find_head 99 running_db = None"
    by (simp_all add: find_head_def running_db_def submitted_db_def sample_head_def)
  with audit_log_append_only [OF sample_digest_ok submitted_db_reachable running_db_evolves, of 1]
    audit_log_append_only [OF sample_digest_ok submitted_db_reachable running_db_evolves, of 99]
  show ?thesis by (simp add: running_db_def submitted_db_def)
qed

end
