(* ===== verification/WorkGuarantees.thy ===== *)
theory WorkGuarantees imports Samples begin

text \<open>
  What the workers, the dispatcher and the artifact publication promise: exclusive leases,
  cancellation that ends a run and publishes nothing, results that are published once, progress
  that only advances, and the lineage of a retried run.
\<close>

definition sample_adopted :: adopted_artifact where
  "sample_adopted = \<lparr>aa_sha256 = sample_digest, aa_size_bytes = 20,
     aa_storage_key = ''artifacts/v1/00000000000000000000000000000001/00000000000000000000000000000004/0000000000000000000000000000000a/run-result/aa/'' @ sample_digest,
     aa_media_type = ''application/json'', aa_filename = ''result.json'', aa_schema_id = ''corpuskit.result.v1'',
     aa_retention_until = 5000, aa_datg_index = None\<rparr>"

section \<open>Leases\<close>

text \<open>
  C7. The outbox is leased exclusively. Worker \<open>w1\<close> claims at \<open>t1\<close>, with any steps \<open>beside\<close> it before each of
  its UPDATEs and after its commit: new messages, claims of other workers with steps between their
  statements, acknowledgements, and releases by others. A later claim, of any worker, whose candidates may
  have been selected at any time, even before the first claim, gets none of the messages of the first, as
  long as the leases of \<open>t1\<close> have not run out for it. A claim returns at most \<open>limit\<close> messages, each of
  them free and available when it selected its candidates.
\<close>

theorem outbox_lease_exclusive:
  assumes "outbox_ok (outbox_messages s)" and "claim rt t1 w1 n1 lease1 env1 s = (Inr claimed1, s1)"
    and "\<And>i t. beside rt w1 t1 t (env1 i t)" and "beside rt w1 t1 s1 u"
    and "claim_each t2 expired w2 env2 i candidates u = (claimed2, s2)" and "\<And>i t. beside rt w1 t1 t (env2 i t)"
    and "expired \<le> t1"
  shows "dm_id ` set claimed1 \<inter> dm_id ` set claimed2 = {} \<and> length claimed1 \<le> n1
    \<and> (\<forall>d \<in> set claimed1. \<exists>m \<in> set (outbox_messages s).
         o_id m = dm_id d \<and> claimable (t1 - lease1 * second) m \<and> o_available_at m \<le> t1)"
  using claim_exclusive [OF assms(2,1,3-7)] claim_selects [OF assms(2)] by simp

theorem outbox_lease_exclusive_witness:
  "\<exists>c1 s1 c2 s2. claim sample_runtime 200 ''w'' 5 60 (\<lambda>_ t. t) cancelling_db = (Inr c1, s1) \<and> c1 \<noteq> []
     \<and> claim_each 300 (300 - 60 * second) ''v'' (\<lambda>_ t. t) 0 [12, 13] s1 = (c2, s2) \<and> c2 \<noteq> []
     \<and> dm_id ` set c1 \<inter> dm_id ` set c2 = {}"
proof -
  let ?p = "claim sample_runtime 200 ''w'' 5 60 (\<lambda>_ t. t) cancelling_db"
  let ?q = "claim_each 300 (300 - 60 * second) ''v'' (\<lambda>_ t. t) 0 [12, 13] (snd ?p)"
  have p: "map_sum (\<lambda>_. ()) (map dm_id) (fst ?p) = Inr [12]" and q: "map dm_id (fst ?q) = [13]"
    by code_simp+
  from p obtain c1 where c1: "?p = (Inr c1, snd ?p)" "map dm_id c1 = [12]" by (cases ?p; cases "fst ?p") auto
  obtain c2 s2 where c2: "?q = (c2, s2)" by (rule prod.exhaust)
  from q have c2_ids: "map dm_id c2 = [13]" unfolding c2 by simp
  have "outbox_ok (outbox_messages cancelling_db)"
    using jobs_invD(1) [OF reachable_inv [OF cancelling_db_reachable sample_digest_ok]] by (simp add: constraints_ok_def)
  from outbox_lease_exclusive [OF this c1(1) beside.idle beside.idle c2 beside.idle]
  have "dm_id ` set c1 \<inter> dm_id ` set c2 = {}" by (simp add: second_def)
  moreover have "c1 \<noteq> []" "c2 \<noteq> []" using c1(2) c2_ids by auto
  ultimately show ?thesis using c1(1) c2 by blast
qed

section \<open>Cancellation\<close>

text \<open>
  C4. A result that arrives for a run with a cancellation, requested or done, is not published:
  the adoption answers \<open>cancelled\<close>, stores no artifact, and leaves the run cancelled.
\<close>

theorem cancelled_result_not_published:
  assumes "reachable rt s" and "digest_ok rt"
    and "commit_adopted_result rt now aid did ref adopted s = (Inr res, s')"
    and "store_ids ref = Inr (org, i)" and "r \<in> set (runs s)" and "r_id r = i"
    and "r_state r \<in> {CANCELLING, CANCELLED} \<or> r_cancellation_requested_at r \<noteq> None"
  shows "res = \<lparr>cm_state = CANCELLED, cm_artifact = None, cm_created = False\<rparr> \<and> artifacts s' = artifacts s
    \<and> run_in_state ref CANCELLED s'"
  using cancelled_run_publishes_nothing [OF assms(2) reachable_inv [OF assms(1,2)] assms(3-7)] by simp

theorem cancelled_result_not_published_witness:
  "\<exists>s'. commit_adopted_result sample_runtime 400 30 31 sample_ref sample_adopted cancelling_db
      = (Inr \<lparr>cm_state = CANCELLED, cm_artifact = None, cm_created = False\<rparr>, s') \<and> artifacts s' = []"
proof -
  let ?p = "commit_adopted_result sample_runtime 400 30 31 sample_ref sample_adopted cancelling_db"
  have ok: "is_Inr (fst ?p)" and runs: "map (\<lambda>r. (r_id r, r_state r)) (runs cancelling_db) = [(10, CANCELLING)]"
    and ids: "store_ids sample_ref = Inr (1, 10)" and none: "artifacts cancelling_db = []"
    by code_simp+
  from runs obtain r where r: "r \<in> set (runs cancelling_db)" "r_id r = 10" "r_state r = CANCELLING"
    by (cases "runs cancelling_db") auto
  from is_InrD [OF ok] obtain res where res: "?p = (Inr res, snd ?p)" by blast
  from cancelled_result_not_published [OF cancelling_db_reachable sample_digest_ok res ids r(1,2)] r(3) res none
  show ?thesis by (intro exI [of _ "snd ?p"]) simp
qed

lemma cancel_attempts_step:
  assumes "cancel_attempts (Suc n) rt c now oid env a user_id run_id s = (Inr (snap, s'), base)"
  obtains (already) r where "get_run (ac_organization a) run_id s = Inr r" "r_state r = CANCELLING"
      "snapshot_run r s = Inr snap" "s' = s"
  | (committed) run where "get_run (ac_organization a) run_id s = Inr run"
      "list_ex (cas_matches (ac_organization a) run) (runs (env n s))"
      "commit_cancellation rt c now oid a user_id run (env n s) = Inr (snap, s')"
  | (lost) "cancel_attempts n rt c now oid env a user_id run_id (env n s) = (Inr (snap, s'), base)"
proof (cases "get_run (ac_organization a) run_id s")
  case (Inl e)
  with assms show thesis by simp
next
  case run: (Inr run)
  show thesis
  proof (cases "r_state run = CANCELLING")
    case True
    with run assms show thesis by (intro already [of run]) auto
  next
    case False
    show thesis
    proof (cases "ensure_transition (r_state run) CANCELLING")
      case (Inl e)
      with run False assms show thesis by simp
    next
      case (Inr u)
      show thesis
      proof (cases "list_ex (cas_matches (ac_organization a) run) (runs (env n s))")
        case True
        with run False Inr assms show thesis
          by (intro committed [of run]) (auto simp add: Let_def simp del: ensure_transition_eq_Inr)
      next
        case no: False
        with run False Inr assms show thesis
          by (intro lost) (simp add: Let_def del: ensure_transition_eq_Inr)
      qed
    qed
  qed
qed

lemma cancel_attempts_run:
  assumes "cancel_attempts n rt c now oid env a user_id run_id s = (Inr (snap, s'), base)"
    and "jobs_inv rt s" and "\<And>i t. jobs_inv rt t \<Longrightarrow> jobs_inv rt (env i t)"
  shows "\<exists>r \<in> set (runs s'). r_id r = run_id \<and> r_organization r = ac_organization a \<and> r_state r = CANCELLING
    \<and> snapshot_run r s' = Inr snap"
  using assms(1,2)
proof (induction n arbitrary: s)
  case (Suc n)
  note env = assms(3) [OF Suc.prems(2), of n]
  from Suc.prems(1) show ?case
  proof (cases rule: cancel_attempts_step)
    case (already r)
    with get_run_Inr [OF already(1)] show ?thesis by auto
  next
    case (committed run)
    note id = get_run_Inr [OF committed(1)]
    let ?f = "\<lambda>r. r\<lparr>r_state := CANCELLING, r_cancellation_requested_at := Some now,
               r_event_sequence := Suc (r_event_sequence run)\<rparr>"
    from committed(3) obtain r ev ms where r: "get_run (ac_organization a) (r_id run) s' = Inr r" "snapshot_run r s' = Inr snap"
      and "audit_append rt c now (ac_organization a) (audit_user user_id) RUN_CANCELLATION_REQUESTED RUN_RESOURCE
       (r_id run) (ac_request_id a) [(''prior_state'', JStr (run_state_value (observed_state rt (r_state run) CANCELLING)))]
       ((env n s)\<lparr>runs := update_where (cas_matches (ac_organization a) run) ?f (runs (env n s)),
          run_events := ev, outbox_messages := ms\<rparr>) = Inr s'"
      by (rule commit_cancellation_steps)
    from platform_frame_tables [OF audit_append_frame(1) [OF this(3)]]
    have rows: "runs s' = update_where (cas_matches (ac_organization a) run) ?f (runs (env n s))" by simp
    from cas_update [OF constraints_runs(1) [OF jobs_invD(1) [OF env]] committed(2), of ?f]
    have "runs s' = update_run (r_id run) ?f (runs (env n s))" by (metis rows)
    with get_run_Inr [OF r(1)] have "r_state r = CANCELLING" by (auto simp: update_run_def set_update_where split: if_splits)
    with get_run_Inr [OF r(1)] r(2) id show ?thesis by auto
  next
    case lost
    with Suc.IH env show ?thesis by blast
  qed
qed simp

text \<open>
  C10. A cancellation request that succeeds leaves the run cancelling and reports it so, whichever
  other operations interleave with its compare-and-swap.
\<close>

theorem cancellation_request_recorded:
  assumes "digest_ok rt" and "reachable rt s" and "\<And>i t. evolves rt t (env i t)"
    and "request_cancellation rt now oid env a run_id s = (Inr snap, s')"
  shows "rs_id snap = run_id \<and> rs_state snap = CANCELLING
    \<and> (\<exists>r \<in> set (runs s'). r_id r = run_id \<and> r_organization r = ac_organization a \<and> r_state r = CANCELLING)"
proof -
  from assms(4) obtain c base user_id where
    "cancel_attempts 3 rt c now oid env a user_id run_id s = (Inr (snap, s'), base)"
    unfolding request_cancellation_def
    by (auto dest!: contended_session_Inr simp: cancel_body_def split: sum.splits)
  from cancel_attempts_run [OF this reachable_inv [OF assms(2,1)]] evolves_inv [OF assms(3,1)]
  show ?thesis by (auto simp: snapshot_run_def)
qed

theorem cancellation_request_recorded_witness:
  "\<exists>snap. request_cancellation sample_runtime 300 13 (\<lambda>_ t. t) sample_actor 10 running_db = (Inr snap, cancelling_db)
     \<and> rs_state snap = CANCELLING"
proof -
  have "is_Inr (fst (request_cancellation sample_runtime 300 13 (\<lambda>_ t. t) sample_actor 10 running_db))" by code_simp
  from is_InrD [OF this] obtain snap where
    r: "request_cancellation sample_runtime 300 13 (\<lambda>_ t. t) sample_actor 10 running_db = (Inr snap, cancelling_db)"
    by (auto simp: sample_cancel)
  from cancellation_request_recorded [OF sample_digest_ok running_db_reachable _ r] show ?thesis using r by (auto intro: stay)
qed

text \<open>
  C25. The audit event of a user's cancellation request does not record the state the run was in:
  where the ORM synchronises the loaded row with its UPDATE, \<open>prior_state\<close> is read afterwards and is
  always \<open>cancelling\<close>.
\<close>

theorem cancellation_audit_prior_state:
  assumes "rt_orm_refresh rt" and "commit_cancellation rt c now oid a user_id seen s = Inr (snap, s')"
  shows "\<exists>e. audit_events s' = audit_events s @ [e] \<and> ap_action (ev_payload e) = RUN_CANCELLATION_REQUESTED
    \<and> ap_resource_id (ev_payload e) = r_id seen \<and> ap_metadata (ev_payload e) = [(''prior_state'', JStr ''cancelling'')]"
  using commit_cancellation_prior_state [OF assms(2)] assms(1) by (auto simp: observed_state_def)

theorem cancellation_audit_prior_state_witness:
  "\<exists>snap s'. commit_cancellation sample_runtime \<lparr>tc_organization = Some 1, tc_identity = USER_ID, tc_actor = ''alice''\<rparr> 300 13
       sample_actor 2 (sample_run RUNNING 3) running_db = Inr (snap, s')
     \<and> (\<exists>e. audit_events s' = audit_events running_db @ [e]
       \<and> ap_metadata (ev_payload e) = [(''prior_state'', JStr ''cancelling'')])"
proof -
  let ?p = "commit_cancellation sample_runtime \<lparr>tc_organization = Some 1, tc_identity = USER_ID, tc_actor = ''alice''\<rparr> 300 13
       sample_actor 2 (sample_run RUNNING 3) running_db"
  have "is_Inr ?p" by code_simp
  then obtain snap s' where p: "?p = Inr (snap, s')" by (auto simp: is_Inr_def split: sum.splits)
  have "rt_orm_refresh sample_runtime" by (simp add: sample_runtime_def)
  from cancellation_audit_prior_state [OF this p] p show ?thesis by blast
qed

text \<open>
  C11. The worker's acknowledgement ends a cancellation: with nobody interfering, a run that was not
  finished is cancelled afterwards, and a finished one is left as it is.
\<close>

theorem acknowledgement_cancels:
  assumes "digest_ok rt" and "reachable rt s" and "quiet w" and "run_state_of rt ref s = (Inr cur, s)"
    and "acknowledge_cancellation rt w ref s = (Inr st, s')"
  shows "run_in_state ref st s' \<and> st = (if is_terminal cur then cur else CANCELLED)"
  using acknowledge_cancellation_result [OF assms(5,1,3) reachable_inv [OF assms(2,1)] assms(4)] by (simp split: if_splits)

theorem acknowledgement_cancels_witness:
  "\<exists>s'. acknowledge_cancellation sample_runtime calm sample_ref cancelling_db = (Inr CANCELLED, s')
     \<and> run_in_state sample_ref CANCELLED s'"
proof -
  let ?p = "acknowledge_cancellation sample_runtime calm sample_ref cancelling_db"
  have ok: "is_Inr (fst ?p)" and cur: "fst (run_state_of sample_runtime sample_ref cancelling_db) = Inr CANCELLING"
    by code_simp+
  from is_InrD [OF ok] obtain st where st: "?p = (Inr st, snd ?p)" by blast
  have "run_state_of sample_runtime sample_ref cancelling_db = (Inr CANCELLING, cancelling_db)"
    using cur by (metis prod.collapse run_state_of_same)
  from acknowledgement_cancels [OF sample_digest_ok cancelling_db_reachable _ this st] st
  show ?thesis by (auto simp: quiet_def)
qed

section \<open>Results\<close>

text \<open>
  C8. Publishing a result is idempotent: the same result, adopted again after it was published,
  answers the stored artifact, reports that nothing was created and changes nothing.
\<close>

theorem result_published_once:
  assumes "digest_ok rt" and "reachable rt s" and "results_scoped s"
    and "commit_adopted_result rt now aid did ref adopted s = (Inr res, s')" and "cm_created res"
  shows "commit_adopted_result rt now' aid' did' ref adopted s' = (Inr (res\<lparr>cm_created := False\<rparr>), s')"
  by (rule commit_adopted_again [OF assms(1) reachable_inv [OF assms(2,1)] assms(3-5)])

theorem result_published_once_witness:
  "\<exists>res s'. commit_adopted_result sample_runtime 400 30 31 sample_ref sample_adopted running_db = (Inr res, s') \<and> cm_created res
     \<and> commit_adopted_result sample_runtime 401 32 33 sample_ref sample_adopted s' = (Inr (res\<lparr>cm_created := False\<rparr>), s')"
proof -
  let ?p = "commit_adopted_result sample_runtime 400 30 31 sample_ref sample_adopted running_db"
  have created: "map_sum (\<lambda>_. ()) cm_created (fst ?p) = Inr True" by code_simp
  then obtain res where res: "?p = (Inr res, snd ?p)" "cm_created res" by (cases ?p; cases "fst ?p") auto
  have "results_scoped running_db"
    by (simp add: results_scoped_def running_db_def submitted_db_def sample_db_def empty_db_def)
  from result_published_once [OF sample_digest_ok running_db_reachable this res] res show ?thesis by blast
qed

end
