(* ===== verification/ServiceGuarantees.thy ===== *)
theory ServiceGuarantees imports Samples Usage Corpora begin

text \<open>
  What single services promise: retries and progress, the administrators' surface, the reads of a
  tenant, storage keys and download names, the metering of artifacts and sentences, corpus imports
  and the evidence an audit chain gives.
\<close>

section \<open>Retry and progress\<close>

text \<open>
  C12. A retry is made from a failed or cancelled run of the caller's organization; the run it
  returns has that run as its parent and the same kind, project, corpus version and specification
  digest, and when it was created by this call it is queued as the next attempt.
\<close>

theorem retry_keeps_lineage:
  assumes "digest_ok rt" and "reachable rt s" and "\<And>t. evolves rt t (env t)"
    and "retry rt now ids env a run_id key s = (Inr res, s')"
  shows "\<exists>source r. source \<in> set (runs s) \<and> r_id source = run_id \<and> r_organization source = ac_organization a
     \<and> r_state source \<in> {FAILED, CANCELLED}
     \<and> idempotent_run (ac_organization a) key s' = Some r \<and> r_id r = rs_id (sr_run res)
     \<and> r_parent r = Some run_id \<and> r_kind r = r_kind source \<and> r_project r = r_project source
     \<and> r_corpus_version r = r_corpus_version source \<and> r_spec_sha256 r = r_spec_sha256 source
     \<and> (sr_created res \<longrightarrow> r_spec r = r_spec source \<and> r_attempt r = Suc (r_attempt source) \<and> r_state r = QUEUED)"
  by (rule retry_lineage [OF assms(4) jobs_invD(5) [OF evolves_inv [OF assms(3,1) reachable_inv [OF assms(2,1)]]]])

definition retry_ids :: submission_ids where
  "retry_ids = \<lparr>id_run = 20, id_reservation = 21, id_outbox = 22\<rparr>"

definition retry_context :: tenant_context where
  "retry_context = \<lparr>tc_organization = Some 1, tc_identity = USER_ID, tc_actor = ''alice''\<rparr>"

definition retry_source :: run where
  "retry_source = (sample_run FAILED 4)\<lparr>r_failure_code := Some ''boom''\<rparr>"

lemma sample_retry:
  "\<exists>res s'. retry sample_runtime 500 retry_ids (\<lambda>t. t) sample_actor 10 ''again'' failed_db = (Inr res, s')"
proof -
  let ?sub = "submit_in_session sample_runtime retry_context 500 retry_ids (\<lambda>t. t) sample_actor 2 (retry_submission retry_source)
     (r_spec retry_source) (r_spec_sha256 retry_source) ''again'' (Some (r_id retry_source)) (Suc (r_attempt retry_source))
     ''run.retry_submitted'' (JObj [(''source_run_id'', JStr (uuid_str (r_id retry_source)))]) failed_db"
  have c: "user_context (ac_organization sample_actor) (ac_subject sample_actor) = Inr retry_context"
    and o: "open_session sample_runtime (Some retry_context) = Inr ()"
    and m: "job_member sample_actor failed_db = Inr (2, ADMIN)"
    and g: "get_run (ac_organization sample_actor) 10 failed_db = Inr retry_source"
    and k: "idempotency_key ''again'' = Inr ''again''"
    and w: "require_writer ADMIN ''run.retry'' = Inr ()"
    and st: "r_state retry_source = FAILED"
    by code_simp+
  have sub: "case fst ?sub of Inr (res, t) \<Rightarrow> constraints_ok t | Inl e \<Rightarrow> False" by code_simp
  obtain r base where rb: "?sub = (r, base)" by (cases ?sub)
  with sub obtain res t where r: "r = Inr (res, t)" "constraints_ok t" by (cases r) auto
  have "retry_body sample_runtime 500 retry_ids (\<lambda>t. t) sample_actor 10 ''again'' retry_context failed_db = (Inr (res, t), base)"
    using m g w st rb r(1) by (simp add: retry_body_def)
  with c o k r(2) show ?thesis by (simp add: retry_def contended_session_def)
qed

theorem retry_keeps_lineage_witness:
  "\<exists>res s'. retry sample_runtime 500 retry_ids (\<lambda>t. t) sample_actor 10 ''again'' failed_db
      = (Inr res, s') \<and> (\<exists>r. idempotent_run 1 ''again'' s' = Some r \<and> r_parent r = Some 10)"
proof -
  obtain res s' where res: "retry sample_runtime 500 retry_ids (\<lambda>t. t) sample_actor 10 ''again'' failed_db = (Inr res, s')"
    using sample_retry by blast
  have org: "ac_organization sample_actor = 1" by (simp add: sample_actor_def)
  from retry_keeps_lineage [OF sample_digest_ok failed_db_reachable stay res, unfolded org]
  have "\<exists>r. idempotent_run 1 ''again'' s' = Some r \<and> r_parent r = Some 10" by blast
  with res show ?thesis by blast
qed

text \<open>
  C9. The progress events of a run only advance: recording one, whatever is recorded concurrently,
  keeps every event of the trail ahead of those before it, and an accepted event is the last one.
\<close>

theorem progress_only_advances:
  assumes "digest_ok rt" and "reachable rt s" and "world_advances rt w" and "progress_ok s"
    and "record_progress rt w ref p n s = (r, s')"
  shows "progress_ok s' \<and> (r = Inr True \<longrightarrow> (\<exists>org i. store_ids ref = Inr (org, i) \<and> progress_events org i s' \<noteq> []
     \<and> progress_position (e_payload (last (progress_events org i s'))) = Inr (n, rp_sequence p)))"
proof (cases "store_ids ref")
  case (Inl e)
  with assms(4,5) show ?thesis by (auto simp: record_progress_def split: if_splits)
next
  case (Inr ids)
  obtain org i where ids: "ids = (org, i)" by (cases ids)
  from progress_attempts_ok [OF assms(3) reachable_inv [OF assms(2,1)] assms(4)] assms(4,5) Inr ids
  show ?thesis unfolding record_progress_def by (auto split: if_splits)
qed

definition sample_progress :: "int \<Rightarrow> run_progress" where
  "sample_progress n = \<lparr>rp_sequence = n, rp_phase = GENERATING, rp_completed = None, rp_total = None,
     rp_coverage = None, rp_accepted_count = None\<rparr>"

theorem progress_only_advances_witness:
  "\<exists>s'. record_progress sample_runtime calm sample_ref (sample_progress 1) 1 running_db = (Inr True, s')
     \<and> progress_ok s' \<and> progress_events 1 10 s' \<noteq> []"
proof -
  let ?p = "record_progress sample_runtime calm sample_ref (sample_progress 1) 1 running_db"
  have t: "map_sum (\<lambda>_. ()) id (fst ?p) = Inr True" and ids: "store_ids sample_ref = Inr (1, 10)" by code_simp+
  from t have p: "?p = (Inr True, snd ?p)" by (cases ?p; cases "fst ?p") auto
  have w: "world_advances sample_runtime calm" by (simp add: world_advances_def)
  have "progress_ok running_db"
    by (simp add: progress_ok_def progress_events_def running_db_def sample_event_def)
  from progress_only_advances [OF sample_digest_ok running_db_reachable w this p] p ids show ?thesis by auto
qed

section \<open>Administration\<close>

text \<open>
  C14. Replacing a quota policy takes effect exactly: the new snapshot shows the new policy and the
  usage as it was, and it is only accepted when no counter (unfinished runs of either class, artifact
  bytes, artifacts, corpus sentences) exceeds its new limit.
\<close>

theorem policy_replacement:
  assumes "replace_policy rt now c org policy request_id s = (Inr q, s')"
  shows "qs_policy q = policy \<and> policy_of org s' = policy \<and> qs_usage q = usage_of org s \<and> usage_of org s' = usage_of org s
    \<and> (\<forall>k. used_jobs k (usage_of org s) \<le> max_jobs k policy)
    \<and> used_artifact_bytes (usage_of org s) \<le> max_artifact_bytes policy
    \<and> used_artifact_count (usage_of org s) \<le> max_artifact_count policy
    \<and> used_corpus_sentences (usage_of org s) \<le> max_corpus_sentences policy"
  using assms
proof (rule replace_policy_Inr)
  fix current usage s1 s2 s3
  assume l: "locked rt c now org s = Inr ((current, usage), s1)" and w: "usage_within usage policy"
    and s2: "s2 = s1\<lparr>quota_policies := update_where (\<lambda>q. qp_organization q = org)
             (\<lambda>q. q\<lparr>qp_values := policy, qp_updated_at := now\<rparr>) (quota_policies s1)\<rparr>"
    and a: "service_append rt c now org PLATFORM QUOTA_POLICY_CHANGED QUOTA_POLICY_RESOURCE org request_id
          [(''changed_fields'', JList (map JStr (changed_fields (qp_values current) policy)))] s2 = Inr s3"
    and q: "quota_snapshot_of rt c now org s3 = Inr (q, s')"
  note lc = locked_cases [OF l] and ap = service_append_frame [OF a]
  have "usage_of org s2 = usage_of org s" "policy_of org s2 = policy"
    using lc locked_views [OF l] policy_of_replace [of org s1 current org now policy]
    by (simp_all add: s2 usage_of_def find_usage_def)
  then have s3: "usage_of org s3 = usage_of org s" "policy_of org s3 = policy" using ap(3,4) by simp_all
  from q obtain p u where l': "locked rt c now org s3 = Inr ((p, u), s')"
    and qv: "q = \<lparr>qs_policy = qp_values p, qs_usage = counters_of u\<rparr>" by (auto simp: quota_snapshot_of_def)
  from locked_cases [OF l'] locked_views [OF l'] s3 qv lc w usage_within_max_jobs [OF w]
  show ?thesis by (simp add: usage_within_def counters_of_def)
qed

definition platform_context :: tenant_context where
  "platform_context = \<lparr>tc_organization = Some 1, tc_identity = PLATFORM, tc_actor = service_actor PLATFORM\<rparr>"

theorem policy_replacement_witness:
  "\<exists>q s'. replace_policy sample_runtime 600 platform_context 1 (default_policy\<lparr>max_concurrent_cpu_jobs := 1\<rparr>) None running_db = (Inr q, s')
     \<and> max_concurrent_cpu_jobs (policy_of 1 s') = 1"
proof -
  let ?p = "replace_policy sample_runtime 600 platform_context 1 (default_policy\<lparr>max_concurrent_cpu_jobs := 1\<rparr>) None running_db"
  have "is_Inr (fst ?p)" by code_simp
  from is_InrD [OF this] obtain q where q: "?p = (Inr q, snd ?p)" by blast
  from policy_replacement [OF q] q show ?thesis by (intro exI conjI) auto
qed

text \<open>
  A policy below the present usage is refused as \<open>quota.policy.update\<close> and nothing is changed.
\<close>

theorem policy_below_usage_refused:
  assumes "locked rt c now org s = Inr ((current, usage), t)" and "\<not> usage_within usage policy"
    and "tc_identity c = PLATFORM" and "tc_organization c = Some org" and "open_session rt (Some c) = Inr u"
  shows "replace_policy rt now c org policy request_id s = (Inl (QuotaExceededError ''quota.policy.update'' None), s)"
  using assms by (simp add: replace_policy_def session_def)

theorem policy_below_usage_refused_witness:
  "replace_policy sample_runtime 600 platform_context 1 (default_policy\<lparr>max_concurrent_cpu_jobs := 0\<rparr>) None running_db
     = (Inl (QuotaExceededError ''quota.policy.update'' None), running_db)"
proof -
  let ?l = "locked sample_runtime platform_context 600 1 running_db"
  have l: "case ?l of Inr ((p, u), t) \<Rightarrow> \<not> usage_within u (default_policy\<lparr>max_concurrent_cpu_jobs := 0\<rparr>) | Inl e \<Rightarrow> False"
    and o: "open_session sample_runtime (Some platform_context) = Inr ()" by code_simp+
  from l obtain p u t where "?l = Inr ((p, u), t)" "\<not> usage_within u (default_policy\<lparr>max_concurrent_cpu_jobs := 0\<rparr>)"
    by (auto split: sum.splits)
  from policy_below_usage_refused [OF this _ _ o] show ?thesis by (simp add: platform_context_def)
qed

text \<open>
  C22. Following the cursors of the audit listing visits every selected event exactly once, in
  sequence order, and ends: one request more than there are selected events is always enough.
\<close>

theorem audit_pages_complete:
  assumes "constraints_ok s" and "\<forall>e \<in> set (audit_events s). event_sequence e < 10 ^ 19" and "1 \<le> limit"
    and "length (filter (audit_selects org bounds f) (audit_events s)) < n"
  shows "follow_cursors (audit_selects org bounds f) limit n None (audit_events s)
    = Inr (sort_key event_sequence (filter (audit_selects org bounds f) (audit_events s)))"
proof -
  let ?sel = "audit_selects org bounds f"
  have ok: "audit_events_ok (audit_events s)" using assms(1) by (simp add: constraints_ok_def)
  have "inj_on event_sequence (set (filter ?sel (audit_events s)))"
    using ok by (auto simp: audit_events_ok_def unique_by_def distinct_map inj_on_def audit_selects_def)
  moreover have "distinct (filter ?sel (audit_events s))"
    using ok by (auto simp: audit_events_ok_def unique_by_def distinct_map)
  ultimately have d: "distinct (map event_sequence (filter ?sel (audit_events s)))" by (simp add: distinct_map)
  have all: "filter (\<lambda>e. ?sel e \<and> 0 < event_sequence e) (audit_events s) = filter ?sel (audit_events s)"
    using ok by (intro filter_cong) (auto simp: audit_events_ok_def list_all_iff)
  from follow_cursors_from [OF d assms(3), of None 0 n] assms(2,4)
  show ?thesis by (simp add: events_after_def all audit_cursor_def)
qed

theorem audit_pages_complete_witness:
  "\<exists>es. follow_cursors (audit_selects 1 (None, None) \<lparr>af_from = None, af_to = None, af_action = None, af_resource_type = None\<rparr>)
       1 3 None (audit_events cancelling_db) = Inr es \<and> length es = 2"
proof -
  let ?f = "\<lparr>af_from = None, af_to = None, af_action = None, af_resource_type = None\<rparr>"
  have c: "constraints_ok cancelling_db"
    using jobs_invD(1) [OF reachable_inv [OF cancelling_db_reachable sample_digest_ok]] .
  have es: "\<forall>e \<in> set (audit_events cancelling_db). event_sequence e < 10 ^ 19"
    and n: "length (filter (audit_selects 1 (None, None) ?f) (audit_events cancelling_db)) = 2"
    by (simp_all add: cancelling_db_def sample_submission_audit_def sample_audit_def audit_selects_def)
  from audit_pages_complete [OF c es, of 1 1 "(None, None)" ?f 3] n show ?thesis by simp
qed

section \<open>Reads of a tenant\<close>

text \<open>
  C20. A caller only ever sees runs of its own organization, in an active project, and neither read
  changes anything: what \<open>get\<close> returns is the snapshot of that run, and a listing has at most
  \<open>limit\<close> items, each the snapshot of one such run that matches the filters.
\<close>

theorem reads_stay_in_tenant:
  "(get_job rt a run_id s = (Inr snap, t) \<longrightarrow> t = s \<and> (\<exists>r \<in> set (runs s). r_id r = run_id \<and> r_organization r = ac_organization a
      \<and> active_project (ac_organization a) (r_project r) s \<and> snapshot_run r s = Inr snap))
   \<and> (list_jobs rt a state kind offset limit s = (Inr snaps, u) \<longrightarrow> u = s \<and> length snaps \<le> limit \<and>
      (\<forall>x \<in> set snaps. \<exists>r \<in> set (runs s). r_organization r = ac_organization a \<and> active_project (ac_organization a) (r_project r) s
        \<and> snapshot_run r s = Inr x \<and> (\<forall>t. state = Some t \<longrightarrow> r_state r = t) \<and> (\<forall>k. kind = Some k \<longrightarrow> r_kind r = k)))"
proof (intro conjI impI ballI)
  assume g: "get_job rt a run_id s = (Inr snap, t)"
  from get_job_isolated(1) [OF g] show "t = s" .
  from get_job_isolated(3) [OF g] show "\<exists>r \<in> set (runs s). r_id r = run_id \<and> r_organization r = ac_organization a
      \<and> active_project (ac_organization a) (r_project r) s \<and> snapshot_run r s = Inr snap" .
next
  assume l: "list_jobs rt a state kind offset limit s = (Inr snaps, u)"
  have "snd (list_jobs rt a state kind offset limit s) = s"
    unfolding list_jobs_def by (rule in_session_preserves [where P = "\<lambda>t. t = s"]) auto
  with l show "u = s" by simp
  show "length snaps \<le> limit" using list_jobs_isolated(2) [OF l] by (cases snaps) fastforce+
  fix x assume "x \<in> set snaps"
  with l show "\<exists>r \<in> set (runs s). r_organization r = ac_organization a \<and> active_project (ac_organization a) (r_project r) s
        \<and> snapshot_run r s = Inr x \<and> (\<forall>t. state = Some t \<longrightarrow> r_state r = t) \<and> (\<forall>k. kind = Some k \<longrightarrow> r_kind r = k)"
    by (rule list_jobs_isolated(1))
qed

theorem reads_stay_in_tenant_witness:
  "\<exists>snap snaps. get_job sample_runtime sample_actor 10 running_db = (Inr snap, running_db)
     \<and> (\<exists>r \<in> set (runs running_db). r_id r = 10 \<and> snapshot_run r running_db = Inr snap)
     \<and> list_jobs sample_runtime sample_actor (Some RUNNING) None 0 5 running_db = (Inr snaps, running_db) \<and> length snaps = 1
     \<and> (\<forall>x \<in> set snaps. \<exists>r \<in> set (runs running_db). r_organization r = 1 \<and> r_state r = RUNNING \<and> snapshot_run r running_db = Inr x)"
proof -
  let ?p = "get_job sample_runtime sample_actor 10 running_db"
  let ?q = "list_jobs sample_runtime sample_actor (Some RUNNING) None 0 5 running_db"
  have "is_Inr (fst ?p)" and one: "map_sum (\<lambda>_. ()) length (fst ?q) = Inr 1" and a: "ac_organization sample_actor = 1"
    by code_simp+
  then obtain snap where snap: "?p = (Inr snap, snd ?p)" using is_InrD by blast
  from one obtain snaps where snaps: "?q = (Inr snaps, snd ?q)" "length snaps = 1" by (cases ?q; cases "fst ?q") auto
  note reads = reads_stay_in_tenant [of sample_runtime sample_actor 10 running_db snap "snd ?p" "Some RUNNING" None 0 5 snaps "snd ?q"]
  from reads snap have "snd ?p = running_db" "\<exists>r \<in> set (runs running_db). r_id r = 10 \<and> snapshot_run r running_db = Inr snap"
    by blast+
  moreover from reads snaps(1) a have "snd ?q = running_db"
    "\<forall>x \<in> set snaps. \<exists>r \<in> set (runs running_db). r_organization r = 1 \<and> r_state r = RUNNING \<and> snapshot_run r running_db = Inr x"
    by auto
  ultimately show ?thesis using snap snaps by (intro exI conjI) auto
qed

text \<open>
  C21. Polling the events of a run by sequence number returns them without gap or repetition: the
  page after \<open>n\<close> is exactly the next \<open>limit\<close> numbers there are.
\<close>

theorem event_pages_gapless:
  assumes "digest_ok rt" and "reachable rt s" and "job_events rt a run_id after limit s = (Inr page, s')"
  shows "\<exists>r \<in> set (runs s). r_id r = run_id \<and> r_organization r = ac_organization a
    \<and> map es_sequence page = take limit [Suc after..<Suc (r_event_sequence r)]"
  by (rule job_events_page [OF jobs_invD(4) [OF reachable_inv [OF assms(2,1)]] assms(3)])

theorem event_pages_gapless_witness:
  "\<exists>page. job_events sample_runtime sample_actor 10 1 10 running_db = (Inr page, running_db)
     \<and> map es_sequence page = [2, 3]"
proof -
  let ?p = "job_events sample_runtime sample_actor 10 1 10 running_db"
  have "is_Inr (fst ?p)" by code_simp
  from is_InrD [OF this] obtain page where page: "?p = (Inr page, snd ?p)" by blast
  have "snd ?p = running_db" unfolding job_events_def by (rule in_session_preserves) auto
  with event_pages_gapless [OF sample_digest_ok running_db_reachable page] page
  show ?thesis by (auto simp: running_db_def sample_run_def upt_rec numeral_eq_Suc)
qed

end
