(* ===== verification/DataGuarantees.thy ===== *)
theory DataGuarantees imports Samples Usage Corpora begin

text \<open>
  Guarantees about data: the evidence of an audit chain, storage keys and download names, the
  metering of artifacts and corpus sentences, corpus imports, and the expiry of reservations.
\<close>

section \<open>Evidence\<close>

text \<open>
  C15. A verified audit log is tamper evident: if the log of an organization verifies in two
  databases and the chain heads carry the same number and digest, then both hold the same evidence,
  event by event, unless the hash collides on two of the documents involved.
\<close>

theorem audit_tamper_evident:
  assumes "audit_verify rt org s = Inr True" and "audit_verify rt org t = Inr True"
    and "find_head org s = Some h" and "find_head org t = Some g"
    and "h_last_sequence h = h_last_sequence g" and "h_last_hash h = h_last_hash g"
    and "list_all event_good (organization_events org s)" and "list_all event_good (organization_events org t)"
    and "\<And>a b x y. a \<in> set (organization_events org s) \<Longrightarrow> b \<in> set (organization_events org t) \<Longrightarrow>
      event_bytes a = Some x \<Longrightarrow> event_bytes b = Some y \<Longrightarrow> rt_sha rt x = rt_sha rt y \<Longrightarrow> x = y"
  shows "list_all2 (\<lambda>a b. same_evidence (ev_payload a) (ev_payload b))
    (sort_key event_sequence (organization_events org s)) (sort_key event_sequence (organization_events org t))"
proof -
  from assms(1,3) obtain p m where s: "verify_events rt audit_genesis_hash 1 (sort_key event_sequence (organization_events org s)) = Inr (Some (p, m))"
    "h_last_sequence h = m - 1" "h_last_hash h = p"
    by (auto simp: audit_verify_def split: option.splits)
  from assms(2,4) obtain q n where t: "verify_events rt audit_genesis_hash 1 (sort_key event_sequence (organization_events org t)) = Inr (Some (q, n))"
    "h_last_sequence g = n - 1" "h_last_hash g = q"
    by (auto simp: audit_verify_def split: option.splits)
  have "m = n" "p = q"
    using assms(5,6) s(2,3) t(2,3) verify_events_length [OF s(1)] verify_events_length [OF t(1)] by simp_all
  with t(1) have t': "verify_events rt audit_genesis_hash 1 (sort_key event_sequence (organization_events org t)) = Inr (Some (p, m))"
    by simp
  show ?thesis
    by (rule verified_chains_agree [OF s(1) t']) (use assms(7-9) in \<open>simp_all add: list_all_iff\<close>)
qed

theorem audit_tamper_evident_witness:
  "audit_verify sample_runtime 1 running_db = Inr True
    \<and> list_all2 (\<lambda>a b. same_evidence (ev_payload a) (ev_payload b)) [sample_submission_audit] [sample_submission_audit]"
proof -
  have v: "audit_verify sample_runtime 1 running_db = Inr True" by code_simp
  have es: "organization_events 1 running_db = [sample_submission_audit]"
    by (simp add: organization_events_def running_db_def submitted_db_def sample_submission_audit_def sample_audit_def)
  have h: "find_head 1 running_db = Some (sample_head 1 100)"
    by (simp add: find_head_def running_db_def submitted_db_def sample_head_def)
  have g: "list_all event_good (organization_events 1 running_db)"
    unfolding es by (simp add: event_good_def sample_submission_audit_def sample_audit_def)
  from audit_tamper_evident [OF v v h h refl refl g g] v show ?thesis by (simp add: es)
qed

section \<open>Artifacts\<close>

text \<open>
  C16. Storage keys never collide: two artifacts with one key are of the same organization, project,
  run, kind and content digest, so no tenant's upload can address another tenant's object.
\<close>

theorem storage_keys_separate:
  assumes "artifact_storage_key o1 p1 r1 k1 d1 = Inr key" and "artifact_storage_key o2 p2 r2 k2 d2 = Inr key"
  shows "o1 = o2 \<and> p1 = p2 \<and> r1 = r2 \<and> k1 = k2 \<and> d1 = d2"
  using assms by (rule artifact_storage_key_inject)

theorem storage_keys_separate_witness:
  "\<exists>key. artifact_storage_key 1 4 (Some 10) RUN_RESULT sample_digest = Inr key
     \<and> artifact_storage_key 1 4 None RUN_RESULT sample_digest \<noteq> Inr key"
proof -
  have "is_sha256_hex sample_digest" by (simp add: sample_digest_def is_sha256_hex_def is_hex_char_def list_all_iff)
  then obtain key where key: "artifact_storage_key 1 4 (Some 10) RUN_RESULT sample_digest = Inr key"
    by (simp add: artifact_storage_key_def)
  with storage_keys_separate [OF key, of 1 4 None RUN_RESULT sample_digest] show ?thesis by blast
qed

text \<open>
  C23. A download name is safe to put in a header and to open in a spreadsheet: it is not empty, has
  at most 255 characters, all letters, digits, dots, underscores or hyphens, and starts neither with
  a dot nor with a character that makes it a formula, whatever the stored name and its NFKD form.
\<close>

theorem download_names_safe:
  assumes "safe_download_filename nfkd s = Inr name"
  shows "name \<noteq> [] \<and> length name \<le> 255 \<and> list_all is_filename_char name \<and> \<not> is_formula_char (hd name)
    \<and> hd name \<noteq> CHR ''.''"
  using download_name_ok_result [OF assms] by (simp add: download_name_ok_def)

theorem download_names_safe_witness:
  "\<exists>name. safe_download_filename (\<lambda>s. s) ''=1+1 .csv'' = Inr name \<and> \<not> is_formula_char (hd name)"
proof -
  have "is_Inr (safe_download_filename (\<lambda>s. s) ''=1+1 .csv'')" by code_simp
  then obtain name where "safe_download_filename (\<lambda>s. s) ''=1+1 .csv'' = Inr name"
    by (auto simp: is_Inr_def split: sum.splits)
  with download_names_safe [OF this] show ?thesis by blast
qed

section \<open>Metering\<close>

text \<open>
  However uploads and deletions are interleaved, refused ones included, the stored byte counter
  of every organization is the balance of the accepted ones, never negative and never above the
  limit of its policy.
\<close>

theorem artifact_bytes_metered:
  assumes "settle (\<lambda>org n s. consume_artifact rt c now org kind n s) (\<lambda>org n s. release_artifact rt c now org n s) chs s = (accepted, s')"
    and "0 \<le> used_artifact_bytes (usage_of org s)" and "used_artifact_bytes (usage_of org s) \<le> max_artifact_bytes (policy_of org s)"
    and "\<forall>o' n. Release o' n \<in> set chs \<longrightarrow> 0 \<le> n"
  shows "used_artifact_bytes (usage_of org s') = used_artifact_bytes (usage_of org s) + net org accepted
    \<and> 0 \<le> used_artifact_bytes (usage_of org s') \<and> used_artifact_bytes (usage_of org s') \<le> max_artifact_bytes (policy_of org s')"
  using artifact_bytes.settle_balance [OF assms(1), of org] artifact_bytes.settle_bounded [OF assms] by blast

definition sample_context :: tenant_context where
  "sample_context = \<lparr>tc_organization = Some 1, tc_identity = USER_ID, tc_actor = ''alice''\<rparr>"

theorem artifact_bytes_metered_witness:
  "\<exists>s'. settle (\<lambda>org n s. consume_artifact sample_runtime sample_context 700 org EXPORT_FILE n s)
       (\<lambda>org n s. release_artifact sample_runtime sample_context 700 org n s) [Consume 1 30, Release 1 50, Release 1 10] running_db
     = ([Consume 1 30, Release 1 10], s') \<and> used_artifact_bytes (usage_of 1 s') = 20"
proof -
  let ?p = "settle (\<lambda>org n s. consume_artifact sample_runtime sample_context 700 org EXPORT_FILE n s)
       (\<lambda>org n s. release_artifact sample_runtime sample_context 700 org n s) [Consume 1 30, Release 1 50, Release 1 10] running_db"
  have acc: "fst ?p = [Consume 1 30, Release 1 10]" and u: "used_artifact_bytes (usage_of 1 running_db) = 0"
    and m: "0 \<le> max_artifact_bytes (policy_of 1 running_db)" by code_simp+
  then have p: "?p = ([Consume 1 30, Release 1 10], snd ?p)" by (metis prod.collapse)
  from artifact_bytes_metered [OF p, of 1] u m p show ?thesis by (auto simp: net_def)
qed

text \<open>
  The same holds of the stored corpus sentences.\<close>

theorem corpus_sentences_metered:
  assumes "settle (\<lambda>org n s. consume_corpus_sentences rt c now org n operation s)
      (\<lambda>org n s. release_corpus_sentences rt c now org n s) chs s = (accepted, s')"
    and "0 \<le> used_corpus_sentences (usage_of org s)" and "used_corpus_sentences (usage_of org s) \<le> max_corpus_sentences (policy_of org s)"
    and "\<forall>o' n. Release o' n \<in> set chs \<longrightarrow> 0 \<le> n"
  shows "used_corpus_sentences (usage_of org s') = used_corpus_sentences (usage_of org s) + net org accepted
    \<and> 0 \<le> used_corpus_sentences (usage_of org s') \<and> used_corpus_sentences (usage_of org s') \<le> max_corpus_sentences (policy_of org s')"
  using corpus_sentences.settle_balance [OF assms(1), of org] corpus_sentences.settle_bounded [OF assms] by blast

theorem corpus_sentences_metered_witness:
  "\<exists>s'. settle (\<lambda>org n s. consume_corpus_sentences sample_runtime sample_context 700 org n ''corpus.import'' s)
       (\<lambda>org n s. release_corpus_sentences sample_runtime sample_context 700 org n s) [Consume 1 5, Consume 1 2000000, Release 1 2] running_db
     = ([Consume 1 5, Release 1 2], s') \<and> used_corpus_sentences (usage_of 1 s') = 3"
proof -
  let ?p = "settle (\<lambda>org n s. consume_corpus_sentences sample_runtime sample_context 700 org n ''corpus.import'' s)
       (\<lambda>org n s. release_corpus_sentences sample_runtime sample_context 700 org n s) [Consume 1 5, Consume 1 2000000, Release 1 2] running_db"
  have acc: "fst ?p = [Consume 1 5, Release 1 2]" and u: "used_corpus_sentences (usage_of 1 running_db) = 0"
    and m: "0 \<le> max_corpus_sentences (policy_of 1 running_db)" by code_simp+
  then have p: "?p = ([Consume 1 5, Release 1 2], snd ?p)" by (metis prod.collapse)
  from corpus_sentences_metered [OF p, of 1] u m p show ?thesis by (auto simp: net_def)
qed

section \<open>Corpus imports\<close>

text \<open>
  C17. An import keeps the first occurrence of every normalised non-blank sentence, in order,
  numbered from zero, within both limits, and its content digest is that of the canonical document
  of its language and texts.
\<close>

theorem corpus_import_exact:
  assumes "prepare_corpus sha nfc limits request = Inr c"
  shows "map pr_normalized_text (pc_sentences c) = corpus_texts nfc (ir_sentences request)
    \<and> map pr_ordinal (pc_sentences c) = [0..<length (pc_sentences c)]
    \<and> pc_sentences c \<noteq> [] \<and> length (pc_sentences c) \<le> il_max_sentences limits
    \<and> list_all (\<lambda>p. pr_normalized_text p \<noteq> [] \<and> str_len (pr_normalized_text p) \<le> il_max_sentence_characters limits) (pc_sentences c)
    \<and> pc_content_sha256 c = sha (encode (canon (corpus_document (ir_language request) (corpus_texts nfc (ir_sentences request)))))"
  using prepare_corpus_cases [OF assms] by simp

theorem corpus_import_exact_witness:
  "\<exists>c. prepare_corpus (\<lambda>_. sample_digest) (\<lambda>s. s) \<lparr>il_max_sentences = 5, il_max_sentence_characters = 20\<rparr>
       \<lparr>ir_language = ''en'', ir_sentences = [''one'', '' '', ''two'', ''one'']\<rparr> = Inr c
     \<and> map pr_normalized_text (pc_sentences c) = [''one'', ''two'']"
proof -
  let ?p = "prepare_corpus (\<lambda>_. sample_digest) (\<lambda>s. s) \<lparr>il_max_sentences = 5, il_max_sentence_characters = 20\<rparr>
       \<lparr>ir_language = ''en'', ir_sentences = [''one'', '' '', ''two'', ''one'']\<rparr>"
  have ok: "is_Inr ?p" and t: "corpus_texts (\<lambda>s. s) [''one'', '' '', ''two'', ''one''] = [''one'', ''two'']" by code_simp+
  then obtain c where c: "?p = Inr c" by (auto simp: is_Inr_def split: sum.splits)
  from corpus_import_exact [OF c] c t show ?thesis by simp
qed

section \<open>Expiry\<close>

text \<open>
  C13. When the maintenance sweep reports an expired reservation, the run behind it was unfinished
  and is finished now: cancelled if it was being cancelled, failed otherwise; and it holds no
  capacity any more.
\<close>

theorem expiry_finishes_run:
  assumes "digest_ok rt" and "reachable rt s" and "expire_one rt now cutoff (q, org, i) c s = Inr (True, s')" and "constraints_ok s'"
  shows "\<exists>r \<in> set (runs s). \<exists>r' \<in> set (runs s'). r_id r = i \<and> r_id r' = i \<and> r_organization r' = org
    \<and> \<not> is_terminal (r_state r) \<and> r_state r' = (if r_state r = CANCELLING then CANCELLED else FAILED)
    \<and> \<not> holds_capacity s' r'"
  using assms(3,1) reachable_inv [OF assms(2,1)] assms(4)
proof (cases rule: expire_one_cases)
  case (expired run target code f)
  have row: "f run \<in> set (runs s')" using expired(3,7) by (auto simp: update_run_def set_update_where)
  have t: "\<not> is_terminal (r_state run)" "target = (if r_state run = CANCELLING then CANCELLED else FAILED)"
    using expired(6) by (auto simp: expiry_target_def split: if_splits)
  then have "\<not> holds_capacity s' (f run)"
    using jobs_invD(5) [OF expired(2)] row expired(8) by (auto simp: capacity_ok_def split: if_splits)
  with expired row t show ?thesis by (intro bexI [of _ run] bexI [of _ "f run"]) auto
qed simp_all

theorem expiry_finishes_run_witness:
  "\<exists>s'. expire_one sample_runtime 700000000 700000000 (11, 1, 10) sample_context running_db = Inr (True, s')
     \<and> (\<exists>r' \<in> set (runs s'). r_id r' = 10 \<and> r_state r' = FAILED)"
proof -
  let ?p = "expire_one sample_runtime 700000000 700000000 (11, 1, 10) sample_context running_db"
  have ok: "case ?p of Inr (b, t) \<Rightarrow> b \<and> constraints_ok t | Inl e \<Rightarrow> False" by code_simp
  then obtain t where t: "?p = Inr (True, t)" "constraints_ok t" by (auto split: sum.splits)
  from expiry_finishes_run [OF sample_digest_ok running_db_reachable t]
  obtain r r' where "r \<in> set (runs running_db)" "r' \<in> set (runs t)" "r_id r' = 10"
    "r_state r' = (if r_state r = CANCELLING then CANCELLED else FAILED)" by blast
  with t show ?thesis by (auto simp: running_db_def sample_run_def)
qed

end
