(* ===== verification/RateLimits.thy ===== *)
theory RateLimits imports Platform begin

text \<open>
  src/corpuskit/services/rate_limits.py: the fixed-window request counter shared by every replica
  of the API, and the sweep that deletes old windows. The upsert of \<open>enforce\<close> is one statement, so
  the sessions of concurrent requests are its serial runs in some order.

  A clock reading is a rational number of seconds or a value the code refuses. An HTTP method is
  ASCII, as the HTTP grammar has it, so \<open>str.upper\<close> is \<open>upper_char\<close> on each character.
\<close>

section \<open>Configuration\<close>

record rate_limiter =
  rl_window_seconds :: int
  rl_read_requests :: int
  rl_write_requests :: int
  rl_retention_windows :: int

definition rate_limiter_of :: "int \<Rightarrow> int \<Rightarrow> int \<Rightarrow> int \<Rightarrow> exn + rate_limiter" where
  "rate_limiter_of window_seconds read_requests write_requests retention_windows =
     bindr (ensure (10 \<le> window_seconds \<and> window_seconds \<le> 3600)
       (ValueError ''rate-limit window is outside the supported range'')) (\<lambda>_.
     bindr (ensure (1 \<le> read_requests \<and> read_requests \<le> 100000 \<and> 1 \<le> write_requests \<and> write_requests \<le> 10000)
       (ValueError ''rate-limit request ceilings are outside the supported range'')) (\<lambda>_.
     bindr (ensure (2 \<le> retention_windows \<and> retention_windows \<le> 100)
       (ValueError ''rate-limit retention is outside the supported range'')) (\<lambda>_.
     Inr \<lparr>rl_window_seconds = window_seconds, rl_read_requests = read_requests,
       rl_write_requests = write_requests, rl_retention_windows = retention_windows\<rparr>)))"

definition limiter_ok :: "rate_limiter \<Rightarrow> bool" where
  "limiter_ok rl \<longleftrightarrow> 10 \<le> rl_window_seconds rl \<and> 1 \<le> rl_read_requests rl \<and> 1 \<le> rl_write_requests rl
     \<and> 2 \<le> rl_retention_windows rl"

lemma rate_limiter_of_ok: "rate_limiter_of a b c d = Inr rl \<Longrightarrow> limiter_ok rl"
  by (auto simp: rate_limiter_of_def limiter_ok_def)

section \<open>The window of a clock reading\<close>

text \<open>What the injected clock returns, or the scalar the database answers for its own.\<close>

datatype clock_reading = Seconds rat | NotFinite | NotANumber

datatype clock_source = InjectedClock clock_reading | DatabaseClock "clock_reading option"

definition window_timestamp :: "clock_source \<Rightarrow> exn + rat" where
  "window_timestamp source =
     (case source of
        InjectedClock (Seconds t) \<Rightarrow>
          if t < 0 then Inl (ValueError ''rate-limit clock must return a nonnegative timestamp'') else Inr t
      | InjectedClock _ \<Rightarrow> Inl (ValueError ''rate-limit clock must return a nonnegative timestamp'')
      | DatabaseClock (Some (Seconds t)) \<Rightarrow>
          if t < 0 then Inl (RuntimeError ''rate-limit database clock returned no value'') else Inr t
      | DatabaseClock _ \<Rightarrow> Inl (RuntimeError ''rate-limit database clock returned no value''))"

definition window_state :: "rate_limiter \<Rightarrow> clock_source \<Rightarrow> exn + int \<times> int" where
  "window_state rl source =
     bindr (window_timestamp source) (\<lambda>timestamp.
     let whole_seconds = \<lfloor>timestamp\<rfloor> in
     Inr (whole_seconds div rl_window_seconds rl,
          rl_window_seconds rl - whole_seconds mod rl_window_seconds rl))"

lemma window_state_Inr:
  assumes "window_state rl source = Inr (window_epoch, retry_after)" and "limiter_ok rl"
  shows "0 \<le> window_epoch" and "0 < retry_after" and "retry_after \<le> rl_window_seconds rl"
    and "\<exists>t. window_timestamp source = Inr t \<and> window_epoch * rl_window_seconds rl \<le> \<lfloor>t\<rfloor>
      \<and> \<lfloor>t\<rfloor> + retry_after = (window_epoch + 1) * rl_window_seconds rl"
proof -
  let ?w = "rl_window_seconds rl"
  from assms(1) obtain t where t: "window_timestamp source = Inr t"
    and e: "window_epoch = \<lfloor>t\<rfloor> div ?w" and r: "retry_after = ?w - \<lfloor>t\<rfloor> mod ?w"
    by (auto simp: window_state_def Let_def)
  have w: "0 < ?w" using assms(2) by (simp add: limiter_ok_def)
  have "0 \<le> \<lfloor>t\<rfloor>" using t by (auto simp: window_timestamp_def split: clock_source.splits clock_reading.splits option.splits if_splits)
  with w show "0 \<le> window_epoch" by (simp add: e pos_imp_zdiv_nonneg_iff)
  show "0 < retry_after" using w pos_mod_bound [of ?w "\<lfloor>t\<rfloor>"] by (simp add: r)
  show "retry_after \<le> ?w" using w pos_mod_sign [of ?w "\<lfloor>t\<rfloor>"] by (simp add: r)
  have split: "\<lfloor>t\<rfloor> = ?w * window_epoch + \<lfloor>t\<rfloor> mod ?w" by (simp add: e)
  moreover have "0 \<le> \<lfloor>t\<rfloor> mod ?w" using w by (rule pos_mod_sign)
  ultimately have "window_epoch * ?w \<le> \<lfloor>t\<rfloor>" by (simp add: mult.commute)
  moreover have "\<lfloor>t\<rfloor> + retry_after = (window_epoch + 1) * ?w"
    using split unfolding r by (simp add: algebra_simps)
  ultimately show "\<exists>t. window_timestamp source = Inr t \<and> window_epoch * ?w \<le> \<lfloor>t\<rfloor>
      \<and> \<lfloor>t\<rfloor> + retry_after = (window_epoch + 1) * ?w" using t by blast
qed

section \<open>Counting a request\<close>

definition safe_methods :: "string list" where
  "safe_methods = [''GET'', ''HEAD'', ''POST'', ''PUT'', ''PATCH'', ''DELETE'', ''OPTIONS'']"

definition upper_char :: "char \<Rightarrow> char" where
  "upper_char c = (if is_lower_char c then char_of ((of_char c :: nat) - 32) else c)"

definition safe_route :: "string \<Rightarrow> bool" where
  "safe_route r \<longleftrightarrow> (case r of [] \<Rightarrow> False
     | c # cs \<Rightarrow> c = CHR ''/'' \<and> length cs \<le> 255
         \<and> list_all (\<lambda>d. 32 \<le> (of_char d :: nat) \<and> (of_char d :: nat) \<le> 126) cs)"

definition request_limit :: "rate_limiter \<Rightarrow> string \<Rightarrow> int" where
  "request_limit rl verb =
     (if verb \<in> {''GET'', ''HEAD'', ''OPTIONS''} then rl_read_requests rl else rl_write_requests rl)"

text \<open>The unique key of a window: organization, subject, route, method and epoch.\<close>

type_synonym window_scope = "uuid \<times> string \<times> string \<times> string \<times> int"

definition window_scope :: "rate_window \<Rightarrow> window_scope" where
  "window_scope w = (w_organization w, w_subject_sha256 w, w_route_sha256 w, w_method w, w_epoch w)"

text \<open>
  INSERT ... ON CONFLICT (scope) DO UPDATE SET request_count + 1 WHERE request_count < limit
  RETURNING request_count.
\<close>

definition count_request :: "uuid \<Rightarrow> time \<Rightarrow> window_scope \<Rightarrow> int \<Rightarrow> db \<Rightarrow> exn + int option \<times> db" where
  "count_request wid now k limit s =
     (case find (\<lambda>w. window_scope w = k) (rate_windows s) of
        Some w \<Rightarrow>
          if w_count w < limit then
            Inr (Some (w_count w + 1), s\<lparr>rate_windows := update_where (\<lambda>w. window_scope w = k)
              (\<lambda>w. w\<lparr>w_count := w_count w + 1, w_updated_at := now\<rparr>) (rate_windows s)\<rparr>)
          else Inr (None, s)
      | None \<Rightarrow> (case k of (org, subject_sha256, route_sha256, verb, window_epoch) \<Rightarrow>
          bindr (insert_row rate_windows_ok \<lparr>w_id = wid, w_organization = org, w_subject_sha256 = subject_sha256,
              w_route_sha256 = route_sha256, w_method = verb, w_epoch = window_epoch, w_count = 1,
              w_updated_at = now\<rparr> (rate_windows s)) (\<lambda>rows.
          Inr (Some 1, s\<lparr>rate_windows := rows\<rparr>))))"

definition enforce ::
    "runtime \<Rightarrow> rate_limiter \<Rightarrow> clock_source \<Rightarrow> uuid \<Rightarrow> time \<Rightarrow> uuid \<Rightarrow> string \<Rightarrow> string \<Rightarrow> string \<Rightarrow> db \<Rightarrow> (exn + unit) \<times> db" where
  "enforce rt rl source wid now org subject verb route s =
     (let verb = map upper_char verb in
      if verb \<notin> set safe_methods \<or> \<not> safe_route route
      then (Inl (TrafficRateLimitExceededError ''http.rate_limit.contract'' (nat (rl_window_seconds rl))), s)
      else
        let limit = request_limit rl verb in
        (case in_session rt (user_context org subject) (\<lambda>c s.
            bindr (window_state rl source) (\<lambda>(window_epoch, retry_after).
            bindr (ensure (rt_dialect rt \<noteq> OtherDialect) (RuntimeError ''rate limiting requires PostgreSQL or SQLite'')) (\<lambda>_.
            bindr (count_request wid now (org, rt_sha rt subject, rt_sha rt route, verb, window_epoch) limit s) (\<lambda>(counted, s).
            Inr ((counted, retry_after), s))))) s of
           (Inl e, s') \<Rightarrow> (Inl (if is_sqlalchemy_error e then DependencyUnavailableError ''http.rate_limit'' else e), s')
         | (Inr (counted, retry_after), s') \<Rightarrow>
             ((case counted of
                 None \<Rightarrow> Inl (TrafficRateLimitExceededError ''http.rate_limit'' (nat retry_after))
               | Some n \<Rightarrow> if limit < n then Inl (TrafficRateLimitExceededError ''http.rate_limit'' (nat retry_after))
                           else Inr ()), s')))"

section \<open>Deleting old windows\<close>

definition expired_windows :: "rate_limiter \<Rightarrow> int \<Rightarrow> int \<Rightarrow> db \<Rightarrow> uuid list" where
  "expired_windows rl current limit s =
     map w_id (take (nat limit) (sort_key (\<lambda>w. (w_epoch w, unat (w_id w)))
       (filter (\<lambda>w. w_epoch w < current - rl_retention_windows rl) (rate_windows s))))"

definition purge_expired ::
    "runtime \<Rightarrow> rate_limiter \<Rightarrow> clock_source \<Rightarrow> int \<Rightarrow> db \<Rightarrow> (exn + int) \<times> db" where
  "purge_expired rt rl source limit s =
     (if limit < 1 \<or> 1000 < limit then (Inl (ValueError ''rate-limit cleanup must be between 1 and 1000''), s)
      else in_session rt (service_context MAINTENANCE None) (\<lambda>c s.
        bindr (window_state rl source) (\<lambda>(current, retry_after).
        let ids = expired_windows rl current limit s in
        Inr (int (length ids), s\<lparr>rate_windows := delete_where (\<lambda>w. w_id w \<in> set ids) (rate_windows s)\<rparr>))) s)"

section \<open>What a request and a sweep change\<close>

text \<open>The abstract counter: how many requests a window has counted.\<close>

definition window_count :: "db \<Rightarrow> window_scope \<Rightarrow> int" where
  "window_count s k = (case find (\<lambda>w. window_scope w = k) (rate_windows s) of None \<Rightarrow> 0 | Some w \<Rightarrow> w_count w)"

lemma window_scope_cong [simp]: "window_scope (w\<lparr>w_count := n, w_updated_at := t\<rparr>) = window_scope w"
  by (simp add: window_scope_def)

lemma find_scope_update:
  "find (\<lambda>w. window_scope w = k') (update_where (\<lambda>w. window_scope w = k)
     (\<lambda>w. w\<lparr>w_count := w_count w + 1, w_updated_at := now\<rparr>) rows)
   = map_option (\<lambda>w. if k' = k then w\<lparr>w_count := w_count w + 1, w_updated_at := now\<rparr> else w)
       (find (\<lambda>w. window_scope w = k') rows)"
  by (induction rows) auto

text \<open>Nothing but the windows changes.\<close>

definition windows_frame :: "db \<Rightarrow> db \<Rightarrow> bool" where
  "windows_frame s s' \<longleftrightarrow> s' = s\<lparr>rate_windows := rate_windows s'\<rparr>"

lemma windows_frame_refl [simp]: "windows_frame s s"
  by (simp add: windows_frame_def)

lemma windows_frame_constraints:
  "windows_frame s s' \<Longrightarrow> constraints_ok s \<Longrightarrow> constraints_ok s' \<longleftrightarrow> rate_windows_ok (rate_windows s')"
  unfolding windows_frame_def constraints_ok_def by (erule ssubst) simp

lemma count_request_counts:
  assumes "count_request wid now k limit s = Inr (counted, s')" and "1 \<le> limit"
  shows "windows_frame s s'" and "counted = (if window_count s k < limit then Some (window_count s k + 1) else None)"
    and "window_count s' = (if window_count s k < limit then (window_count s)(k := window_count s k + 1) else window_count s)"
proof -
  show "windows_frame s s'"
    using assms(1) by (auto simp: count_request_def windows_frame_def split: option.splits if_splits prod.splits)
  show c: "counted = (if window_count s k < limit then Some (window_count s k + 1) else None)"
    using assms by (auto simp: count_request_def window_count_def split: option.splits if_splits prod.splits)
  show "window_count s' = (if window_count s k < limit then (window_count s)(k := window_count s k + 1) else window_count s)"
  proof (cases "find (\<lambda>w. window_scope w = k) (rate_windows s)")
    case None
    obtain org sub route verb e where k: "k = (org, sub, route, verb, e)" by (cases k)
    define row where "row = \<lparr>w_id = wid, w_organization = org, w_subject_sha256 = sub, w_route_sha256 = route,
      w_method = verb, w_epoch = e, w_count = 1, w_updated_at = now\<rparr>"
    have "window_scope row = k" "w_count row = 1" by (simp_all add: row_def window_scope_def k)
    moreover have "rate_windows s' = rate_windows s @ [row]" using assms(1) None by (auto simp: count_request_def k row_def)
    ultimately show ?thesis using None assms(2) by (auto simp: window_count_def find_append fun_eq_iff split: option.splits)
  next
    case (Some w)
    with assms(1) show ?thesis
      by (auto simp: count_request_def window_count_def find_scope_update split: if_splits option.splits)
  qed
qed

lemma count_request_ok:
  assumes "rate_windows_ok (rate_windows s)" and "1 \<le> limit" and "k = (org, sub, route, verb, e)"
    and "length sub = 64" and "length route = 64" and "0 \<le> e" and "wid \<notin> w_id ` set (rate_windows s)"
  shows "\<exists>counted s'. count_request wid now k limit s = Inr (counted, s') \<and> rate_windows_ok (rate_windows s')"
proof (cases "find (\<lambda>w. window_scope w = k) (rate_windows s)")
  case None
  then have "k \<notin> window_scope ` set (rate_windows s)" by (auto simp: find_None_iff)
  with assms None show ?thesis
    by (auto simp: count_request_def rate_windows_ok_def unique_by_def window_scope_def)
next
  case (Some w)
  let ?rows = "update_where (\<lambda>w. window_scope w = k) (\<lambda>w. w\<lparr>w_count := w_count w + 1, w_updated_at := now\<rparr>) (rate_windows s)"
  have "map w_id ?rows = map w_id (rate_windows s)" by (rule map_update_where) simp
  moreover have "map (\<lambda>w. (w_organization w, w_subject_sha256 w, w_route_sha256 w, w_method w, w_epoch w)) ?rows
      = map (\<lambda>w. (w_organization w, w_subject_sha256 w, w_route_sha256 w, w_method w, w_epoch w)) (rate_windows s)"
    by (rule map_update_where) simp
  ultimately have "rate_windows_ok ?rows"
    using assms(1) by (auto simp: rate_windows_ok_def unique_by_def list_all_iff set_update_where)
  with Some assms(1) show ?thesis by (auto simp: count_request_def)
qed


definition request_scope :: "runtime \<Rightarrow> uuid \<Rightarrow> string \<Rightarrow> string \<Rightarrow> string \<Rightarrow> int \<Rightarrow> window_scope" where
  "request_scope rt org subject verb route window_epoch =
     (org, rt_sha rt subject, rt_sha rt route, map upper_char verb, window_epoch)"

lemma request_limit_pos: "limiter_ok rl \<Longrightarrow> 1 \<le> request_limit rl verb"
  by (simp add: limiter_ok_def request_limit_def)

lemma enforce_cases:
  assumes "enforce rt rl source wid now org subject verb route s = (r, s')" and "limiter_ok rl"
  obtains (refused) e where "r = Inl e" "s' = s"
  | (counted) window_epoch retry_after where "r = Inr ()" "window_state rl source = Inr (window_epoch, retry_after)"
      "windows_frame s s'" "constraints_ok s'"
      "window_count s (request_scope rt org subject verb route window_epoch) < request_limit rl (map upper_char verb)"
      "window_count s' = (window_count s)(request_scope rt org subject verb route window_epoch :=
         window_count s (request_scope rt org subject verb route window_epoch) + 1)"
proof -
  let ?verb = "map upper_char verb"
  let ?limit = "request_limit rl ?verb"
  let ?body = "\<lambda>c s. bindr (window_state rl source) (\<lambda>(window_epoch, retry_after).
      bindr (ensure (rt_dialect rt \<noteq> OtherDialect) (RuntimeError ''rate limiting requires PostgreSQL or SQLite'')) (\<lambda>_.
      bindr (count_request wid now (org, rt_sha rt subject, rt_sha rt route, ?verb, window_epoch) ?limit s) (\<lambda>(counted, s).
      Inr ((counted, retry_after), s))))"
  have enforce: "enforce rt rl source wid now org subject verb route s =
     (if ?verb \<notin> set safe_methods \<or> \<not> safe_route route
      then (Inl (TrafficRateLimitExceededError ''http.rate_limit.contract'' (nat (rl_window_seconds rl))), s)
      else (case in_session rt (user_context org subject) ?body s of
           (Inl e, s') \<Rightarrow> (Inl (if is_sqlalchemy_error e then DependencyUnavailableError ''http.rate_limit'' else e), s')
         | (Inr (counted, retry_after), s') \<Rightarrow>
             ((case counted of
                 None \<Rightarrow> Inl (TrafficRateLimitExceededError ''http.rate_limit'' (nat retry_after))
               | Some n \<Rightarrow> if ?limit < n then Inl (TrafficRateLimitExceededError ''http.rate_limit'' (nat retry_after))
                           else Inr ()), s')))"
    by (simp only: enforce_def Let_def)
  show thesis
  proof (cases "?verb \<notin> set safe_methods \<or> \<not> safe_route route")
    case True
    with assms(1) enforce show thesis by (intro refused) auto
  next
    case False
    obtain x t where x: "in_session rt (user_context org subject) ?body s = (x, t)" by fastforce
    show thesis
    proof (cases x)
      case (Inl e)
      with x have "t = s" by (auto dest: in_session_Inl)
      with False Inl x assms(1) show thesis by (intro refused) (auto simp: enforce)
    next
      case (Inr y)
      obtain counted retry where y: "y = (counted, retry)" by (cases y)
      from in_session_Inr [OF x [unfolded Inr y]] obtain window_epoch where
        w: "window_state rl source = Inr (window_epoch, retry)"
        and c: "count_request wid now (org, rt_sha rt subject, rt_sha rt route, ?verb, window_epoch) ?limit s = Inr (counted, t)"
        and ok: "constraints_ok t" by auto
      note cc = count_request_counts [OF c request_limit_pos [OF assms(2)], folded request_scope_def]
      have res: "s' = t" "r = (case counted of
          None \<Rightarrow> Inl (TrafficRateLimitExceededError ''http.rate_limit'' (nat retry))
        | Some n \<Rightarrow> if ?limit < n then Inl (TrafficRateLimitExceededError ''http.rate_limit'' (nat retry)) else Inr ())"
        using assms(1) False x by (simp_all add: enforce Inr y)
      show thesis
      proof (cases "window_count s (request_scope rt org subject verb route window_epoch) < ?limit")
        case True
        with cc res ok show thesis by (intro counted [OF _ w]) simp_all
      next
        case over: False
        have "t = s" using c over request_limit_pos [OF assms(2), of ?verb]
          by (auto simp: count_request_def window_count_def request_scope_def split: option.splits if_splits)
        with over cc res show thesis by (intro refused) simp_all
      qed
    qed
  qed
qed


text \<open>With a valid request, a fresh row identifier and a clock that answers, \<open>enforce\<close> is the abstract counter.\<close>

lemma enforce_exact:
  assumes "digest_ok rt" and "limiter_ok rl" and "constraints_ok s" and "rt_dialect rt \<noteq> OtherDialect"
    and "safe_subject subject" and "map upper_char verb \<in> set safe_methods" and "safe_route route"
    and "window_state rl source = Inr (window_epoch, retry_after)" and "wid \<notin> w_id ` set (rate_windows s)"
    and k: "k = request_scope rt org subject verb route window_epoch" and l: "limit = request_limit rl (map upper_char verb)"
  shows "\<exists>s'. enforce rt rl source wid now org subject verb route s =
      (if window_count s k < limit then Inr () else Inl (TrafficRateLimitExceededError ''http.rate_limit'' (nat retry_after)), s')
     \<and> constraints_ok s' \<and> window_count s' = (if window_count s k < limit then (window_count s)(k := window_count s k + 1) else window_count s)"
proof -
  let ?verb = "map upper_char verb"
  obtain c where c: "user_context org subject = Inr c" using assms(5) by (simp add: user_context_def)
  have len: "length (rt_sha rt x) = 64" for x using assms(1) by (simp add: digest_ok_def is_sha256_hex_def)
  have "0 \<le> window_epoch" using window_state_Inr(1) [OF assms(8,2)] .
  moreover have "rate_windows_ok (rate_windows s)" using assms(3) by (simp add: constraints_ok_def)
  ultimately obtain counted s' where cr: "count_request wid now k limit s = Inr (counted, s')" and "rate_windows_ok (rate_windows s')"
    using count_request_ok [OF _ _ k [unfolded request_scope_def] len len, of s limit wid now] assms(9)
      request_limit_pos [OF assms(2), of ?verb] l by auto
  note cc = count_request_counts [OF cr request_limit_pos [OF assms(2), of ?verb, folded l]]
  have ok: "constraints_ok s'" using windows_frame_constraints [OF cc(1) assms(3)] \<open>rate_windows_ok (rate_windows s')\<close> by simp
  have "enforce rt rl source wid now org subject verb route s =
      (if window_count s k < limit then Inr () else Inl (TrafficRateLimitExceededError ''http.rate_limit'' (nat retry_after)), s')"
    using assms(4,6-8) c ok cr cc(2) open_session_valid [OF user_context_valid [OF c]]
    by (simp add: enforce_def Let_def in_session_def session_def flip: request_scope_def k l)
  with ok cc(3) show ?thesis by blast
qed

lemma purge_expired_cases:
  assumes "purge_expired rt rl source limit s = (r, s')"
  obtains (refused) e where "r = Inl e" "s' = s"
  | (swept) current retry_after ids where "window_state rl source = Inr (current, retry_after)"
      "ids = expired_windows rl current limit s" "r = Inr (int (length ids))" "1 \<le> limit" "limit \<le> 1000" "constraints_ok s'"
      "s' = s\<lparr>rate_windows := delete_where (\<lambda>w. w_id w \<in> set ids) (rate_windows s)\<rparr>"
proof (cases r)
  case (Inl e)
  with assms show thesis by (intro refused) (auto simp: purge_expired_def dest: in_session_Inl split: if_splits)
next
  case (Inr n)
  with assms have "1 \<le> limit" "limit \<le> 1000" by (auto simp: purge_expired_def split: if_splits)
  with Inr assms show thesis
    by (auto simp: purge_expired_def Let_def split: if_splits dest!: in_session_Inr intro: swept)
qed

lemma window_epoch_scope: "window_scope w = k \<Longrightarrow> w_epoch w = snd (snd (snd (snd k)))"
  by (auto simp: window_scope_def)

lemma expired_windows_old:
  assumes "w \<in> set (rate_windows s)" and "w_id w \<in> set (expired_windows rl current limit s)" and "constraints_ok s"
  shows "w_epoch w < current - rl_retention_windows rl"
proof -
  from assms(2) obtain x where x: "x \<in> set (rate_windows s)" "w_id x = w_id w" "w_epoch x < current - rl_retention_windows rl"
    by (auto simp: expired_windows_def dest!: in_set_takeD)
  have "distinct (map w_id (rate_windows s))" using assms(3) by (simp add: constraints_ok_def rate_windows_ok_def unique_by_def)
  then have "x = w" using x(1) assms(1) x(2) by (rule distinct_map_inj)
  with x(3) show ?thesis by simp
qed

lemma find_delete_where: "(\<And>r. r \<in> set rows \<Longrightarrow> Q r \<Longrightarrow> \<not> P r) \<Longrightarrow> find Q (delete_where P rows) = find Q rows"
  by (induction rows) (auto simp: delete_where_def)

text \<open>A sweep forgets only windows older than the retention.\<close>

lemma purge_keeps_recent:
  assumes "constraints_ok s" and "current - rl_retention_windows rl \<le> snd (snd (snd (snd k)))"
  shows "window_count (s\<lparr>rate_windows := delete_where (\<lambda>w. w_id w \<in> set (expired_windows rl current limit s)) (rate_windows s)\<rparr>) k
       = window_count s k"
proof -
  have "find (\<lambda>w. window_scope w = k) (delete_where (\<lambda>w. w_id w \<in> set (expired_windows rl current limit s)) (rate_windows s))
      = find (\<lambda>w. window_scope w = k) (rate_windows s)"
  proof (rule find_delete_where)
    fix w assume "w \<in> set (rate_windows s)" and "window_scope w = k"
    with assms(2) expired_windows_old [OF _ _ assms(1), of w rl current limit]
    show "w_id w \<notin> set (expired_windows rl current limit s)" by (auto simp: window_epoch_scope)
  qed
  then show ?thesis by (simp add: window_count_def)
qed

section \<open>Serving a sequence of calls\<close>

datatype rate_call =
    Request clock_source uuid time uuid string string string
  | Sweep clock_source int

text \<open>The scopes of the requests that were let through, in order.\<close>

fun serve :: "runtime \<Rightarrow> rate_limiter \<Rightarrow> rate_call list \<Rightarrow> db \<Rightarrow> window_scope list \<times> db" where
  "serve rt rl [] s = ([], s)"
| "serve rt rl (Request source wid now org subject verb route # calls) s =
     (case enforce rt rl source wid now org subject verb route s of
        (Inr _, s') \<Rightarrow>
          (case (window_state rl source, serve rt rl calls s') of
             (Inr (window_epoch, _), (scopes, s'')) \<Rightarrow> (request_scope rt org subject verb route window_epoch # scopes, s'')
           | (Inl _, served) \<Rightarrow> served)
      | (Inl _, s') \<Rightarrow> serve rt rl calls s')"
| "serve rt rl (Sweep source limit # calls) s = serve rt rl calls (snd (purge_expired rt rl source limit s))"

text \<open>
  The clock may step back, and a request may reach the table after a sweep that read a later window, as
  long as no request falls further behind an earlier sweep than the windows that are retained.
\<close>

fun request_epochs :: "rate_limiter \<Rightarrow> rate_call list \<Rightarrow> int list" where
  "request_epochs rl [] = []"
| "request_epochs rl (Sweep source limit # calls) = request_epochs rl calls"
| "request_epochs rl (Request source wid now org subject verb route # calls) =
     (case window_state rl source of
        Inl _ \<Rightarrow> request_epochs rl calls | Inr (window_epoch, _) \<Rightarrow> window_epoch # request_epochs rl calls)"

fun within_retention :: "rate_limiter \<Rightarrow> rate_call list \<Rightarrow> bool" where
  "within_retention rl [] = True"
| "within_retention rl (Request source wid now org subject verb route # calls) = within_retention rl calls"
| "within_retention rl (Sweep source limit # calls) \<longleftrightarrow>
     (case window_state rl source of
        Inl _ \<Rightarrow> True
      | Inr (current, _) \<Rightarrow> list_all (\<lambda>e. current - rl_retention_windows rl \<le> e) (request_epochs rl calls))
     \<and> within_retention rl calls"

abbreviation scope_epoch :: "window_scope \<Rightarrow> int" where
  "scope_epoch k \<equiv> snd (snd (snd (snd k)))"

abbreviation scope_method :: "window_scope \<Rightarrow> string" where
  "scope_method k \<equiv> fst (snd (snd (snd k)))"

lemma serve_epochs: "limiter_ok rl \<Longrightarrow> k \<in> set (fst (serve rt rl calls s)) \<Longrightarrow> scope_epoch k \<in> set (request_epochs rl calls)"
proof (induction calls arbitrary: s)
  case (Cons call calls)
  show ?case
  proof (cases call)
    case (Request source wid now org subject verb route)
    obtain r s' where r: "enforce rt rl source wid now org subject verb route s = (r, s')" by fastforce
    from r Cons.prems(1) show ?thesis
    proof (cases rule: enforce_cases)
      case (refused e)
      with Cons r Request show ?thesis by (auto split: sum.splits prod.splits)
    next
      case (counted window_epoch retry_after)
      with Cons.IH [of s'] Cons.prems r Request show ?thesis
        by (cases "serve rt rl calls s'") (auto simp: request_scope_def)
    qed
  next
    case (Sweep source limit)
    with Cons show ?thesis by (auto split: sum.splits prod.splits)
  qed
qed simp

lemma serve_bounded:
  assumes "limiter_ok rl"
  shows "constraints_ok s \<Longrightarrow> within_retention rl calls \<Longrightarrow>
     int (count_list (fst (serve rt rl calls s)) k) \<le> max 0 (request_limit rl (scope_method k) - window_count s k)"
proof (induction calls arbitrary: s)
  case (Cons call calls)
  have later: "within_retention rl calls" using Cons.prems(2) by (cases call) auto
  show ?case
  proof (cases call)
    case (Request source wid now org subject verb route)
    obtain r s' where r: "enforce rt rl source wid now org subject verb route s = (r, s')" by fastforce
    from r assms show ?thesis
    proof (cases rule: enforce_cases)
      case (refused e)
      with Cons.IH [OF Cons.prems(1) later] r Request show ?thesis by simp
    next
      case (counted window_epoch retry_after)
      let ?k = "request_scope rt org subject verb route window_epoch"
      have "fst (serve rt rl (call # calls) s) = ?k # fst (serve rt rl calls s')"
        using counted r Request by (cases "serve rt rl calls s'") simp
      moreover have "scope_method ?k = map upper_char verb" by (simp add: request_scope_def)
      ultimately show ?thesis
        using Cons.IH [OF counted(4) later] counted(5,6) by (auto split: if_splits)
    qed
  next
    case (Sweep source limit)
    obtain r s' where r: "purge_expired rt rl source limit s = (r, s')" by fastforce
    then show ?thesis
    proof (cases rule: purge_expired_cases)
      case (refused e)
      with Cons.IH [OF Cons.prems(1) later] r Sweep show ?thesis by simp
    next
      case (swept current retry_after ids)
      show ?thesis
      proof (cases "scope_epoch k < current - rl_retention_windows rl")
        case True
        have "k \<notin> set (fst (serve rt rl calls s'))"
        proof
          assume "k \<in> set (fst (serve rt rl calls s'))"
          then have "scope_epoch k \<in> set (request_epochs rl calls)" by (rule serve_epochs [OF assms])
          with Cons.prems(2) swept(1) Sweep have "current - rl_retention_windows rl \<le> scope_epoch k" by (simp add: list_all_iff)
          with True show False by simp
        qed
        with r Sweep show ?thesis by simp
      next
        case False
        then have "window_count s' k = window_count s k"
          using purge_keeps_recent [OF Cons.prems(1), of current rl k limit] swept(2,7) by simp
        with Cons.IH [OF swept(6) later] r Sweep show ?thesis by simp
      qed
    qed
  qed
qed simp


lemma window_count_nonneg: "constraints_ok s \<Longrightarrow> 0 \<le> window_count s k"
  by (auto simp: window_count_def constraints_ok_def rate_windows_ok_def list_all_iff
      split: option.splits dest!: find_SomeD)

text \<open>Neither operation touches what the control plane keeps its invariants over.\<close>

lemma enforce_directory:
  assumes "limiter_ok rl" and "constraints_ok s"
  shows "constraints_ok (snd (enforce rt rl source wid now org subject verb route s))"
    and "windows_frame s (snd (enforce rt rl source wid now org subject verb route s))"
  using enforce_cases [OF prod.collapse [symmetric] assms(1), of rt source wid now org subject verb route s] assms(2)
  by (metis windows_frame_refl)+

lemma purge_expired_frame:
  assumes "constraints_ok s"
  shows "constraints_ok (snd (purge_expired rt rl source limit s))" and "windows_frame s (snd (purge_expired rt rl source limit s))"
proof -
  obtain r s' where p: "purge_expired rt rl source limit s = (r, s')" by fastforce
  then have "constraints_ok s' \<and> windows_frame s s'"
  proof (cases rule: purge_expired_cases)
    case (refused e)
    with assms show ?thesis by simp
  next
    case (swept current retry_after ids)
    then show ?thesis by (simp add: windows_frame_def)
  qed
  with p show "constraints_ok (snd (purge_expired rt rl source limit s))" "windows_frame s (snd (purge_expired rt rl source limit s))"
    by simp_all
qed

end
