(* ===== verification/ResourceGuarantees.thy ===== *)
theory ResourceGuarantees imports Samples RateLimits begin

text \<open>
  The properties of the shared resources around the control plane: the request counters of the API.
\<close>

section \<open>Rate limits\<close>

definition sample_limiter :: rate_limiter where
  "sample_limiter = \<lparr>rl_window_seconds = 60, rl_read_requests = 2, rl_write_requests = 1, rl_retention_windows = 2\<rparr>"

definition sample_requests :: "rate_call list" where
  "sample_requests =
     [Request (InjectedClock (Seconds 30)) 1 0 7 ''alice'' ''get'' ''/runs'',
      Request (InjectedClock (Seconds 40)) 2 0 7 ''alice'' ''GET'' ''/runs'',
      Request (InjectedClock (Seconds 61)) 3 0 7 ''alice'' ''GET'' ''/runs'',
      Sweep (InjectedClock (Seconds 130)) 10,
      Request (InjectedClock (Seconds 59)) 4 0 7 ''alice'' ''GET'' ''/runs'']"

definition sample_scope :: "int \<Rightarrow> window_scope" where
  "sample_scope window_epoch = (7, sample_digest, sample_digest, ''GET'', window_epoch)"

text \<open>
  C26. However requests and sweeps interleave, no organization, subject, route and method is let
  through more often in one window than its ceiling, provided no request's window lies further than the
  retention behind the window of an earlier sweep. The clock may step back and requests may cross a
  window boundary within that margin: a sweep forgets no window inside it.
\<close>

theorem rate_limit_bounds_window:
  assumes "limiter_ok rl" and "constraints_ok s" and "within_retention rl calls"
  shows "int (count_list (fst (serve rt rl calls s)) k) \<le> request_limit rl (scope_method k)"
proof -
  have "0 \<le> window_count s k" using assms(2) by (rule window_count_nonneg)
  with serve_bounded [OF assms, of rt k] request_limit_pos [OF assms(1), of "scope_method k"] show ?thesis by simp
qed

theorem rate_limit_bounds_window_witness:
  "within_retention sample_limiter sample_requests \<and> request_epochs sample_limiter sample_requests = [0, 0, 1, 0]
   \<and> fst (serve sample_runtime sample_limiter sample_requests sample_db) = [sample_scope 0, sample_scope 0, sample_scope 1]
   \<and> int (count_list (fst (serve sample_runtime sample_limiter sample_requests sample_db)) (sample_scope 0)) \<le> 2"
proof -
  have ok: "limiter_ok sample_limiter" by (simp add: limiter_ok_def sample_limiter_def)
  have within: "within_retention sample_limiter sample_requests" by code_simp
  have "request_epochs sample_limiter sample_requests = [0, 0, 1, 0]" by code_simp
  moreover have "fst (serve sample_runtime sample_limiter sample_requests sample_db) = [sample_scope 0, sample_scope 0, sample_scope 1]"
    by code_simp
  moreover have "request_limit sample_limiter (scope_method (sample_scope 0)) = 2" by code_simp
  ultimately show ?thesis
    using rate_limit_bounds_window [OF ok sample_constraints within, of sample_runtime "sample_scope 0"] within by simp
qed

text \<open>
  C27. A request is counted exactly: it is let through if and only if its window has counted fewer
  requests than the ceiling, its window then counts one more and no other window changes; a refused
  request changes no counter and is told how long its window still lasts.
\<close>

theorem rate_limit_exact:
  assumes "digest_ok rt" and "limiter_ok rl" and "constraints_ok s" and "rt_dialect rt \<noteq> OtherDialect"
    and "safe_subject subject" and "map upper_char verb \<in> set safe_methods" and "safe_route route"
    and "window_state rl source = Inr (window_epoch, retry_after)" and "wid \<notin> w_id ` set (rate_windows s)"
  shows "\<exists>s'. (let k = request_scope rt org subject verb route window_epoch; limit = request_limit rl (map upper_char verb) in
     enforce rt rl source wid now org subject verb route s =
       (if window_count s k < limit then Inr () else Inl (TrafficRateLimitExceededError ''http.rate_limit'' (nat retry_after)), s')
     \<and> constraints_ok s' \<and> 0 < retry_after \<and> retry_after \<le> rl_window_seconds rl
     \<and> window_count s' = (if window_count s k < limit then (window_count s)(k := window_count s k + 1) else window_count s))"
  using enforce_exact [OF assms refl refl] window_state_Inr(2,3) [OF assms(8,2)] unfolding Let_def by blast

theorem rate_limit_exact_witness:
  "\<exists>s'. enforce sample_runtime sample_limiter (InjectedClock (Seconds 30)) 1 0 7 ''alice'' ''get'' ''/runs'' sample_db = (Inr (), s')
     \<and> window_count s' (sample_scope 0) = 1"
proof -
  have ok: "limiter_ok sample_limiter" by (simp add: limiter_ok_def sample_limiter_def)
  have w: "window_state sample_limiter (InjectedClock (Seconds 30)) = Inr (0, 30)" by code_simp
  have v: "rt_dialect sample_runtime \<noteq> OtherDialect" "safe_subject ''alice''" "map upper_char ''get'' \<in> set safe_methods"
    "safe_route ''/runs''" "(1 :: uuid) \<notin> w_id ` set (rate_windows sample_db)" by code_simp+
  have "request_scope sample_runtime 7 ''alice'' ''get'' ''/runs'' 0 = sample_scope 0"
    "request_limit sample_limiter (map upper_char ''get'') = 2" "window_count sample_db (sample_scope 0) = 0" by code_simp+
  with rate_limit_exact [OF sample_digest_ok ok sample_constraints v(1-4) w v(5), of 7 0]
  show ?thesis by (auto simp: Let_def)
qed

end
