(* ===== verification/ObjectStore.thy ===== *)
theory ObjectStore imports Tenant begin

text \<open>
  src/corpuskit/persistence/artifact_store.py: the private content-addressed object store. The
  \<open>ObjectStore\<close> protocol is a record of operations on a state; the in-memory adapter and the
  filesystem adapter are two such records, and the locale \<open>object_store\<close> holds what both promise.
  The S3 adapter calls a remote service and is not modelled.

  A directory tree of the filesystem adapter is kept as its files: the objects with their
  modification times, the metadata sidecars (as what \<open>_stat_sync\<close> reads out of one: size, digest
  and media type, or nothing when it is unreadable) and the temporary files a killed process left.
  No key is a directory of another, which holds of the keys the program builds.
\<close>

section \<open>Descriptors and their validation\<close>

record object_descriptor =
  od_key :: string
  od_size_bytes :: int
  od_sha256 :: string
  od_media_type :: string
  od_modified_at :: time

record put_result =
  pr_descriptor :: object_descriptor
  pr_created :: bool

definition is_key_char :: "char \<Rightarrow> bool" where
  "is_key_char c \<longleftrightarrow> is_lower_char c \<or> is_digit_char c \<or> c = CHR ''/'' \<or> c = CHR ''_'' \<or> c = CHR ''-''"

definition safe_key :: "string \<Rightarrow> bool" where
  "safe_key key \<longleftrightarrow> (case key of [] \<Rightarrow> False
     | c # cs \<Rightarrow> (is_lower_char c \<or> is_digit_char c) \<and> length cs \<le> 511 \<and> list_all is_key_char cs)"

definition valid_key :: "string \<Rightarrow> bool" where
  "valid_key key \<longleftrightarrow> safe_key key \<and> \<not> is_substring ''//'' key
     \<and> \<not> is_substring ''/../'' (''/'' @ key @ ''/'')"

definition validate_key :: "string \<Rightarrow> exn + unit" where
  "validate_key key = ensure (valid_key key) (ValueError ''invalid object key'')"

definition strip_slashes :: "string \<Rightarrow> string" where
  "strip_slashes s = rev (dropWhile (\<lambda>c. c = CHR ''/'') (rev s))"

definition validate_prefix :: "string \<Rightarrow> exn + unit" where
  "validate_prefix p =
     ensure (p \<noteq> [] \<and> safe_key (strip_slashes p) \<and> \<not> is_substring ''//'' p) (ValueError ''invalid object prefix'')"

definition validate_listing :: "string \<Rightarrow> int \<Rightarrow> string option \<Rightarrow> exn + unit" where
  "validate_listing p limit after =
     bindr (validate_prefix p) (\<lambda>_.
     bindr (ensure (1 \<le> limit \<and> limit \<le> 10000) (ValueError ''object listing limit is invalid'')) (\<lambda>_.
     case after of None \<Rightarrow> Inr ()
     | Some a \<Rightarrow> bindr (validate_key a) (\<lambda>_.
         ensure (starts_with p a) (ValueError ''object listing cursor is invalid''))))"

definition validate_descriptor :: "object_descriptor \<Rightarrow> exn + unit" where
  "validate_descriptor d =
     bindr (ensure (0 \<le> od_size_bytes d \<and> is_sha256_hex (od_sha256 d)) (ObjectIntegrityError ''object metadata is invalid'')) (\<lambda>_.
     ensure (od_media_type d \<noteq> [] \<and> str_len (od_media_type d) \<le> 160) (ObjectIntegrityError ''object media type is invalid''))"

definition same_object :: "object_descriptor \<Rightarrow> object_descriptor \<Rightarrow> bool" where
  "same_object a b \<longleftrightarrow> od_key a = od_key b \<and> od_size_bytes a = od_size_bytes b
     \<and> od_sha256 a = od_sha256 b \<and> od_media_type a = od_media_type b"

definition verify_descriptor :: "object_descriptor \<Rightarrow> object_descriptor \<Rightarrow> exn + unit" where
  "verify_descriptor actual expected =
     bindr (validate_descriptor actual) (\<lambda>_.
     ensure (same_object actual expected) (ObjectIntegrityError ''object metadata does not match its content address''))"

definition new_descriptor :: "time \<Rightarrow> string \<Rightarrow> string \<Rightarrow> string \<Rightarrow> string \<Rightarrow> object_descriptor" where
  "new_descriptor now key content sha256 media_type =
     \<lparr>od_key = key, od_size_bytes = int (length content), od_sha256 = sha256, od_media_type = media_type, od_modified_at = now\<rparr>"

definition validate_put :: "(string \<Rightarrow> string) \<Rightarrow> time \<Rightarrow> string \<Rightarrow> string \<Rightarrow> string \<Rightarrow> string \<Rightarrow> exn + unit" where
  "validate_put hash now key content sha256 media_type =
     bindr (validate_key key) (\<lambda>_.
     bindr (ensure (sha256 = hash content) (ObjectIntegrityError ''upload checksum is invalid'')) (\<lambda>_.
     validate_descriptor (new_descriptor now key content sha256 media_type)))"

section \<open>The protocol\<close>

text \<open>An opened object is its descriptor and its chunks; reading a chunk may fail.\<close>

record 'v object_store_ops =
  os_put :: "time \<Rightarrow> string \<Rightarrow> string \<Rightarrow> string \<Rightarrow> string \<Rightarrow> 'v \<Rightarrow> (exn + put_result) \<times> 'v"
  os_stat :: "string \<Rightarrow> 'v \<Rightarrow> exn + object_descriptor"
  os_open :: "string \<Rightarrow> int \<Rightarrow> 'v \<Rightarrow> exn + object_descriptor \<times> (exn + string) list"
  os_delete :: "string \<Rightarrow> 'v \<Rightarrow> (exn + unit) \<times> 'v"
  os_list_keys :: "string \<Rightarrow> int \<Rightarrow> string option \<Rightarrow> 'v \<Rightarrow> exn + string list"

function chunks_of :: "nat \<Rightarrow> string \<Rightarrow> string list" where
  "chunks_of n s = (if n = 0 \<or> s = [] then [] else take n s # chunks_of n (drop n s))"
  by pat_completeness auto
termination by (relation "measure (\<lambda>(n, s). length s)") auto

declare chunks_of.simps [simp del]

lemma concat_chunks_of: "0 < n \<Longrightarrow> concat (chunks_of n s) = s"
  by (induction n s rule: chunks_of.induct) (subst chunks_of.simps, auto)

definition listed_page :: "string \<Rightarrow> int \<Rightarrow> string option \<Rightarrow> string list \<Rightarrow> string list" where
  "listed_page p limit after keys =
     take (nat limit) (sort (filter (\<lambda>k. starts_with p k \<and> (case after of None \<Rightarrow> True | Some a \<Rightarrow> a < k)) keys))"

section \<open>The in-memory adapter\<close>

record mem_store =
  ms_objects :: "(string \<times> string \<times> object_descriptor) list"
  ms_fail_put :: bool
  ms_fail_delete :: bool

definition mem_put :: "(string \<Rightarrow> string) \<Rightarrow> time \<Rightarrow> string \<Rightarrow> string \<Rightarrow> string \<Rightarrow> string \<Rightarrow> mem_store \<Rightarrow> (exn + put_result) \<times> mem_store" where
  "mem_put hash now key content sha256 media_type v =
     (let descriptor = new_descriptor now key content sha256 media_type in
      case bindr (validate_put hash now key content sha256 media_type) (\<lambda>_.
        ensure (\<not> ms_fail_put v) (ObjectStoreError ''object write failed'')) of
        Inl e \<Rightarrow> (Inl e, v)
      | Inr _ \<Rightarrow>
          (case map_of (ms_objects v) key of
             Some (stored, existing) \<Rightarrow>
               (bindr (verify_descriptor existing descriptor) (\<lambda>_.
                bindr (ensure (stored = content) (ObjectIntegrityError ''content address collision'')) (\<lambda>_.
                Inr \<lparr>pr_descriptor = existing, pr_created = False\<rparr>)), v)
           | None \<Rightarrow> (Inr \<lparr>pr_descriptor = descriptor, pr_created = True\<rparr>,
               v\<lparr>ms_objects := ms_objects v @ [(key, content, descriptor)]\<rparr>)))"

definition mem_stat :: "string \<Rightarrow> mem_store \<Rightarrow> exn + object_descriptor" where
  "mem_stat key v = bindr (validate_key key) (\<lambda>_. require ObjectNotFoundError (map_option snd (map_of (ms_objects v) key)))"

definition mem_open :: "string \<Rightarrow> int \<Rightarrow> mem_store \<Rightarrow> exn + object_descriptor \<times> (exn + string) list" where
  "mem_open key chunk_bytes v =
     bindr (ensure (0 < chunk_bytes) (ValueError ''chunk size must be positive'')) (\<lambda>_.
     bindr (mem_stat key v) (\<lambda>descriptor.
     bindr (require ObjectNotFoundError (map_option fst (map_of (ms_objects v) key))) (\<lambda>content.
     Inr (descriptor, map Inr (chunks_of (nat chunk_bytes) content)))))"

definition mem_delete :: "string \<Rightarrow> mem_store \<Rightarrow> (exn + unit) \<times> mem_store" where
  "mem_delete key v =
     (case bindr (validate_key key) (\<lambda>_. ensure (\<not> ms_fail_delete v) (ObjectStoreError ''object delete failed'')) of
        Inl e \<Rightarrow> (Inl e, v)
      | Inr _ \<Rightarrow> (Inr (), v\<lparr>ms_objects := filter (\<lambda>x. fst x \<noteq> key) (ms_objects v)\<rparr>))"

definition mem_list_keys :: "string \<Rightarrow> int \<Rightarrow> string option \<Rightarrow> mem_store \<Rightarrow> exn + string list" where
  "mem_list_keys p limit after v =
     bindr (validate_listing p limit after) (\<lambda>_. Inr (listed_page p limit after (map fst (ms_objects v))))"

definition mem_ops :: "(string \<Rightarrow> string) \<Rightarrow> mem_store object_store_ops" where
  "mem_ops hash = \<lparr>os_put = mem_put hash, os_stat = mem_stat, os_open = mem_open, os_delete = mem_delete, os_list_keys = mem_list_keys\<rparr>"

section \<open>The filesystem adapter\<close>

text \<open>Where the operating system may refuse the next write.\<close>

datatype fs_fault = NoFault | UploadFails | MetadataFails

record fs_store =
  fs_blobs :: "(string \<times> string \<times> time) list"
  fs_sidecars :: "(string \<times> (int \<times> string \<times> string) option) list"
  fs_leftovers :: "string list"
  fs_fault :: fs_fault

definition fs_path :: "string \<Rightarrow> exn + string" where
  "fs_path key = bindr (validate_key key) (\<lambda>_. Inr key)"

definition fs_stat :: "string \<Rightarrow> fs_store \<Rightarrow> exn + object_descriptor" where
  "fs_stat key v =
     bindr (fs_path key) (\<lambda>path.
     case map_of (fs_sidecars v) path of
       None \<Rightarrow> Inl ObjectNotFoundError
     | Some None \<Rightarrow> Inl (ObjectIntegrityError ''object metadata is invalid'')
     | Some (Some (size_bytes, sha256, media_type)) \<Rightarrow>
         (case map_of (fs_blobs v) path of
            None \<Rightarrow> Inl ObjectNotFoundError
          | Some (content, modified_at) \<Rightarrow>
              let descriptor = \<lparr>od_key = key, od_size_bytes = size_bytes, od_sha256 = sha256,
                    od_media_type = media_type, od_modified_at = modified_at\<rparr> in
              bindr (ensure (int (length content) = size_bytes) (ObjectIntegrityError ''stored object size is invalid'')) (\<lambda>_.
              bindr (validate_descriptor descriptor) (\<lambda>_. Inr descriptor))))"

definition fs_put :: "(string \<Rightarrow> string) \<Rightarrow> time \<Rightarrow> string \<Rightarrow> string \<Rightarrow> string \<Rightarrow> string \<Rightarrow> fs_store \<Rightarrow> (exn + put_result) \<times> fs_store" where
  "fs_put hash now key content sha256 media_type v =
     (let descriptor = new_descriptor now key content sha256 media_type in
      case bindr (validate_put hash now key content sha256 media_type) (\<lambda>_. fs_path key) of
        Inl e \<Rightarrow> (Inl e, v)
      | Inr path \<Rightarrow>
          (case map_of (fs_blobs v) path of
             Some (stored, _) \<Rightarrow>
               (bindr (fs_stat key v) (\<lambda>existing.
                bindr (verify_descriptor existing descriptor) (\<lambda>_.
                bindr (ensure (hash stored = sha256) (ObjectIntegrityError ''stored object hash is invalid'')) (\<lambda>_.
                Inr \<lparr>pr_descriptor = existing, pr_created = False\<rparr>))), v)
           | None \<Rightarrow>
               if fs_fault v = UploadFails then (Inl OSError, v)
               else
                 let v1 = v\<lparr>fs_blobs := (path, content, now) # fs_blobs v\<rparr> in
                 if fs_fault v = MetadataFails then (Inl OSError, v1)
                 else (Inr \<lparr>pr_descriptor = descriptor, pr_created = True\<rparr>,
                   v1\<lparr>fs_sidecars := (path, Some (int (length content), sha256, media_type)) # fs_sidecars v\<rparr>)))"

definition fs_open :: "string \<Rightarrow> int \<Rightarrow> fs_store \<Rightarrow> exn + object_descriptor \<times> (exn + string) list" where
  "fs_open key chunk_bytes v =
     bindr (ensure (0 < chunk_bytes) (ValueError ''chunk size must be positive'')) (\<lambda>_.
     bindr (fs_stat key v) (\<lambda>descriptor.
     bindr (fs_path key) (\<lambda>path.
     bindr (require ObjectNotFoundError (map_option fst (map_of (fs_blobs v) path))) (\<lambda>content.
     Inr (descriptor, map Inr (chunks_of (nat chunk_bytes) content))))))"

definition fs_delete :: "string \<Rightarrow> fs_store \<Rightarrow> (exn + unit) \<times> fs_store" where
  "fs_delete key v =
     (case bindr (validate_key key) (\<lambda>_. fs_path key) of
        Inl e \<Rightarrow> (Inl e, v)
      | Inr path \<Rightarrow> (Inr (), v\<lparr>fs_blobs := filter (\<lambda>x. fst x \<noteq> path) (fs_blobs v),
          fs_sidecars := filter (\<lambda>x. fst x \<noteq> path) (fs_sidecars v)\<rparr>))"

text \<open>The scan leaves out sidecars and the temporaries of uploads, by the last component of the path.\<close>

definition file_name :: "string \<Rightarrow> string" where
  "file_name path = rev (takeWhile (\<lambda>c. c \<noteq> CHR ''/'') (rev path))"

definition fs_listed :: "fs_store \<Rightarrow> string list" where
  "fs_listed v = map fst (fs_blobs v) @ filter (\<lambda>path. \<not> starts_with ''.upload-'' (file_name path)) (fs_leftovers v)"

definition fs_list_keys :: "string \<Rightarrow> int \<Rightarrow> string option \<Rightarrow> fs_store \<Rightarrow> exn + string list" where
  "fs_list_keys p limit after v =
     bindr (validate_listing p limit after) (\<lambda>_. Inr (listed_page p limit after (fs_listed v)))"

definition fs_ops :: "(string \<Rightarrow> string) \<Rightarrow> fs_store object_store_ops" where
  "fs_ops hash = \<lparr>os_put = fs_put hash, os_stat = fs_stat, os_open = fs_open, os_delete = fs_delete, os_list_keys = fs_list_keys\<rparr>"

section \<open>What an adapter promises\<close>

text \<open>
  \<open>view\<close> is the map from keys to contents and descriptors a state stands for, \<open>names\<close> the paths a
  listing shows, which include the view's keys, and \<open>ok\<close> the representation invariant: nobody else
  writes to the store.
\<close>

locale object_store =
  fixes hash :: "string \<Rightarrow> string" and ops :: "'v object_store_ops"
    and view :: "'v \<Rightarrow> string \<Rightarrow> (string \<times> object_descriptor) option"
    and names :: "'v \<Rightarrow> string list" and ok :: "'v \<Rightarrow> bool"
  assumes view_law: "ok v \<Longrightarrow> view v key = Some (content, d) \<Longrightarrow> valid_key key \<and> od_key d = key
      \<and> od_size_bytes d = int (length content) \<and> od_sha256 d = hash content \<and> key \<in> set (names v)"
    and put_law: "ok v \<Longrightarrow> os_put ops now key content sha256 media_type v = (Inr r, v') \<Longrightarrow>
      ok v' \<and> sha256 = hash content \<and> same_object (pr_descriptor r) (new_descriptor now key content sha256 media_type)
      \<and> (\<exists>stored. view v' key = Some (stored, pr_descriptor r)) \<and> (\<forall>k. k \<noteq> key \<longrightarrow> view v' k = view v k)
      \<and> (if view v key = None then view v' key = Some (content, pr_descriptor r) else view v' = view v)"
    and put_refused: "ok v \<Longrightarrow> os_put ops now key content sha256 media_type v = (Inl e, v') \<Longrightarrow> ok v' \<and> view v' = view v"
    and stat_law: "ok v \<Longrightarrow> os_stat ops key v = Inr d \<longleftrightarrow> (\<exists>content. view v key = Some (content, d))"
    and open_law: "ok v \<Longrightarrow> os_open ops key n v = Inr (d, chunks) \<longleftrightarrow>
      0 < n \<and> (\<exists>content. view v key = Some (content, d) \<and> chunks = map Inr (chunks_of (nat n) content))"
    and delete_law: "ok v \<Longrightarrow> os_delete ops key v = (Inr u, v') \<Longrightarrow> ok v' \<and> view v' = (view v)(key := None)"
    and delete_refused: "ok v \<Longrightarrow> os_delete ops key v = (Inl e, v') \<Longrightarrow> ok v' \<and> view v' = view v"
    and list_law: "ok v \<Longrightarrow> os_list_keys ops p limit after v = Inr keys \<Longrightarrow>
      1 \<le> limit \<and> keys = listed_page p limit after (names v) \<and> distinct (names v)"
begin

lemma put_stat:
  assumes "ok v" and "os_put ops now key content sha256 media_type v = (Inr r, v')"
  shows "os_stat ops key v' = Inr (pr_descriptor r)"
  using put_law [OF assms] by (auto simp: stat_law)

lemma put_read:
  assumes "ok v" and "os_put ops now key content sha256 media_type v = (Inr r, v')" and "0 < n"
  shows "\<exists>chunks. os_open ops key n v' = Inr (pr_descriptor r, map Inr chunks) \<and> hash (concat chunks) = hash content
     \<and> length (concat chunks) = length content"
proof -
  obtain stored where view: "view v' key = Some (stored, pr_descriptor r)" and ok: "ok v'"
    and same: "same_object (pr_descriptor r) (new_descriptor now key content (hash content) media_type)"
    using put_law [OF assms(1,2)] by auto
  have c: "concat (chunks_of (nat n) stored) = stored" using assms(3) by (intro concat_chunks_of) simp
  have "os_open ops key n v' = Inr (pr_descriptor r, map Inr (chunks_of (nat n) stored))"
    using view assms(3) by (simp add: open_law [OF ok])
  with view_law [OF ok view] same c show ?thesis
    by (intro exI [of _ "chunks_of (nat n) stored"]) (auto simp: same_object_def new_descriptor_def)
qed

lemma put_again:
  assumes "ok v" and "os_put ops now key content sha256 media_type v = (Inr r, v')"
    and "os_put ops later key content sha256 media_type v' = (Inr r', v'')"
  shows "pr_descriptor r' = pr_descriptor r \<and> view v'' = view v'"
proof -
  obtain stored where one: "ok v'" "view v' key = Some (stored, pr_descriptor r)" using put_law [OF assms(1,2)] by auto
  obtain stored' where two: "view v'' key = Some (stored', pr_descriptor r')" "view v'' = view v'"
    using put_law [OF one(1) assms(3)] one(2) by auto
  with one(2) show ?thesis by simp
qed

end

section \<open>The two adapters keep it\<close>

definition mem_view :: "mem_store \<Rightarrow> string \<Rightarrow> (string \<times> object_descriptor) option" where
  "mem_view v = map_of (ms_objects v)"

definition mem_ok :: "(string \<Rightarrow> string) \<Rightarrow> mem_store \<Rightarrow> bool" where
  "mem_ok hash v \<longleftrightarrow> distinct (map fst (ms_objects v))
     \<and> (\<forall>(key, content, d) \<in> set (ms_objects v). valid_key key \<and> od_key d = key
          \<and> od_size_bytes d = int (length content) \<and> od_sha256 d = hash content)"

lemma mem_okD:
  "mem_ok hash v \<Longrightarrow> mem_view v key = Some (content, d) \<Longrightarrow>
     valid_key key \<and> od_key d = key \<and> od_size_bytes d = int (length content) \<and> od_sha256 d = hash content
     \<and> key \<in> set (map fst (ms_objects v))"
  by (force simp: mem_ok_def mem_view_def dest: map_of_SomeD)

lemma map_of_filter_key: "map_of (filter (\<lambda>x. fst x \<noteq> key) xs) = (map_of xs)(key := None)"
  by (induction xs) (auto simp: fun_eq_iff)

lemma validate_put_Inr:
  "validate_put hash now key content sha256 media_type = Inr u \<longleftrightarrow>
     valid_key key \<and> sha256 = hash content \<and> validate_descriptor (new_descriptor now key content sha256 media_type) = Inr ()"
  by (simp add: validate_put_def validate_key_def)

lemma verify_descriptor_Inr: "verify_descriptor a b = Inr u \<longleftrightarrow> validate_descriptor a = Inr () \<and> same_object a b"
  by (simp add: verify_descriptor_def)

lemma mem_put_cases:
  assumes "mem_put hash now key content sha256 media_type v = (r, v')"
  obtains (refused) e where "r = Inl e" "v' = v"
  | (kept) existing where "sha256 = hash content" "mem_view v key = Some (content, existing)" "v' = v"
      "r = Inr \<lparr>pr_descriptor = existing, pr_created = False\<rparr>"
      "same_object existing (new_descriptor now key content sha256 media_type)"
  | (stored) "sha256 = hash content" "valid_key key" "mem_view v key = None"
      "v' = v\<lparr>ms_objects := ms_objects v @ [(key, content, new_descriptor now key content sha256 media_type)]\<rparr>"
      "r = Inr \<lparr>pr_descriptor = new_descriptor now key content sha256 media_type, pr_created = True\<rparr>"
proof (cases "bindr (validate_put hash now key content sha256 media_type) (\<lambda>_.
        ensure (\<not> ms_fail_put v) (ObjectStoreError ''object write failed''))")
  case (Inl e)
  with assms show thesis by (intro refused) (auto simp: mem_put_def Let_def)
next
  case (Inr u)
  then have valid: "valid_key key" "sha256 = hash content" by (simp_all add: validate_put_Inr)
  show thesis
  proof (cases "map_of (ms_objects v) key")
    case None
    with assms Inr valid show thesis by (intro stored) (auto simp: mem_put_def mem_view_def Let_def)
  next
    case (Some x)
    obtain c d where x: "x = (c, d)" by (cases x)
    let ?check = "bindr (verify_descriptor d (new_descriptor now key content sha256 media_type)) (\<lambda>_.
                bindr (ensure (c = content) (ObjectIntegrityError ''content address collision'')) (\<lambda>_.
                Inr \<lparr>pr_descriptor = d, pr_created = False\<rparr>))"
    have res: "r = ?check" "v' = v" using assms Inr Some x by (simp_all add: mem_put_def Let_def)
    show thesis
    proof (cases ?check)
      case (Inl e)
      with res show thesis by (intro refused) simp_all
    next
      case check: (Inr p)
      then have "c = content" "same_object d (new_descriptor now key content sha256 media_type)"
        "p = \<lparr>pr_descriptor = d, pr_created = False\<rparr>" by (simp_all add: verify_descriptor_Inr)
      with res check Some x valid show thesis by (intro kept [of d]) (simp_all add: mem_view_def)
    qed
  qed
qed

lemma mem_delete_cases:
  assumes "mem_delete key v = (r, v')"
  obtains (refused) e where "r = Inl e" "v' = v"
  | (deleted) "r = Inr ()" "v' = v\<lparr>ms_objects := filter (\<lambda>x. fst x \<noteq> key) (ms_objects v)\<rparr>"
proof (cases "bindr (validate_key key) (\<lambda>_. ensure (\<not> ms_fail_delete v) (ObjectStoreError ''object delete failed''))")
  case (Inl e)
  with assms show thesis by (intro refused [of e]) (auto simp: mem_delete_def)
next
  case (Inr u)
  with assms show thesis by (intro deleted) (auto simp: mem_delete_def)
qed

lemma mem_stat_Inr: "mem_ok hash v \<Longrightarrow> mem_stat key v = Inr d \<longleftrightarrow> (\<exists>content. mem_view v key = Some (content, d))"
  by (auto simp: mem_stat_def validate_key_def mem_view_def dest: mem_okD [unfolded mem_view_def])

interpretation mem: object_store hash "mem_ops hash" mem_view "\<lambda>v. map fst (ms_objects v)" "mem_ok hash"
proof unfold_locales
  fix v key content d assume "mem_ok hash v" "mem_view v key = Some (content, d)"
  then show "valid_key key \<and> od_key d = key \<and> od_size_bytes d = int (length content) \<and> od_sha256 d = hash content
     \<and> key \<in> set (map fst (ms_objects v))" by (rule mem_okD)
next
  fix v now key content sha256 media_type r v'
  assume ok: "mem_ok hash v" and "os_put (mem_ops hash) now key content sha256 media_type v = (Inr r, v')"
  then have "mem_put hash now key content sha256 media_type v = (Inr r, v')" by (simp add: mem_ops_def)
  then show "mem_ok hash v' \<and> sha256 = hash content \<and> same_object (pr_descriptor r) (new_descriptor now key content sha256 media_type)
      \<and> (\<exists>stored. mem_view v' key = Some (stored, pr_descriptor r)) \<and> (\<forall>k. k \<noteq> key \<longrightarrow> mem_view v' k = mem_view v k)
      \<and> (if mem_view v key = None then mem_view v' key = Some (content, pr_descriptor r) else mem_view v' = mem_view v)"
  proof (cases rule: mem_put_cases)
    case (kept existing)
    with ok show ?thesis by simp
  next
    case stored
    then have "key \<notin> fst ` set (ms_objects v)" by (simp add: mem_view_def map_of_eq_None_iff)
    moreover have "mem_view v' = (mem_view v)(key \<mapsto> (content, pr_descriptor r))"
      using stored by (auto simp: mem_view_def fun_eq_iff map_add_def split: option.splits)
    ultimately show ?thesis using ok stored by (simp add: mem_ok_def same_object_def new_descriptor_def)
  qed simp
next
  fix v now key content sha256 media_type e v'
  assume ok: "mem_ok hash v" and "os_put (mem_ops hash) now key content sha256 media_type v = (Inl e, v')"
  then have "mem_put hash now key content sha256 media_type v = (Inl e, v')" by (simp add: mem_ops_def)
  then show "mem_ok hash v' \<and> mem_view v' = mem_view v" using ok by (cases rule: mem_put_cases) simp_all
next
  fix v key d assume "mem_ok hash v"
  then show "os_stat (mem_ops hash) key v = Inr d \<longleftrightarrow> (\<exists>content. mem_view v key = Some (content, d))"
    by (simp add: mem_ops_def mem_stat_Inr)
next
  fix v key n d chunks assume "mem_ok hash v"
  then show "os_open (mem_ops hash) key n v = Inr (d, chunks) \<longleftrightarrow>
      0 < n \<and> (\<exists>content. mem_view v key = Some (content, d) \<and> chunks = map Inr (chunks_of (nat n) content))"
    by (auto simp: mem_ops_def mem_open_def mem_stat_Inr) (auto simp: mem_view_def)
next
  fix v key u v' assume ok: "mem_ok hash v" and "os_delete (mem_ops hash) key v = (Inr u, v')"
  then have "v' = v\<lparr>ms_objects := filter (\<lambda>x. fst x \<noteq> key) (ms_objects v)\<rparr>" by (auto simp: mem_ops_def elim: mem_delete_cases)
  with ok show "mem_ok hash v' \<and> mem_view v' = (mem_view v)(key := None)"
    by (auto simp: mem_ok_def mem_view_def map_of_filter_key distinct_map_filter)
next
  fix v key e v' assume ok: "mem_ok hash v" and "os_delete (mem_ops hash) key v = (Inl e, v')"
  then show "mem_ok hash v' \<and> mem_view v' = mem_view v" by (auto simp: mem_ops_def elim: mem_delete_cases)
next
  fix v p limit after keys assume ok: "mem_ok hash v" and "os_list_keys (mem_ops hash) p limit after v = Inr keys"
  then show "1 \<le> limit \<and> keys = listed_page p limit after (map fst (ms_objects v)) \<and> distinct (map fst (ms_objects v))"
    by (simp add: mem_ops_def mem_list_keys_def validate_listing_def mem_ok_def)
qed


definition fs_view :: "fs_store \<Rightarrow> string \<Rightarrow> (string \<times> object_descriptor) option" where
  "fs_view v key = (case fs_stat key v of Inl e \<Rightarrow> None
     | Inr d \<Rightarrow> map_option (\<lambda>(content, modified_at). (content, d)) (map_of (fs_blobs v) key))"

text \<open>No sidecar without its object, and no object whose bytes changed behind the sidecar.\<close>

definition sidecar_agrees :: "(string \<Rightarrow> string) \<Rightarrow> fs_store \<Rightarrow> string \<Rightarrow> bool" where
  "sidecar_agrees hash v key \<longleftrightarrow>
     (case (map_of (fs_blobs v) key, map_of (fs_sidecars v) key) of
        (Some (content, _), Some (Some (_, sha256, _))) \<Rightarrow> sha256 = hash content
      | (None, Some _) \<Rightarrow> False
      | _ \<Rightarrow> True)"

definition fs_ok :: "(string \<Rightarrow> string) \<Rightarrow> fs_store \<Rightarrow> bool" where
  "fs_ok hash v \<longleftrightarrow> distinct (fs_listed v) \<and> list_all (\<lambda>path. CHR ''.'' \<in> set path) (fs_leftovers v)
     \<and> (\<forall>key. sidecar_agrees hash v key)"

lemma fs_stat_Inr:
  "fs_stat key v = Inr d \<longleftrightarrow> valid_key key \<and> (\<exists>content modified_at sha256 media_type.
     map_of (fs_blobs v) key = Some (content, modified_at)
     \<and> map_of (fs_sidecars v) key = Some (Some (int (length content), sha256, media_type))
     \<and> d = \<lparr>od_key = key, od_size_bytes = int (length content), od_sha256 = sha256, od_media_type = media_type,
         od_modified_at = modified_at\<rparr> \<and> validate_descriptor d = Inr ())"
  by (auto simp: fs_stat_def fs_path_def validate_key_def Let_def split: option.splits)

lemma fs_view_Some:
  "fs_view v key = Some (content, d) \<longleftrightarrow> fs_stat key v = Inr d \<and> (\<exists>modified_at. map_of (fs_blobs v) key = Some (content, modified_at))"
  by (auto simp: fs_view_def split: sum.splits)

lemma fs_view_cong:
  "map_of (fs_blobs v') key = map_of (fs_blobs v) key \<Longrightarrow> map_of (fs_sidecars v') key = map_of (fs_sidecars v) key \<Longrightarrow>
   fs_view v' key = fs_view v key"
  by (cases "valid_key key") (simp_all add: fs_view_def fs_stat_def fs_path_def validate_key_def cong: sum.case_cong option.case_cong)

lemma fs_listed_blobs: "key \<in> fst ` set (fs_blobs v) \<Longrightarrow> key \<in> set (fs_listed v)"
  by (auto simp: fs_listed_def)

lemma fs_put_cases:
  assumes "fs_put hash now key content sha256 media_type v = (r, v')"
  obtains (refused) e where "r = Inl e" "v' = v"
  | (kept) stored existing where "sha256 = hash content" "fs_view v key = Some (stored, existing)" "v' = v"
      "r = Inr \<lparr>pr_descriptor = existing, pr_created = False\<rparr>"
      "same_object existing (new_descriptor now key content sha256 media_type)"
  | (torn) "valid_key key" "map_of (fs_blobs v) key = None" "v' = v\<lparr>fs_blobs := (key, content, now) # fs_blobs v\<rparr>" "r = Inl OSError"
  | (stored) "sha256 = hash content" "valid_key key" "map_of (fs_blobs v) key = None"
      "validate_descriptor (new_descriptor now key content sha256 media_type) = Inr ()"
      "v' = v\<lparr>fs_blobs := (key, content, now) # fs_blobs v,
         fs_sidecars := (key, Some (int (length content), sha256, media_type)) # fs_sidecars v\<rparr>"
      "r = Inr \<lparr>pr_descriptor = new_descriptor now key content sha256 media_type, pr_created = True\<rparr>"
proof (cases "bindr (validate_put hash now key content sha256 media_type) (\<lambda>_. fs_path key)")
  case (Inl e)
  with assms show thesis by (intro refused [of e]) (auto simp: fs_put_def Let_def)
next
  case (Inr path)
  then have valid: "valid_key key" "sha256 = hash content" "path = key"
      "validate_descriptor (new_descriptor now key content sha256 media_type) = Inr ()"
    by (auto simp add: validate_put_Inr fs_path_def)
  show thesis
  proof (cases "map_of (fs_blobs v) key")
    case None
    consider "fs_fault v = UploadFails" | "fs_fault v = MetadataFails" | "fs_fault v = NoFault" by (cases "fs_fault v")
    then show thesis
    proof cases
      case 1
      with assms Inr valid None show thesis by (intro refused [of OSError]) (simp_all add: fs_put_def Let_def)
    next
      case 2
      with assms Inr valid None show thesis by (intro torn) (auto simp add: fs_put_def Let_def)
    next
      case 3
      with assms Inr valid None show thesis by (intro stored) (auto simp add: fs_put_def Let_def)
    qed
  next
    case (Some x)
    obtain c t where x: "x = (c, t)" by (cases x)
    let ?check = "bindr (fs_stat key v) (\<lambda>existing.
                bindr (verify_descriptor existing (new_descriptor now key content sha256 media_type)) (\<lambda>_.
                bindr (ensure (hash c = sha256) (ObjectIntegrityError ''stored object hash is invalid'')) (\<lambda>_.
                Inr \<lparr>pr_descriptor = existing, pr_created = False\<rparr>)))"
    have res: "r = ?check" "v' = v" using assms Inr Some x valid by (auto simp add: fs_put_def Let_def)
    show thesis
    proof (cases ?check)
      case (Inl e)
      with res show thesis by (intro refused [of e]) simp_all
    next
      case check: (Inr p)
      then obtain existing where ex: "fs_stat key v = Inr existing"
        "same_object existing (new_descriptor now key content sha256 media_type)"
        "p = \<lparr>pr_descriptor = existing, pr_created = False\<rparr>" by (auto simp: verify_descriptor_Inr)
      then have "fs_view v key = Some (c, existing)" using Some x by (simp add: fs_view_Some)
      with ex res check valid show thesis by (intro kept [of c existing]) simp_all
    qed
  qed
qed

lemma fs_delete_cases:
  assumes "fs_delete key v = (r, v')"
  obtains (refused) e where "r = Inl e" "v' = v"
  | (deleted) "r = Inr ()" "v' = v\<lparr>fs_blobs := filter (\<lambda>x. fst x \<noteq> key) (fs_blobs v),
      fs_sidecars := filter (\<lambda>x. fst x \<noteq> key) (fs_sidecars v)\<rparr>"
  using assms by (auto simp: fs_delete_def fs_path_def validate_key_def ensure_def split: if_splits)

lemma fs_names_key:
  assumes "fs_ok hash v" and "map_of (fs_blobs v) key = None"
  shows "key \<notin> fst ` set (fs_blobs v)" and "map_of (fs_sidecars v) key = None"
proof -
  show "key \<notin> fst ` set (fs_blobs v)" using assms(2) by (simp add: map_of_eq_None_iff)
  have "sidecar_agrees hash v key" using assms(1) by (simp add: fs_ok_def)
  with assms(2) show "map_of (fs_sidecars v) key = None" by (simp add: sidecar_agrees_def split: option.splits)
qed

lemma fs_okD: "fs_ok hash v \<Longrightarrow> map_of (fs_blobs v) key = Some (content, t) \<Longrightarrow> map_of (fs_sidecars v) key = Some (Some (n, sha256, m)) \<Longrightarrow>
   sha256 = hash content"
proof -
  assume "fs_ok hash v" "map_of (fs_blobs v) key = Some (content, t)" "map_of (fs_sidecars v) key = Some (Some (n, sha256, m))"
  moreover from this have "sidecar_agrees hash v key" by (simp add: fs_ok_def)
  ultimately show ?thesis by (simp add: sidecar_agrees_def)
qed

lemma sidecar_agrees_cong:
  "map_of (fs_blobs v') key = map_of (fs_blobs v) key \<Longrightarrow> map_of (fs_sidecars v') key = map_of (fs_sidecars v) key \<Longrightarrow>
   sidecar_agrees hash v' key = sidecar_agrees hash v key"
  by (simp add: sidecar_agrees_def)

lemma valid_key_no_dot: "valid_key key \<Longrightarrow> CHR ''.'' \<notin> set key"
proof
  assume "valid_key key" and "CHR ''.'' \<in> set key"
  moreover have "\<not> is_key_char CHR ''.''" "\<not> is_lower_char CHR ''.''" "\<not> is_digit_char CHR ''.''"
    by (simp_all add: is_key_char_def is_lower_char_def is_digit_char_def)
  ultimately show False by (auto simp: valid_key_def safe_key_def list_all_iff split: list.splits)
qed


lemma fs_ok_add:
  assumes "fs_ok hash v" and "valid_key key" and "map_of (fs_blobs v) key = None"
    and "fs_blobs v' = (key, content, now) # fs_blobs v" and "fs_leftovers v' = fs_leftovers v"
    and "fs_sidecars v' = fs_sidecars v \<or> fs_sidecars v' = (key, Some (n, hash content, media_type)) # fs_sidecars v"
  shows "fs_ok hash v'"
proof -
  note names = fs_names_key [OF assms(1,3)]
  have "key \<notin> set (fs_leftovers v)" using assms(1) valid_key_no_dot [OF assms(2)] by (auto simp: fs_ok_def list_all_iff)
  with names assms(1) have "distinct (fs_listed v')" by (simp add: fs_ok_def fs_listed_def assms(4,5))
  moreover have "sidecar_agrees hash v' k" for k
  proof (cases "k = key")
    case True
    with assms(4,6) names show ?thesis by (auto simp: sidecar_agrees_def)
  next
    case False
    then have "sidecar_agrees hash v' k = sidecar_agrees hash v k" using assms(4,6) by (intro sidecar_agrees_cong) auto
    with assms(1) show ?thesis by (simp add: fs_ok_def)
  qed
  ultimately show ?thesis using assms(1,5) by (simp add: fs_ok_def)
qed

lemma fs_ok_delete:
  assumes "fs_ok hash v" and "v' = v\<lparr>fs_blobs := filter (\<lambda>x. fst x \<noteq> key) (fs_blobs v), fs_sidecars := filter (\<lambda>x. fst x \<noteq> key) (fs_sidecars v)\<rparr>"
  shows "fs_ok hash v'"
proof -
  have "sidecar_agrees hash v' k" for k
  proof (cases "k = key")
    case True
    then show ?thesis by (simp add: sidecar_agrees_def assms(2) map_of_filter_key)
  next
    case False
    then have "sidecar_agrees hash v' k = sidecar_agrees hash v k" by (intro sidecar_agrees_cong) (simp_all add: assms(2) map_of_filter_key)
    with assms(1) show ?thesis by (simp add: fs_ok_def)
  qed
  moreover have "distinct (fs_listed v')"
    using assms(1) by (auto simp: fs_ok_def fs_listed_def assms(2) distinct_map_filter)
  ultimately show ?thesis using assms(1) by (simp add: fs_ok_def assms(2))
qed

interpretation fs: object_store hash "fs_ops hash" fs_view fs_listed "fs_ok hash"
proof unfold_locales
  fix v key content d assume ok: "fs_ok hash v" "fs_view v key = Some (content, d)"
  then show "valid_key key \<and> od_key d = key \<and> od_size_bytes d = int (length content) \<and> od_sha256 d = hash content
     \<and> key \<in> set (fs_listed v)"
    by (auto simp: fs_view_Some fs_stat_Inr fs_okD [OF ok(1)] intro!: fs_listed_blobs image_eqI [OF _ map_of_SomeD])
next
  fix v now key content sha256 media_type r v'
  assume ok: "fs_ok hash v" and "os_put (fs_ops hash) now key content sha256 media_type v = (Inr r, v')"
  then have "fs_put hash now key content sha256 media_type v = (Inr r, v')" by (simp add: fs_ops_def)
  then show "fs_ok hash v' \<and> sha256 = hash content \<and> same_object (pr_descriptor r) (new_descriptor now key content sha256 media_type)
      \<and> (\<exists>stored. fs_view v' key = Some (stored, pr_descriptor r)) \<and> (\<forall>k. k \<noteq> key \<longrightarrow> fs_view v' k = fs_view v k)
      \<and> (if fs_view v key = None then fs_view v' key = Some (content, pr_descriptor r) else fs_view v' = fs_view v)"
  proof (cases rule: fs_put_cases)
    case (kept stored existing)
    with ok show ?thesis by simp
  next
    case stored
    have "fs_view v key = None" using stored(3) by (simp add: fs_view_def split: sum.splits)
    moreover have "fs_ok hash v'"
      by (rule fs_ok_add [OF ok stored(2,3), where now = now and n = "int (length content)" and media_type = media_type])
        (use stored(1,5) in simp_all)
    moreover have "fs_view v' k = fs_view v k" if "k \<noteq> key" for k using that by (intro fs_view_cong) (simp_all add: stored(5))
    moreover have "fs_view v' key = Some (content, pr_descriptor r)"
      using stored(2,4,6) by (simp add: fs_view_Some fs_stat_Inr stored(5) new_descriptor_def)
    ultimately show ?thesis using stored by (simp add: same_object_def new_descriptor_def)
  qed simp_all
next
  fix v now key content sha256 media_type e v'
  assume ok: "fs_ok hash v" and "os_put (fs_ops hash) now key content sha256 media_type v = (Inl e, v')"
  then have "fs_put hash now key content sha256 media_type v = (Inl e, v')" by (simp add: fs_ops_def)
  then show "fs_ok hash v' \<and> fs_view v' = fs_view v"
  proof (cases rule: fs_put_cases)
    case torn
    have side: "map_of (fs_sidecars v) key = None" using fs_names_key [OF ok torn(2)] by simp
    have "fs_view v' k = fs_view v k" for k
    proof (cases "k = key")
      case True
      with side torn show ?thesis by (simp add: fs_view_def fs_stat_def fs_path_def validate_key_def)
    next
      case False
      then show ?thesis by (intro fs_view_cong) (simp_all add: torn(3))
    qed
    moreover have "fs_ok hash v'"
      by (rule fs_ok_add [OF ok torn(1,2), where content = content and now = now]) (simp_all add: torn(3))
    ultimately show ?thesis by auto
  qed (use ok in simp_all)
next
  fix v key d assume "fs_ok hash v"
  show "os_stat (fs_ops hash) key v = Inr d \<longleftrightarrow> (\<exists>content. fs_view v key = Some (content, d))"
    by (auto simp: fs_ops_def fs_view_Some fs_stat_Inr)
next
  fix v key n d chunks assume "fs_ok hash v"
  show "os_open (fs_ops hash) key n v = Inr (d, chunks) \<longleftrightarrow>
      0 < n \<and> (\<exists>content. fs_view v key = Some (content, d) \<and> chunks = map Inr (chunks_of (nat n) content))"
    by (auto simp: fs_ops_def fs_open_def fs_view_Some fs_path_def validate_key_def fs_stat_Inr)
next
  fix v key u v' assume ok: "fs_ok hash v" and "os_delete (fs_ops hash) key v = (Inr u, v')"
  then have v': "v' = v\<lparr>fs_blobs := filter (\<lambda>x. fst x \<noteq> key) (fs_blobs v), fs_sidecars := filter (\<lambda>x. fst x \<noteq> key) (fs_sidecars v)\<rparr>"
    by (auto simp: fs_ops_def elim: fs_delete_cases)
  have "fs_view v' k = (if k = key then None else fs_view v k)" for k
  proof (cases "k = key")
    case True
    then show ?thesis by (simp add: fs_view_def v' map_of_filter_key split: sum.splits)
  next
    case False
    then show ?thesis using fs_view_cong [of v' k v] by (simp add: v' map_of_filter_key)
  qed
  moreover have "fs_ok hash v'"
    by (rule fs_ok_delete [OF ok v'])
  ultimately show "fs_ok hash v' \<and> fs_view v' = (fs_view v)(key := None)" by auto
next
  fix v key e v' assume ok: "fs_ok hash v" and "os_delete (fs_ops hash) key v = (Inl e, v')"
  then show "fs_ok hash v' \<and> fs_view v' = fs_view v" by (auto simp: fs_ops_def elim: fs_delete_cases)
next
  fix v p limit after keys assume ok: "fs_ok hash v" and "os_list_keys (fs_ops hash) p limit after v = Inr keys"
  then show "1 \<le> limit \<and> keys = listed_page p limit after (fs_listed v) \<and> distinct (fs_listed v)"
    by (simp add: fs_ops_def fs_list_keys_def validate_listing_def fs_ok_def)
qed

end
