(* ===== verification/ArtifactService.thy ===== *)
theory ArtifactService imports Platform Usage ObjectStore begin

text \<open>
  src/corpuskit/services/artifacts.py: uploads, downloads, tombstones, the purge of retained objects
  and the reconciliation of the store with the database. The state is the pair of an object store
  and the database; \<open>env\<close> is what other processes do to the pair between two steps of an operation.
  Signed downloads, which check a URL made by the S3 client, are not modelled.
\<close>

section \<open>Settings, requests and results\<close>

text \<open>
  \<open>ac_prompt_bytes\<close> is \<open>PhonRlPromptArtifact.model_validate_json(content).canonical_bytes()\<close>, or
  nothing when the content is refused.
\<close>

record artifact_config =
  ac_max_bytes :: int
  ac_retention :: time
  ac_orphan_grace :: time
  ac_chunk_bytes :: int
  ac_prompt_bytes :: "string \<Rightarrow> string option"

record artifact_upload =
  up_project :: uuid
  up_run :: "uuid option"
  up_kind :: artifact_kind
  up_content :: string
  up_expected_sha256 :: string
  up_media_type :: string
  up_filename :: string

record artifact_snapshot =
  as_id :: uuid
  as_project :: uuid
  as_run :: "uuid option"
  as_kind :: artifact_kind
  as_sha256 :: string
  as_size_bytes :: int
  as_media_type :: string
  as_filename :: string
  as_state :: artifact_state
  as_retention_until :: time
  as_created_at :: time

definition artifact_kind_of :: "string \<Rightarrow> exn + artifact_kind" where
  "artifact_kind_of s = require (ValueError ''artifact kind'') (find (\<lambda>k. artifact_kind_value k = s)
     [RUN_MANIFEST, CORPUS_TEXT, EVALUATION_REPORT, EXPORT_FILE, CHECKPOINT, MODEL_ADAPTER, PROMPT_SET, RUN_RESULT])"

definition artifact_snapshot_of :: "artifact \<Rightarrow> exn + artifact_snapshot" where
  "artifact_snapshot_of a =
     bindr (artifact_kind_of (a_kind a)) (\<lambda>kind.
     Inr \<lparr>as_id = a_id a, as_project = a_project a, as_run = a_run a, as_kind = kind, as_sha256 = a_sha256 a,
       as_size_bytes = a_size_bytes a, as_media_type = a_media_type a, as_filename = a_filename a,
       as_state = a_state a, as_retention_until = a_retention_until a, as_created_at = a_created_at a\<rparr>)"

record artifact_creation =
  cr_artifact :: artifact_snapshot
  cr_created :: bool

section \<open>Queries\<close>

definition artifact_writer_roles :: "role list" where
  "artifact_writer_roles = [OWNER, ADMIN, EDITOR]"

definition authorize_scope :: "string \<Rightarrow> actor \<Rightarrow> uuid \<Rightarrow> uuid option \<Rightarrow> bool \<Rightarrow> db \<Rightarrow> exn + uuid \<times> role" where
  "authorize_scope operation a project_id run_id write s =
     bindr (one_or_none (member_rows a s)) (\<lambda>identity.
     bindr (ensure (active_project (ac_organization a) project_id s) (ResourceNotFoundError operation)) (\<lambda>_.
     bindr (require (ResourceNotFoundError operation) identity) (\<lambda>(user_id, role).
     bindr (ensure (write \<longrightarrow> role \<in> set artifact_writer_roles) (ResourceNotFoundError operation)) (\<lambda>_.
     bindr (case run_id of None \<Rightarrow> Inr ()
            | Some i \<Rightarrow> ensure (list_ex (\<lambda>r. r_id r = i \<and> r_organization r = ac_organization a
                \<and> r_project r = project_id) (runs s)) (ResourceNotFoundError operation)) (\<lambda>_.
     Inr (user_id, role))))))"

definition find_duplicate :: "uuid \<Rightarrow> uuid \<Rightarrow> string \<Rightarrow> artifact_kind \<Rightarrow> string \<Rightarrow> db \<Rightarrow> artifact option" where
  "find_duplicate org project_id scope_key kind sha256 s =
     find (\<lambda>x. a_organization x = org \<and> a_project x = project_id \<and> a_scope_key x = scope_key
       \<and> a_kind x = artifact_kind_value kind \<and> a_sha256 x = sha256) (artifacts s)"

definition active_artifact :: "uuid \<Rightarrow> uuid \<Rightarrow> uuid \<Rightarrow> string \<Rightarrow> db \<Rightarrow> exn + artifact" where
  "active_artifact org project_id artifact_id operation s =
     require (ResourceNotFoundError operation) (find (\<lambda>x. a_id x = artifact_id \<and> a_organization x = org
       \<and> a_project x = project_id \<and> a_state x = ARTIFACT_ACTIVE) (artifacts s))"

section \<open>Reading an object and checking it\<close>

definition verify_storage_metadata :: "object_descriptor \<Rightarrow> artifact \<Rightarrow> exn + unit" where
  "verify_storage_metadata d x =
     ensure (od_key d = a_storage_key x \<and> od_size_bytes d = a_size_bytes x \<and> od_sha256 d = a_sha256 x
       \<and> od_media_type d = a_media_type x) (ObjectIntegrityError ''stored artifact metadata mismatch'')"

text \<open>The chunks handed on, and the error that ends the stream if there is one.\<close>

fun verified_chunks :: "(string \<Rightarrow> string) \<Rightarrow> int \<Rightarrow> artifact \<Rightarrow> string \<Rightarrow> (exn + string) list \<Rightarrow> string list \<times> exn option" where
  "verified_chunks hash max_bytes x seen [] =
     ([], if int (length seen) \<noteq> a_size_bytes x \<or> hash seen \<noteq> a_sha256 x
          then Some (DependencyUnavailableError ''artifact.download'') else None)"
| "verified_chunks hash max_bytes x seen (Inl e # rest) =
     ([], Some (if is_object_store_error e then DependencyUnavailableError ''artifact.download'' else e))"
| "verified_chunks hash max_bytes x seen (Inr chunk # rest) =
     (let size = int (length (seen @ chunk)) in
      if a_size_bytes x < size \<or> max_bytes < size then ([], Some (DependencyUnavailableError ''artifact.download''))
      else (case verified_chunks hash max_bytes x (seen @ chunk) rest of (chunks, failure) \<Rightarrow> (chunk # chunks, failure)))"

definition read_all :: "(string \<Rightarrow> string) \<Rightarrow> artifact_config \<Rightarrow> 'v object_store_ops \<Rightarrow> artifact \<Rightarrow> 'v \<Rightarrow> exn + string" where
  "read_all hash cfg ops x v =
     bindr (os_open ops (a_storage_key x) (ac_chunk_bytes cfg) v) (\<lambda>(descriptor, chunks).
     bindr (verify_storage_metadata descriptor x) (\<lambda>_.
     case verified_chunks hash (ac_max_bytes cfg) x [] chunks of
       (_, Some e) \<Rightarrow> Inl e
     | (read, None) \<Rightarrow> Inr (concat read)))"

definition is_dependency_error :: "exn \<Rightarrow> bool" where
  "is_dependency_error e = (case e of DependencyUnavailableError _ \<Rightarrow> True | _ \<Rightarrow> False)"

section \<open>Uploading\<close>

definition admit_upload :: "runtime \<Rightarrow> artifact_config \<Rightarrow> artifact_upload \<Rightarrow> exn + string \<times> string \<times> string" where
  "admit_upload rt cfg up =
     (let operation = ''artifact.create''; refuse = InvalidRequestError operation in
      bindr (reraise is_value_error refuse (normalize_media_type (up_media_type up))) (\<lambda>media_type.
      bindr (reraise is_value_error refuse (safe_download_filename (rt_nfkd rt) (up_filename up))) (\<lambda>filename.
      bindr (ensure (up_content up \<noteq> [] \<and> int (length (up_content up)) \<le> ac_max_bytes cfg) refuse) (\<lambda>_.
      let sha256 = rt_sha rt (up_content up) in
      bindr (ensure (up_expected_sha256 up = sha256) refuse) (\<lambda>_.
      bindr (ensure (up_kind up = RUN_MANIFEST \<longrightarrow> media_type = ''application/json'') refuse) (\<lambda>_.
      bindr (ensure (up_kind up = PROMPT_SET \<longrightarrow> media_type = ''application/json''
        \<and> ac_prompt_bytes cfg (up_content up) = Some (up_content up)) refuse) (\<lambda>_.
      Inr (media_type, filename, sha256))))))))"

definition upload_scope_key :: "artifact_upload \<Rightarrow> string" where
  "upload_scope_key up = (case up_run up of Some r \<Rightarrow> uuid_str r | None \<Rightarrow> ''project'')"

text \<open>The first session: who uploads, and what is there already.\<close>

definition begin_upload :: "actor \<Rightarrow> artifact_upload \<Rightarrow> string \<Rightarrow> db \<Rightarrow> exn + (uuid \<times> artifact option) \<times> db" where
  "begin_upload a up sha256 s =
     (let operation = ''artifact.create'' in
      bindr (authorize_scope operation a (up_project up) (up_run up) True s) (\<lambda>(user_id, role).
      let duplicate = find_duplicate (ac_organization a) (up_project up) (upload_scope_key up) (up_kind up) sha256 s in
      bindr (ensure (case duplicate of None \<Rightarrow> True | Some x \<Rightarrow> a_state x = ARTIFACT_ACTIVE) (ResourceConflictError operation)) (\<lambda>_.
      Inr ((user_id, duplicate), s))))"

definition new_artifact ::
    "artifact_config \<Rightarrow> time \<Rightarrow> uuid \<Rightarrow> uuid \<Rightarrow> actor \<Rightarrow> artifact_upload \<Rightarrow> string \<Rightarrow> string \<Rightarrow> string \<Rightarrow> string \<Rightarrow> artifact" where
  "new_artifact cfg now aid user_id a up media_type filename sha256 key =
     \<lparr>a_id = aid, a_organization = ac_organization a, a_project = up_project up, a_run = up_run up,
      a_created_by = user_id, a_scope_key = upload_scope_key up, a_kind = artifact_kind_value (up_kind up),
      a_sha256 = sha256, a_size_bytes = int (length (up_content up)), a_storage_key = key,
      a_media_type = media_type, a_filename = filename, a_state = ARTIFACT_ACTIVE,
      a_retention_until = now + ac_retention cfg, a_tombstoned_at = None, a_deleted_at = None, a_created_at = now\<rparr>"

text \<open>The second session: the charge, the row and its evidence.\<close>

definition finish_upload ::
    "runtime \<Rightarrow> time \<Rightarrow> actor \<Rightarrow> artifact_upload \<Rightarrow> uuid \<Rightarrow> artifact \<Rightarrow> tenant_context \<Rightarrow> db \<Rightarrow> exn + artifact_creation \<times> db" where
  "finish_upload rt now a up user_id row c s =
     (let org = ac_organization a in
      bindr (authorize_scope ''artifact.create'' a (up_project up) (up_run up) True s) (\<lambda>_.
      bindr (consume_artifact rt c now org (up_kind up) (a_size_bytes row) s) (\<lambda>s.
      bindr (insert_row artifacts_ok row (artifacts s)) (\<lambda>rows.
      bindr (audit_append rt c now org (audit_user user_id) ARTIFACT_CREATED ARTIFACT_RESOURCE (a_id row) (ac_request_id a)
        [(''kind'', JStr (a_kind row)), (''sha256'', JStr (a_sha256 row)), (''size_bytes'', JInt (a_size_bytes row))]
        (s\<lparr>artifacts := rows\<rparr>)) (\<lambda>s.
      bindr (artifact_snapshot_of row) (\<lambda>snapshot.
      Inr (\<lparr>cr_artifact = snapshot, cr_created = True\<rparr>, s)))))))"

text \<open>What a lost race finds.\<close>

definition duplicate_after_race ::
    "runtime \<Rightarrow> actor \<Rightarrow> artifact_upload \<Rightarrow> string \<Rightarrow> db \<Rightarrow> exn + artifact option" where
  "duplicate_after_race rt a up sha256 s =
     (case fst (in_session rt (user_context (ac_organization a) (ac_subject a)) (\<lambda>c s.
          Inr (find_duplicate (ac_organization a) (up_project up) (upload_scope_key up) (up_kind up) sha256 s, s)) s) of
        Inl e \<Rightarrow> if is_sqlalchemy_error e then Inr None else Inl e
      | Inr duplicate \<Rightarrow> Inr duplicate)"

definition store_upload ::
    "runtime \<Rightarrow> artifact_config \<Rightarrow> 'v object_store_ops \<Rightarrow> time \<Rightarrow> uuid \<Rightarrow> (nat \<Rightarrow> 'v \<times> db \<Rightarrow> 'v \<times> db) \<Rightarrow> actor
     \<Rightarrow> artifact_upload \<Rightarrow> uuid \<Rightarrow> string \<Rightarrow> string \<Rightarrow> string \<Rightarrow> 'v \<times> db \<Rightarrow> (exn + artifact_creation) \<times> 'v \<times> db" where
  "store_upload rt cfg ops now aid env a up user_id media_type filename sha256 t =
     (let operation = ''artifact.create'' in
      case artifact_storage_key (ac_organization a) (up_project up) (up_run up) (up_kind up) sha256 of
        Inl e \<Rightarrow> (Inl e, t)
      | Inr key \<Rightarrow>
          (case os_put ops now key (up_content up) sha256 media_type (fst t) of
             (Inl e, v) \<Rightarrow> (Inl (if is_object_store_error e \<or> is_value_error e then DependencyUnavailableError operation else e), v, snd t)
           | (Inr _, v) \<Rightarrow>
               (case env 1 (v, snd t) of (v, s) \<Rightarrow>
                let row = new_artifact cfg now aid user_id a up media_type filename sha256 key in
                (case in_session rt (user_context (ac_organization a) (ac_subject a)) (finish_upload rt now a up user_id row) s of
                   (Inr creation, s) \<Rightarrow> (Inr creation, v, s)
                 | (Inl e, s) \<Rightarrow>
                     if e = IntegrityError then
                       (case env 2 (v, s) of (v, s) \<Rightarrow>
                        (bindr (duplicate_after_race rt a up sha256 s) (\<lambda>duplicate.
                         case duplicate of
                           Some x \<Rightarrow> if a_state x = ARTIFACT_ACTIVE
                             then bindr (artifact_snapshot_of x) (\<lambda>snapshot. Inr \<lparr>cr_artifact = snapshot, cr_created = False\<rparr>)
                             else Inl (ResourceConflictError operation)
                         | None \<Rightarrow> Inl (ResourceConflictError operation)), v, s))
                     else (Inl (if is_sqlalchemy_error e then DependencyUnavailableError operation else e), v, s)))))"

definition create_artifact ::
    "runtime \<Rightarrow> artifact_config \<Rightarrow> 'v object_store_ops \<Rightarrow> time \<Rightarrow> uuid \<Rightarrow> (nat \<Rightarrow> 'v \<times> db \<Rightarrow> 'v \<times> db) \<Rightarrow> actor
     \<Rightarrow> artifact_upload \<Rightarrow> 'v \<times> db \<Rightarrow> (exn + artifact_creation) \<times> 'v \<times> db" where
  "create_artifact rt cfg ops now aid env a up t =
     (let operation = ''artifact.create'' in
      case admit_upload rt cfg up of
        Inl e \<Rightarrow> (Inl e, t)
      | Inr (media_type, filename, sha256) \<Rightarrow>
          (case in_session rt (user_context (ac_organization a) (ac_subject a)) (\<lambda>c. begin_upload a up sha256) (snd t) of
             (Inl e, s) \<Rightarrow> (Inl (if is_sqlalchemy_error e then DependencyUnavailableError operation else e), fst t, s)
           | (Inr (user_id, duplicate), s) \<Rightarrow>
               (case env 0 (fst t, s) of (v, s) \<Rightarrow>
                (case duplicate of
                   None \<Rightarrow> store_upload rt cfg ops now aid env a up user_id media_type filename sha256 (v, s)
                 | Some x \<Rightarrow>
                     (case read_all (rt_sha rt) cfg ops x v of
                        Inr _ \<Rightarrow> (bindr (artifact_snapshot_of x) (\<lambda>snapshot. Inr \<lparr>cr_artifact = snapshot, cr_created = False\<rparr>), v, s)
                      | Inl e \<Rightarrow>
                          if e = ObjectNotFoundError
                          then store_upload rt cfg ops now aid env a up user_id media_type filename sha256 (v, s)
                          else (Inl (if is_object_store_error e \<or> is_value_error e \<or> is_dependency_error e
                                  then DependencyUnavailableError operation else e), v, s))))))"

section \<open>Reading\<close>

definition get_artifact :: "runtime \<Rightarrow> string \<Rightarrow> actor \<Rightarrow> uuid \<Rightarrow> uuid \<Rightarrow> db \<Rightarrow> exn + artifact" where
  "get_artifact rt operation a project_id artifact_id s =
     fst (in_session rt (user_context (ac_organization a) (ac_subject a)) (\<lambda>c s.
       bindr (authorize_scope operation a project_id None False s) (\<lambda>_.
       bindr (active_artifact (ac_organization a) project_id artifact_id operation s) (\<lambda>x. Inr (x, s)))) s)"

definition get_snapshot :: "runtime \<Rightarrow> actor \<Rightarrow> uuid \<Rightarrow> uuid \<Rightarrow> db \<Rightarrow> exn + artifact_snapshot" where
  "get_snapshot rt a project_id artifact_id s =
     bindr (get_artifact rt ''artifact.get'' a project_id artifact_id s) artifact_snapshot_of"

fun snapshots_of :: "artifact list \<Rightarrow> exn + artifact_snapshot list" where
  "snapshots_of [] = Inr []"
| "snapshots_of (x # xs) = bindr (artifact_snapshot_of x) (\<lambda>y. bindr (snapshots_of xs) (\<lambda>ys. Inr (y # ys)))"

definition list_artifacts :: "runtime \<Rightarrow> actor \<Rightarrow> uuid \<Rightarrow> nat \<Rightarrow> nat \<Rightarrow> db \<Rightarrow> exn + artifact_snapshot list" where
  "list_artifacts rt a project_id offset limit s =
     fst (in_session rt (user_context (ac_organization a) (ac_subject a)) (\<lambda>c s.
       bindr (authorize_scope ''artifact.list'' a project_id None False s) (\<lambda>_.
       bindr (snapshots_of (take limit (drop offset (rev (sort_key (\<lambda>x. (a_created_at x, unat (a_id x)))
         (filter (\<lambda>x. a_organization x = ac_organization a \<and> a_project x = project_id \<and> a_state x = ARTIFACT_ACTIVE)
           (artifacts s))))))) (\<lambda>snapshots. Inr (snapshots, s)))) s)"

record artifact_download =
  dl_chunks :: "string list"
  dl_failure :: "exn option"
  dl_size_bytes :: int
  dl_media_type :: string
  dl_filename :: string
  dl_content_disposition :: string
  dl_sha256 :: string

definition download_artifact ::
    "runtime \<Rightarrow> artifact_config \<Rightarrow> 'v object_store_ops \<Rightarrow> actor \<Rightarrow> uuid \<Rightarrow> uuid \<Rightarrow> 'v \<times> db \<Rightarrow> exn + artifact_download" where
  "download_artifact rt cfg ops a project_id artifact_id t =
     bindr (get_artifact rt ''artifact.download'' a project_id artifact_id (snd t)) (\<lambda>x.
     bindr (reraise (\<lambda>e. is_object_store_error e \<or> is_value_error e) (DependencyUnavailableError ''artifact.download'')
       (bindr (os_open ops (a_storage_key x) (ac_chunk_bytes cfg) (fst t)) (\<lambda>(descriptor, chunks).
        bindr (verify_storage_metadata descriptor x) (\<lambda>_. Inr chunks)))) (\<lambda>chunks.
     bindr (content_disposition (rt_nfkd rt) (a_filename x)) (\<lambda>disposition.
     case verified_chunks (rt_sha rt) (ac_max_bytes cfg) x [] chunks of (read, failure) \<Rightarrow>
       Inr \<lparr>dl_chunks = read, dl_failure = failure, dl_size_bytes = a_size_bytes x, dl_media_type = a_media_type x,
         dl_filename = a_filename x, dl_content_disposition = disposition, dl_sha256 = a_sha256 x\<rparr>)))"

section \<open>Tombstones and the purge\<close>

definition tombstone_body :: "runtime \<Rightarrow> time \<Rightarrow> actor \<Rightarrow> uuid \<Rightarrow> uuid \<Rightarrow> tenant_context \<Rightarrow> db \<Rightarrow> exn + unit \<times> db" where
  "tombstone_body rt now a project_id artifact_id c s =
     (let operation = ''artifact.delete''; org = ac_organization a in
      bindr (authorize_scope operation a project_id None True s) (\<lambda>(user_id, role).
      bindr (active_artifact org project_id artifact_id operation s) (\<lambda>x.
      bindr (audit_append rt c now org (audit_user user_id) ARTIFACT_TOMBSTONED ARTIFACT_RESOURCE (a_id x) (ac_request_id a)
        [(''kind'', JStr (a_kind x)), (''size_bytes'', JInt (a_size_bytes x))]
        (s\<lparr>artifacts := update_where (\<lambda>y. a_id y = a_id x) (\<lambda>y. y\<lparr>a_state := TOMBSTONED, a_tombstoned_at := Some now\<rparr>)
          (artifacts s)\<rparr>)) (\<lambda>s.
      Inr ((), s)))))"

definition tombstone :: "runtime \<Rightarrow> time \<Rightarrow> actor \<Rightarrow> uuid \<Rightarrow> uuid \<Rightarrow> db \<Rightarrow> (exn + unit) \<times> db" where
  "tombstone rt now a project_id artifact_id s =
     in_session rt (user_context (ac_organization a) (ac_subject a)) (tombstone_body rt now a project_id artifact_id) s"

definition purge_candidates :: "time \<Rightarrow> nat \<Rightarrow> db \<Rightarrow> artifact list" where
  "purge_candidates cutoff limit s =
     take limit (sort_key (\<lambda>x. (a_retention_until x, unat (a_id x)))
       (filter (\<lambda>x. a_state x = TOMBSTONED \<and> a_retention_until x \<le> cutoff) (artifacts s)))"

definition mark_deleted :: "time \<Rightarrow> artifact \<Rightarrow> db \<Rightarrow> db" where
  "mark_deleted cutoff x s =
     s\<lparr>artifacts := update_where (\<lambda>y. a_id y = a_id x \<and> a_state y = TOMBSTONED)
       (\<lambda>y. y\<lparr>a_state := DELETED, a_deleted_at := Some cutoff\<rparr>) (artifacts s)\<rparr>"

definition purge_row :: "runtime \<Rightarrow> time \<Rightarrow> time \<Rightarrow> artifact \<Rightarrow> tenant_context \<Rightarrow> db \<Rightarrow> exn + bool \<times> db" where
  "purge_row rt now cutoff x c s =
     (if \<not> list_ex (\<lambda>y. a_id y = a_id x \<and> a_state y = TOMBSTONED) (artifacts s) then Inr (False, s)
      else
        bindr (release_artifact rt c now (a_organization x) (a_size_bytes x) (mark_deleted cutoff x s)) (\<lambda>s.
        bindr (service_append rt c now (a_organization x) MAINTENANCE ARTIFACT_PURGED ARTIFACT_RESOURCE (a_id x) None
          [(''kind'', JStr (a_kind x)), (''size_bytes'', JInt (a_size_bytes x))] s) (\<lambda>s.
        Inr (True, s))))"

text \<open>
  One candidate: its object, then its row. The outcome is what is added to the deleted and the failed
  ones: the code counts the row as deleted before the transaction commits.
\<close>

definition purge_counted :: "runtime \<Rightarrow> time \<Rightarrow> time \<Rightarrow> artifact \<Rightarrow> db \<Rightarrow> nat" where
  "purge_counted rt now cutoff x s =
     (case bindr (service_context MAINTENANCE (Some (a_organization x))) (\<lambda>c. purge_row rt now cutoff x c s) of
        Inr (True, _) \<Rightarrow> 1 | _ \<Rightarrow> 0)"

definition purge_one ::
    "runtime \<Rightarrow> 'v object_store_ops \<Rightarrow> time \<Rightarrow> time \<Rightarrow> ('v \<times> db \<Rightarrow> 'v \<times> db) \<Rightarrow> artifact \<Rightarrow> 'v \<times> db
     \<Rightarrow> (exn + nat \<times> nat) \<times> 'v \<times> db" where
  "purge_one rt ops now cutoff env x t =
     (case os_delete ops (a_storage_key x) (fst t) of
        (Inl e, v) \<Rightarrow> (if is_object_store_error e then Inr (0, 1) else Inl e, v, snd t)
      | (Inr _, v) \<Rightarrow>
          (case env (v, snd t) of (v, s) \<Rightarrow>
           (case in_session rt (service_context MAINTENANCE (Some (a_organization x))) (purge_row rt now cutoff x) s of
              (Inr purged, s) \<Rightarrow> (Inr (if purged then (1, 0) else (0, 1)), v, s)
            | (Inl e, s) \<Rightarrow> (if is_sqlalchemy_error e then Inr (purge_counted rt now cutoff x s, 1) else Inl e, v, s))))"

record purge_report =
  pu_eligible :: nat
  pu_deleted :: nat
  pu_failed :: nat

fun purge_each ::
    "runtime \<Rightarrow> 'v object_store_ops \<Rightarrow> time \<Rightarrow> time \<Rightarrow> (nat \<Rightarrow> 'v \<times> db \<Rightarrow> 'v \<times> db) \<Rightarrow> nat \<Rightarrow> artifact list \<Rightarrow> nat \<times> nat
     \<Rightarrow> 'v \<times> db \<Rightarrow> (exn + nat \<times> nat) \<times> 'v \<times> db" where
  "purge_each rt ops now cutoff env i [] counts t = (Inr counts, t)"
| "purge_each rt ops now cutoff env i (x # xs) (deleted, failed) t =
     (case purge_one rt ops now cutoff (env (2 * i + 1)) x (env (2 * i) t) of
        (Inl e, t) \<Rightarrow> (Inl e, t)
      | (Inr (d, f), t) \<Rightarrow> purge_each rt ops now cutoff env (Suc i) xs (deleted + d, failed + f) t)"

definition purge_due ::
    "runtime \<Rightarrow> 'v object_store_ops \<Rightarrow> time \<Rightarrow> (nat \<Rightarrow> 'v \<times> db \<Rightarrow> 'v \<times> db) \<Rightarrow> time \<Rightarrow> nat \<Rightarrow> 'v \<times> db \<Rightarrow> (exn + purge_report) \<times> 'v \<times> db" where
  "purge_due rt ops now env cutoff limit t =
     (case in_session rt (service_context MAINTENANCE None) (\<lambda>c s. Inr (purge_candidates cutoff limit s, s)) (snd t) of
        (Inl e, s) \<Rightarrow> (Inl e, fst t, s)
      | (Inr rows, s) \<Rightarrow>
          (case purge_each rt ops now cutoff env 0 rows (0, 0) (fst t, s) of
             (Inl e, t) \<Rightarrow> (Inl e, t)
           | (Inr (deleted, failed), t) \<Rightarrow> (Inr \<lparr>pu_eligible = length rows, pu_deleted = deleted, pu_failed = failed\<rparr>, t)))"

section \<open>Reconciling the store with the database\<close>

definition reconciliation_cursor :: "string list \<Rightarrow> artifact list \<Rightarrow> nat \<Rightarrow> string option" where
  "reconciliation_cursor keys rows limit =
     (let boundaries = (if length keys = limit then [last keys] else [])
            @ (if length rows = limit then [a_storage_key (last rows)] else []) in
      case boundaries of [] \<Rightarrow> None | b # bs \<Rightarrow> Some (foldl min b bs))"

definition audited_artifacts :: "string option \<Rightarrow> nat \<Rightarrow> db \<Rightarrow> artifact list" where
  "audited_artifacts cursor limit s =
     take limit (sort_key a_storage_key (filter (\<lambda>x. a_state x \<noteq> DELETED
       \<and> (case cursor of None \<Rightarrow> [] | Some k \<Rightarrow> k) < a_storage_key x) (artifacts s)))"

text \<open>The page: the keys and rows up to the cursor, and which keys a row refers to.\<close>

record reconciliation_page =
  rp_keys :: "string list"
  rp_rows :: "artifact list"
  rp_referenced :: "string list"
  rp_next :: "string option"

definition page_of :: "string list \<Rightarrow> artifact list \<Rightarrow> nat \<Rightarrow> db \<Rightarrow> reconciliation_page" where
  "page_of keys rows limit s =
     (let next_cursor = reconciliation_cursor keys rows limit;
          upto = (\<lambda>k. case next_cursor of None \<Rightarrow> True | Some b \<Rightarrow> k \<le> b);
          page_keys = filter upto keys in
      \<lparr>rp_keys = page_keys, rp_rows = filter (\<lambda>x. upto (a_storage_key x)) rows,
       rp_referenced = filter (\<lambda>k. k \<in> set page_keys) (map a_storage_key (artifacts s)), rp_next = next_cursor\<rparr>)"

record orphan_counts =
  oc_orphaned :: nat
  oc_deleted :: nat
  oc_failures :: nat

fun sweep_orphans ::
    "'v object_store_ops \<Rightarrow> time \<Rightarrow> (nat \<Rightarrow> 'v \<times> db \<Rightarrow> 'v \<times> db) \<Rightarrow> string list \<Rightarrow> nat \<Rightarrow> string list \<Rightarrow> orphan_counts
     \<Rightarrow> 'v \<times> db \<Rightarrow> (exn + orphan_counts) \<times> 'v \<times> db" where
  "sweep_orphans ops orphan_cutoff env referenced i [] n t = (Inr n, t)"
| "sweep_orphans ops orphan_cutoff env referenced i (key # keys) n t =
     (if key \<in> set referenced then sweep_orphans ops orphan_cutoff env referenced (Suc i) keys n t
      else
        (case env i t of (v, s) \<Rightarrow>
         (case os_stat ops key v of
            Inl e \<Rightarrow> if is_object_store_error e
              then sweep_orphans ops orphan_cutoff env referenced (Suc i) keys (n\<lparr>oc_failures := Suc (oc_failures n)\<rparr>) (v, s)
              else (Inl e, v, s)
          | Inr descriptor \<Rightarrow>
              let n = n\<lparr>oc_orphaned := Suc (oc_orphaned n)\<rparr> in
              if orphan_cutoff < od_modified_at descriptor
              then sweep_orphans ops orphan_cutoff env referenced (Suc i) keys n (v, s)
              else
                (case os_delete ops key v of
                   (Inr _, v) \<Rightarrow> sweep_orphans ops orphan_cutoff env referenced (Suc i) keys (n\<lparr>oc_deleted := Suc (oc_deleted n)\<rparr>) (v, s)
                 | (Inl e, v) \<Rightarrow> if is_object_store_error e
                     then sweep_orphans ops orphan_cutoff env referenced (Suc i) keys (n\<lparr>oc_failures := Suc (oc_failures n)\<rparr>) (v, s)
                     else (Inl e, v, s)))))"

text \<open>Rows whose object is missing, and rows whose object does not match.\<close>

fun audit_rows :: "'v object_store_ops \<Rightarrow> 'v \<Rightarrow> artifact list \<Rightarrow> nat \<times> nat \<Rightarrow> exn + nat \<times> nat" where
  "audit_rows ops v [] n = Inr n"
| "audit_rows ops v (x # xs) (missing, corrupt) =
     (case bindr (os_stat ops (a_storage_key x) v) (\<lambda>d. verify_storage_metadata d x) of
        Inr _ \<Rightarrow> audit_rows ops v xs (missing, corrupt)
      | Inl e \<Rightarrow> if e = ObjectNotFoundError then audit_rows ops v xs (Suc missing, corrupt)
                 else if is_object_store_error e \<or> is_value_error e then audit_rows ops v xs (missing, Suc corrupt)
                 else Inl e)"

record reconciliation_report =
  rr_scanned :: nat
  rr_orphaned :: nat
  rr_deleted :: nat
  rr_delete_failures :: nat
  rr_missing :: nat
  rr_corrupt :: nat
  rr_next_cursor :: "string option"

definition reconciliation_page_of ::
    "runtime \<Rightarrow> 'v object_store_ops \<Rightarrow> string option \<Rightarrow> int \<Rightarrow> 'v \<times> db \<Rightarrow> exn + reconciliation_page" where
  "reconciliation_page_of rt ops cursor limit t =
     (case bindr (os_list_keys ops ''artifacts/v1'' limit cursor (fst t)) (\<lambda>keys.
        fst (in_session rt (service_context MAINTENANCE None) (\<lambda>c s.
          Inr (page_of keys (audited_artifacts cursor (nat limit) s) (nat limit) s, s)) (snd t))) of
        Inl e \<Rightarrow> Inl (if is_value_error e then InvalidRequestError ''artifact.reconcile''
            else if is_object_store_error e \<or> is_sqlalchemy_error e then DependencyUnavailableError ''artifact.reconcile'' else e)
      | Inr page \<Rightarrow> Inr page)"

definition reconcile_orphans ::
    "runtime \<Rightarrow> artifact_config \<Rightarrow> 'v object_store_ops \<Rightarrow> (nat \<Rightarrow> 'v \<times> db \<Rightarrow> 'v \<times> db) \<Rightarrow> string option \<Rightarrow> int \<Rightarrow> time
     \<Rightarrow> 'v \<times> db \<Rightarrow> (exn + reconciliation_report) \<times> 'v \<times> db" where
  "reconcile_orphans rt cfg ops env cursor limit now t =
     (case reconciliation_page_of rt ops cursor limit t of
        Inl e \<Rightarrow> (Inl e, t)
      | Inr page \<Rightarrow>
          (case sweep_orphans ops (now - ac_orphan_grace cfg) env (rp_referenced page) 0 (rp_keys page)
              \<lparr>oc_orphaned = 0, oc_deleted = 0, oc_failures = 0\<rparr> t of
             (Inl e, t) \<Rightarrow> (Inl e, t)
           | (Inr n, t) \<Rightarrow>
               (bindr (audit_rows ops (fst t) (rp_rows page) (0, 0)) (\<lambda>(missing, corrupt).
                Inr \<lparr>rr_scanned = length (rp_keys page), rr_orphaned = oc_orphaned n, rr_deleted = oc_deleted n,
                  rr_delete_failures = oc_failures n, rr_missing = missing, rr_corrupt = corrupt,
                  rr_next_cursor = rp_next page\<rparr>), t)))"

lemma download_name_accepted:
  assumes "download_name_ok s"
  shows "\<exists>name. safe_download_filename nfkd s = Inr name"
proof -
  have chars: "list_all is_filename_char s" and s: "s \<noteq> []" "length s \<le> 255" "hd s \<noteq> CHR ''.''"
    using assms by (simp_all add: download_name_ok_def)
  have ctl: "\<not> is_control_char c" if "is_filename_char c" for c
    using that by (auto simp: is_filename_char_def is_control_char_def is_alnum_char_def is_lower_char_def is_upper_char_def is_digit_char_def)
  have not_slash: "\<not> is_filename_char CHR ''/''" "\<not> is_filename_char CHR 0x5C"
    by (simp_all add: is_filename_char_def is_alnum_char_def is_lower_char_def is_upper_char_def is_digit_char_def)
  have "\<not> list_ex is_control_char s" using chars ctl by (auto simp: list_ex_iff list_all_iff)
  moreover have "CHR ''/'' \<notin> set s" "CHR 0x5C \<notin> set s" using chars not_slash by (auto simp: list_all_iff)
  moreover have "s \<noteq> ''.''" "s \<noteq> ''..''" using s(3) by auto
  ultimately show ?thesis using s(1,2) by (simp add: safe_download_filename_def max_filename_bytes_def Let_def)
qed

section \<open>A stream that ends without an error is the recorded content\<close>

lemma verified_chunks_bounded:
  "verified_chunks hash max_bytes x seen chunks = (read, failure) \<Longrightarrow> int (length seen) \<le> a_size_bytes x \<Longrightarrow>
     int (length (seen @ concat read)) \<le> a_size_bytes x
     \<and> (failure = None \<longrightarrow> int (length (seen @ concat read)) = a_size_bytes x \<and> hash (seen @ concat read) = a_sha256 x)"
proof (induction hash max_bytes x seen chunks arbitrary: read rule: verified_chunks.induct)
  case (3 hash max_bytes x seen chunk rest)
  show ?case
  proof (cases "a_size_bytes x < int (length (seen @ chunk)) \<or> max_bytes < int (length (seen @ chunk))")
    case True
    with 3(2,3) show ?thesis by auto
  next
    case False
    obtain read' where rec: "verified_chunks hash max_bytes x (seen @ chunk) rest = (read', failure)" "read = chunk # read'"
      using 3(2) False by (auto simp: Let_def split: prod.splits)
    from 3(1) [OF refl False rec(1)] False rec(2) show ?thesis by simp
  qed
qed (auto split: if_splits)

lemma verified_chunks_complete:
  "int (length (seen @ concat cs)) = a_size_bytes x \<Longrightarrow> hash (seen @ concat cs) = a_sha256 x \<Longrightarrow> a_size_bytes x \<le> max_bytes \<Longrightarrow>
     verified_chunks hash max_bytes x seen (map Inr cs) = (cs, None)"
proof (induction cs arbitrary: seen)
  case (Cons c cs)
  then have "verified_chunks hash max_bytes x (seen @ c) (map Inr cs) = (cs, None)" by simp
  with Cons.prems show ?case by (auto simp: Let_def)
qed simp

lemma read_all_Inr:
  assumes "read_all hash cfg ops x v = Inr content" and "0 \<le> a_size_bytes x"
  shows "int (length content) = a_size_bytes x" and "hash content = a_sha256 x"
proof -
  from assms(1) obtain d chunks where "os_open ops (a_storage_key x) (ac_chunk_bytes cfg) v = Inr (d, chunks)"
    by (auto simp: read_all_def)
  with assms(1) obtain read failure where "verified_chunks hash (ac_max_bytes cfg) x [] chunks = (read, failure)"
    "failure = None" "content = concat read"
    by (cases "verified_chunks hash (ac_max_bytes cfg) x [] chunks") (auto simp: read_all_def split: option.splits)
  with verified_chunks_bounded [of hash "ac_max_bytes cfg" x "[]" chunks read failure] assms(2)
  show "int (length content) = a_size_bytes x" "hash content = a_sha256 x" by auto
qed

section \<open>Every active artifact has its object\<close>

definition final_key :: "string \<Rightarrow> bool" where
  "final_key key \<longleftrightarrow> starts_with ''artifacts/v1/'' key"

lemma final_artifact_key: "artifact_storage_key org proj run kind sha = Inr key \<Longrightarrow> final_key key"
  by (auto simp: artifact_storage_key_def final_key_def split: if_splits)

definition artifact_stored :: "(string \<Rightarrow> (string \<times> object_descriptor) option) \<Rightarrow> artifact \<Rightarrow> bool" where
  "artifact_stored objects x \<longleftrightarrow> (\<exists>content d. objects (a_storage_key x) = Some (content, d) \<and> od_size_bytes d = a_size_bytes x
     \<and> od_sha256 d = a_sha256 x \<and> od_media_type d = a_media_type x) \<and> final_key (a_storage_key x) \<and> download_name_ok (a_filename x)"

definition artifacts_stored :: "(string \<Rightarrow> (string \<times> object_descriptor) option) \<Rightarrow> db \<Rightarrow> bool" where
  "artifacts_stored objects s \<longleftrightarrow> (\<forall>x \<in> set (artifacts s). a_state x = ARTIFACT_ACTIVE \<longrightarrow> artifact_stored objects x)"

text \<open>The rows of an organization that still count, and what the usage row says of them.\<close>

definition held_artifact :: "uuid \<Rightarrow> artifact \<Rightarrow> bool" where
  "held_artifact org x \<longleftrightarrow> a_organization x = org \<and> a_state x \<noteq> DELETED"

definition artifacts_metered :: "db \<Rightarrow> bool" where
  "artifacts_metered s \<longleftrightarrow> (\<forall>org. used_artifact_count (usage_of org s) = int (count_where (held_artifact org) (artifacts s))
     \<and> used_artifact_bytes (usage_of org s) = int (sum_where (\<lambda>x. nat (a_size_bytes x)) (held_artifact org) (artifacts s)))"

text \<open>Every object that an artifact may have is kept.\<close>

definition objects_kept :: "(string \<Rightarrow> 'o option) \<Rightarrow> (string \<Rightarrow> 'o option) \<Rightarrow> bool" where
  "objects_kept objects objects' \<longleftrightarrow> objects |` Collect final_key \<subseteq>\<^sub>m objects'"

lemma objects_kept_iff: "objects_kept objects objects' \<longleftrightarrow> (\<forall>k x. final_key k \<longrightarrow> objects k = Some x \<longrightarrow> objects' k = Some x)"
  by (auto simp: objects_kept_def map_le_def dom_def restrict_map_def)

lemma objects_kept_refl [simp]: "objects_kept objects objects"
  by (simp add: objects_kept_iff)

lemma objects_kept_trans: "objects_kept a b \<Longrightarrow> objects_kept b c \<Longrightarrow> objects_kept a c"
  by (simp add: objects_kept_iff)

lemma objects_kept_mono: "objects \<subseteq>\<^sub>m objects' \<Longrightarrow> objects_kept objects objects'"
  by (auto simp: objects_kept_iff map_le_def dom_def)

lemma artifact_stored_mono: "artifact_stored objects x \<Longrightarrow> objects_kept objects objects' \<Longrightarrow> artifact_stored objects' x"
  by (fastforce simp: artifact_stored_def objects_kept_iff)

lemma artifacts_stored_mono: "artifacts_stored objects s \<Longrightarrow> objects_kept objects objects' \<Longrightarrow> artifacts_stored objects' s"
  by (auto simp: artifacts_stored_def intro: artifact_stored_mono)

lemma artifacts_metered_cong:
  "artifacts s' = artifacts s \<Longrightarrow> (\<And>org. used_artifact_count (usage_of org s') = used_artifact_count (usage_of org s)) \<Longrightarrow>
   (\<And>org. used_artifact_bytes (usage_of org s') = used_artifact_bytes (usage_of org s)) \<Longrightarrow> artifacts_metered s' = artifacts_metered s"
  by (simp add: artifacts_metered_def)

text \<open>A new row that is charged, and steps that concern neither the rows nor their charges.\<close>

lemma artifacts_metered_add:
  assumes "artifacts_metered s" and "artifacts s' = artifacts s @ [row]" and "a_organization row = org" and "a_state row \<noteq> DELETED"
    and "0 < a_size_bytes row"
    and "\<And>o'. used_artifact_count (usage_of o' s') = used_artifact_count (usage_of o' s) + (if o' = org then 1 else 0)"
    and "\<And>o'. used_artifact_bytes (usage_of o' s') = used_artifact_bytes (usage_of o' s) + (if o' = org then a_size_bytes row else 0)"
  shows "artifacts_metered s'"
  using assms by (auto simp: artifacts_metered_def held_artifact_def)

definition same_artifacts :: "db \<Rightarrow> db \<Rightarrow> bool" where
  "same_artifacts s s' \<longleftrightarrow> artifacts s' = artifacts s
     \<and> (\<forall>org. used_artifact_count (usage_of org s') = used_artifact_count (usage_of org s)
            \<and> used_artifact_bytes (usage_of org s') = used_artifact_bytes (usage_of org s))"

lemma same_artifacts_refl [simp]: "same_artifacts s s"
  by (simp add: same_artifacts_def)

lemma same_artifacts_trans: "same_artifacts s t \<Longrightarrow> same_artifacts t u \<Longrightarrow> same_artifacts s u"
  by (simp add: same_artifacts_def)

lemma same_artifacts_metered: "same_artifacts s s' \<Longrightarrow> artifacts_metered s' = artifacts_metered s"
  by (rule artifacts_metered_cong) (simp_all add: same_artifacts_def)

lemma finish_upload_Inr:
  assumes "finish_upload rt now a up user_id row c s = Inr (creation, s')" and "a_organization row = ac_organization a"
    and "a_state row = ARTIFACT_ACTIVE"
  shows "artifacts s' = artifacts s @ [row]" and "artifacts_metered s \<Longrightarrow> artifacts_metered s'"
    and "users s' = users s \<and> memberships s' = memberships s \<and> projects s' = projects s"
    and "artifact_snapshot_of row = Inr (cr_artifact creation) \<and> cr_created creation"
    and "\<exists>u. authorize_scope ''artifact.create'' a (up_project up) (up_run up) True s = Inr u"
proof -
  let ?org = "ac_organization a"
  from assms(1) obtain s1 s2 rows where
    consume: "consume_artifact rt c now ?org (up_kind up) (a_size_bytes row) s = Inr s1"
    and rows: "rows = artifacts s1 @ [row]"
    and audit: "audit_append rt c now ?org (audit_user user_id) ARTIFACT_CREATED ARTIFACT_RESOURCE (a_id row) (ac_request_id a)
        [(''kind'', JStr (a_kind row)), (''sha256'', JStr (a_sha256 row)), (''size_bytes'', JInt (a_size_bytes row))]
        (s1\<lparr>artifacts := rows\<rparr>) = Inr s2" and s': "s' = s2"
    and snap: "artifact_snapshot_of row = Inr (cr_artifact creation) \<and> cr_created creation"
    and auth: "\<exists>u. authorize_scope ''artifact.create'' a (up_project up) (up_run up) True s = Inr u"
    by (auto simp: finish_upload_def Let_def)
  show "artifact_snapshot_of row = Inr (cr_artifact creation) \<and> cr_created creation" by (rule snap)
  show "\<exists>u. authorize_scope ''artifact.create'' a (up_project up) (up_run up) True s = Inr u" by (rule auth)
  note ci = consume_artifact_Inr [OF consume]
  have tables: "artifacts s1 = artifacts s" using platform_frame_tables [OF charge_frameD(1) [OF ci(1)]] by simp
  note af = audit_append_frame [OF audit]
  show "users s' = users s \<and> memberships s' = memberships s \<and> projects s' = projects s"
    using platform_frame_tables [OF af(1)] platform_frame_tables [OF charge_frameD(1) [OF ci(1)]] by (simp add: s')
  show arts: "artifacts s' = artifacts s @ [row]" using platform_frame_tables [OF af(1)] by (simp add: s' rows tables)
  have view: "usage_of o' (s1\<lparr>artifacts := rows\<rparr>) = usage_of o' s1" for o' by (simp add: usage_of_def find_usage_def)
  have usage: "usage_of o' s' = usage_of o' s1" for o' using af(4) view by (simp add: s')
  show "artifacts_metered s'" if "artifacts_metered s"
    by (rule artifacts_metered_add [OF that arts assms(2)]) (use assms(3) ci(2,3) usage in auto)
qed

lemma tombstone_body_Inr:
  assumes "tombstone_body rt now a project_id artifact_id c s = Inr (u, s')" and "constraints_ok s"
  obtains x where "x \<in> set (artifacts s)" "a_id x = artifact_id" "a_state x = ARTIFACT_ACTIVE" "a_organization x = ac_organization a"
    "a_project x = project_id"
    "artifacts s' = update_where (\<lambda>y. a_id y = a_id x) (\<lambda>y. y\<lparr>a_state := TOMBSTONED, a_tombstoned_at := Some now\<rparr>) (artifacts s)"
    "artifacts_metered s \<longrightarrow> artifacts_metered s'"
proof -
  let ?t = "\<lambda>x. s\<lparr>artifacts := update_where (\<lambda>y. a_id y = a_id x) (\<lambda>y. y\<lparr>a_state := TOMBSTONED, a_tombstoned_at := Some now\<rparr>)
          (artifacts s)\<rparr>"
  from assms(1) obtain x user_id where find: "find (\<lambda>x. a_id x = artifact_id \<and> a_organization x = ac_organization a
       \<and> a_project x = project_id \<and> a_state x = ARTIFACT_ACTIVE) (artifacts s) = Some x"
    and audit: "audit_append rt c now (ac_organization a) (audit_user user_id) ARTIFACT_TOMBSTONED ARTIFACT_RESOURCE (a_id x)
        (ac_request_id a) [(''kind'', JStr (a_kind x)), (''size_bytes'', JInt (a_size_bytes x))] (?t x) = Inr s'"
    by (auto simp: tombstone_body_def active_artifact_def Let_def)
  note x = find_SomeD [OF find]
  note af = audit_append_frame [OF audit]
  have arts: "artifacts s' = artifacts (?t x)" using platform_frame_tables [OF af(1)] by simp
  have view: "usage_of org s' = usage_of org s" for org using af(4) [of org] by (simp add: usage_of_def find_usage_def)
  have "count_where (held_artifact org) (artifacts s') = count_where (held_artifact org) (artifacts s)
      \<and> sum_where (\<lambda>x. nat (a_size_bytes x)) (held_artifact org) (artifacts s') = sum_where (\<lambda>x. nat (a_size_bytes x)) (held_artifact org) (artifacts s)" for org
  proof -
    have same: "held_artifact org (y\<lparr>a_state := TOMBSTONED, a_tombstoned_at := Some now\<rparr>) = held_artifact org y"
      if "y \<in> set (artifacts s)" "a_id y = a_id x" for y
    proof -
      have "y = x" using constraints_artifacts(1) [OF assms(2)] that x by (auto dest: distinct_map_inj)
      with x show ?thesis by (simp add: held_artifact_def)
    qed
    show ?thesis unfolding arts by (simp add: count_where_update_same sum_where_update_same same)
  qed
  then have "artifacts_metered s \<longrightarrow> artifacts_metered s'" by (simp add: artifacts_metered_def view)
  with x arts that [of x] show thesis by simp
qed

text \<open>Rows are never rewritten or dropped, and what left the active state does not come back.\<close>

definition artifact_identity :: "artifact \<Rightarrow> artifact" where
  "artifact_identity x = x\<lparr>a_state := DELETED, a_tombstoned_at := None, a_deleted_at := None\<rparr>"

definition artifacts_kept :: "db \<Rightarrow> db \<Rightarrow> bool" where
  "artifacts_kept s s' \<longleftrightarrow> (\<forall>x \<in> set (artifacts s). \<exists>y \<in> set (artifacts s').
     artifact_identity y = artifact_identity x \<and> (a_state x \<noteq> ARTIFACT_ACTIVE \<longrightarrow> a_state y \<noteq> ARTIFACT_ACTIVE))"

lemma artifact_identityD:
  assumes "artifact_identity y = artifact_identity x"
  shows "a_id y = a_id x" "a_organization y = a_organization x" "a_size_bytes y = a_size_bytes x" "a_storage_key y = a_storage_key x"
    "a_sha256 y = a_sha256 x" "a_media_type y = a_media_type x" "a_project y = a_project x" "a_kind y = a_kind x"
  using assms by (cases x; cases y; simp add: artifact_identity_def)+

lemma artifacts_kept_refl: "artifacts s' = artifacts s \<Longrightarrow> artifacts_kept s s'"
  by (auto simp: artifacts_kept_def)

lemma artifacts_kept_trans: "artifacts_kept s t \<Longrightarrow> artifacts_kept t u \<Longrightarrow> artifacts_kept s u"
  unfolding artifacts_kept_def by (metis (no_types, lifting))

lemma artifacts_kept_append: "artifacts s' = artifacts s @ rows \<Longrightarrow> artifacts_kept s s'"
  by (auto simp: artifacts_kept_def)

lemma artifacts_kept_update:
  assumes "artifacts s' = update_where P f (artifacts s)"
    and "\<And>x. P x \<Longrightarrow> artifact_identity (f x) = artifact_identity x \<and> a_state (f x) \<noteq> ARTIFACT_ACTIVE"
  shows "artifacts_kept s s'"
  unfolding artifacts_kept_def assms(1) set_update_where
proof
  fix x assume x: "x \<in> set (artifacts s)"
  show "\<exists>y\<in>(\<lambda>r. if P r then f r else r) ` set (artifacts s).
     artifact_identity y = artifact_identity x \<and> (a_state x \<noteq> ARTIFACT_ACTIVE \<longrightarrow> a_state y \<noteq> ARTIFACT_ACTIVE)"
    by (rule bexI [OF _ imageI [OF x]]) (use assms(2) in simp)
qed

lemma purge_row_Inr:
  assumes "purge_row rt now cutoff x c s = Inr (b, s')"
  obtains (gone) "\<not> b" "s' = s"
  | (purged) "b" "artifacts s' = artifacts (mark_deleted cutoff x s)" "\<exists>y \<in> set (artifacts s). a_id y = a_id x \<and> a_state y = TOMBSTONED"
      "\<And>org. usage_of org s' = (if org = a_organization x then (usage_of org s)\<lparr>used_artifact_count := used_artifact_count (usage_of org s) - 1,
        used_artifact_bytes := used_artifact_bytes (usage_of org s) - a_size_bytes x\<rparr> else usage_of org s)"
proof (cases "list_ex (\<lambda>y. a_id y = a_id x \<and> a_state y = TOMBSTONED) (artifacts s)")
  case False
  with assms gone show thesis by (auto simp: purge_row_def)
next
  case True
  with assms obtain s1 where rel: "release_artifact rt c now (a_organization x) (a_size_bytes x) (mark_deleted cutoff x s) = Inr s1"
    and app: "service_append rt c now (a_organization x) MAINTENANCE ARTIFACT_PURGED ARTIFACT_RESOURCE (a_id x) None
          [(''kind'', JStr (a_kind x)), (''size_bytes'', JInt (a_size_bytes x))] s1 = Inr s'" and b
    by (auto simp: purge_row_def)
  note ri = release_artifact_Inr [OF rel]
  note sf = service_append_frame [OF app]
  have "artifacts s' = artifacts (mark_deleted cutoff x s)"
    using platform_frame_tables [OF charge_frameD(1) [OF ri(1)]] platform_frame_tables [OF sf(1)] by simp
  moreover have "usage_of org (mark_deleted cutoff x s) = usage_of org s" for org by (simp add: usage_of_def find_usage_def mark_deleted_def)
  ultimately show thesis using True \<open>b\<close> ri(2) sf by (intro purged) (auto simp: list_ex_iff)
qed

lemma purge_row_metered:
  assumes "purge_row rt now cutoff x c s = Inr (b, s')" and "constraints_ok s" and "artifacts_metered s"
    and same: "\<And>y. y \<in> set (artifacts s) \<Longrightarrow> a_id y = a_id x \<Longrightarrow> a_organization y = a_organization x \<and> a_size_bytes y = a_size_bytes x"
  shows "artifacts_metered s'"
  using assms(1)
proof (cases rule: purge_row_Inr)
  case purged
  obtain y where y: "y \<in> set (artifacts s)" "a_id y = a_id x" "a_state y = TOMBSTONED" using purged(3) by blast
  let ?f = "\<lambda>z. if a_state z = TOMBSTONED then z\<lparr>a_state := DELETED, a_deleted_at := Some cutoff\<rparr> else z"
  have arts: "artifacts s' = update_where (\<lambda>z. a_id z = a_id y) ?f (artifacts s)"
    unfolding purged(2) mark_deleted_def update_where_def using y(2) by auto
  note d = constraints_artifacts(1) [OF assms(2)]
  note oy = same [OF y(1,2)]
  have pos: "0 < a_size_bytes y" using assms(2) y(1) by (auto simp: constraints_ok_def artifacts_ok_def list_all_iff)
  have c: "count_where (held_artifact org) (artifacts s') + (if org = a_organization x then 1 else 0) = count_where (held_artifact org) (artifacts s)"
    for org using count_where_update_key [OF d y(1), of "held_artifact org" ?f] y(3) oy
    unfolding arts by (auto simp: held_artifact_def split: if_splits)
  have z: "sum_where (\<lambda>x. nat (a_size_bytes x)) (held_artifact org) (artifacts s') + (if org = a_organization x then nat (a_size_bytes x) else 0)
      = sum_where (\<lambda>x. nat (a_size_bytes x)) (held_artifact org) (artifacts s)"
    for org using sum_where_update_key [OF d y(1), of "\<lambda>x. nat (a_size_bytes x)" "held_artifact org" ?f] y(3) oy
    unfolding arts by (auto simp: held_artifact_def split: if_splits)
  show ?thesis
    unfolding artifacts_metered_def
  proof
    fix org
    from assms(3) have m: "used_artifact_count (usage_of org s) = int (count_where (held_artifact org) (artifacts s))"
      "used_artifact_bytes (usage_of org s) = int (sum_where (\<lambda>x. nat (a_size_bytes x)) (held_artifact org) (artifacts s))"
      by (simp_all add: artifacts_metered_def)
    show "used_artifact_count (usage_of org s') = int (count_where (held_artifact org) (artifacts s'))
       \<and> used_artifact_bytes (usage_of org s') = int (sum_where (\<lambda>x. nat (a_size_bytes x)) (held_artifact org) (artifacts s'))"
      using m c [of org] z [of org] pos oy by (auto simp: purged(4) split: if_splits)
  qed
qed (use assms in simp)

section \<open>What uploads, tombstones and purges keep\<close>

definition vault_ok :: "('v \<Rightarrow> bool) \<Rightarrow> ('v \<Rightarrow> string \<Rightarrow> (string \<times> object_descriptor) option) \<Rightarrow> 'v \<times> db \<Rightarrow> bool" where
  "vault_ok ok view t \<longleftrightarrow> ok (fst t) \<and> constraints_ok (snd t) \<and> artifacts_stored (view (fst t)) (snd t) \<and> artifacts_metered (snd t)"

text \<open>No object of an artifact disappears and the rows are kept: what all but the purge and the reconciliation do.\<close>

definition vault_grows :: "('v \<Rightarrow> string \<Rightarrow> (string \<times> object_descriptor) option) \<Rightarrow> 'v \<times> db \<Rightarrow> 'v \<times> db \<Rightarrow> bool" where
  "vault_grows view t t' \<longleftrightarrow> objects_kept (view (fst t)) (view (fst t')) \<and> artifacts_kept (snd t) (snd t')"

lemma vault_grows_refl [simp]: "vault_grows view t t"
  by (simp add: vault_grows_def artifacts_kept_refl)

lemma vault_grows_trans: "vault_grows view t u \<Longrightarrow> vault_grows view u w \<Longrightarrow> vault_grows view t w"
  unfolding vault_grows_def using objects_kept_trans artifacts_kept_trans by blast

lemma in_session_read: "in_session rt context (\<lambda>c s. bindr (f c s) (\<lambda>x. Inr (x, s))) s = (r, s') \<Longrightarrow> s' = s"
  by (cases r) (auto dest!: in_session_Inr in_session_Inl)

lemma in_session_fst: "fst (in_session rt context body s) = Inr x \<Longrightarrow> \<exists>c s'. context = Inr c \<and> body c s = Inr (x, s') \<and> constraints_ok s'"
  by (cases "in_session rt context body s") (auto dest!: in_session_Inr)

lemma begin_upload_same: "in_session rt context (\<lambda>c. begin_upload a up sha256) s = (r, s') \<Longrightarrow> s' = s"
  by (cases r) (auto simp: begin_upload_def Let_def dest!: in_session_Inr in_session_Inl)

context object_store
begin

lemma put_grows: "ok v \<Longrightarrow> os_put ops now key content sha256 media_type v = (r, v') \<Longrightarrow> ok v' \<and> objects_kept (view v) (view v')"
proof (cases r)
  case (Inl e)
  moreover assume "ok v" "os_put ops now key content sha256 media_type v = (r, v')"
  ultimately show ?thesis using put_refused by simp
next
  case (Inr x)
  assume "ok v" "os_put ops now key content sha256 media_type v = (r, v')"
  note p = put_law [OF this [unfolded Inr]]
  have "view v \<subseteq>\<^sub>m view v'"
    unfolding map_le_def
  proof
    fix k assume "k \<in> dom (view v)"
    with p show "view v k = view v' k" by (cases "k = key") auto
  qed
  with p show ?thesis by (simp add: objects_kept_mono)
qed

lemma finish_upload_vault:
  assumes "vault_ok ok view (v, s)" and "in_session rt context (finish_upload rt now a up user_id row) s = (r, s')"
    and "a_organization row = ac_organization a" and "a_state row = ARTIFACT_ACTIVE" and "artifact_stored (view v) row"
  shows "vault_ok ok view (v, s') \<and> vault_grows view (v, s) (v, s')"
proof (cases r)
  case (Inl e)
  with assms have "s' = s" by (auto dest: in_session_Inl)
  with assms(1) show ?thesis by simp
next
  case (Inr creation)
  with assms(2) obtain c where f: "finish_upload rt now a up user_id row c s = Inr (creation, s')" and "constraints_ok s'"
    by (auto dest!: in_session_Inr)
  note fu = finish_upload_Inr [OF f assms(3,4)]
  with assms(1,5) \<open>constraints_ok s'\<close> show ?thesis
    by (auto simp: vault_ok_def vault_grows_def artifacts_stored_def intro: artifacts_kept_append)
qed

lemma store_upload_vault:
  assumes env: "\<And>i u. vault_ok ok view u \<Longrightarrow> vault_ok ok view (env i u) \<and> vault_grows view u (env i u)"
    and name: "download_name_ok filename"
    and t: "vault_ok ok view t" and st: "store_upload rt cfg ops now aid env a up user_id media_type filename sha256 t = (r, t')"
  shows "vault_ok ok view t' \<and> vault_grows view t t'"
proof (cases "artifact_storage_key (ac_organization a) (up_project up) (up_run up) (up_kind up) sha256")
  case (Inl e)
  with st t show ?thesis by (auto simp: store_upload_def Let_def)
next
  case key: (Inr key)
  obtain pr v where put: "os_put ops now key (up_content up) sha256 media_type (fst t) = (pr, v)" by fastforce
  have okt: "ok (fst t)" "constraints_ok (snd t)" "artifacts_stored (view (fst t)) (snd t)" "artifacts_metered (snd t)"
    using t by (simp_all add: vault_ok_def)
  note pg = put_grows [OF okt(1) put]
  have v: "vault_ok ok view (v, snd t)" "vault_grows view t (v, snd t)"
    using pg okt by (auto simp: vault_ok_def vault_grows_def artifacts_kept_refl intro: artifacts_stored_mono)
  show ?thesis
  proof (cases pr)
    case (Inl e)
    with st key put v show ?thesis by (auto simp: store_upload_def Let_def)
  next
    case (Inr res)
    note pl = put_law [OF okt(1) put [unfolded Inr]]
    obtain v1 s1 where e1: "env 1 (v, snd t) = (v1, s1)" by fastforce
    note g1 = env [OF v(1), of 1, unfolded e1]
    define row where "row = new_artifact cfg now aid user_id a up media_type filename sha256 key"
    obtain stored where "view v key = Some (stored, pr_descriptor res)" using pl by blast
    moreover have "objects_kept (view v) (view v1)" using g1 by (simp add: vault_grows_def)
    ultimately have "view v1 key = Some (stored, pr_descriptor res)" using final_artifact_key [OF key] by (simp add: objects_kept_iff)
    then have stored: "artifact_stored (view v1) row"
      using pl name final_artifact_key [OF key] by (auto simp: artifact_stored_def row_def new_artifact_def same_object_def new_descriptor_def)
    obtain r2 s2 where fin: "in_session rt (user_context (ac_organization a) (ac_subject a)) (finish_upload rt now a up user_id row) s1 = (r2, s2)"
      by fastforce
    have fu: "vault_ok ok view (v1, s2) \<and> vault_grows view (v1, s1) (v1, s2)"
      by (rule finish_upload_vault [OF _ fin _ _ stored]) (use g1 in \<open>simp_all add: row_def new_artifact_def\<close>)
    have g2: "vault_ok ok view (v1, s2)" "vault_grows view t (v1, s2)"
      using fu v(2) g1 by (blast intro: vault_grows_trans)+
    show ?thesis
    proof (cases "r2 = Inl IntegrityError")
      case True
      with st key put Inr e1 fin have "t' = env 2 (v1, s2)"
        by (auto simp: store_upload_def Let_def row_def split: prod.splits)
      with env [OF g2(1), of 2] g2(2) show ?thesis by (blast intro: vault_grows_trans)
    next
      case False
      with st key put Inr e1 fin have "t' = (v1, s2)"
        by (auto simp: store_upload_def Let_def row_def split: prod.splits sum.splits if_splits)
      with g2 show ?thesis by simp
    qed
  qed
qed

lemma create_artifact_vault:
  assumes env: "\<And>i u. vault_ok ok view u \<Longrightarrow> vault_ok ok view (env i u) \<and> vault_grows view u (env i u)"
    and t: "vault_ok ok view t" and cr: "create_artifact rt cfg ops now aid env a up t = (r, t')"
  shows "vault_ok ok view t' \<and> vault_grows view t t'"
proof (cases "admit_upload rt cfg up")
  case (Inl e)
  with cr t show ?thesis by (auto simp: create_artifact_def Let_def)
next
  case (Inr admitted)
  obtain media_type filename sha256 where ad: "admitted = (media_type, filename, sha256)" by (cases admitted)
  have name: "download_name_ok filename"
    using \<open>admit_upload rt cfg up = Inr admitted\<close> ad
    by (auto simp: admit_upload_def Let_def intro: download_name_ok_result)
  obtain r1 s1 where b: "in_session rt (user_context (ac_organization a) (ac_subject a)) (\<lambda>c. begin_upload a up sha256) (snd t) = (r1, s1)"
    by fastforce
  then have s1: "s1 = snd t" by (rule begin_upload_same)
  obtain v2 s2 where e0: "env 0 t = (v2, s2)" by fastforce
  note g0 = env [OF t, of 0, unfolded e0]
  show ?thesis
  proof (cases r1)
    case (Inl e)
    with cr \<open>admit_upload rt cfg up = Inr admitted\<close> ad b s1 t show ?thesis by (auto simp: create_artifact_def Let_def)
  next
    case r1: (Inr found)
    obtain user_id duplicate where found: "found = (user_id, duplicate)" by (cases found)
    let ?store = "store_upload rt cfg ops now aid env a up user_id media_type filename sha256 (v2, s2)"
    have "t' = (v2, s2) \<or> (r, t') = ?store"
      using cr \<open>admit_upload rt cfg up = Inr admitted\<close> ad b s1 r1 found e0
      by (auto simp: create_artifact_def Let_def split: option.splits sum.splits if_splits)
    then show ?thesis
    proof
      assume "(r, t') = ?store"
      then have "vault_ok ok view t' \<and> vault_grows view (v2, s2) t'"
        by (intro store_upload_vault [where env = env, OF env name _ sym]) (use g0 in auto)
      with g0 show ?thesis by (blast intro: vault_grows_trans)
    qed (use g0 in simp)
  qed
qed

lemma tombstone_vault:
  assumes "vault_ok ok view (v, s)" and "tombstone rt now a project_id artifact_id s = (r, s')"
  shows "vault_ok ok view (v, s') \<and> vault_grows view (v, s) (v, s')"
proof (cases r)
  case (Inl e)
  with assms show ?thesis by (auto simp: tombstone_def dest!: in_session_Inl)
next
  case (Inr u)
  with assms(2) obtain c where b: "tombstone_body rt now a project_id artifact_id c s = Inr (u, s')" and ok: "constraints_ok s'"
    by (auto simp: tombstone_def dest!: in_session_Inr)
  have "constraints_ok s" using assms(1) by (simp add: vault_ok_def)
  with b have "\<exists>x :: artifact. artifacts s' = update_where (\<lambda>y. a_id y = a_id x) (\<lambda>y. y\<lparr>a_state := TOMBSTONED, a_tombstoned_at := Some now\<rparr>) (artifacts s)
     \<and> (artifacts_metered s \<longrightarrow> artifacts_metered s')" by (rule tombstone_body_Inr) blast
  then obtain x :: artifact where arts: "artifacts s' = update_where (\<lambda>y. a_id y = a_id x) (\<lambda>y. y\<lparr>a_state := TOMBSTONED, a_tombstoned_at := Some now\<rparr>) (artifacts s)"
    and m: "artifacts_metered s \<longrightarrow> artifacts_metered s'" by blast
  have "artifacts_kept s s'" by (rule artifacts_kept_update [OF arts]) (simp add: artifact_identity_def)
  moreover have "artifacts_stored (view v) s'"
    using assms(1) by (auto simp: vault_ok_def artifacts_stored_def arts set_update_where)
  ultimately show ?thesis using assms(1) ok m by (simp add: vault_ok_def vault_grows_def)
qed

lemma delete_vault:
  assumes "vault_ok ok view (v, s)" and "os_delete ops key v = (r, v')"
    and "\<And>x. x \<in> set (artifacts s) \<Longrightarrow> a_storage_key x = key \<Longrightarrow> a_state x \<noteq> ARTIFACT_ACTIVE"
  shows "vault_ok ok view (v', s)"
proof (cases r)
  case (Inl e)
  with assms delete_refused [of v key e v'] show ?thesis by (simp add: vault_ok_def)
next
  case (Inr u)
  have d: "ok v'" "view v' = (view v)(key := None)" using assms(1,2) Inr delete_law by (auto simp: vault_ok_def)
  have "artifact_stored (view v') x" if "x \<in> set (artifacts s)" "a_state x = ARTIFACT_ACTIVE" for x
  proof -
    have "a_storage_key x \<noteq> key" using assms(3) that by blast
    moreover have "artifact_stored (view v) x" using assms(1) that by (auto simp: vault_ok_def artifacts_stored_def)
    ultimately show ?thesis by (simp add: artifact_stored_def d(2))
  qed
  with assms(1) d(1) show ?thesis by (simp add: vault_ok_def artifacts_stored_def)
qed

definition spent :: "artifact \<Rightarrow> 'v \<times> db \<Rightarrow> bool" where
  "spent x t \<longleftrightarrow> (\<exists>y \<in> set (artifacts (snd t)). artifact_identity y = artifact_identity x \<and> a_state y \<noteq> ARTIFACT_ACTIVE)"

lemma spent_kept: "spent x t \<Longrightarrow> artifacts_kept (snd t) (snd t') \<Longrightarrow> spent x t'"
  unfolding spent_def artifacts_kept_def by (metis (no_types, lifting))

lemma purge_one_vault:
  assumes env: "\<And>u. vault_ok ok view u \<Longrightarrow> vault_ok ok view (env u) \<and> vault_grows view u (env u)"
    and t: "vault_ok ok view t" and x: "spent x t" and p: "purge_one rt ops now cutoff env x t = (r, t')"
  shows "vault_ok ok view t' \<and> artifacts_kept (snd t) (snd t')"
proof -
  obtain v s where ts: "t = (v, s)" by (cases t)
  obtain d v1 where del: "os_delete ops (a_storage_key x) v = (d, v1)" by fastforce
  obtain y where y: "y \<in> set (artifacts s)" "artifact_identity y = artifact_identity x" "a_state y \<noteq> ARTIFACT_ACTIVE"
    using x by (auto simp: spent_def ts)
  have keys: "distinct (map a_storage_key (artifacts s))" using t by (auto simp: vault_ok_def ts intro: constraints_artifacts)
  have v1: "vault_ok ok view (v1, s)"
  proof (rule delete_vault [OF t [unfolded ts] del])
    fix z assume "z \<in> set (artifacts s)" "a_storage_key z = a_storage_key x"
    then have "z = y" using distinct_map_inj [OF keys _ y(1)] artifact_identityD(4) [OF y(2)] by simp
    with y(3) show "a_state z \<noteq> ARTIFACT_ACTIVE" by simp
  qed
  show ?thesis
  proof (cases d)
    case (Inl e)
    with p del v1 show ?thesis by (auto simp: purge_one_def ts artifacts_kept_refl)
  next
    case (Inr u)
    obtain v2 s2 where e: "env (v1, s) = (v2, s2)" by fastforce
    note g = env [OF v1, unfolded e]
    obtain r3 s3 where ses: "in_session rt (service_context MAINTENANCE (Some (a_organization x))) (purge_row rt now cutoff x) s2 = (r3, s3)"
      by fastforce
    have t': "t' = (v2, s3)" using p del Inr e ses by (auto simp: purge_one_def ts split: sum.splits)
    have kept: "artifacts_kept s s2" using g by (simp add: vault_grows_def)
    have ok2: "vault_ok ok view (v2, s2)" using g by simp
    have "vault_ok ok view (v2, s3) \<and> artifacts_kept s2 s3"
    proof (cases r3)
      case (Inl e)
      with ses have "s3 = s2" by (auto dest: in_session_Inl)
      with ok2 show ?thesis by (simp add: artifacts_kept_refl)
    next
      case r3: (Inr b)
      with ses obtain c where row: "purge_row rt now cutoff x c s2 = Inr (b, s3)" and ok3: "constraints_ok s3"
        by (auto dest!: in_session_Inr)
      have cons: "constraints_ok s2" and m: "artifacts_metered s2" and st: "artifacts_stored (view v2) s2" and okv: "ok v2"
        using ok2 by (simp_all add: vault_ok_def)
      obtain z where z: "z \<in> set (artifacts s2)" "artifact_identity z = artifact_identity x"
        using kept y by (auto simp: artifacts_kept_def)
      have same: "a_organization y' = a_organization x \<and> a_size_bytes y' = a_size_bytes x"
        if "y' \<in> set (artifacts s2)" "a_id y' = a_id x" for y'
      proof -
        have "y' = z" using distinct_map_inj [OF constraints_artifacts(1) [OF cons] that(1) z(1)] that(2) artifact_identityD(1) [OF z(2)] by simp
        with artifact_identityD [OF z(2)] show ?thesis by simp
      qed
      have m3: "artifacts_metered s3" by (rule purge_row_metered [OF row cons m same])
      from row show ?thesis
      proof (cases rule: purge_row_Inr)
        case gone
        with ok2 show ?thesis by (simp add: artifacts_kept_refl)
      next
        case purged
        have "artifacts_kept s2 s3"
          by (rule artifacts_kept_update [OF purged(2) [unfolded mark_deleted_def, simplified]]) (simp add: artifact_identity_def)
        moreover have "artifacts_stored (view v2) s3"
          using st by (auto simp: artifacts_stored_def purged(2) mark_deleted_def set_update_where)
        ultimately show ?thesis using okv ok3 m3 by (simp add: vault_ok_def)
      qed
    qed
    with kept t' show ?thesis by (auto simp: ts intro: artifacts_kept_trans)
  qed
qed

lemma purge_each_vault:
  assumes env: "\<And>i u. vault_ok ok view u \<Longrightarrow> vault_ok ok view (env i u) \<and> vault_grows view u (env i u)"
  shows "vault_ok ok view t \<Longrightarrow> (\<And>x. x \<in> set xs \<Longrightarrow> spent x t) \<Longrightarrow> purge_each rt ops now cutoff env i xs n t = (r, t') \<Longrightarrow>
     vault_ok ok view t' \<and> artifacts_kept (snd t) (snd t')"
proof (induction xs arbitrary: i n t)
  case Nil
  then show ?case by (cases n) (auto simp: artifacts_kept_refl)
next
  case (Cons x xs)
  obtain deleted failed where n: "n = (deleted, failed)" by (cases n)
  note g = env [OF Cons.prems(1), of "2 * i"]
  have k0: "artifacts_kept (snd t) (snd (env (2 * i) t))" using g by (simp add: vault_grows_def)
  obtain p t1 where one: "purge_one rt ops now cutoff (env (2 * i + 1)) x (env (2 * i) t) = (p, t1)" by (rule prod.exhaust)
  have spent: "spent y (env (2 * i) t)" if "y \<in> set (x # xs)" for y using spent_kept [OF Cons.prems(2) [OF that] k0] .
  have "spent x (env (2 * i) t)" using spent by simp
  then have t1: "vault_ok ok view t1" "artifacts_kept (snd (env (2 * i) t)) (snd t1)"
    using purge_one_vault [where env = "env (2 * i + 1)", OF env _ _ one] g by auto
  show ?case
  proof (cases p)
    case (Inl e)
    with Cons.prems(3) one n t1 k0 show ?thesis by (auto intro: artifacts_kept_trans)
  next
    case (Inr df)
    then obtain m where rest: "purge_each rt ops now cutoff env (Suc i) xs m t1 = (r, t')"
      using Cons.prems(3) one n by (auto split: prod.splits)
    have "spent y t1" if "y \<in> set xs" for y using spent_kept [OF spent t1(2)] that by simp
    with Cons.IH [OF t1(1) _ rest] t1(2) k0 show ?thesis by (blast intro: artifacts_kept_trans)
  qed
qed

lemma purge_due_vault:
  assumes env: "\<And>i u. vault_ok ok view u \<Longrightarrow> vault_ok ok view (env i u) \<and> vault_grows view u (env i u)"
    and t: "vault_ok ok view t" and p: "purge_due rt ops now env cutoff limit t = (r, t')"
  shows "vault_ok ok view t' \<and> artifacts_kept (snd t) (snd t')"
proof -
  obtain q s where q: "in_session rt (service_context MAINTENANCE None) (\<lambda>c s. Inr (purge_candidates cutoff limit s, s)) (snd t) = (q, s)"
    by fastforce
  have s: "s = snd t" using q by (cases q) (auto dest!: in_session_Inr in_session_Inl)
  show ?thesis
  proof (cases q)
    case (Inl e)
    with p q s t show ?thesis by (auto simp: purge_due_def artifacts_kept_refl)
  next
    case (Inr rows)
    then have rows: "rows = purge_candidates cutoff limit (snd t)" using q by (auto dest!: in_session_Inr)
    have "spent x t" if "x \<in> set rows" for x
      using that by (auto simp: rows purge_candidates_def spent_def dest!: in_set_takeD)
    moreover obtain n t1 where each: "purge_each rt ops now cutoff env 0 rows (0, 0) (fst t, snd t) = (n, t1)" by (rule prod.exhaust)
    moreover have "t' = t1" using p q s Inr each by (auto simp: purge_due_def split: sum.splits)
    ultimately show ?thesis using purge_each_vault [where env = env, OF env t] by (metis prod.collapse)
  qed
qed

text \<open>A reconciliation that nothing runs beside deletes only what no row refers to.\<close>

lemma sweep_orphans_vault:
  assumes "\<And>x. x \<in> set (artifacts s) \<Longrightarrow> a_storage_key x \<in> set keys \<Longrightarrow> a_storage_key x \<in> set referenced"
  shows "vault_ok ok view (v, s) \<Longrightarrow> sweep_orphans ops cutoff (\<lambda>_ t. t) referenced i keys n (v, s) = (r, t') \<Longrightarrow>
     vault_ok ok view t' \<and> snd t' = s"
  using assms
proof (induction keys arbitrary: i n v)
  case (Cons key keys)
  have later: "a_storage_key x \<in> set referenced" if "x \<in> set (artifacts s)" "a_storage_key x \<in> set keys" for x
    using Cons.prems(3) that by simp
  note IH = Cons.IH [OF _ _ later]
  show ?case
  proof (cases "key \<in> set referenced")
    case True
    with Cons.prems(2) IH [OF Cons.prems(1)] show ?thesis by simp
  next
    case False
    obtain d v1 where del: "os_delete ops key v = (d, v1)" by fastforce
    have v1: "vault_ok ok view (v1, s)" by (rule delete_vault [OF Cons.prems(1) del]) (use Cons.prems(3) False in auto)
    let ?rest = "\<lambda>v' n'. sweep_orphans ops cutoff (\<lambda>_ t. t) referenced (Suc i) keys n' (v', s) = (r, t')"
    from Cons.prems(2) False del have "t' = (v, s) \<or> t' = (v1, s) \<or> (\<exists>n'. ?rest v n') \<or> (\<exists>n'. ?rest v1 n')"
      by (simp add: Let_def split: sum.splits if_splits) blast+
    then show ?thesis using Cons.prems(1) v1 IH [OF Cons.prems(1)] IH [OF v1] by (elim disjE exE) simp_all
  qed
qed auto

lemma reconcile_orphans_vault:
  assumes t: "vault_ok ok view t" and rc: "reconcile_orphans rt cfg ops (\<lambda>_ t. t) cursor limit now t = (r, t')"
  shows "vault_ok ok view t' \<and> snd t' = snd t"
proof (cases "reconciliation_page_of rt ops cursor limit t")
  case (Inl e)
  with rc t show ?thesis by (auto simp: reconcile_orphans_def)
next
  case (Inr page)
  then obtain keys where "page = page_of keys (audited_artifacts cursor (nat limit) (snd t)) (nat limit) (snd t)"
    by (auto simp: reconciliation_page_of_def split: sum.splits dest!: in_session_fst)
  then have ref: "a_storage_key x \<in> set (rp_referenced page)" if "x \<in> set (artifacts (snd t))" "a_storage_key x \<in> set (rp_keys page)" for x
    using that by (auto simp: page_of_def Let_def)
  obtain q t1 where sw: "sweep_orphans ops (now - ac_orphan_grace cfg) (\<lambda>_ t. t) (rp_referenced page) 0 (rp_keys page)
              \<lparr>oc_orphaned = 0, oc_deleted = 0, oc_failures = 0\<rparr> (fst t, snd t) = (q, t1)" by (rule prod.exhaust)
  have "t' = t1" using rc Inr sw by (auto simp: reconcile_orphans_def split: sum.splits)
  with sweep_orphans_vault [OF ref _ sw] t show ?thesis by simp
qed

text \<open>Reading back what the vault holds.\<close>

lemma open_stored:
  assumes "vault_ok ok view (v, s)" and "x \<in> set (artifacts s)" and "a_state x = ARTIFACT_ACTIVE" and "0 < n"
  obtains d cs where "os_open ops (a_storage_key x) n v = Inr (d, map Inr cs)" "verify_storage_metadata d x = Inr ()"
    "int (length (concat cs)) = a_size_bytes x" "hash (concat cs) = a_sha256 x"
    "view v (a_storage_key x) = Some (concat cs, d)"
proof -
  have ok: "ok v" and "artifact_stored (view v) x" using assms(1-3) by (auto simp: vault_ok_def artifacts_stored_def)
  then obtain content d where view: "view v (a_storage_key x) = Some (content, d)" "od_size_bytes d = a_size_bytes x"
    "od_sha256 d = a_sha256 x" "od_media_type d = a_media_type x" by (auto simp: artifact_stored_def)
  note vl = view_law [OF ok view(1)]
  have c: "concat (chunks_of (nat n) content) = content" using assms(4) by (intro concat_chunks_of) simp
  have "os_open ops (a_storage_key x) n v = Inr (d, map Inr (chunks_of (nat n) content))"
    using view(1) assms(4) by (simp add: open_law [OF ok])
  then show thesis using that [of d "chunks_of (nat n) content"] vl view c by (simp add: verify_storage_metadata_def)
qed

lemma read_all_stored:
  assumes "vault_ok ok view (v, s)" and "x \<in> set (artifacts s)" and "a_state x = ARTIFACT_ACTIVE" and "0 < ac_chunk_bytes cfg"
  shows "read_all hash cfg ops x v \<noteq> Inl ObjectNotFoundError"
    and "a_size_bytes x \<le> ac_max_bytes cfg \<Longrightarrow> \<exists>content. read_all hash cfg ops x v = Inr content"
proof -
  obtain d cs where o: "os_open ops (a_storage_key x) (ac_chunk_bytes cfg) v = Inr (d, map Inr cs)" "verify_storage_metadata d x = Inr ()"
    "int (length (concat cs)) = a_size_bytes x" "hash (concat cs) = a_sha256 x" using assms by (rule open_stored)
  have never: "snd (verified_chunks hash m x seen (map Inr cs)) \<noteq> Some ObjectNotFoundError" for m seen cs
  proof (induction cs arbitrary: seen)
    case (Cons c cs)
    from Cons [of "seen @ c"] show ?case
      by (cases "verified_chunks hash m x (seen @ c) (map Inr cs)") (simp add: Let_def)
  qed simp
  show "read_all hash cfg ops x v \<noteq> Inl ObjectNotFoundError"
    using o(1,2) never [of "ac_max_bytes cfg" "[]" cs] by (auto simp: read_all_def split: prod.splits option.splits)
  assume "a_size_bytes x \<le> ac_max_bytes cfg"
  then show "\<exists>content. read_all hash cfg ops x v = Inr content"
    using verified_chunks_complete [of "[]" cs x hash "ac_max_bytes cfg"] o by (simp add: read_all_def)
qed

lemma download_stored:
  assumes "vault_ok ok view (v, s)" and x: "x \<in> set (artifacts s)" "a_state x = ARTIFACT_ACTIVE"
    and cfg: "0 < ac_chunk_bytes cfg" "a_size_bytes x \<le> ac_max_bytes cfg"
    and h: "hash = rt_sha rt" and get: "get_artifact rt ''artifact.download'' a project_id artifact_id s = Inr x"
  shows "\<exists>dl. download_artifact rt cfg ops a project_id artifact_id (v, s) = Inr dl \<and> dl_failure dl = None
     \<and> hash (concat (dl_chunks dl)) = a_sha256 x \<and> int (length (concat (dl_chunks dl))) = a_size_bytes x
     \<and> (\<exists>d. view v (a_storage_key x) = Some (concat (dl_chunks dl), d))"
proof -
  obtain d cs where o: "os_open ops (a_storage_key x) (ac_chunk_bytes cfg) v = Inr (d, map Inr cs)" "verify_storage_metadata d x = Inr ()"
    "int (length (concat cs)) = a_size_bytes x" "hash (concat cs) = a_sha256 x" "view v (a_storage_key x) = Some (concat cs, d)"
    using assms(1) x cfg(1) by (rule open_stored)
  have "download_name_ok (a_filename x)" using assms(1) x by (auto simp: vault_ok_def artifacts_stored_def artifact_stored_def)
  then have "\<exists>name. safe_download_filename (rt_nfkd rt) (a_filename x) = Inr name"
    by (rule download_name_accepted)
  then obtain disposition where "content_disposition (rt_nfkd rt) (a_filename x) = Inr disposition" by (auto simp: content_disposition_def)
  moreover have "verified_chunks (rt_sha rt) (ac_max_bytes cfg) x [] (map Inr cs) = (cs, None)"
    using verified_chunks_complete [of "[]" cs x hash "ac_max_bytes cfg"] o cfg(2) by (simp add: h)
  ultimately show ?thesis using o by (simp add: download_artifact_def get)
qed

lemma artifact_snapshot_id: "artifact_snapshot_of x = Inr y \<Longrightarrow> as_id y = a_id x"
  by (auto simp: artifact_snapshot_of_def)

text \<open>An upload that nothing runs beside, and what it leaves for a reader.\<close>

lemma store_upload_fresh:
  assumes "store_upload rt cfg ops now aid (\<lambda>_ u. u) a up user_id media_type filename sha256 (v, s) = (Inr creation, (v', s'))"
    and "cr_created creation"
  obtains key res where "artifact_storage_key (ac_organization a) (up_project up) (up_run up) (up_kind up) sha256 = Inr key"
    "os_put ops now key (up_content up) sha256 media_type v = (Inr res, v')"
    "in_session rt (user_context (ac_organization a) (ac_subject a))
       (finish_upload rt now a up user_id (new_artifact cfg now aid user_id a up media_type filename sha256 key)) s = (Inr creation, s')"
proof -
  let ?key = "artifact_storage_key (ac_organization a) (up_project up) (up_run up) (up_kind up) sha256"
  obtain key where key: "?key = Inr key" using assms(1) by (cases ?key) (auto simp: store_upload_def Let_def)
  obtain r v1 where put: "os_put ops now key (up_content up) sha256 media_type v = (r, v1)" by fastforce
  let ?fin = "in_session rt (user_context (ac_organization a) (ac_subject a))
       (finish_upload rt now a up user_id (new_artifact cfg now aid user_id a up media_type filename sha256 key)) s"
  obtain r2 s2 where fin: "?fin = (r2, s2)" by fastforce
  obtain res where r: "r = Inr res" using assms(1) key put by (cases r) (auto simp: store_upload_def Let_def)
  have "r2 = Inr creation \<and> v' = v1 \<and> s' = s2"
  proof (cases r2)
    case (Inl e)
    with assms key put r fin show ?thesis by (auto simp: store_upload_def Let_def split: if_splits option.splits)
  next
    case (Inr x)
    with assms key put r fin show ?thesis by (simp add: store_upload_def Let_def)
  qed
  with key put r fin that show thesis by blast
qed

lemma create_artifact_fresh:
  assumes "create_artifact rt cfg ops now aid (\<lambda>_ u. u) a up (v, s) = (Inr creation, (v', s'))" and "cr_created creation"
  obtains user_id media_type filename where "admit_upload rt cfg up = Inr (media_type, filename, rt_sha rt (up_content up))"
    "store_upload rt cfg ops now aid (\<lambda>_ u. u) a up user_id media_type filename (rt_sha rt (up_content up)) (v, s) = (Inr creation, (v', s'))"
proof -
  obtain media_type filename sha256 where ad: "admit_upload rt cfg up = Inr (media_type, filename, sha256)"
    using assms(1) by (cases "admit_upload rt cfg up") (auto simp: create_artifact_def Let_def)
  then have sha: "sha256 = rt_sha rt (up_content up)" by (auto simp: admit_upload_def Let_def)
  obtain r1 s1 where b: "in_session rt (user_context (ac_organization a) (ac_subject a)) (\<lambda>c. begin_upload a up sha256) s = (r1, s1)" by fastforce
  then have s1: "s1 = s" by (rule begin_upload_same)
  obtain user_id duplicate where r1: "r1 = Inr (user_id, duplicate)"
    using assms(1) ad b by (cases r1) (auto simp: create_artifact_def Let_def)
  have "store_upload rt cfg ops now aid (\<lambda>_ u. u) a up user_id media_type filename sha256 (v, s) = (Inr creation, (v', s'))"
    using assms ad b r1 s1 by (auto simp: create_artifact_def Let_def split: option.splits sum.splits if_splits)
  with ad sha that show thesis by simp
qed

lemma upload_download:
  assumes t: "vault_ok ok view (v, s)" and h: "hash = rt_sha rt" and chunk: "0 < ac_chunk_bytes cfg"
    and cr: "create_artifact rt cfg ops now aid (\<lambda>_ u. u) a up (v, s) = (Inr creation, (v', s'))" and fresh: "cr_created creation"
  shows "\<exists>dl key. download_artifact rt cfg ops a (up_project up) (as_id (cr_artifact creation)) (v', s') = Inr dl
     \<and> dl_failure dl = None \<and> length (concat (dl_chunks dl)) = length (up_content up)
     \<and> hash (concat (dl_chunks dl)) = hash (up_content up)
     \<and> artifact_storage_key (ac_organization a) (up_project up) (up_run up) (up_kind up) (hash (up_content up)) = Inr key
     \<and> (view v key = None \<longrightarrow> concat (dl_chunks dl) = up_content up)"
proof -
  obtain user_id media_type filename where ad: "admit_upload rt cfg up = Inr (media_type, filename, rt_sha rt (up_content up))"
    and st: "store_upload rt cfg ops now aid (\<lambda>_ u. u) a up user_id media_type filename (rt_sha rt (up_content up)) (v, s) = (Inr creation, (v', s'))"
    using cr fresh by (rule create_artifact_fresh)
  from st fresh obtain key res where
    key: "artifact_storage_key (ac_organization a) (up_project up) (up_run up) (up_kind up) (rt_sha rt (up_content up)) = Inr key"
    and put: "os_put ops now key (up_content up) (rt_sha rt (up_content up)) media_type v = (Inr res, v')"
    and fin: "in_session rt (user_context (ac_organization a) (ac_subject a))
       (finish_upload rt now a up user_id (new_artifact cfg now aid user_id a up media_type filename (rt_sha rt (up_content up)) key)) s
       = (Inr creation, s')" by (rule store_upload_fresh)
  define x where "x = new_artifact cfg now aid user_id a up media_type filename (rt_sha rt (up_content up)) key"
  have row: "a_id x = aid" "a_organization x = ac_organization a" "a_project x = up_project up" "a_state x = ARTIFACT_ACTIVE"
    "a_sha256 x = hash (up_content up)" "a_size_bytes x = int (length (up_content up))" "a_storage_key x = key"
    by (simp_all add: x_def new_artifact_def h)
  from in_session_Inr [OF fin [folded x_def]] obtain c where c: "user_context (ac_organization a) (ac_subject a) = Inr c"
    and body: "finish_upload rt now a up user_id x c s = Inr (creation, s')" and cons: "constraints_ok s'" by blast
  note fu = finish_upload_Inr [OF body row(2,4)]
  have x: "x \<in> set (artifacts s')" using fu(1) by simp
  have id: "as_id (cr_artifact creation) = aid" using artifact_snapshot_id [OF conjunct1 [OF fu(4)]] row(1) by simp
  have vault: "vault_ok ok view (v', s')" using create_artifact_vault [where env = "\<lambda>_ u. u", OF _ t cr] by simp
  from fu(5) obtain u where "authorize_scope ''artifact.create'' a (up_project up) (up_run up) True s = Inr u" by blast
  then have auth: "\<exists>u. authorize_scope ''artifact.download'' a (up_project up) None False s' = Inr u"
    using fu(3) by (auto simp: authorize_scope_def member_rows_def active_project_def)
  have found: "find (\<lambda>y. a_id y = aid \<and> a_organization y = ac_organization a \<and> a_project y = up_project up
      \<and> a_state y = ARTIFACT_ACTIVE) (artifacts s') = Some x"
    by (rule find_key [OF constraints_artifacts(1) [OF cons] x]) (simp_all add: row)
  have get: "get_artifact rt ''artifact.download'' a (up_project up) aid s' = Inr x"
    using auth found c cons open_session_valid [OF user_context_valid [OF c], of rt]
    by (auto simp: get_artifact_def in_session_def session_def active_artifact_def)
  have max: "a_size_bytes x \<le> ac_max_bytes cfg" using ad row(6) by (auto simp: admit_upload_def Let_def)
  from download_stored [OF vault x row(4) chunk max h get] obtain dl d where
    dl: "download_artifact rt cfg ops a (up_project up) aid (v', s') = Inr dl" "dl_failure dl = None"
      "hash (concat (dl_chunks dl)) = a_sha256 x" "int (length (concat (dl_chunks dl))) = a_size_bytes x"
    and view: "view v' key = Some (concat (dl_chunks dl), d)" unfolding row(7) by blast
  have "ok v" using t by (simp add: vault_ok_def)
  from put_law [OF this put] view have "view v key = None \<longrightarrow> concat (dl_chunks dl) = up_content up"
    by (auto split: if_splits)
  with dl key row id h show ?thesis by (intro exI [of _ dl] exI [of _ key]) simp
qed

end

end
