(* ===== verification/ArtifactAdoption.thy ===== *)
theory ArtifactAdoption imports ArtifactService History begin

text \<open>
  src/corpuskit/services/artifact_adoption.py: the parent process reads the bytes a worker staged,
  checks them against its claim, copies them to the key of the run and publishes them, and sweeps
  the staging area. The state is the pair of an object store and the database, as in
  ArtifactService. The envelope \<open>StagedArtifactResult\<close> is domain/artifacts.py.
\<close>

section \<open>The claim of a worker\<close>

record staged_result =
  sr_reference :: string
  sr_schema_id :: string
  sr_size_bytes :: int

definition sr_prefix :: string where
  "sr_prefix = ''staged-artifact://sha256/''"

definition sr_sha256 :: "staged_result \<Rightarrow> string" where
  "sr_sha256 staged = (if starts_with sr_prefix (sr_reference staged) then drop (length sr_prefix) (sr_reference staged)
     else sr_reference staged)"

definition json_media_type :: string where
  "json_media_type = ''application/json''"

definition schema_id_ok :: "string \<Rightarrow> bool" where
  "schema_id_ok s \<longleftrightarrow> (case s of [] \<Rightarrow> False
     | c # cs \<Rightarrow> (is_lower_char c \<or> is_digit_char c)
         \<and> list_all (\<lambda>d. is_lower_char d \<or> is_digit_char d \<or> d \<in> {CHR ''.'', CHR ''_'', CHR ''-''}) cs) \<and> length s \<le> 160"

definition staged_reference_ok :: "string \<Rightarrow> bool" where
  "staged_reference_ok s \<longleftrightarrow> starts_with sr_prefix s \<and> is_sha256_hex (drop (length sr_prefix) s)"

definition staged_fields :: "string list" where
  "staged_fields = [''contract'', ''staged_artifact_ref'', ''schema_id'', ''artifact_type'', ''media_type'', ''size_bytes'']"

definition staged_claim :: "json \<Rightarrow> exn + staged_result" where
  "staged_claim summary =
     (let refuse = ArtifactAdoptionError ''staged_result_contract'' False in
      case (summary, obj_get ''staged_artifact_ref'' summary, obj_get ''schema_id'' summary, obj_get ''size_bytes'' summary) of
        (JObj entries, Some (JStr reference), Some (JStr schema_id), Some (JInt size_bytes)) \<Rightarrow>
          bindr (ensure (list_all (\<lambda>(k, _). k \<in> set staged_fields) entries
            \<and> obj_get ''contract'' summary \<in> {None, Some (JStr ''corpuskit.staged-artifact-result.v1'')}
            \<and> staged_reference_ok reference \<and> schema_id_ok schema_id
            \<and> obj_get ''artifact_type'' summary = Some (JStr ''run-result'')
            \<and> obj_get ''media_type'' summary = Some (JStr json_media_type)
            \<and> 1 \<le> size_bytes \<and> size_bytes \<le> 100 * 1024 * 1024) refuse) (\<lambda>_.
          Inr \<lparr>sr_reference = reference, sr_schema_id = schema_id, sr_size_bytes = size_bytes\<rparr>)
      | _ \<Rightarrow> Inl refuse)"

section \<open>Settings\<close>

text \<open>
  The pydantic models of the results are arguments: \<open>aq_validate\<close> is \<open>model_validate_json\<close> with the
  \<open>schema_id\<close> of what it accepts, \<open>aq_selection_matches\<close> is \<open>validate_run_spec\<close>, and \<open>aq_datg_build\<close>
  is \<open>_validated_datg_build\<close>, which checks an index build against its request and the runtime policy
  and yields the publication up to the size that the publisher reports. \<open>aq_publish_datg\<close> is the
  publisher, where there is one: the operation it failed in, or the size.
\<close>

record adoption_config =
  aq_max_bytes :: int
  aq_chunk_bytes :: int
  aq_retention :: time
  aq_staging_grace :: time
  aq_validate :: "run_kind \<Rightarrow> string \<Rightarrow> string option"
  aq_selection_matches :: "json \<Rightarrow> string \<Rightarrow> bool"
  aq_datg_build :: "json \<Rightarrow> string \<Rightarrow> (int \<Rightarrow> adopted_datg_index) option"
  aq_publish_datg :: "(string \<Rightarrow> string + int) option"

definition result_schema :: "run_kind \<Rightarrow> string option" where
  "result_schema kind = map_of
     [(SELECT, ''corpuskit.corpus-selection.v1''),
      (GENERATE_REPOSITORY, ''corpuskit.repository-generation-result.v1''),
      (GENERATE_LLM, ''corpuskit.hosted-generation-result.v1''),
      (GENERATE_LOCAL, ''corpuskit.local-generation-result.v1''),
      (PERPLEXITY, ''corpuskit.language-model-analysis-result.v1''),
      (BUILD_DATG_INDEX, ''corpuskit.datg-index-build-result.v1''),
      (GENERATE_DATG, ''corpuskit.datg-guided-generation-result.v1''),
      (TRAIN_PHON_RL, ''corpuskit.phon-rl-training-result.v1'')] kind"

definition requires_adoption :: "run_kind \<Rightarrow> bool" where
  "requires_adoption kind \<longleftrightarrow> result_schema kind \<noteq> None"

definition max_selection_result_bytes :: int where
  "max_selection_result_bytes = 16 * int (lim_bytes run_spec_limits)"

definition admit_result :: "adoption_config \<Rightarrow> execution_record \<Rightarrow> staged_result \<Rightarrow> exn + unit" where
  "admit_result cfg record staged =
     bindr (require (ArtifactAdoptionError ''staged_result_unsupported'' False) (result_schema (xr_kind record))) (\<lambda>expected.
     bindr (ensure (sr_schema_id staged = expected) (ArtifactAdoptionError ''staged_result_schema_mismatch'' False)) (\<lambda>_.
     bindr (ensure (sr_size_bytes staged \<le> aq_max_bytes cfg) (ArtifactAdoptionError ''staged_result_size_mismatch'' False)) (\<lambda>_.
     ensure (xr_kind record = SELECT \<longrightarrow> sr_size_bytes staged \<le> max_selection_result_bytes)
       (ArtifactAdoptionError ''staged_result_size_mismatch'' False))))"

section \<open>Reading and checking staged bytes\<close>

definition verify_claim :: "object_descriptor \<Rightarrow> string \<Rightarrow> staged_result \<Rightarrow> exn + unit" where
  "verify_claim d key staged =
     ensure (od_key d = key \<and> od_sha256 d = sr_sha256 staged \<and> od_size_bytes d = sr_size_bytes staged
       \<and> od_media_type d = json_media_type) (ObjectIntegrityError ''artifact descriptor mismatch'')"

fun collect_chunks :: "adoption_config \<Rightarrow> staged_result \<Rightarrow> string \<Rightarrow> (exn + string) list \<Rightarrow> exn + string" where
  "collect_chunks cfg staged seen [] = Inr seen"
| "collect_chunks cfg staged seen (Inl e # rest) = Inl e"
| "collect_chunks cfg staged seen (Inr chunk # rest) =
     (let size = int (length (seen @ chunk)) in
      if sr_size_bytes staged < size \<or> aq_max_bytes cfg < size
      then Inl (ArtifactAdoptionError ''staged_result_size_mismatch'' False)
      else collect_chunks cfg staged (seen @ chunk) rest)"

definition staging_error :: "exn \<Rightarrow> exn" where
  "staging_error e =
     (case e of
        ObjectNotFoundError \<Rightarrow> ArtifactAdoptionError ''staged_result_missing'' True
      | ObjectIntegrityError _ \<Rightarrow> ArtifactAdoptionError ''staged_result_corrupt'' False
      | _ \<Rightarrow> if is_object_store_error e \<or> is_value_error e
             then ArtifactAdoptionError ''staging_store_unavailable'' True else e)"

definition read_and_verify ::
    "(string \<Rightarrow> string) \<Rightarrow> adoption_config \<Rightarrow> 'v object_store_ops \<Rightarrow> string \<Rightarrow> staged_result \<Rightarrow> 'v \<Rightarrow> exn + string" where
  "read_and_verify hash cfg ops key staged v =
     bindr (case bindr (os_open ops key (aq_chunk_bytes cfg) v) (\<lambda>(descriptor, chunks).
              bindr (verify_claim descriptor key staged) (\<lambda>_. collect_chunks cfg staged [] chunks)) of
              Inl e \<Rightarrow> Inl (staging_error e) | Inr content \<Rightarrow> Inr content) (\<lambda>content.
     bindr (ensure (int (length content) = sr_size_bytes staged) (ArtifactAdoptionError ''staged_result_size_mismatch'' False)) (\<lambda>_.
     bindr (ensure (hash content = sr_sha256 staged) (ArtifactAdoptionError ''staged_result_digest_mismatch'' False)) (\<lambda>_.
     Inr content)))"

text \<open>The staged bytes with the index publication they ask for.\<close>

definition read_staged ::
    "runtime \<Rightarrow> adoption_config \<Rightarrow> 'v object_store_ops \<Rightarrow> execution_record \<Rightarrow> staged_result \<Rightarrow> 'v
     \<Rightarrow> exn + string \<times> (int \<Rightarrow> adopted_datg_index) option" where
  "read_staged rt cfg ops record staged v =
     bindr (staged_artifact_storage_key (sr_sha256 staged)) (\<lambda>staging_key.
     bindr (read_and_verify (rt_sha rt) cfg ops staging_key staged v) (\<lambda>payload.
     bindr (ensure (aq_validate cfg (xr_kind record) payload = Some (sr_schema_id staged))
       (ArtifactAdoptionError ''staged_result_schema_mismatch'' False)) (\<lambda>_.
     bindr (ensure (xr_kind record = SELECT \<longrightarrow> aq_selection_matches cfg (xr_spec record) payload)
       (ArtifactAdoptionError ''staged_result_spec_mismatch'' False)) (\<lambda>_.
     if xr_kind record \<noteq> BUILD_DATG_INDEX then Inr (payload, None)
     else bindr (require (ArtifactAdoptionError ''datg_index_publication_policy'' False)
       (aq_datg_build cfg (xr_spec record) payload)) (\<lambda>build. Inr (payload, Some build))))))"

section \<open>Adopting\<close>

definition storing_error :: "exn \<Rightarrow> exn" where
  "storing_error e =
     (case e of
        ArtifactAdoptionError _ retryable \<Rightarrow>
          ArtifactAdoptionError (if retryable then ''artifact_store_unavailable'' else ''artifact_store_integrity'') retryable
      | ObjectIntegrityError _ \<Rightarrow> ArtifactAdoptionError ''artifact_store_integrity'' False
      | _ \<Rightarrow> if is_object_store_error e \<or> is_value_error e
             then ArtifactAdoptionError ''artifact_store_unavailable'' True else e)"

text \<open>The copy at the final key: put, check what the store says, read it back (after \<open>env\<close>).\<close>

definition store_final ::
    "runtime \<Rightarrow> adoption_config \<Rightarrow> 'v object_store_ops \<Rightarrow> time \<Rightarrow> ('v \<times> db \<Rightarrow> 'v \<times> db) \<Rightarrow> string \<Rightarrow> string \<Rightarrow> staged_result
     \<Rightarrow> 'v \<times> db \<Rightarrow> (exn + unit) \<times> 'v \<times> db" where
  "store_final rt cfg ops now env key payload staged t =
     (case os_put ops now key payload (sr_sha256 staged) json_media_type (fst t) of
        (Inl e, v) \<Rightarrow> (Inl (storing_error e), v, snd t)
      | (Inr stored, v) \<Rightarrow>
          (case env (v, snd t) of (v, s) \<Rightarrow>
           (case bindr (verify_claim (pr_descriptor stored) key staged) (\<lambda>_.
                 bindr (read_and_verify (rt_sha rt) cfg ops key staged v) (\<lambda>final_payload.
                 ensure (final_payload = payload) (ObjectIntegrityError ''final artifact content mismatch''))) of
              Inl e \<Rightarrow> (Inl (storing_error e), v, s)
            | Inr _ \<Rightarrow> (Inr (), v, s))))"

definition integrity_operations :: "string list" where
  "integrity_operations = [''datg.index.publication_boundary'', ''datg.index.publication_conflict'',
     ''datg.index.publication_identity'', ''datg.index.publication_integrity'', ''datg.index.publication_size'']"

definition publish_datg :: "adoption_config \<Rightarrow> string \<Rightarrow> (int \<Rightarrow> adopted_datg_index) option \<Rightarrow> exn + adopted_datg_index option" where
  "publish_datg cfg payload build =
     (case build of
        None \<Rightarrow> Inr None
      | Some index_of_size \<Rightarrow>
          bindr (require (ArtifactAdoptionError ''datg_index_publication_unavailable'' False) (aq_publish_datg cfg)) (\<lambda>publish.
          (case publish payload of
             Inl operation \<Rightarrow>
               if operation \<in> set integrity_operations
               then Inl (ArtifactAdoptionError ''datg_index_publication_integrity'' False)
               else Inl (ArtifactAdoptionError ''datg_index_publication_unavailable'' True)
           | Inr bytes \<Rightarrow> Inr (Some (index_of_size bytes)))))"

definition is_run_store_error :: "exn \<Rightarrow> bool" where
  "is_run_store_error e = (case e of RunStoreError _ \<Rightarrow> True | _ \<Rightarrow> False)"

definition adopted_of ::
    "adoption_config \<Rightarrow> time \<Rightarrow> execution_record \<Rightarrow> staged_result \<Rightarrow> string \<Rightarrow> adopted_datg_index option \<Rightarrow> adopted_artifact" where
  "adopted_of cfg now record staged key index =
     \<lparr>aa_sha256 = sr_sha256 staged, aa_size_bytes = sr_size_bytes staged, aa_storage_key = key,
      aa_media_type = json_media_type, aa_filename = run_kind_value (xr_kind record) @ ''-result.json'',
      aa_schema_id = sr_schema_id staged, aa_retention_until = now + aq_retention cfg, aa_datg_index = index\<rparr>"

text \<open>
  \<open>clock\<close> is read for the object, the retention and the commit; \<open>env i\<close> is what others do at point
  \<open>i\<close>, and \<open>w i\<close> the world inside the \<open>i\<close>-th acknowledgement of a cancellation.
\<close>

definition store_result ::
    "runtime \<Rightarrow> adoption_config \<Rightarrow> 'v object_store_ops \<Rightarrow> (nat \<Rightarrow> time) \<Rightarrow> uuid \<Rightarrow> uuid \<Rightarrow> (nat \<Rightarrow> 'v \<times> db \<Rightarrow> 'v \<times> db)
     \<Rightarrow> workflow_reference \<Rightarrow> execution_record \<Rightarrow> staged_result \<Rightarrow> string \<Rightarrow> (int \<Rightarrow> adopted_datg_index) option
     \<Rightarrow> 'v \<times> db \<Rightarrow> (exn + artifact_commit) \<times> 'v \<times> db" where
  "store_result rt cfg ops clock aid did env ref record staged payload build t =
     (case artifact_storage_key (xr_organization record) (xr_project record) (Some (xr_run record)) RUN_RESULT (sr_sha256 staged) of
        Inl e \<Rightarrow> (Inl e, t)
      | Inr key \<Rightarrow>
          (case store_final rt cfg ops (clock 0) (env 4) key payload staged t of
             (Inl e, t) \<Rightarrow> (Inl e, t)
           | (Inr _, t) \<Rightarrow>
               (case publish_datg cfg payload build of
                  Inl e \<Rightarrow> (Inl e, t)
                | Inr index \<Rightarrow>
                    (case env 5 t of (v, s) \<Rightarrow>
                     (case commit_adopted_result rt (clock 2) aid did ref (adopted_of cfg (clock 1) record staged key index) s of
                        (Inr commit, s) \<Rightarrow> (Inr commit, v, s)
                      | (Inl e, s) \<Rightarrow>
                          (Inl (if is_run_store_error e then e else ArtifactAdoptionError ''persistence_unavailable'' True), v, s))))))"

definition acknowledge_adoption ::
    "runtime \<Rightarrow> world \<Rightarrow> workflow_reference \<Rightarrow> 'v \<times> db \<Rightarrow> (exn + artifact_commit) \<times> 'v \<times> db" where
  "acknowledge_adoption rt w ref t =
     (case acknowledge_cancellation rt w ref (snd t) of
        (Inl e, s) \<Rightarrow> (Inl e, fst t, s)
      | (Inr state, s) \<Rightarrow> (Inr \<lparr>cm_state = state, cm_artifact = None, cm_created = False\<rparr>, fst t, s))"

definition unless_cancelled ::
    "runtime \<Rightarrow> world \<Rightarrow> ('v \<times> db \<Rightarrow> 'v \<times> db) \<Rightarrow> workflow_reference \<Rightarrow> ('v \<times> db \<Rightarrow> (exn + artifact_commit) \<times> 'v \<times> db)
     \<Rightarrow> 'v \<times> db \<Rightarrow> (exn + artifact_commit) \<times> 'v \<times> db" where
  "unless_cancelled rt w env ref go t =
     (case cancellation_requested rt ref (snd t) of
        (Inl e, s) \<Rightarrow> (Inl e, fst t, s)
      | (Inr True, s) \<Rightarrow> acknowledge_adoption rt w ref (env (fst t, s))
      | (Inr False, s) \<Rightarrow> go (env (fst t, s)))"

definition adopt_staged ::
    "runtime \<Rightarrow> adoption_config \<Rightarrow> 'v object_store_ops \<Rightarrow> (nat \<Rightarrow> time) \<Rightarrow> uuid \<Rightarrow> uuid \<Rightarrow> (nat \<Rightarrow> 'v \<times> db \<Rightarrow> 'v \<times> db) \<Rightarrow> (nat \<Rightarrow> world)
     \<Rightarrow> workflow_reference \<Rightarrow> execution_record \<Rightarrow> staged_result \<Rightarrow> 'v \<times> db \<Rightarrow> (exn + artifact_commit) \<times> 'v \<times> db" where
  "adopt_staged rt cfg ops clock aid did env w ref record staged t =
     (case read_staged rt cfg ops record staged (fst t) of
        Inl e \<Rightarrow> (Inl e, t)
      | Inr (payload, build) \<Rightarrow>
          unless_cancelled rt (w 1) (env 3) ref (store_result rt cfg ops clock aid did env ref record staged payload build) (env 2 t))"

definition adopt ::
    "runtime \<Rightarrow> adoption_config \<Rightarrow> 'v object_store_ops \<Rightarrow> (nat \<Rightarrow> time) \<Rightarrow> uuid \<Rightarrow> uuid \<Rightarrow> (nat \<Rightarrow> 'v \<times> db \<Rightarrow> 'v \<times> db) \<Rightarrow> (nat \<Rightarrow> world)
     \<Rightarrow> workflow_reference \<Rightarrow> json \<Rightarrow> 'v \<times> db \<Rightarrow> (exn + artifact_commit) \<times> 'v \<times> db" where
  "adopt rt cfg ops clock aid did env w ref summary t =
     (case staged_claim summary of
        Inl e \<Rightarrow> (Inl e, t)
      | Inr staged \<Rightarrow>
          (case execution_record_of rt ref (snd t) of
             (Inl e, s) \<Rightarrow> (Inl e, fst t, s)
           | (Inr record, s) \<Rightarrow>
               (case admit_result cfg record staged of
                  Inl e \<Rightarrow> (Inl e, fst t, s)
                | Inr _ \<Rightarrow>
                    if xr_state record \<in> {CANCELLING, CANCELLED}
                    then acknowledge_adoption rt (w 0) ref (env 0 (fst t, s))
                    else unless_cancelled rt (w 0) (env 1) ref
                      (adopt_staged rt cfg ops clock aid did env w ref record staged) (env 0 (fst t, s)))))"

section \<open>Sweeping the staging area\<close>

record staging_report =
  sg_scanned :: nat
  sg_deleted :: nat
  sg_deferred :: nat
  sg_failed :: nat
  sg_next_cursor :: "string option"

fun sweep_staging ::
    "'v object_store_ops \<Rightarrow> time \<Rightarrow> (nat \<Rightarrow> 'v \<times> db \<Rightarrow> 'v \<times> db) \<Rightarrow> nat \<Rightarrow> string list \<Rightarrow> nat \<times> nat \<times> nat \<Rightarrow> 'v \<times> db
     \<Rightarrow> (exn + nat \<times> nat \<times> nat) \<times> 'v \<times> db" where
  "sweep_staging ops cutoff env i [] counts t = (Inr counts, t)"
| "sweep_staging ops cutoff env i (key # keys) (deleted, deferred, failed) t =
     (case env i t of (v, s) \<Rightarrow>
      (case os_stat ops key v of
         Inl e \<Rightarrow>
           if e = ObjectNotFoundError then sweep_staging ops cutoff env (Suc i) keys (deleted, deferred, failed) (v, s)
           else if is_object_store_error e then sweep_staging ops cutoff env (Suc i) keys (deleted, deferred, Suc failed) (v, s)
           else (Inl e, v, s)
       | Inr descriptor \<Rightarrow>
           if cutoff < od_modified_at descriptor
           then sweep_staging ops cutoff env (Suc i) keys (deleted, Suc deferred, failed) (v, s)
           else
             (case os_delete ops key v of
                (Inr _, v) \<Rightarrow> sweep_staging ops cutoff env (Suc i) keys (Suc deleted, deferred, failed) (v, s)
              | (Inl e, v) \<Rightarrow>
                  if e = ObjectNotFoundError then sweep_staging ops cutoff env (Suc i) keys (deleted, deferred, failed) (v, s)
                  else if is_object_store_error e then sweep_staging ops cutoff env (Suc i) keys (deleted, deferred, Suc failed) (v, s)
                  else (Inl e, v, s))))"

definition staging_prefix :: string where
  "staging_prefix = ''staging/v1/sha256/''"

definition cleanup_staging ::
    "adoption_config \<Rightarrow> 'v object_store_ops \<Rightarrow> (nat \<Rightarrow> 'v \<times> db \<Rightarrow> 'v \<times> db) \<Rightarrow> string option \<Rightarrow> int \<Rightarrow> time \<Rightarrow> 'v \<times> db
     \<Rightarrow> (exn + staging_report) \<times> 'v \<times> db" where
  "cleanup_staging cfg ops env cursor limit now t =
     (if \<not> (1 \<le> limit \<and> limit \<le> 1000) then (Inl (ValueError ''staging cleanup limit is invalid''), t)
      else
        (case os_list_keys ops staging_prefix limit cursor (fst t) of
           Inl e \<Rightarrow> (Inl (if is_object_store_error e \<or> is_value_error e
               then ArtifactAdoptionError ''staging_store_unavailable'' True else e), t)
         | Inr keys \<Rightarrow>
             (case sweep_staging ops (now - aq_staging_grace cfg) env 0 keys (0, 0, 0) t of
                (Inl e, t) \<Rightarrow> (Inl e, t)
              | (Inr (deleted, deferred, failed), t) \<Rightarrow>
                  (Inr \<lparr>sg_scanned = length keys, sg_deleted = deleted, sg_deferred = deferred, sg_failed = failed,
                     sg_next_cursor = (if length keys = nat limit then Some (last keys) else None)\<rparr>, t))))"

section \<open>The control plane leaves the artifacts alone\<close>

lemma service_append_artifacts:
  "service_append rt c now org identity action rtype rid request_id md s = Inr s' \<Longrightarrow> same_artifacts s s'"
  using service_append_frame(1,4) platform_frame_tables(11) by (fastforce simp: same_artifacts_def)

lemma release_run_artifacts:
  assumes "release_run rt c now org run_id state s = Inr (b, s')"
  shows "same_artifacts s s'"
  using assms
proof (cases rule: release_run_cases)
  case (released q)
  then show ?thesis using platform_frame_tables(11) [OF released(2)] by (simp add: same_artifacts_def)
qed simp_all

lemma apply_transition_controls_artifacts:
  assumes "apply_transition_controls rt c now run target code s = Inr s'"
  shows "same_artifacts s s'"
  using assms
proof (cases rule: apply_transition_controls_steps)
  case renew
  from renew(2) show ?thesis
    by (cases rule: renew_run_cases) (auto simp: same_artifacts_def usage_of_def find_usage_def)
next
  case (final b t identity action md)
  show ?thesis by (rule same_artifacts_trans [OF release_run_artifacts [OF final(2)] service_append_artifacts [OF final(3)]])
qed (auto intro: service_append_artifacts)

lemma commit_transition_artifacts:
  assumes "commit_transition rt c now org sha req seen s = Inr s'"
  shows "same_artifacts s s'"
proof -
  from assms obtain rows events where
    a: "apply_transition_controls rt c now seen (tr_target req) (tr_failure_code req) (s\<lparr>runs := rows, run_events := events\<rparr>) = Inr s'"
    unfolding commit_transition_def bindr_eq_Inr by blast
  from apply_transition_controls_artifacts [OF a] show ?thesis by (simp add: same_artifacts_def usage_of_def find_usage_def)
qed

lemma record_terminal_audit_artifacts:
  assumes "record_terminal_audit rt c now run action identity s = Inr s'"
  shows "same_artifacts s s'"
proof -
  from assms obtain b t md where "release_run rt c now (r_organization run) (r_id run) RES_RELEASED s = Inr (b, t)"
    "service_append rt c now (r_organization run) identity action RUN_RESOURCE (r_id run) None md t = Inr s'"
    by (auto simp: record_terminal_audit_def)
  then show ?thesis by (blast intro: same_artifacts_trans release_run_artifacts service_append_artifacts)
qed

lemma cancel_locked_artifacts: "cancel_locked now run s = Inr (b, s') \<Longrightarrow> same_artifacts s s'"
  by (erule cancel_locked_Inr) (simp add: same_artifacts_def usage_of_def find_usage_def)

lemma publish_result_artifacts:
  assumes "publish_result rt c now aid did run adopted s = Inr (res, s')"
  shows "artifacts s' = artifacts s @ [new_result_artifact aid now run adopted]" and "artifacts_metered s \<Longrightarrow> artifacts_metered s'"
proof -
  let ?row = "new_result_artifact aid now run adopted"
  have "artifacts s' = artifacts s @ [?row] \<and> (artifacts_metered s \<longrightarrow> artifacts_metered s')"
    using assms
  proof (rule publish_result_steps)
    fix normalized and s2 s3 s5 :: db
    let ?s4 = "s3\<lparr>runs := update_run (r_id run) (succeed_run run normalized) (runs s3),
          run_events := run_events s3 @ [new_event (r_organization run) (r_id run) (Suc (r_event_sequence run)) ''run.succeeded''
            (JObj [(''result_summary'', normalized), (''state'', JStr (run_state_value SUCCEEDED))]) now]\<rparr>"
    assume datg: "commit_datg_publication rt now did run adopted (s\<lparr>artifacts := artifacts s @ [?row]\<rparr>) = Inr s2"
      and con: "consume_artifact rt c now (r_organization run) RUN_RESULT (aa_size_bytes adopted) s2 = Inr s3"
      and app: "service_append rt c now (r_organization run) ADOPTION ARTIFACT_ADOPTED ARTIFACT_RESOURCE aid None
       [(''kind'', JStr (artifact_kind_value RUN_RESULT)), (''schema_id'', JStr (aa_schema_id adopted)),
        (''sha256'', JStr (aa_sha256 adopted)), (''size_bytes'', JInt (aa_size_bytes adopted))] ?s4 = Inr s5"
      and aud: "record_terminal_audit rt c now run RUN_SUCCEEDED ADOPTION s5 = Inr s'"
    note ci = consume_artifact_Inr [OF con]
    obtain rows where s2: "s2 = s\<lparr>artifacts := artifacts s @ [?row], datg_publications := rows\<rparr>"
      using datg by (rule commit_datg_publication_Inr) simp
    have u2: "usage_of o' s2 = usage_of o' s" for o' by (simp add: s2 usage_of_def find_usage_def)
    have same: "same_artifacts ?s4 s'"
      by (rule same_artifacts_trans [OF service_append_artifacts [OF app] record_terminal_audit_artifacts [OF aud]])
    have s4: "same_artifacts s3 ?s4" by (simp add: same_artifacts_def usage_of_def find_usage_def)
    have same: "same_artifacts s3 s'" by (rule same_artifacts_trans [OF s4 same])
    have arts: "artifacts s' = artifacts s @ [?row]"
      using same platform_frame_tables(11) [OF charge_frameD(1) [OF ci(1)]] by (simp add: same_artifacts_def s2)
    have "artifacts_metered s'" if "artifacts_metered s"
      by (rule artifacts_metered_add [OF that arts]) (use same ci(2,3) u2 in \<open>auto simp: same_artifacts_def\<close>)
    with arts show ?thesis by simp
  qed
  then show "artifacts s' = artifacts s @ [?row]" and "artifacts_metered s \<Longrightarrow> artifacts_metered s'" by simp_all
qed

section \<open>Adopting keeps every artifact with its object\<close>

text \<open>What a world does to the database while the objects stay as they are.\<close>

definition safe_from :: "('v \<Rightarrow> bool) \<Rightarrow> ('v \<Rightarrow> string \<Rightarrow> (string \<times> object_descriptor) option) \<Rightarrow> 'v \<Rightarrow> db \<Rightarrow> db \<Rightarrow> bool" where
  "safe_from ok view v s0 s \<longleftrightarrow> vault_ok ok view (v, s) \<and> artifacts_kept s0 s"

definition world_safe :: "('v \<Rightarrow> bool) \<Rightarrow> ('v \<Rightarrow> string \<Rightarrow> (string \<times> object_descriptor) option) \<Rightarrow> world \<Rightarrow> bool" where
  "world_safe ok view w \<longleftrightarrow> (\<forall>i v s. vault_ok ok view (v, s) \<longrightarrow> safe_from ok view v s (w_env w i s))"

lemma world_safeD: "world_safe ok view w \<Longrightarrow> safe_from ok view v s0 s \<Longrightarrow> safe_from ok view v s0 (w_env w i s)"
  unfolding world_safe_def safe_from_def by (blast intro: artifacts_kept_trans)

lemma world_safe_later [simp]: "world_safe ok view w \<Longrightarrow> world_safe ok view (later k w)"
  by (simp add: world_safe_def later_def)

lemma safe_from_same:
  assumes "safe_from ok view v s0 s" and "same_artifacts s s'" and "constraints_ok s'"
  shows "safe_from ok view v s0 s'"
proof -
  have "artifacts s' = artifacts s" using assms(2) by (simp add: same_artifacts_def)
  with assms show ?thesis
    by (auto simp: safe_from_def vault_ok_def same_artifacts_metered artifacts_stored_def intro: artifacts_kept_trans artifacts_kept_refl)
qed

lemma transition_attempt_safe:
  assumes "transition_attempt rt now env org run_id sha req c s = (r, base)"
    and "safe_from ok view v s0 s" and "safe_from ok view v s0 (env s)"
  shows "safe_from ok view v s0 base \<and> (\<forall>a s'. r = Inr (a, s') \<longrightarrow> constraints_ok s' \<longrightarrow> safe_from ok view v s0 s')"
  using assms(1)
proof (cases rule: transition_attempt_cases)
  case (moved run s2)
  with assms(3) safe_from_same [OF assms(3) commit_transition_artifacts [OF moved(6)]] show ?thesis by auto
qed (use assms in auto)

lemma transition_attempts_safe:
  assumes "world_safe ok view w" and "safe_from ok view v s0 s"
  shows "safe_from ok view v s0 (snd (transition_attempts n rt w org run_id sha req s))"
  using assms(2)
proof (induction n arbitrary: s)
  case (Suc n)
  let ?c = "contended_session rt (service_context WORKER (Some org))
      (transition_attempt rt (w_clock w (2 * n)) (w_env w (2 * n)) org run_id sha req) s"
  have "safe_from ok view v s0 (snd ?c)"
  proof (rule contended_session_preserves [of "safe_from ok view v s0", OF Suc.prems])
    fix c r base
    assume att: "transition_attempt rt (w_clock w (2 * n)) (w_env w (2 * n)) org run_id sha req c s = (r, base)"
    note safe = transition_attempt_safe [OF att Suc.prems world_safeD [OF assms(1) Suc.prems]]
    show "safe_from ok view v s0 base" using safe by simp
  next
    fix c a s' base
    assume att: "transition_attempt rt (w_clock w (2 * n)) (w_env w (2 * n)) org run_id sha req c s = (Inr (a, s'), base)"
      and ok: "constraints_ok s'"
    from transition_attempt_safe [OF att Suc.prems world_safeD [OF assms(1) Suc.prems]] ok show "safe_from ok view v s0 s'" by simp
  qed
  with Suc.IH world_safeD [OF assms(1)] show ?case by (auto split: prod.splits sum.splits option.splits)
qed simp

lemma transition_safe:
  "world_safe ok view w \<Longrightarrow> safe_from ok view v s0 s \<Longrightarrow> safe_from ok view v s0 (snd (transition rt w ref req s))"
  using transition_attempts_safe by (auto simp: transition_def split: sum.splits)

lemma and_then_safe:
  assumes "world_safe ok view w" and "safe_from ok view v s0 (snd (m s))"
    and "\<And>a t. safe_from ok view v s0 t \<Longrightarrow> safe_from ok view v s0 (snd (f a t))"
  shows "safe_from ok view v s0 (snd (and_then w k m f s))"
  using assms by (cases "m s"; cases "fst (m s)") (auto simp: and_then_def world_safeD)

lemma cancellation_requested_same: "snd (cancellation_requested rt ref s) = s"
  using run_state_of_same [of rt ref s] by (cases "run_state_of rt ref s"; cases "fst (run_state_of rt ref s)") (simp_all add: cancellation_requested_def)

lemma acknowledge_cancellation_safe:
  assumes "world_safe ok view w" and "safe_from ok view v s0 s"
  shows "safe_from ok view v s0 (snd (acknowledge_cancellation rt w ref s))"
proof -
  have "safe_from ok view v s0 (snd (store_request_cancellation rt (later 1 w) ref s))"
    unfolding store_request_cancellation_def
    by (rule and_then_safe) (use assms in \<open>auto simp: run_state_of_same return_state_def intro: transition_safe\<close>)
  then show ?thesis
    unfolding acknowledge_cancellation_def
    by (intro and_then_safe [OF assms(1)]) (use assms in \<open>auto simp: return_state_def intro: transition_safe\<close>)
qed

lemma adopted_filename_ok: "download_name_ok (run_kind_value kind @ ''-result.json'')"
  by (cases kind) (simp_all add: download_name_ok_def is_formula_char_def is_filename_char_def is_alnum_char_def is_lower_char_def is_upper_char_def is_digit_char_def)

text \<open>What the vault holds for an adopted artifact.\<close>

definition adopted_stored :: "(string \<Rightarrow> (string \<times> object_descriptor) option) \<Rightarrow> adopted_artifact \<Rightarrow> bool" where
  "adopted_stored objects adopted \<longleftrightarrow> (\<exists>content d. objects (aa_storage_key adopted) = Some (content, d)
     \<and> od_size_bytes d = aa_size_bytes adopted \<and> od_sha256 d = aa_sha256 adopted \<and> od_media_type d = aa_media_type adopted)
     \<and> final_key (aa_storage_key adopted) \<and> download_name_ok (aa_filename adopted)"

lemma commit_adopted_result_safe:
  assumes s: "safe_from ok view v s0 s" and stored: "adopted_stored (view v) adopted"
  shows "safe_from ok view v s0 (snd (commit_adopted_result rt now aid did ref adopted s))"
proof -
  have "safe_from ok view v s0 s'" if body: "commit_adopted_body rt now aid did org run_id sha adopted c s = Inr (res, s')"
    and ok: "constraints_ok s'" for org run_id sha c res s'
    using body
  proof (cases rule: commit_adopted_cases)
    case (cancelled run b s1)
    have "same_artifacts s1 s'" using cancelled(4) record_terminal_audit_artifacts by (cases b) auto
    with cancel_locked_artifacts [OF cancelled(3)] have "same_artifacts s s'" by (rule same_artifacts_trans)
    with s show ?thesis using ok by (rule safe_from_same)
  next
    case (again run existing)
    with s show ?thesis by simp
  next
    case (published run)
    note pa = publish_result_artifacts [OF published(5)]
    have "artifact_stored (view v) (new_result_artifact aid now run adopted)"
      using stored by (auto simp: adopted_stored_def artifact_stored_def new_result_artifact_def)
    with s pa ok show ?thesis
      by (auto simp: safe_from_def vault_ok_def artifacts_stored_def intro: artifacts_kept_trans artifacts_kept_append)
  qed
  then have "safe_from ok view v s0 (snd (in_session rt ctx (commit_adopted_body rt now aid did org run_id sha adopted) s))"
    for ctx org run_id sha by (intro in_session_preserves [where P = "safe_from ok view v s0", OF _ s]) blast
  with s show ?thesis by (auto simp: commit_adopted_result_def split: sum.splits)
qed

context object_store
begin

lemma store_final_vault:
  assumes env: "\<And>u. vault_ok ok view u \<Longrightarrow> vault_ok ok view (env u) \<and> vault_grows view u (env u)"
    and t: "vault_ok ok view t" and key: "final_key key" and st: "store_final rt cfg ops now env key payload staged t = (r, t')"
  shows "vault_ok ok view t' \<and> vault_grows view t t'
    \<and> (\<forall>u. r = Inr u \<longrightarrow> (\<exists>content d. view (fst t') key = Some (content, d) \<and> od_size_bytes d = sr_size_bytes staged
         \<and> od_sha256 d = sr_sha256 staged \<and> od_media_type d = json_media_type))"
proof -
  obtain p v where put: "os_put ops now key payload (sr_sha256 staged) json_media_type (fst t) = (p, v)" by fastforce
  have okt: "ok (fst t)" "constraints_ok (snd t)" "artifacts_stored (view (fst t)) (snd t)" "artifacts_metered (snd t)"
    using t by (simp_all add: vault_ok_def)
  note pg = put_grows [OF okt(1) put]
  have v: "vault_ok ok view (v, snd t)" "vault_grows view t (v, snd t)"
    using pg okt by (auto simp: vault_ok_def vault_grows_def artifacts_kept_refl intro: artifacts_stored_mono)
  show ?thesis
  proof (cases p)
    case (Inl e)
    with st put v show ?thesis by (auto simp: store_final_def)
  next
    case (Inr res)
    obtain v1 s1 where e: "env (v, snd t) = (v1, s1)" by fastforce
    note g = env [OF v(1), unfolded e]
    have t': "t' = (v1, s1)" using st put Inr e by (auto simp: store_final_def split: sum.splits)
    obtain content where "view v key = Some (content, pr_descriptor res)"
      and same: "same_object (pr_descriptor res) (new_descriptor now key payload (sr_sha256 staged) json_media_type)"
      using put_law [OF okt(1) put [unfolded Inr]] by blast
    then have "view v1 key = Some (content, pr_descriptor res)" using g key by (auto simp: vault_grows_def objects_kept_iff)
    moreover have "od_size_bytes (pr_descriptor res) = sr_size_bytes staged" if "r = Inr u" for u
      using st put Inr e that by (auto simp: store_final_def verify_claim_def split: sum.splits)
    ultimately show ?thesis using g v(2) same t'
      by (auto simp: same_object_def new_descriptor_def intro: vault_grows_trans)
  qed
qed

lemma acknowledge_adoption_vault:
  assumes "world_safe ok view w" and "vault_ok ok view t" and "acknowledge_adoption rt w ref t = (r, t')"
  shows "vault_ok ok view t' \<and> vault_grows view t t'"
proof -
  obtain q s where q: "acknowledge_cancellation rt w ref (snd t) = (q, s)" by fastforce
  have "safe_from ok view (fst t) (snd t) (snd t)" using assms(2) by (simp add: safe_from_def artifacts_kept_refl)
  from acknowledge_cancellation_safe [OF assms(1) this, of rt ref] have "safe_from ok view (fst t) (snd t) s" by (simp add: q)
  moreover have "t' = (fst t, s)" using assms(3) q by (cases q) (auto simp: acknowledge_adoption_def)
  ultimately show ?thesis by (simp add: safe_from_def vault_grows_def)
qed

lemma unless_cancelled_vault:
  assumes env: "\<And>u. vault_ok ok view u \<Longrightarrow> vault_ok ok view (env u) \<and> vault_grows view u (env u)"
    and w: "world_safe ok view w" and t: "vault_ok ok view t"
    and go: "\<And>u r u'. vault_ok ok view u \<Longrightarrow> go u = (r, u') \<Longrightarrow> vault_ok ok view u' \<and> vault_grows view u u'"
    and uc: "unless_cancelled rt w env ref go t = (r, t')"
  shows "vault_ok ok view t' \<and> vault_grows view t t'"
proof -
  obtain q s where q: "cancellation_requested rt ref (snd t) = (q, s)" by fastforce
  then have "s = snd t" using cancellation_requested_same [of rt ref "snd t"] by simp
  with q have q: "cancellation_requested rt ref (snd t) = (q, snd t)" by simp
  note g = env [OF t]
  consider (failed) e where "q = Inl e" | (yes) "q = Inr True" | (no) "q = Inr False" by (metis sum.exhaust)
  then show ?thesis
  proof cases
    case failed
    with uc q t show ?thesis by (auto simp: unless_cancelled_def)
  next
    case yes
    with uc q have "acknowledge_adoption rt w ref (env t) = (r, t')" by (simp add: unless_cancelled_def)
    from acknowledge_adoption_vault [OF w _ this] g show ?thesis by (blast intro: vault_grows_trans)
  next
    case no
    with uc q have "go (env t) = (r, t')" by (simp add: unless_cancelled_def)
    from go [OF _ this] g show ?thesis by (blast intro: vault_grows_trans)
  qed
qed

lemma store_result_vault:
  assumes env: "\<And>i u. vault_ok ok view u \<Longrightarrow> vault_ok ok view (env i u) \<and> vault_grows view u (env i u)"
    and t: "vault_ok ok view t"
    and sr: "store_result rt cfg ops clock aid did env ref record staged payload build t = (r, t')"
  shows "vault_ok ok view t' \<and> vault_grows view t t'"
proof (cases "artifact_storage_key (xr_organization record) (xr_project record) (Some (xr_run record)) RUN_RESULT (sr_sha256 staged)")
  case (Inl e)
  with sr t show ?thesis by (simp add: store_result_def)
next
  case (Inr key)
  note final = final_artifact_key [OF Inr]
  obtain p t1 where st: "store_final rt cfg ops (clock 0) (env 4) key payload staged t = (p, t1)" by (rule prod.exhaust)
  note sf = store_final_vault [OF env t final st]
  show ?thesis
  proof (cases "\<exists>e. p = Inl e \<or> publish_datg cfg payload build = Inl e")
    case True
    with sr Inr st have "t' = t1" by (auto simp: store_result_def split: sum.splits)
    with sf show ?thesis by simp
  next
    case False
    then obtain u index where p: "p = Inr u" "publish_datg cfg payload build = Inr index" by (meson sum.exhaust)
    obtain v s where e: "env 5 t1 = (v, s)" by fastforce
    have g: "vault_ok ok view (v, s)" "vault_grows view t1 (v, s)" using env [of t1 5] sf e by auto
    let ?adopted = "adopted_of cfg (clock 1) record staged key index"
    from sf p obtain content d where "view (fst t1) key = Some (content, d)" "od_size_bytes d = sr_size_bytes staged"
         "od_sha256 d = sr_sha256 staged" "od_media_type d = json_media_type" by blast
    with g(2) final have "adopted_stored (view v) ?adopted"
      by (auto simp: adopted_stored_def adopted_of_def adopted_filename_ok vault_grows_def objects_kept_iff)
    moreover have "safe_from ok view v s s" using g(1) by (simp add: safe_from_def artifacts_kept_refl)
    ultimately have "safe_from ok view v s (snd (commit_adopted_result rt (clock 2) aid did ref ?adopted s))"
      by (intro commit_adopted_result_safe)
    moreover have "t' = (v, snd (commit_adopted_result rt (clock 2) aid did ref ?adopted s))"
      using sr Inr st p e by (auto simp: store_result_def split: prod.splits sum.splits)
    ultimately have "vault_ok ok view t' \<and> vault_grows view (v, s) t'" by (simp add: safe_from_def vault_grows_def)
    with sf g(2) show ?thesis by (blast intro: vault_grows_trans)
  qed
qed

lemma adopt_vault:
  assumes env: "\<And>i u. vault_ok ok view u \<Longrightarrow> vault_ok ok view (env i u) \<and> vault_grows view u (env i u)"
    and w: "\<And>i. world_safe ok view (w i)" and t: "vault_ok ok view t"
    and ad: "adopt rt cfg ops clock aid did env w ref summary t = (r, t')"
  shows "vault_ok ok view t' \<and> vault_grows view t t'"
proof -
  have staged: "vault_ok ok view u' \<and> vault_grows view u u'"
    if u: "vault_ok ok view u" and go: "adopt_staged rt cfg ops clock aid did env w ref xr staged u = (r, u')" for u r u' xr staged
  proof (cases "read_staged rt cfg ops xr staged (fst u)")
    case (Inl e)
    with u go show ?thesis by (simp add: adopt_staged_def)
  next
    case (Inr x)
    then obtain payload build where x: "read_staged rt cfg ops xr staged (fst u) = Inr (payload, build)" by (cases x) simp
    note g = env [OF u, of 2]
    have "vault_ok ok view u' \<and> vault_grows view (env 2 u) u'"
      by (rule unless_cancelled_vault [OF env w, of "env 2 u"])
        (use go x g store_result_vault [where env = env, OF env] in \<open>auto simp: adopt_staged_def\<close>)
    with g show ?thesis by (blast intro: vault_grows_trans)
  qed
  obtain q s where q: "execution_record_of rt ref (snd t) = (q, s)" by fastforce
  have s: "s = snd t" using q by (auto simp: execution_record_of_def in_session_def session_def split: sum.splits if_splits)
  show ?thesis
  proof (cases "\<exists>staged xr. staged_claim summary = Inr staged \<and> q = Inr xr \<and> admit_result cfg xr staged = Inr ()")
    case False
    with ad q s t have "t' = t" by (auto simp: adopt_def split: sum.splits)
    with t show ?thesis by simp
  next
    case True
    then obtain staged xr where a: "staged_claim summary = Inr staged" "q = Inr xr" "admit_result cfg xr staged = Inr ()" by blast
    note g = env [OF t, of 0]
    have "vault_ok ok view t' \<and> vault_grows view (env 0 t) t'"
    proof (cases "xr_state xr \<in> {CANCELLING, CANCELLED}")
      case True
      with ad a q s have "acknowledge_adoption rt (w 0) ref (env 0 t) = (r, t')" by (simp add: adopt_def)
      then show ?thesis using acknowledge_adoption_vault [OF w] g by blast
    next
      case False
      show ?thesis
        by (rule unless_cancelled_vault [OF env w, of "env 0 t"])
          (use ad a q s g False staged in \<open>auto simp: adopt_def\<close>)
    qed
    with g show ?thesis by (blast intro: vault_grows_trans)
  qed
qed

text \<open>The sweep of the staging area touches no object of an artifact.\<close>

lemma delete_staged_vault:
  assumes "vault_ok ok view (v, s)" and "os_delete ops key v = (r, v')" and "\<not> final_key key"
  shows "vault_ok ok view (v', s) \<and> vault_grows view (v, s) (v', s)"
proof -
  have okv: "ok v" using assms(1) by (simp add: vault_ok_def)
  have "ok v' \<and> objects_kept (view v) (view v')"
  proof (cases r)
    case (Inl e)
    with delete_refused [OF okv assms(2) [unfolded Inl]] show ?thesis by simp
  next
    case (Inr u)
    with delete_law [OF okv assms(2) [unfolded Inr]] assms(3) show ?thesis by (auto simp: objects_kept_iff)
  qed
  with assms(1) show ?thesis by (auto simp: vault_ok_def vault_grows_def artifacts_kept_refl intro: artifacts_stored_mono)
qed

lemma sweep_staging_vault:
  assumes env: "\<And>i u. vault_ok ok view u \<Longrightarrow> vault_ok ok view (env i u) \<and> vault_grows view u (env i u)"
  shows "vault_ok ok view t \<Longrightarrow> list_all (\<lambda>k. \<not> final_key k) keys \<Longrightarrow> sweep_staging ops cutoff env i keys n t = (r, t') \<Longrightarrow>
     vault_ok ok view t' \<and> vault_grows view t t'"
proof (induction keys arbitrary: i n t)
  case (Cons key keys)
  obtain deleted deferred failed where n: "n = (deleted, deferred, failed)" by (cases n)
  obtain v s where e: "env i t = (v, s)" by fastforce
  note g = env [OF Cons.prems(1), of i, unfolded e]
  obtain d v1 where del: "os_delete ops key v = (d, v1)" by fastforce
  have g1: "vault_ok ok view (v1, s)" "vault_grows view t (v1, s)"
    using delete_staged_vault [OF _ del, of s] g Cons.prems(2) by (auto intro: vault_grows_trans)
  let ?rest = "\<lambda>v' n'. sweep_staging ops cutoff env (Suc i) keys n' (v', s) = (r, t')"
  from Cons.prems(3) n e del have "t' = (v, s) \<or> t' = (v1, s) \<or> (\<exists>n'. ?rest v n') \<or> (\<exists>n'. ?rest v1 n')"
    by (simp split: sum.splits if_splits) blast+
  then show ?case
  proof (elim disjE exE)
    fix n' assume "?rest v n'"
    from Cons.IH [OF _ _ this] g Cons.prems(2) show ?thesis by (auto intro: vault_grows_trans)
  next
    fix n' assume "?rest v1 n'"
    from Cons.IH [OF _ _ this] g1 Cons.prems(2) show ?thesis by (auto intro: vault_grows_trans)
  qed (use g g1 in simp_all)
qed simp

lemma staging_not_final: "starts_with staging_prefix key \<Longrightarrow> \<not> final_key key"
  by (cases key) (auto simp: staging_prefix_def final_key_def)

lemma listed_page_sound:
  "k \<in> set (listed_page p limit after keys) \<Longrightarrow> k \<in> set keys \<and> starts_with p k \<and> (\<forall>a. after = Some a \<longrightarrow> a < k)"
  by (auto simp: listed_page_def dest!: in_set_takeD split: option.splits)

lemma cleanup_staging_vault:
  assumes env: "\<And>i u. vault_ok ok view u \<Longrightarrow> vault_ok ok view (env i u) \<and> vault_grows view u (env i u)"
    and t: "vault_ok ok view t" and cl: "cleanup_staging cfg ops env cursor limit now t = (r, t')"
  shows "vault_ok ok view t' \<and> vault_grows view t t'"
proof (cases "1 \<le> limit \<and> limit \<le> 1000")
  case True
  show ?thesis
  proof (cases "os_list_keys ops staging_prefix limit cursor (fst t)")
    case (Inl e)
    with cl True t show ?thesis by (auto simp: cleanup_staging_def)
  next
    case (Inr keys)
    have "ok (fst t)" using t by (simp add: vault_ok_def)
    from list_law [OF this Inr] have "keys = listed_page staging_prefix limit cursor (names (fst t))" by simp
    then have "list_all (\<lambda>k. \<not> final_key k) keys" using listed_page_sound staging_not_final by (fastforce simp: list_all_iff)
    moreover obtain q t1 where "sweep_staging ops (now - aq_staging_grace cfg) env 0 keys (0, 0, 0) t = (q, t1)" by (rule prod.exhaust)
    moreover have "t' = t1" using calculation(2) cl True Inr by (auto simp: cleanup_staging_def split: sum.splits)
    ultimately show ?thesis using sweep_staging_vault [where env = env, OF env t] by simp
  qed
qed (use cl t in \<open>auto simp: cleanup_staging_def\<close>)

end

section \<open>Everything that happens to a vault\<close>

text \<open>
  \<open>vault_uses\<close>: uploads, tombstones, adoptions, sweeps of the staging area and transactions that do not
  concern artifacts, interleaved in any way. \<open>vault_evolves\<close> adds the maintenance: purges, during
  which all of these go on, and reconciliations that nothing runs beside.
\<close>

inductive vault_uses :: "runtime \<Rightarrow> 'v object_store_ops \<Rightarrow> 'v \<times> db \<Rightarrow> 'v \<times> db \<Rightarrow> bool"
  for rt :: runtime and ops :: "'v object_store_ops" where
  idle: "vault_uses rt ops t t"
| use_then: "vault_uses rt ops t u \<Longrightarrow> vault_uses rt ops u w \<Longrightarrow> vault_uses rt ops t w"
| other: "same_artifacts s s' \<Longrightarrow> constraints_ok s' \<Longrightarrow> vault_uses rt ops (v, s) (v, s')"
| uploads: "(\<And>i u. vault_uses rt ops u (env i u)) \<Longrightarrow>
     vault_uses rt ops t (snd (create_artifact rt cfg ops now aid env a up t))"
| tombstones: "vault_uses rt ops (v, s) (v, snd (tombstone rt now a project_id artifact_id s))"
| adoptions: "(\<And>i u. vault_uses rt ops u (env i u)) \<Longrightarrow> (\<And>i j v s. vault_uses rt ops (v, s) (v, w_env (w i) j s)) \<Longrightarrow>
     vault_uses rt ops t (snd (adopt rt acfg ops clock aid did env w ref summary t))"
| sweeps: "(\<And>i u. vault_uses rt ops u (env i u)) \<Longrightarrow>
     vault_uses rt ops t (snd (cleanup_staging acfg ops env cursor limit now t))"

inductive vault_evolves :: "runtime \<Rightarrow> 'v object_store_ops \<Rightarrow> 'v \<times> db \<Rightarrow> 'v \<times> db \<Rightarrow> bool"
  for rt :: runtime and ops :: "'v object_store_ops" where
  used: "vault_uses rt ops t t' \<Longrightarrow> vault_evolves rt ops t t'"
| evolve_then: "vault_evolves rt ops t u \<Longrightarrow> vault_evolves rt ops u w \<Longrightarrow> vault_evolves rt ops t w"
| purges: "(\<And>i u. vault_uses rt ops u (env i u)) \<Longrightarrow>
     vault_evolves rt ops t (snd (purge_due rt ops now env cutoff limit t))"
| reconciles: "vault_evolves rt ops t (snd (reconcile_orphans rt cfg ops (\<lambda>_ u. u) cursor limit now t))"

context object_store
begin

lemma same_artifacts_vault:
  assumes "same_artifacts s s'" and "constraints_ok s'" and "vault_ok ok view (v, s)"
  shows "vault_ok ok view (v, s') \<and> vault_grows view (v, s) (v, s')"
  using safe_from_same [OF _ assms(1,2), of ok view v s] assms(3) by (simp add: safe_from_def vault_grows_def artifacts_kept_refl)

lemma vault_uses_vault:
  assumes "vault_uses rt ops t t'"
  shows "vault_ok ok view t \<Longrightarrow> vault_ok ok view t' \<and> vault_grows view t t'"
  using assms
proof (induction rule: vault_uses.induct)
  case (use_then t u w)
  then show ?case by (blast intro: vault_grows_trans)
next
  case (other s s' v)
  then show ?case by (intro same_artifacts_vault)
next
  case (uploads env t cfg now aid a up)
  show ?case
    by (rule create_artifact_vault [where env = env, OF uploads.IH uploads.prems prod.collapse [symmetric]])
next
  case (tombstones v s now a project_id artifact_id)
  show ?case by (rule tombstone_vault [OF tombstones prod.collapse [symmetric]])
next
  case (adoptions env w t acfg clock aid did ref summary)
  have "world_safe ok view (w i)" for i
    using adoptions.IH(2) by (auto simp: world_safe_def safe_from_def vault_grows_def)
  then show ?case
    by (intro adopt_vault [where env = env, OF adoptions.IH(1) _ adoptions.prems prod.collapse [symmetric]])
next
  case (sweeps env t acfg cursor limit now)
  show ?case
    by (rule cleanup_staging_vault [where env = env, OF sweeps.IH sweeps.prems prod.collapse [symmetric]])
qed simp

lemma vault_evolves_vault:
  assumes "vault_evolves rt ops t t'"
  shows "vault_ok ok view t \<Longrightarrow> vault_ok ok view t' \<and> artifacts_kept (snd t) (snd t')"
  using assms
proof (induction rule: vault_evolves.induct)
  case (used t t')
  from vault_uses_vault [OF used(1,2)] show ?case by (simp add: vault_grows_def)
next
  case (evolve_then t u w)
  then show ?case by (blast intro: artifacts_kept_trans)
next
  case (purges env t now cutoff limit)
  show ?case
    by (rule purge_due_vault [where env = env, OF vault_uses_vault [OF purges(1)] purges(2) prod.collapse [symmetric]])
next
  case (reconciles t cfg cursor limit now)
  from reconcile_orphans_vault [OF reconciles prod.collapse [symmetric]] show ?case by (simp add: artifacts_kept_refl)
qed

end

end
