(* ===== verification/ArtifactGuarantees.thy ===== *)
theory ArtifactGuarantees imports Samples ArtifactAdoption begin

text \<open>
  The properties of stored artifacts, over the filesystem adapter: the files, the database and the
  processes that share them.
\<close>

section \<open>A vault with one artifact\<close>

definition empty_fs :: fs_store where
  "empty_fs = \<lparr>fs_blobs = [], fs_sidecars = [], fs_leftovers = [], fs_fault = NoFault\<rparr>"

definition sample_artifact_config :: artifact_config where
  "sample_artifact_config = \<lparr>ac_max_bytes = 1000, ac_retention = 100, ac_orphan_grace = 50, ac_chunk_bytes = 2,
     ac_prompt_bytes = (\<lambda>s. Some s)\<rparr>"

definition sample_upload :: artifact_upload where
  "sample_upload = \<lparr>up_project = 4, up_run = None, up_kind = EXPORT_FILE, up_content = ''abc'',
     up_expected_sha256 = sample_digest, up_media_type = ''text/plain'', up_filename = ''a.txt''\<rparr>"

abbreviation sample_ops :: "fs_store object_store_ops" where
  "sample_ops \<equiv> fs_ops (rt_sha sample_runtime)"

definition sample_create :: "time \<Rightarrow> (nat \<Rightarrow> fs_store \<times> db \<Rightarrow> fs_store \<times> db) \<Rightarrow> fs_store \<times> db \<Rightarrow> (exn + artifact_creation) \<times> fs_store \<times> db" where
  "sample_create now env t = create_artifact sample_runtime sample_artifact_config sample_ops now 20 env sample_actor sample_upload t"

definition sample_key :: string where
  "sample_key = ''artifacts/v1/00000000000000000000000000000001/00000000000000000000000000000004/project/export/aa/'' @ sample_digest"

definition sample_artifact :: artifact where
  "sample_artifact = \<lparr>a_id = 20, a_organization = 1, a_project = 4, a_run = None, a_created_by = 2,
     a_scope_key = ''project'', a_kind = ''export'', a_sha256 = sample_digest, a_size_bytes = 3,
     a_storage_key = sample_key, a_media_type = ''text/plain'', a_filename = ''a.txt'', a_state = ARTIFACT_ACTIVE,
     a_retention_until = 200, a_tombstoned_at = None, a_deleted_at = None, a_created_at = 100\<rparr>"

definition sample_creation :: artifact_creation where
  "sample_creation = \<lparr>cr_artifact = \<lparr>as_id = 20, as_project = 4, as_run = None, as_kind = EXPORT_FILE,
     as_sha256 = sample_digest, as_size_bytes = 3, as_media_type = ''text/plain'', as_filename = ''a.txt'',
     as_state = ARTIFACT_ACTIVE, as_retention_until = 200, as_created_at = 100\<rparr>, cr_created = True\<rparr>"

definition sample_creation_at :: "time \<Rightarrow> artifact_creation" where
  "sample_creation_at now = sample_creation\<lparr>cr_artifact := (cr_artifact sample_creation)\<lparr>as_retention_until := now + 100, as_created_at := now\<rparr>\<rparr>"

definition sample_fs :: fs_store where
  "sample_fs = empty_fs\<lparr>fs_blobs := [(sample_key, ''abc'', 100)], fs_sidecars := [(sample_key, Some (3, sample_digest, ''text/plain''))]\<rparr>"

definition artifact_db :: db where
  "artifact_db = sample_db
     \<lparr>artifacts := [sample_artifact],
      quota_policies := [\<lparr>qp_organization = 1, qp_values = default_policy, qp_updated_at = 100\<rparr>],
      quota_usages := [(sample_usage 0 100)\<lparr>qu_artifact_bytes := 3, qu_artifact_count := 1\<rparr>],
      audit_heads := [sample_head 1 100],
      audit_events := [\<lparr>ev_payload = \<lparr>ap_organization = 1, ap_sequence = 1, ap_actor_kind = USER_ACTOR,
        ap_actor_id = ''00000000-0000-0000-0000-000000000002'', ap_action = ARTIFACT_CREATED,
        ap_resource_type = ARTIFACT_RESOURCE, ap_resource_id = 20, ap_request_id = None, ap_occurred_at = 100,
        ap_metadata = [(''kind'', JStr ''export''), (''sha256'', JStr sample_digest), (''size_bytes'', JInt 3)],
        ap_previous_hash = audit_genesis_hash\<rparr>, ev_event_hash = sample_digest\<rparr>]\<rparr>"

lemma sample_create_result: "sample_create 100 (\<lambda>_ u. u) (empty_fs, sample_db) = (Inr sample_creation, sample_fs, artifact_db)"
  by code_simp

lemma empty_fs_ok: "fs_ok hash empty_fs"
  by (simp add: fs_ok_def fs_listed_def sidecar_agrees_def empty_fs_def)

lemma empty_vault:
  assumes "constraints_ok s" and "artifacts s = []" and "quota_usages s = []"
  shows "vault_ok (fs_ok hash) fs_view (empty_fs, s)"
  using assms empty_fs_ok
  by (simp add: vault_ok_def artifacts_stored_def artifacts_metered_def usage_of_def find_usage_def no_usage_def)

lemma sample_start: "vault_ok (fs_ok (rt_sha sample_runtime)) fs_view (empty_fs, sample_db)"
  by (rule empty_vault [OF sample_constraints]) (simp_all add: sample_db_def empty_db_def)

lemma sample_vault_used: "vault_uses sample_runtime sample_ops (empty_fs, sample_db) (sample_fs, artifact_db)"
proof -
  have "vault_uses sample_runtime sample_ops (empty_fs, sample_db) (snd (sample_create 100 (\<lambda>_ u. u) (empty_fs, sample_db)))"
    unfolding sample_create_def by (rule uploads) (rule idle)
  then show ?thesis unfolding sample_create_result by simp
qed

lemma artifact_db_constraints: "constraints_ok artifact_db"
  using fs.vault_uses_vault [OF sample_vault_used sample_start] by (simp add: vault_ok_def)

section \<open>No artifact without its object\<close>

text \<open>
  C28. Whatever users, workers and maintenance do, with uploads, tombstones, adoptions and sweeps of
  the staging area interleaved in any way and also with the purge of retained objects, every active
  artifact has its file with the recorded size, digest and media type, no artifact row is lost or
  rewritten, and the counters of every organization are exactly the number and the bytes of the
  artifacts it still holds.
\<close>

theorem artifacts_keep_objects:
  assumes "vault_evolves rt (fs_ops (rt_sha rt)) t t'" and "vault_ok (fs_ok (rt_sha rt)) fs_view t"
  shows "(\<forall>x \<in> set (artifacts (snd t')). a_state x = ARTIFACT_ACTIVE \<longrightarrow>
       (\<exists>d. fs_stat (a_storage_key x) (fst t') = Inr d \<and> verify_storage_metadata d x = Inr ()))
     \<and> artifacts_kept (snd t) (snd t')
     \<and> (\<forall>org. used_artifact_count (usage_of org (snd t')) = int (count_where (held_artifact org) (artifacts (snd t')))
          \<and> used_artifact_bytes (usage_of org (snd t'))
              = int (sum_where (\<lambda>x. nat (a_size_bytes x)) (held_artifact org) (artifacts (snd t'))))"
proof -
  from fs.vault_evolves_vault [OF assms] have v: "vault_ok (fs_ok (rt_sha rt)) fs_view t'" and k: "artifacts_kept (snd t) (snd t')" by simp_all
  have "\<exists>d. fs_stat (a_storage_key x) (fst t') = Inr d \<and> verify_storage_metadata d x = Inr ()"
    if "x \<in> set (artifacts (snd t'))" "a_state x = ARTIFACT_ACTIVE" for x
  proof -
    from v that obtain content d where "fs_view (fst t') (a_storage_key x) = Some (content, d)"
      and same: "od_size_bytes d = a_size_bytes x" "od_sha256 d = a_sha256 x" "od_media_type d = a_media_type x"
      unfolding vault_ok_def artifacts_stored_def artifact_stored_def by blast
    then have "fs_stat (a_storage_key x) (fst t') = Inr d" by (simp add: fs_view_Some)
    moreover have "od_key d = a_storage_key x" using calculation by (auto simp: fs_stat_Inr)
    ultimately show ?thesis using same by (simp add: verify_storage_metadata_def)
  qed
  with v k show ?thesis by (simp add: vault_ok_def artifacts_metered_def)
qed

theorem artifacts_keep_objects_witness:
  "artifacts artifact_db = [sample_artifact] \<and> (\<exists>d. fs_stat sample_key sample_fs = Inr d \<and> verify_storage_metadata d sample_artifact = Inr ())"
proof -
  have "artifacts artifact_db = [sample_artifact]" by (simp add: artifact_db_def)
  moreover have "a_state sample_artifact = ARTIFACT_ACTIVE" "a_storage_key sample_artifact = sample_key" by (simp_all add: sample_artifact_def)
  ultimately show ?thesis using artifacts_keep_objects [OF used [OF sample_vault_used] sample_start] by simp
qed

section \<open>Uploads and downloads\<close>

text \<open>
  C29. What is uploaded comes back: after a successful first upload the uploader downloads the artifact
  without a failure, with the length and the digest of what was uploaded, and byte for byte the same
  unless the store already held an object under the key of the new artifact.
\<close>

theorem upload_download_roundtrip:
  assumes "vault_ok (fs_ok (rt_sha rt)) fs_view (v, s)" and "0 < ac_chunk_bytes cfg"
    and "create_artifact rt cfg (fs_ops (rt_sha rt)) now aid (\<lambda>_ u. u) a up (v, s) = (Inr creation, (v', s'))" and "cr_created creation"
  shows "\<exists>dl key. download_artifact rt cfg (fs_ops (rt_sha rt)) a (up_project up) (as_id (cr_artifact creation)) (v', s') = Inr dl
     \<and> dl_failure dl = None \<and> length (concat (dl_chunks dl)) = length (up_content up)
     \<and> rt_sha rt (concat (dl_chunks dl)) = rt_sha rt (up_content up)
     \<and> artifact_storage_key (ac_organization a) (up_project up) (up_run up) (up_kind up) (rt_sha rt (up_content up)) = Inr key
     \<and> (fs_view v key = None \<longrightarrow> concat (dl_chunks dl) = up_content up)"
  by (rule fs.upload_download [OF assms(1) refl assms(2-4)])

theorem upload_download_roundtrip_witness:
  "\<exists>dl. download_artifact sample_runtime sample_artifact_config sample_ops sample_actor 4 20 (sample_fs, artifact_db) = Inr dl
     \<and> dl_failure dl = None \<and> concat (dl_chunks dl) = ''abc''"
proof -
  have chunk: "0 < ac_chunk_bytes sample_artifact_config" by (simp add: sample_artifact_config_def)
  have up: "up_project sample_upload = 4" "up_content sample_upload = ''abc''" "cr_created sample_creation"
    "as_id (cr_artifact sample_creation) = 20" by (simp_all add: sample_upload_def sample_creation_def)
  have none: "fs_view empty_fs key = None" for key
    by (auto simp: fs_view_def fs_stat_def empty_fs_def fs_path_def validate_key_def split: sum.splits)
  from upload_download_roundtrip [OF sample_start chunk sample_create_result [unfolded sample_create_def] up(3)]
  show ?thesis unfolding up by (auto simp: none)
qed

text \<open>
  C30. A download is never trusted: from any store, whatever it answers, a download hands on at most as
  many bytes as the artifact has, and if it ends without a failure then exactly as many, with the
  recorded digest.
\<close>

theorem download_verified:
  assumes "download_artifact rt cfg ops a project_id artifact_id (v, s) = Inr dl" and "constraints_ok s"
  shows "int (length (concat (dl_chunks dl))) \<le> dl_size_bytes dl
     \<and> (dl_failure dl = None \<longrightarrow> int (length (concat (dl_chunks dl))) = dl_size_bytes dl
          \<and> rt_sha rt (concat (dl_chunks dl)) = dl_sha256 dl)"
proof -
  from assms(1) obtain x chunks disposition where get: "get_artifact rt ''artifact.download'' a project_id artifact_id s = Inr x"
    and dl: "(case verified_chunks (rt_sha rt) (ac_max_bytes cfg) x [] chunks of (read, failure) \<Rightarrow>
       Inr \<lparr>dl_chunks = read, dl_failure = failure, dl_size_bytes = a_size_bytes x, dl_media_type = a_media_type x,
         dl_filename = a_filename x, dl_content_disposition = disposition, dl_sha256 = a_sha256 x\<rparr>) = (Inr dl :: exn + artifact_download)"
    unfolding download_artifact_def bindr_eq_Inr snd_conv by blast
  obtain read failure where vc: "verified_chunks (rt_sha rt) (ac_max_bytes cfg) x [] chunks = (read, failure)" by fastforce
  from get have "x \<in> set (artifacts s)"
    by (auto simp: get_artifact_def active_artifact_def dest!: in_session_fst find_SomeD)
  then have "0 \<le> a_size_bytes x" using assms(2) by (auto simp: constraints_ok_def artifacts_ok_def list_all_iff)
  with dl vc verified_chunks_bounded [OF vc] show ?thesis by auto
qed

theorem download_verified_witness:
  "\<exists>dl. download_artifact sample_runtime sample_artifact_config sample_ops sample_actor 4 20 (sample_fs, artifact_db) = Inr dl
     \<and> dl_chunks dl = [''ab'', ''c''] \<and> int (length (concat (dl_chunks dl))) = dl_size_bytes dl"
proof -
  let ?dl = "download_artifact sample_runtime sample_artifact_config sample_ops sample_actor 4 20 (sample_fs, artifact_db)"
  have "map_option (\<lambda>dl. (dl_chunks dl, dl_failure dl)) (case ?dl of Inl _ \<Rightarrow> None | Inr dl \<Rightarrow> Some dl) = Some ([''ab'', ''c''], None)"
    by code_simp
  then obtain dl where dl: "?dl = Inr dl" "dl_chunks dl = [''ab'', ''c'']" "dl_failure dl = None"
    by (cases ?dl) auto
  from download_verified [OF dl(1) artifact_db_constraints] dl show ?thesis by simp
qed

section \<open>Where it fails\<close>

text \<open>A sweep that ends without an error deletes every old object of its page that no row refers to.\<close>

lemma fs_delete_stat:
  assumes "fs_delete k v = (r, v')"
  shows "fs_stat key v' = (if k = key \<and> valid_key key then Inl ObjectNotFoundError else fs_stat key v)"
  using assms
  by (cases rule: fs_delete_cases)
    (use assms in \<open>auto simp: fs_stat_def fs_path_def validate_key_def fs_delete_def map_of_filter_key ensure_def split: if_splits option.splits\<close>)

definition sweepable :: "string \<Rightarrow> time \<Rightarrow> fs_store \<Rightarrow> bool" where
  "sweepable key cutoff v \<longleftrightarrow> (\<exists>d. fs_stat key v = Inr d \<and> od_modified_at d \<le> cutoff)"

lemma sweep_deletes:
  assumes "key \<notin> set referenced"
  shows "key \<in> set keys \<and> sweepable key cutoff v \<or> fs_stat key v = Inl ObjectNotFoundError \<Longrightarrow>
    sweep_orphans (fs_ops hash) cutoff (\<lambda>_ u. u) referenced i keys n (v, s) = (Inr m, v', s') \<Longrightarrow>
    fs_stat key v' = Inl ObjectNotFoundError \<and> s' = s"
proof (induction keys arbitrary: i n v)
  case (Cons k keys)
  note ops = fs_ops_def object_store_ops.simps
  obtain r v1 where del: "fs_delete k v = (r, v1)" by (rule prod.exhaust)
  note gone = fs_delete_stat [OF del, of key]
  show ?case
  proof (cases "k \<in> set referenced")
    case True
    with assms Cons.prems Cons.IH [of v] show ?thesis by auto
  next
    case False
    show ?thesis
    proof (cases "fs_stat k v")
      case (Inl e)
      with Cons.prems False have "key \<in> set keys \<and> sweepable key cutoff v \<or> fs_stat key v = Inl ObjectNotFoundError"
        by (auto simp: sweepable_def)
      with Cons.prems(2) False Inl Cons.IH [of v] show ?thesis by (auto simp: ops split: if_splits)
    next
      case (Inr d)
      then have valid: "valid_key k" by (simp add: fs_stat_Inr)
      then have r: "r = Inr ()" using del by (simp add: fs_delete_def fs_path_def validate_key_def)
      show ?thesis
      proof (cases "cutoff < od_modified_at d")
        case True
        with Cons.prems(1) Inr have "key \<in> set keys \<and> sweepable key cutoff v \<or> fs_stat key v = Inl ObjectNotFoundError"
          by (auto simp: sweepable_def)
        with Cons.prems(2) False Inr True Cons.IH [of v] show ?thesis by (auto simp: ops Let_def)
      next
        case old: False
        have "key \<in> set keys \<and> sweepable key cutoff v1 \<or> fs_stat key v1 = Inl ObjectNotFoundError"
          using Cons.prems(1) valid gone by (auto simp: sweepable_def)
        with Cons.prems(2) False Inr old r del Cons.IH [of v1] show ?thesis by (auto simp: ops Let_def)
      qed
    qed
  qed
qed (auto simp: sweepable_def)

lemma reconcile_deletes:
  assumes "reconciliation_page_of rt (fs_ops hash) cursor limit (v, s) = Inr page" and "key \<in> set (rp_keys page)"
    and "sweepable key (now - ac_orphan_grace cfg) v" and "key \<notin> a_storage_key ` set (artifacts s)"
    and rec: "reconcile_orphans rt cfg (fs_ops hash) (\<lambda>_ u. u) cursor limit now (v, s) = (Inr report, (v', s'))"
  shows "fs_stat key v' = Inl ObjectNotFoundError \<and> s' = s"
proof -
  from assms(1) obtain keys where page: "page = page_of keys (audited_artifacts cursor (nat limit) s) (nat limit) s"
    by (auto simp: reconciliation_page_of_def split: sum.splits dest!: in_session_fst)
  then have unreferenced: "key \<notin> set (rp_referenced page)" using assms(4) by (auto simp: page_of_def Let_def)
  obtain q v1 s1 where sw: "sweep_orphans (fs_ops hash) (now - ac_orphan_grace cfg) (\<lambda>_ t. t) (rp_referenced page) 0 (rp_keys page)
              \<lparr>oc_orphaned = 0, oc_deleted = 0, oc_failures = 0\<rparr> (v, s) = (q, v1, s1)" by (metis prod.exhaust)
  with rec assms(1) obtain n where "q = Inr n" "v' = v1" "s' = s1" by (cases q) (auto simp: reconcile_orphans_def)
  with sweep_deletes [OF unreferenced _ sw [unfolded \<open>q = Inr n\<close>]] assms(2,3) show ?thesis by simp
qed

text \<open>The upload with a reconciliation that runs between its put and the insertion of its row.\<close>

definition reconcile_during ::
    "runtime \<Rightarrow> artifact_config \<Rightarrow> string option \<Rightarrow> int \<Rightarrow> time \<Rightarrow> nat \<Rightarrow> fs_store \<times> db \<Rightarrow> fs_store \<times> db" where
  "reconcile_during rt cfg cursor limit now i u =
     (if i = 1 then snd (reconcile_orphans rt cfg (fs_ops (rt_sha rt)) (\<lambda>_ t. t) cursor limit now u) else u)"

lemma store_upload_reconciled:
  assumes st: "store_upload rt cfg (fs_ops hash) now aid (\<lambda>_ u. u) a up user_id media_type filename sha256 (v, s) = (Inr creation, (v', s'))"
    and "cr_created creation"
    and key: "artifact_storage_key (ac_organization a) (up_project up) (up_run up) (up_kind up) sha256 = Inr key"
    and there: "fs_stat key v = Inr d" and env: "env 1 (v, s) = (w, s)"
  shows "store_upload rt cfg (fs_ops hash) now aid env a up user_id media_type filename sha256 (v, s) = (Inr creation, (w, s'))"
proof -
  obtain res where put: "os_put (fs_ops hash) now key (up_content up) sha256 media_type v = (Inr res, v')"
    and fin: "in_session rt (user_context (ac_organization a) (ac_subject a))
       (finish_upload rt now a up user_id (new_artifact cfg now aid user_id a up media_type filename sha256 key)) s = (Inr creation, s')"
    using fs.store_upload_fresh [OF st assms(2)] key by (metis sum.inject(2))
  from put have "fs_put hash now key (up_content up) sha256 media_type v = (Inr res, v')" by (simp add: fs_ops_def)
  then have "v' = v" using there by (cases rule: fs_put_cases) (auto simp: fs_stat_Inr)
  with put fin key env show ?thesis by (simp add: store_upload_def Let_def)
qed

text \<open>The row an undisturbed upload stores, and the way to \<open>store_upload\<close> whatever runs later.\<close>

lemma created_row:
  assumes st: "store_upload rt cfg (fs_ops hash) now aid (\<lambda>_ u. u) a up user_id media_type filename sha256 (v, s) = (Inr creation, (v', s'))"
    and "cr_created creation"
    and key: "artifact_storage_key (ac_organization a) (up_project up) (up_run up) (up_kind up) sha256 = Inr key"
  shows "\<exists>x \<in> set (artifacts s'). a_id x = as_id (cr_artifact creation) \<and> a_state x = ARTIFACT_ACTIVE \<and> a_storage_key x = key
    \<and> get_artifact rt ''artifact.download'' a (up_project up) (as_id (cr_artifact creation)) s' = Inr x"
proof -
  define x where "x = new_artifact cfg now aid user_id a up media_type filename sha256 key"
  have row: "a_id x = aid" "a_organization x = ac_organization a" "a_project x = up_project up" "a_state x = ARTIFACT_ACTIVE"
    "a_storage_key x = key" by (simp_all add: x_def new_artifact_def)
  have fin: "in_session rt (user_context (ac_organization a) (ac_subject a)) (finish_upload rt now a up user_id x) s = (Inr creation, s')"
    using fs.store_upload_fresh [OF st assms(2)] key unfolding x_def by (metis sum.inject(2))
  from in_session_Inr [OF fin] obtain c where c: "user_context (ac_organization a) (ac_subject a) = Inr c"
    and body: "finish_upload rt now a up user_id x c s = Inr (creation, s')" and cons: "constraints_ok s'" by blast
  note fu = finish_upload_Inr [OF body row(2,4)]
  have x: "x \<in> set (artifacts s')" using fu(1) by simp
  have id: "as_id (cr_artifact creation) = aid" using fs.artifact_snapshot_id [OF conjunct1 [OF fu(4)]] row(1) by simp
  from fu(5) obtain u where "authorize_scope ''artifact.create'' a (up_project up) (up_run up) True s = Inr u" by blast
  then have auth: "\<exists>u. authorize_scope ''artifact.download'' a (up_project up) None False s' = Inr u"
    using fu(3) by (auto simp: authorize_scope_def member_rows_def active_project_def)
  have "find (\<lambda>y. a_id y = aid \<and> a_organization y = ac_organization a \<and> a_project y = up_project up
      \<and> a_state y = ARTIFACT_ACTIVE) (artifacts s') = Some x"
    by (rule find_key [OF constraints_artifacts(1) [OF cons] x]) (simp_all add: row)
  then have "get_artifact rt ''artifact.download'' a (up_project up) aid s' = Inr x"
    using auth c cons open_session_valid [OF user_context_valid [OF c], of rt]
    by (auto simp: get_artifact_def in_session_def session_def active_artifact_def)
  with x row id show ?thesis by auto
qed

lemma create_artifact_path:
  assumes "create_artifact rt cfg ops now aid (\<lambda>_ u. u) a up (v, s) = (Inr creation, (v', s'))" and "cr_created creation"
  obtains user_id media_type filename where
    "store_upload rt cfg ops now aid (\<lambda>_ u. u) a up user_id media_type filename (rt_sha rt (up_content up)) (v, s) = (Inr creation, (v', s'))"
    "\<And>env. env 0 (v, s) = (v, s) \<Longrightarrow> create_artifact rt cfg ops now aid env a up (v, s)
       = store_upload rt cfg ops now aid env a up user_id media_type filename (rt_sha rt (up_content up)) (v, s)"
proof -
  obtain media_type filename sha256 where ad: "admit_upload rt cfg up = Inr (media_type, filename, sha256)"
    using assms(1) by (cases "admit_upload rt cfg up") (auto simp: create_artifact_def Let_def)
  then have sha: "sha256 = rt_sha rt (up_content up)" by (auto simp: admit_upload_def Let_def)
  obtain r1 s1 where b: "in_session rt (user_context (ac_organization a) (ac_subject a)) (\<lambda>c. begin_upload a up sha256) s = (r1, s1)" by fastforce
  then have s1: "s1 = s" by (rule begin_upload_same)
  obtain user_id duplicate where r1: "r1 = Inr (user_id, duplicate)"
    using assms(1) ad b by (cases r1) (auto simp: create_artifact_def Let_def)
  have "create_artifact rt cfg ops now aid env a up (v, s) = store_upload rt cfg ops now aid env a up user_id media_type filename sha256 (v, s)"
    if "env 0 (v, s) = (v, s)" for env
    using assms ad b r1 s1 that by (auto simp: create_artifact_def Let_def split: option.splits sum.splits if_splits)
  from that [of user_id media_type filename, OF _ this [unfolded sha]] this [of "\<lambda>_ u. u"] assms(1) sha show thesis by simp
qed

text \<open>
  C31. The reconciliation can take the object of a fresh upload. An upload of content whose object is in
  the store already, older than the orphan grace and with no row that refers to it (what a failed upload
  leaves behind), reuses that object with its old modification time. If a reconciliation whose page holds
  the key runs between the put and the insertion of the row, then the upload still reports exactly what
  it reports undisturbed and stores the same active row, but the object is gone and the download of the
  artifact it just created fails.
\<close>

theorem upload_loses_object:
  assumes "artifact_storage_key (ac_organization a) (up_project up) (up_run up) (up_kind up) (rt_sha rt (up_content up)) = Inr key"
    and "fs_stat key v = Inr d" and "od_modified_at d \<le> swept - ac_orphan_grace cfg" and "key \<notin> a_storage_key ` set (artifacts s)"
    and "reconciliation_page_of rt (fs_ops (rt_sha rt)) cursor limit (v, s) = Inr page" and "key \<in> set (rp_keys page)"
    and "is_Inr (fst (reconcile_orphans rt cfg (fs_ops (rt_sha rt)) (\<lambda>_ u. u) cursor limit swept (v, s)))"
    and "create_artifact rt cfg (fs_ops (rt_sha rt)) now aid (\<lambda>_ u. u) a up (v, s) = (Inr creation, (v1, s'))" and "cr_created creation"
  shows "\<exists>v'. create_artifact rt cfg (fs_ops (rt_sha rt)) now aid (reconcile_during rt cfg cursor limit swept) a up (v, s)
       = (Inr creation, (v', s'))
     \<and> (\<exists>x \<in> set (artifacts s'). a_id x = as_id (cr_artifact creation) \<and> a_state x = ARTIFACT_ACTIVE \<and> a_storage_key x = key)
     \<and> fs_stat key v' = Inl ObjectNotFoundError
     \<and> download_artifact rt cfg (fs_ops (rt_sha rt)) a (up_project up) (as_id (cr_artifact creation)) (v', s')
         = Inl (DependencyUnavailableError ''artifact.download'')"
proof -
  let ?ops = "fs_ops (rt_sha rt)" and ?env = "reconcile_during rt cfg cursor limit swept" and ?sha = "rt_sha rt (up_content up)"
  from assms(7) obtain report v' s'' where rec: "reconcile_orphans rt cfg ?ops (\<lambda>_ u. u) cursor limit swept (v, s) = (Inr report, (v', s''))"
    by (metis is_InrD prod.exhaust)
  have gone: "fs_stat key v' = Inl ObjectNotFoundError" and [simp]: "s'' = s"
    using reconcile_deletes [OF assms(5,6) _ assms(4) rec] assms(2,3) by (auto simp: sweepable_def)
  have env: "?env 0 u = u" "?env 1 (v, s) = (v', s)" for u by (simp_all add: reconcile_during_def rec)
  obtain user_id media_type filename where
      st: "store_upload rt cfg ?ops now aid (\<lambda>_ u. u) a up user_id media_type filename ?sha (v, s) = (Inr creation, (v1, s'))"
    and path: "\<And>env. env 0 (v, s) = (v, s) \<Longrightarrow> create_artifact rt cfg ?ops now aid env a up (v, s)
       = store_upload rt cfg ?ops now aid env a up user_id media_type filename ?sha (v, s)"
    using assms(8,9) by (rule create_artifact_path) blast
  have "create_artifact rt cfg ?ops now aid ?env a up (v, s) = (Inr creation, (v', s'))"
    unfolding path [of ?env, OF env(1)] by (rule store_upload_reconciled [where env = ?env, OF st assms(9,1,2) env(2)])
  moreover from created_row [OF st assms(9,1)] obtain x where x: "x \<in> set (artifacts s')" "a_id x = as_id (cr_artifact creation)"
    "a_state x = ARTIFACT_ACTIVE" "a_storage_key x = key"
    and get: "get_artifact rt ''artifact.download'' a (up_project up) (as_id (cr_artifact creation)) s' = Inr x" by blast
  moreover have "download_artifact rt cfg ?ops a (up_project up) (as_id (cr_artifact creation)) (v', s')
      = Inl (DependencyUnavailableError ''artifact.download'')"
    using get gone x(4) by (simp add: download_artifact_def fs_ops_def fs_open_def ensure_def)
  ultimately show ?thesis using gone by blast
qed

theorem upload_loses_object_witness:
  "\<exists>v s. sample_create 200 (\<lambda>_ u. u) (sample_fs, sample_db) = (Inr (sample_creation_at 200), sample_fs, s)
     \<and> sample_create 200 (reconcile_during sample_runtime sample_artifact_config None 10 200) (sample_fs, sample_db)
         = (Inr (sample_creation_at 200), v, s)
     \<and> fs_stat sample_key v = Inl ObjectNotFoundError
     \<and> download_artifact sample_runtime sample_artifact_config sample_ops sample_actor 4 20 (v, s)
         = Inl (DependencyUnavailableError ''artifact.download'')"
proof -
  have "map_sum (\<lambda>_. ()) (\<lambda>x. x) (fst (sample_create 200 (\<lambda>_ u. u) (sample_fs, sample_db))) = Inr (sample_creation_at 200)"
    "fst (snd (sample_create 200 (\<lambda>_ u. u) (sample_fs, sample_db))) = sample_fs" by code_simp+
  then obtain s where cr: "sample_create 200 (\<lambda>_ u. u) (sample_fs, sample_db) = (Inr (sample_creation_at 200), sample_fs, s)"
    by (cases "sample_create 200 (\<lambda>_ u. u) (sample_fs, sample_db)"; cases "fst (sample_create 200 (\<lambda>_ u. u) (sample_fs, sample_db))") auto
  have key: "artifact_storage_key (ac_organization sample_actor) (up_project sample_upload) (up_run sample_upload) (up_kind sample_upload)
      (rt_sha sample_runtime (up_content sample_upload)) = Inr sample_key"
    and stat: "is_Inr (fs_stat sample_key sample_fs)" "map_sum (\<lambda>_. ()) od_modified_at (fs_stat sample_key sample_fs) = Inr 100"
    and free: "sample_key \<notin> a_storage_key ` set (artifacts sample_db)" and grace: "100 \<le> 200 - ac_orphan_grace sample_artifact_config"
    and pg: "map_sum (\<lambda>_. ()) rp_keys (reconciliation_page_of sample_runtime sample_ops None 10 (sample_fs, sample_db)) = Inr [sample_key]"
    and rec: "is_Inr (fst (reconcile_orphans sample_runtime sample_artifact_config sample_ops (\<lambda>_ u. u) None 10 200 (sample_fs, sample_db)))"
    and up: "up_project sample_upload = 4" "as_id (cr_artifact (sample_creation_at 200)) = 20" "cr_created (sample_creation_at 200)"
    by code_simp+
  from stat obtain d where d: "fs_stat sample_key sample_fs = Inr d" "od_modified_at d = 100" by (auto simp: is_Inr_def split: sum.splits)
  from pg obtain page where page: "reconciliation_page_of sample_runtime sample_ops None 10 (sample_fs, sample_db) = Inr page"
    "rp_keys page = [sample_key]" by (cases "reconciliation_page_of sample_runtime sample_ops None 10 (sample_fs, sample_db)") auto
  have old: "od_modified_at d \<le> 200 - ac_orphan_grace sample_artifact_config" using d(2) grace by simp
  have inpage: "sample_key \<in> set (rp_keys page)" using page(2) by simp
  from upload_loses_object [OF key d(1) old free page(1) inpage rec cr [unfolded sample_create_def] up(3)] cr
  show ?thesis unfolding up sample_create_def by blast
qed

text \<open>
  C32. A torn write is never repaired: when the filesystem adapter has stored the bytes of an object but
  not its sidecar, every later put of that key fails and leaves the store as it is, the object can
  neither be described nor read, and the reconciliation counts it as a failure and keeps it.
\<close>

theorem torn_object_stays:
  assumes "map_of (fs_blobs v) key = Some blob" and "map_of (fs_sidecars v) key = None"
  shows "(\<exists>e. fs_put hash now key content sha256 media_type v = (Inl e, v)) \<and> (\<exists>e. fs_stat key v = Inl e) \<and> (\<exists>e. fs_open key n v = Inl e)
     \<and> (valid_key key \<longrightarrow> sweep_orphans (fs_ops hash) cutoff (\<lambda>_ u. u) [] i [key] counts (v, s)
           = (Inr (counts\<lparr>oc_failures := Suc (oc_failures counts)\<rparr>), v, s))"
proof -
  have "\<exists>e. fs_stat key v = Inl e" and stat: "valid_key key \<Longrightarrow> fs_stat key v = Inl ObjectNotFoundError"
    using assms(2) by (cases "valid_key key"; simp add: fs_stat_def fs_path_def validate_key_def)+
  then obtain e where e: "fs_stat key v = Inl e" by blast
  obtain r v' where put: "fs_put hash now key content sha256 media_type v = (r, v')" by fastforce
  have "\<exists>e. fs_put hash now key content sha256 media_type v = (Inl e, v)"
    using put
  proof (cases rule: fs_put_cases)
    case (kept stored existing)
    with e show ?thesis by (simp add: fs_view_Some)
  qed (use put assms(1) in simp_all)
  moreover have "\<exists>e. fs_open key n v = Inl e" using e by (cases "0 < n") (simp_all add: fs_open_def)
  ultimately show ?thesis using e stat by (simp add: fs_ops_def)
qed

definition torn_fs :: fs_store where
  "torn_fs = snd (fs_put (rt_sha sample_runtime) 100 ''artifacts/v1/x'' ''abc'' sample_digest ''text/plain'' (empty_fs\<lparr>fs_fault := MetadataFails\<rparr>))"

theorem torn_object_stays_witness:
  "map fst (fs_blobs torn_fs) = [''artifacts/v1/x'']
   \<and> (\<exists>e. fs_put (rt_sha sample_runtime) 200 ''artifacts/v1/x'' ''abc'' sample_digest ''text/plain'' (torn_fs\<lparr>fs_fault := NoFault\<rparr>)
        = (Inl e, torn_fs\<lparr>fs_fault := NoFault\<rparr>))"
proof -
  let ?v = "torn_fs\<lparr>fs_fault := NoFault\<rparr>"
  have "map_of (fs_blobs ?v) ''artifacts/v1/x'' = Some (''abc'', 100)" "map_of (fs_sidecars ?v) ''artifacts/v1/x'' = None"
    "map fst (fs_blobs torn_fs) = [''artifacts/v1/x'']" by code_simp+
  then show ?thesis using torn_object_stays [of ?v "''artifacts/v1/x''"] by blast
qed

end
