(* ===== verification/CorpusFiles.thy ===== *)
theory CorpusFiles imports Corpora ArtifactDomain begin

text \<open>
  The corpus files of src/corpuskit/services/project_workspaces.py: reading an uploaded file into
  sentences (\<open>parse_corpus_upload\<close>) and writing a version as a file (\<open>build_export\<close>). The readers and
  writers of Python's \<open>csv\<close> (the default dialect, strict) are modelled; \<open>json.loads\<close> is the argument
  \<open>loads\<close>. A text is its UTF-8 bytes.
\<close>

section \<open>Decoding\<close>

definition byte_in :: "nat \<Rightarrow> nat \<Rightarrow> char \<Rightarrow> bool" where
  "byte_in lo hi c \<longleftrightarrow> lo \<le> (of_char c :: nat) \<and> (of_char c :: nat) \<le> hi"

text \<open>Well-formed code points (no overlong forms, no surrogates, nothing above U+10FFFF).\<close>

definition code_point :: "string \<Rightarrow> bool" where
  "code_point u \<longleftrightarrow>
     (case u of
        [a] \<Rightarrow> byte_in 0 127 a
      | [a, b] \<Rightarrow> byte_in 194 223 a \<and> byte_in 128 191 b
      | [a, b, c] \<Rightarrow> byte_in 224 239 a
          \<and> byte_in (if byte_in 224 224 a then 160 else 128) (if byte_in 237 237 a then 159 else 191) b \<and> byte_in 128 191 c
      | [a, b, c, d] \<Rightarrow> byte_in 240 244 a
          \<and> byte_in (if byte_in 240 240 a then 144 else 128) (if byte_in 244 244 a then 143 else 191) b
          \<and> byte_in 128 191 c \<and> byte_in 128 191 d
      | _ \<Rightarrow> False)"

definition utf8_valid :: "string \<Rightarrow> bool" where
  "utf8_valid s \<longleftrightarrow> list_all code_point (utf8_chars s)"

definition byte_order_mark :: string where
  "byte_order_mark = [CHR 0xEF, CHR 0xBB, CHR 0xBF]"

text \<open>\<open>content.decode("utf-8-sig")\<close>\<close>

definition decode_sig :: "string \<Rightarrow> string option" where
  "decode_sig content =
     (if \<not> utf8_valid content then None
      else Some (if starts_with byte_order_mark content then drop 3 content else content))"

section \<open>Lines\<close>

definition newline :: string where "newline = [CHR 0x0A]"
definition carriage_return :: string where "carriage_return = [CHR 0x0D]"

text \<open>\<open>str.splitlines()\<close>, on code points.\<close>

definition is_line_break :: "string \<Rightarrow> bool" where
  "is_line_break u \<longleftrightarrow>
     (case code_bytes u of
        [a] \<Rightarrow> (10 \<le> a \<and> a \<le> 13) \<or> (28 \<le> a \<and> a \<le> 30)
      | [a, b] \<Rightarrow> a = 194 \<and> b = 133
      | [a, b, c] \<Rightarrow> a = 226 \<and> b = 128 \<and> (c = 168 \<or> c = 169)
      | _ \<Rightarrow> False)"

fun split_lines :: "string list \<Rightarrow> string list \<Rightarrow> string list" where
  "split_lines cur [] = (if cur = [] then [] else [concat (rev cur)])"
| "split_lines cur (u # us) =
     (if is_line_break u
      then concat (rev cur) #
        (case us of
           v # vs \<Rightarrow> if u = carriage_return \<and> v = newline then split_lines [] vs else split_lines [] us
         | [] \<Rightarrow> [])
      else split_lines (u # cur) us)"

definition splitlines :: "string \<Rightarrow> string list" where
  "splitlines s = split_lines [] (utf8_chars s)"

text \<open>The lines of \<open>io.StringIO(decoded, newline="")\<close>, with their ends.\<close>

fun io_lines :: "string list \<Rightarrow> string list \<Rightarrow> string list list" where
  "io_lines cur [] = (if cur = [] then [] else [rev cur])"
| "io_lines cur (u # us) =
     (if u = newline then rev (u # cur) # io_lines [] us
      else if u = carriage_return
      then (case us of
          v # vs \<Rightarrow> if v = newline then rev (v # u # cur) # io_lines [] vs else rev (u # cur) # io_lines [] us
        | [] \<Rightarrow> [rev (u # cur)])
      else io_lines (u # cur) us)"

section \<open>csv.reader, strict\<close>

datatype csv_state = START_RECORD | START_FIELD | IN_FIELD | IN_QUOTED_FIELD | QUOTE_IN_QUOTED_FIELD | EAT_CRNL

text \<open>The state, the field under construction (backwards) and the fields before it (backwards).\<close>

type_synonym csv_reader = "csv_state \<times> string list \<times> string list"

definition csv_field_limit :: nat where "csv_field_limit = 131072"

definition csv_add :: "csv_state \<Rightarrow> string list \<Rightarrow> string list \<Rightarrow> string \<Rightarrow> csv_reader option" where
  "csv_add st field prior u = (if csv_field_limit \<le> length field then None else Some (st, u # field, prior))"

definition csv_save :: "string list \<Rightarrow> string list \<Rightarrow> string list" where
  "csv_save field prior = concat (rev field) # prior"

definition is_break :: "string \<Rightarrow> bool" where
  "is_break u \<longleftrightarrow> u = newline \<or> u = carriage_return"

text \<open>One character; \<open>None\<close> is \<open>csv.Error\<close>.\<close>

fun csv_char :: "csv_reader \<Rightarrow> string \<Rightarrow> csv_reader option" where
  "csv_char (START_RECORD, field, prior) u =
     (if is_break u then Some (EAT_CRNL, field, prior)
      else if u = ''\"'' then Some (IN_QUOTED_FIELD, field, prior)
      else if u = '','' then Some (START_FIELD, [], csv_save field prior)
      else csv_add IN_FIELD field prior u)"
| "csv_char (START_FIELD, field, prior) u =
     (if is_break u then Some (EAT_CRNL, [], csv_save field prior)
      else if u = ''\"'' then Some (IN_QUOTED_FIELD, field, prior)
      else if u = '','' then Some (START_FIELD, [], csv_save field prior)
      else csv_add IN_FIELD field prior u)"
| "csv_char (IN_FIELD, field, prior) u =
     (if is_break u then Some (EAT_CRNL, [], csv_save field prior)
      else if u = '','' then Some (START_FIELD, [], csv_save field prior)
      else csv_add IN_FIELD field prior u)"
| "csv_char (IN_QUOTED_FIELD, field, prior) u =
     (if u = ''\"'' then Some (QUOTE_IN_QUOTED_FIELD, field, prior)
      else csv_add IN_QUOTED_FIELD field prior u)"
| "csv_char (QUOTE_IN_QUOTED_FIELD, field, prior) u =
     (if u = ''\"'' then csv_add IN_QUOTED_FIELD field prior u
      else if u = '','' then Some (START_FIELD, [], csv_save field prior)
      else if is_break u then Some (EAT_CRNL, [], csv_save field prior)
      else None)"
| "csv_char (EAT_CRNL, field, prior) u = (if is_break u then Some (EAT_CRNL, field, prior) else None)"

text \<open>The end of a line.\<close>

fun csv_eol :: "csv_reader \<Rightarrow> csv_reader option" where
  "csv_eol (START_RECORD, field, prior) = Some (START_RECORD, field, prior)"
| "csv_eol (START_FIELD, field, prior) = Some (START_RECORD, [], csv_save field prior)"
| "csv_eol (IN_FIELD, field, prior) = Some (START_RECORD, [], csv_save field prior)"
| "csv_eol (IN_QUOTED_FIELD, field, prior) = Some (IN_QUOTED_FIELD, field, prior)"
| "csv_eol (QUOTE_IN_QUOTED_FIELD, field, prior) = Some (START_RECORD, [], csv_save field prior)"
| "csv_eol (EAT_CRNL, field, prior) = Some (START_RECORD, field, prior)"

fun csv_line :: "csv_reader \<Rightarrow> string list \<Rightarrow> csv_reader option" where
  "csv_line r [] = csv_eol r"
| "csv_line r (u # us) = (case csv_char r u of None \<Rightarrow> None | Some r \<Rightarrow> csv_line r us)"

text \<open>The records; an unfinished quoted field at the end of the data is an error.\<close>

fun csv_records :: "csv_reader \<Rightarrow> string list list \<Rightarrow> string list list option" where
  "csv_records (st, field, prior) [] = (if st = IN_QUOTED_FIELD then None else Some [])"
| "csv_records r (line # lines) =
     (case csv_line r line of
        None \<Rightarrow> None
      | Some (st, field, prior) \<Rightarrow>
          if st = START_RECORD then map_option (\<lambda>rows. rev prior # rows) (csv_records (START_RECORD, [], []) lines)
          else csv_records (st, field, prior) lines)"

definition csv_rows :: "string \<Rightarrow> string list list option" where
  "csv_rows decoded = csv_records (START_RECORD, [], []) (io_lines [] (utf8_chars decoded))"

section \<open>Uploads\<close>

datatype corpus_file_format = TXT_FILE | CSV_FILE | JSON_FILE

record corpus_upload =
  cu_filename :: string
  cu_content_type :: string
  cu_format :: corpus_file_format
  cu_content :: string
  cu_text_column :: "string option"

fun file_extension :: "corpus_file_format \<Rightarrow> string" where
  "file_extension TXT_FILE = ''.txt''"
| "file_extension CSV_FILE = ''.csv''"
| "file_extension JSON_FILE = ''.json''"

fun format_media_types :: "corpus_file_format \<Rightarrow> string list" where
  "format_media_types TXT_FILE = [''text/plain'']"
| "format_media_types CSV_FILE = [''text/csv'', ''application/csv'']"
| "format_media_types JSON_FILE = [''application/json'']"

text \<open>\<open>PurePath(filename.replace("\\", "/")).name\<close> on POSIX.\<close>

definition path_name :: "string \<Rightarrow> string" where
  "path_name filename =
     (let parts = filter (\<lambda>p. p \<noteq> [] \<and> p \<noteq> ''.'')
        (split_on CHR ''/'' [] (map (\<lambda>c. if c = CHR 0x5C then CHR ''/'' else c) filename)) in
      if parts = [] then [] else last parts)"

definition ends_with :: "string \<Rightarrow> string \<Rightarrow> bool" where
  "ends_with suffix s \<longleftrightarrow> starts_with (rev suffix) (rev s)"

text \<open>\<open>csv.DictReader\<close>: the header, then the rows that are not empty, each with the value of the column.\<close>

definition column_index :: "string \<Rightarrow> string list \<Rightarrow> nat" where
  "column_index column headers = length (takeWhile (\<lambda>h. h \<noteq> column) headers)"

definition csv_column :: "nat \<Rightarrow> nat \<Rightarrow> string list \<Rightarrow> string option" where
  "csv_column width i row = (if width < length row \<or> length row \<le> i then None else Some (row ! i))"

fun all_some :: "'a option list \<Rightarrow> 'a list option" where
  "all_some [] = Some []"
| "all_some (None # xs) = None"
| "all_some (Some x # xs) = map_option ((#) x) (all_some xs)"

definition parse_csv :: "string \<Rightarrow> string \<Rightarrow> string \<Rightarrow> exn + string list" where
  "parse_csv operation text_column decoded =
     require (InvalidRequestError operation)
       (case csv_rows decoded of
          Some (headers # rows) \<Rightarrow>
            if headers = [] \<or> \<not> distinct headers \<or> list_ex (\<lambda>h. h = [] \<or> list_ex is_control_char h) headers
              \<or> text_column \<notin> set headers
            then None
            else all_some (map (csv_column (length headers) (column_index text_column headers)) (filter (\<lambda>row. row \<noteq> []) rows))
        | _ \<Rightarrow> None)"

definition parse_json :: "string \<Rightarrow> (string \<Rightarrow> json option) \<Rightarrow> string \<Rightarrow> exn + string list" where
  "parse_json operation loads decoded =
     require (InvalidRequestError operation)
       (case loads decoded of
          Some (JObj [(key, JList values)]) \<Rightarrow>
            if key = ''sentences'' then all_some (map (\<lambda>v. case v of JStr s \<Rightarrow> Some s | _ \<Rightarrow> None) values) else None
        | _ \<Rightarrow> None)"

definition parse_corpus_upload :: "string \<Rightarrow> (string \<Rightarrow> json option) \<Rightarrow> corpus_upload \<Rightarrow> exn + string list" where
  "parse_corpus_upload operation loads up =
     (let refuse = InvalidRequestError operation; filename = path_name (cu_filename up) in
      bindr (ensure (filename \<noteq> [] \<and> \<not> list_ex is_control_char filename
        \<and> ends_with (file_extension (cu_format up)) (str_lower filename)) refuse) (\<lambda>_.
      let media_type = str_lower (str_strip (takeWhile (\<lambda>c. c \<noteq> CHR '';'') (cu_content_type up))) in
      bindr (ensure (media_type \<in> set (format_media_types (cu_format up))) refuse) (\<lambda>_.
      bindr (require refuse (decode_sig (cu_content up))) (\<lambda>decoded.
      case cu_format up of
        TXT_FILE \<Rightarrow> bindr (ensure (cu_text_column up = None) refuse) (\<lambda>_. Inr (splitlines decoded))
      | CSV_FILE \<Rightarrow>
          bindr (require refuse (cu_text_column up)) (\<lambda>text_column.
          bindr (ensure (\<not> list_ex is_control_char text_column) refuse) (\<lambda>_.
          parse_csv operation text_column decoded))
      | JSON_FILE \<Rightarrow> bindr (ensure (cu_text_column up = None) refuse) (\<lambda>_. parse_json operation loads decoded)))))"

section \<open>Exports\<close>

definition csv_formula_prefixes :: "char list" where
  "csv_formula_prefixes = [CHR ''='', CHR ''+'', CHR ''-'', CHR ''@'', CHR 0x09, CHR 0x0D]"

definition neutralize_csv_formula :: "string \<Rightarrow> string" where
  "neutralize_csv_formula value =
     (case value of c # _ \<Rightarrow> if c \<in> set csv_formula_prefixes then CHR 0x27 # value else value | [] \<Rightarrow> value)"

text \<open>\<open>csv.writer(output, lineterminator="\n")\<close>: a field is quoted when it needs to be.\<close>

definition csv_field :: "string \<Rightarrow> string" where
  "csv_field value =
     (if list_ex (\<lambda>c. c \<in> set [CHR '','', CHR 0x22, CHR 0x0A, CHR 0x0D]) value
      then [CHR 0x22] @ concat (map (\<lambda>c. if c = CHR 0x22 then [c, c] else [c]) value) @ [CHR 0x22]
      else value)"

definition csv_row :: "string list \<Rightarrow> string" where
  "csv_row values = join_with '','' (map csv_field values) @ [CHR 0x0A]"

definition csv_export :: "(int \<times> string) list \<Rightarrow> string" where
  "csv_export sentences = csv_row [''ordinal'', ''text'']
     @ concat (map (\<lambda>(ordinal, text). csv_row [int_string ordinal, neutralize_csv_formula text]) sentences)"

definition txt_export :: "string list \<Rightarrow> string" where
  "txt_export texts = join_with [CHR 0x0A] texts @ [CHR 0x0A]"

record version_snapshot =
  vs_id :: uuid
  vs_corpus :: uuid
  vs_parent :: "uuid option"
  vs_number :: int
  vs_language :: string
  vs_sentence_count :: int
  vs_content_sha256 :: string
  vs_corpusgen_version :: string
  vs_created_at :: time

record sentence_snapshot =
  ss_ordinal :: int
  ss_original_text :: string
  ss_normalized_text :: string

datatype export_format = TXT_EXPORT | JSON_EXPORT | CSV_EXPORT

fun export_format_value :: "export_format \<Rightarrow> string" where
  "export_format_value TXT_EXPORT = ''txt''"
| "export_format_value JSON_EXPORT = ''json''"
| "export_format_value CSV_EXPORT = ''csv''"

fun export_media_type :: "export_format \<Rightarrow> string" where
  "export_media_type TXT_EXPORT = ''text/plain; charset=utf-8''"
| "export_media_type JSON_EXPORT = ''application/json; charset=utf-8''"
| "export_media_type CSV_EXPORT = ''text/csv; charset=utf-8''"

definition export_document :: "uuid \<Rightarrow> string \<Rightarrow> version_snapshot \<Rightarrow> sentence_snapshot list \<Rightarrow> json" where
  "export_document corpus_id corpus_name version ordered = JObj
     [(''corpus'', JObj [(''id'', JStr (uuid_str corpus_id)), (''name'', JStr corpus_name)]),
      (''schema_version'', JStr ''corpuskit.corpus-export.v1''),
      (''sentences'', JList (map (\<lambda>x. JObj [(''ordinal'', JInt (ss_ordinal x)), (''text'', JStr (ss_normalized_text x))]) ordered)),
      (''version'', JObj [(''content_sha256'', JStr (vs_content_sha256 version)), (''id'', JStr (uuid_str (vs_id version))),
        (''language'', JStr (vs_language version)), (''number'', JInt (vs_number version))])]"

definition export_content :: "uuid \<Rightarrow> string \<Rightarrow> version_snapshot \<Rightarrow> sentence_snapshot list \<Rightarrow> export_format \<Rightarrow> exn + string" where
  "export_content corpus_id corpus_name version ordered format =
     (case format of
        TXT_EXPORT \<Rightarrow> Inr (txt_export (map ss_normalized_text ordered))
      | JSON_EXPORT \<Rightarrow> bindr (dumps (export_document corpus_id corpus_name version ordered)) (\<lambda>text. Inr (text @ [CHR 0x0A]))
      | CSV_EXPORT \<Rightarrow> Inr (csv_export (map (\<lambda>x. (ss_ordinal x, ss_normalized_text x)) ordered)))"

text \<open>\<open>base64.b64encode(bytes.fromhex(sha256))\<close>\<close>

fun hex_bytes :: "string \<Rightarrow> nat list" where
  "hex_bytes (a # b # rest) = (16 * hex_value a + hex_value b) # hex_bytes rest"
| "hex_bytes _ = []"

definition base64_char :: "nat \<Rightarrow> char" where
  "base64_char n = (if n < 26 then char_of (65 + n) else if n < 52 then char_of (97 + (n - 26))
     else if n < 62 then char_of (48 + (n - 52)) else if n = 62 then CHR ''+'' else CHR ''/'')"

fun base64 :: "nat list \<Rightarrow> string" where
  "base64 [] = []"
| "base64 [a] = [base64_char (a div 4), base64_char ((a mod 4) * 16), CHR ''='', CHR ''='']"
| "base64 [a, b] = [base64_char (a div 4), base64_char ((a mod 4) * 16 + b div 16), base64_char ((b mod 16) * 4), CHR ''='']"
| "base64 (a # b # c # rest) = base64_char (a div 4) # base64_char ((a mod 4) * 16 + b div 16)
     # base64_char ((b mod 16) * 4 + c div 64) # base64_char (c mod 64) # base64 rest"

text \<open>Unicode as the download name needs it: NFKC, NFKD and the categories Cc and Cf of a code point.\<close>

record name_tables =
  nt_nfkc :: "string \<Rightarrow> string"
  nt_nfkd :: "string \<Rightarrow> string"
  nt_hidden :: "string \<Rightarrow> bool"

definition dot_or_dash :: "char \<Rightarrow> bool" where
  "dot_or_dash c \<longleftrightarrow> c = CHR ''.'' \<or> c = CHR ''-''"

definition export_names :: "name_tables \<Rightarrow> string \<Rightarrow> int \<Rightarrow> string \<Rightarrow> string \<times> string" where
  "export_names nt name version_number extension =
     (let joined = join_with ''-'' (str_split (nt_nfkc nt name));
          kept = filter (\<lambda>u. u \<notin> set [[CHR 0x22], [CHR 0x27], ''/'', [CHR 0x5C], '';''] \<and> \<not> nt_hidden nt u) (utf8_chars joined);
          stripped = strip_where (\<lambda>u. u = ''.'' \<or> u = ''-'') kept;
          safe_unicode = concat (take 80 (if stripped = [] then [[CHR ''c''], [CHR ''o''], [CHR ''r''], [CHR ''p''], [CHR ''u''], [CHR ''s'']] else stripped));
          unicode_filename = safe_unicode @ ''-v'' @ int_string version_number @ ''.'' @ extension;
          ascii = filter (byte_in 0 127) (nt_nfkd nt safe_unicode);
          stem = strip_where dot_or_dash (replace_unsafe False ascii);
          ascii_stem = (if stem = [] then ''corpus'' else stem);
          filename = take 60 ascii_stem @ ''-v'' @ int_string version_number @ ''.'' @ extension in
      (filename, ''attachment; filename='' @ [CHR 0x22] @ filename @ [CHR 0x22] @ ''; filename*=UTF-8'' @ [CHR 0x27, CHR 0x27]
         @ percent_quote unicode_filename))"

record exported_corpus =
  ex_content :: string
  ex_media_type :: string
  ex_filename :: string
  ex_content_disposition :: string
  ex_sha256 :: string
  ex_content_digest :: string

definition build_export ::
    "(string \<Rightarrow> string) \<Rightarrow> name_tables \<Rightarrow> uuid \<Rightarrow> string \<Rightarrow> version_snapshot \<Rightarrow> sentence_snapshot list \<Rightarrow> export_format
     \<Rightarrow> exn + exported_corpus" where
  "build_export sha nt corpus_id corpus_name version sentences format =
     (let ordered = sort_key ss_ordinal sentences in
      bindr (export_content corpus_id corpus_name version ordered format) (\<lambda>content.
      let sha256 = sha content;
          names = export_names nt corpus_name (vs_number version) (export_format_value format) in
      Inr \<lparr>ex_content = content, ex_media_type = export_media_type format, ex_filename = fst names,
        ex_content_disposition = snd names, ex_sha256 = sha256,
        ex_content_digest = ''sha-256=:'' @ base64 (hex_bytes sha256) @ '':''\<rparr>))"

section \<open>Texts as lists of code points\<close>

lemma code_point_shape:
  assumes "code_point u"
  obtains c cs where "u = c # cs" "\<not> is_continuation c" "list_all is_continuation cs" "byte_in 0 127 c \<longrightarrow> cs = []"
proof -
  have cont: "is_continuation b" if "byte_in (if P then lo else 128) (if Q then hi else 191) b" "128 \<le> lo" "hi \<le> 191" for P Q lo hi b
    using that by (auto simp: byte_in_def is_continuation_def split: if_splits)
  have lead: "byte_in 0 127 c \<Longrightarrow> \<not> is_continuation c" "byte_in 194 223 c \<Longrightarrow> \<not> is_continuation c \<and> \<not> byte_in 0 127 c"
    "byte_in 224 239 c \<Longrightarrow> \<not> is_continuation c \<and> \<not> byte_in 0 127 c" "byte_in 240 244 c \<Longrightarrow> \<not> is_continuation c \<and> \<not> byte_in 0 127 c"
    "byte_in 128 191 c \<longleftrightarrow> is_continuation c" for c
    by (auto simp: byte_in_def is_continuation_def)
  consider a where "u = [a]" "byte_in 0 127 a" | a b where "u = [a, b]" "byte_in 194 223 a" "is_continuation b"
    | a b c where "u = [a, b, c]" "byte_in 224 239 a" "is_continuation b" "is_continuation c"
    | a b c d where "u = [a, b, c, d]" "byte_in 240 244 a" "is_continuation b" "is_continuation c" "is_continuation d"
    using assms by (auto simp: code_point_def lead(5) split: list.splits dest: cont)
  then show thesis using lead that by cases auto
qed

lemma code_point_ne: "code_point u \<Longrightarrow> u \<noteq> []"
  by (auto elim: code_point_shape)

lemma code_points_text: "list_all code_point us \<Longrightarrow> utf8_chars (concat us) = us"
proof (induction us)
  case (Cons u us)
  from Cons.prems obtain c cs where u: "u = c # cs" "list_all is_continuation cs"
    by (auto elim: code_point_shape)
  have r: "takeWhile is_continuation (concat us) = [] \<and> dropWhile is_continuation (concat us) = concat us"
  proof (cases us)
    case (Cons v vs)
    with \<open>list_all code_point (u # us)\<close> obtain d ds where "v = d # ds" "\<not> is_continuation d" by (auto elim: code_point_shape)
    with Cons show ?thesis by simp
  qed simp
  have "takeWhile is_continuation (cs @ concat us) = cs" "dropWhile is_continuation (cs @ concat us) = concat us"
    using u(2) r by (induction cs) auto
  with Cons u(1) show ?case by (simp add: utf8_chars.simps(2))
qed simp

lemma code_points_valid: "list_all code_point us \<Longrightarrow> utf8_valid (concat us)"
  by (simp add: utf8_valid_def code_points_text)

lemma ascii_code_point: "code_point u \<Longrightarrow> c \<in> set u \<Longrightarrow> byte_in 0 127 c \<Longrightarrow> u = [c]"
proof -
  assume u: "code_point u" "c \<in> set u" "byte_in 0 127 c"
  from u(3) have "\<not> is_continuation c" by (simp add: byte_in_def is_continuation_def)
  with u show ?thesis by (auto elim!: code_point_shape simp: list_all_iff)
qed

lemma code_point_ascii: "byte_in 0 127 c \<Longrightarrow> code_point [c]"
  by (simp add: code_point_def)

section \<open>Normalised sentences\<close>

fun spaced :: "string list list \<Rightarrow> string list" where
  "spaced [] = []"
| "spaced [w] = w"
| "spaced (w # ws) = w @ '' '' # spaced ws"

definition is_word :: "string list \<Rightarrow> bool" where
  "is_word w \<longleftrightarrow> w \<noteq> [] \<and> list_all (\<lambda>u. code_point u \<and> \<not> is_space u) w"

lemma is_space_blank [simp]: "is_space '' ''"
  by (simp add: is_space_def code_bytes_def)

lemma line_break_space: "is_line_break u \<Longrightarrow> is_space u"
  by (auto simp: is_line_break_def is_space_def split: list.splits)

lemma blank_no_line_break: "\<not> is_line_break '' ''"
  by (simp add: is_line_break_def code_bytes_def)

lemma split_words_append: "list_all (\<lambda>u. \<not> is_space u) w \<Longrightarrow> split_words cur (w @ us) = split_words (rev w @ cur) us"
  by (induction w arbitrary: cur) simp_all

lemma split_words_spaced: "list_all is_word ws \<Longrightarrow> split_words [] (spaced ws) = map concat ws"
proof (induction ws rule: spaced.induct)
  case (2 w)
  then show ?case using split_words_append [of w "[]" "[]"] by (auto simp: is_word_def list_all_iff)
next
  case (3 w v vs)
  then show ?case using split_words_append [of w "[]" "'' '' # spaced (v # vs)"] by (auto simp: is_word_def list_all_iff)
qed simp

lemma join_words: "join_with '' '' (map concat ws) = concat (spaced ws)"
  by (induction ws rule: spaced.induct) simp_all

lemma split_words_words:
  "list_all (\<lambda>u. code_point u \<and> \<not> is_space u) cur \<Longrightarrow> list_all code_point us \<Longrightarrow>
     \<exists>ws. split_words cur us = map concat ws \<and> list_all is_word ws"
proof (induction cur us rule: split_words.induct)
  case (1 cur)
  then show ?case
    by (cases "cur = []") (auto intro: exI [of _ "[]"] exI [of _ "[rev cur]"] simp: is_word_def list_all_iff)
next
  case (2 cur u us)
  show ?case
  proof (cases "is_space u")
    case False
    with 2 show ?thesis by simp
  next
    case True
    then obtain ws where ws: "split_words [] us = map concat ws" "list_all is_word ws" using 2 by (cases "cur = []") auto
    show ?thesis
    proof (cases "cur = []")
      case True
      with ws \<open>is_space u\<close> show ?thesis by auto
    next
      case False
      with ws \<open>is_space u\<close> 2(4) show ?thesis by (intro exI [of _ "rev cur # ws"]) (auto simp: is_word_def list_all_iff)
    qed
  qed
qed

lemma spaced_code_points:
  "list_all is_word ws \<Longrightarrow> list_all (\<lambda>u. code_point u \<and> \<not> is_line_break u) (spaced ws)"
  by (induction ws rule: spaced.induct)
    (auto simp: is_word_def list_all_iff blank_no_line_break code_point_ascii byte_in_def dest: line_break_space)

lemma normalized_words:
  assumes "utf8_valid (nfc (replace_crlf x))"
  obtains ws where "normalize_sentence nfc x = concat (spaced ws)" "list_all is_word ws"
proof -
  from split_words_words [of "[]" "utf8_chars (nfc (replace_crlf x))"] assms obtain ws where
    "split_words [] (utf8_chars (nfc (replace_crlf x))) = map concat ws" "list_all is_word ws"
    by (auto simp: utf8_valid_def)
  then show thesis using that by (simp add: normalize_sentence_def str_split_def join_words)
qed

lemma replace_crlf_id: "CHR 0x0D \<notin> set s \<Longrightarrow> replace_crlf s = s"
  by (induction s) auto

lemma words_again:
  assumes "list_all is_word ws" and "nfc (concat (spaced ws)) = concat (spaced ws)"
  shows "normalize_sentence nfc (concat (spaced ws)) = concat (spaced ws)"
proof -
  have sp: "list_all (\<lambda>u. code_point u \<and> \<not> is_line_break u) (spaced ws)" by (rule spaced_code_points [OF assms(1)])
  have "CHR 0x0D \<notin> set u" if "u \<in> set (spaced ws)" for u
  proof
    assume "CHR 0x0D \<in> set u"
    with that sp have "u = [CHR 0x0D]" by (auto simp: list_all_iff byte_in_def intro: ascii_code_point)
    with that sp show False by (auto simp: list_all_iff is_line_break_def code_bytes_def)
  qed
  then have "replace_crlf (concat (spaced ws)) = concat (spaced ws)" by (intro replace_crlf_id) auto
  moreover have "utf8_chars (concat (spaced ws)) = spaced ws"
    using sp by (intro code_points_text) (auto simp: list_all_iff)
  ultimately show ?thesis
    using assms by (simp add: normalize_sentence_def str_split_def split_words_spaced join_words)
qed

section \<open>A text export is read back\<close>

definition is_line :: "string \<Rightarrow> bool" where
  "is_line t \<longleftrightarrow> (\<exists>us. t = concat us \<and> list_all (\<lambda>u. code_point u \<and> \<not> is_line_break u) us)"

lemma split_lines_line:
  "list_all (\<lambda>u. \<not> is_line_break u) us \<Longrightarrow> split_lines cur (us @ newline # rest) = concat (rev cur @ us) # split_lines [] rest"
proof (induction us arbitrary: cur)
  case Nil
  have "is_line_break newline" "newline \<noteq> carriage_return"
    by (simp_all add: is_line_break_def newline_def carriage_return_def code_bytes_def)
  then show ?case by (cases rest) simp_all
qed simp

lemma txt_lines:
  assumes "list_all is_line texts" and "texts \<noteq> []"
  shows "utf8_valid (txt_export texts)" and "splitlines (txt_export texts) = texts"
proof -
  have "\<exists>uss. texts = map concat uss \<and> list_all (\<lambda>us. list_all (\<lambda>u. code_point u \<and> \<not> is_line_break u) us) uss"
    using assms(1)
  proof (induction texts)
    case (Cons t ts)
    then obtain us uss where "t = concat us" "list_all (\<lambda>u. code_point u \<and> \<not> is_line_break u) us"
      "ts = map concat uss" "list_all (\<lambda>us. list_all (\<lambda>u. code_point u \<and> \<not> is_line_break u) us) uss"
      by (auto simp: is_line_def)
    then show ?case by (intro exI [of _ "us # uss"]) simp
  qed simp
  then obtain uss where uss: "texts = map concat uss" "list_all (\<lambda>us. list_all (\<lambda>u. code_point u \<and> \<not> is_line_break u) us) uss" by blast
  let ?flat = "concat (map (\<lambda>us. us @ [newline]) uss)"
  have flat: "txt_export texts = concat ?flat"
    using assms(2) unfolding uss(1)
  proof (induction uss)
    case (Cons us uss)
    then show ?case by (cases uss) (simp_all add: txt_export_def newline_def)
  qed simp
  have nl: "code_point newline" by (simp add: newline_def code_point_ascii byte_in_def)
  have cp: "list_all code_point ?flat" using uss(2) nl by (auto simp: list_all_iff)
  show "utf8_valid (txt_export texts)" unfolding flat by (rule code_points_valid [OF cp])
  have "split_lines [] ?flat = map concat uss"
    using uss(2)
  proof (induction uss)
    case (Cons us uss)
    then show ?case using split_lines_line [of us "[]" "concat (map (\<lambda>us. us @ [newline]) uss)"] by (auto simp: list_all_iff)
  qed simp
  then show "splitlines (txt_export texts) = texts"
    unfolding splitlines_def flat code_points_text [OF cp] by (simp add: uss(1))
qed

text \<open>The file a text export is uploaded as.\<close>

definition txt_upload :: "string \<Rightarrow> corpus_upload" where
  "txt_upload content = \<lparr>cu_filename = ''corpus.txt'', cu_content_type = ''text/plain; charset=utf-8'', cu_format = TXT_FILE,
     cu_content = content, cu_text_column = None\<rparr>"

lemma parse_txt_upload:
  "parse_corpus_upload operation loads (txt_upload content) =
     map_sum id splitlines (require (InvalidRequestError operation) (decode_sig content))"
proof -
  have "path_name ''corpus.txt'' = ''corpus.txt''" "\<not> list_ex is_control_char ''corpus.txt''"
    "ends_with ''.txt'' (str_lower ''corpus.txt'')"
    "str_lower (str_strip (takeWhile (\<lambda>c. c \<noteq> CHR '';'') ''text/plain; charset=utf-8'')) = ''text/plain''" by code_simp+
  then show ?thesis
    by (cases "decode_sig content") (simp_all add: parse_corpus_upload_def txt_upload_def Let_def)
qed

lemma prepared_lines:
  assumes "prepare_corpus sha nfc limits request = Inr c" and "\<And>x. utf8_valid x \<Longrightarrow> utf8_valid (nfc x)"
    and "list_all (\<lambda>x. utf8_valid (replace_crlf x)) (ir_sentences request)"
  shows "list_all (\<lambda>t. \<exists>ws. t = concat (spaced ws) \<and> list_all is_word ws) (map pr_normalized_text (pc_sentences c))"
proof -
  have "\<exists>ws. t = concat (spaced ws) \<and> list_all is_word ws" if "t \<in> set (corpus_texts nfc (ir_sentences request))" for t
  proof -
    have "set (first_occurrences seen xs) \<subseteq> set xs" for seen and xs :: "string list"
      by (induction seen xs rule: first_occurrences.induct) auto
    with that obtain x where "x \<in> set (ir_sentences request)" "t = normalize_sentence nfc x" by (fastforce simp: corpus_texts_def)
    with assms(2,3) show ?thesis by (metis (no_types, lifting) list_all_iff normalized_words)
  qed
  then show ?thesis by (simp add: prepare_corpus_cases(2) [OF assms(1)] list_all_iff)
qed

lemma first_occurrences_distinct: "distinct xs \<Longrightarrow> set seen \<inter> set xs = {} \<Longrightarrow> first_occurrences seen xs = xs"
  by (induction seen xs rule: first_occurrences.induct) auto

lemma prepare_sentences_again:
  "list_all (\<lambda>t. t \<noteq> [] \<and> normalize_sentence nfc t = t \<and> str_len t \<le> m) texts \<Longrightarrow>
   distinct (map pr_normalized_text prepared @ texts) \<Longrightarrow> \<exists>result. prepare_sentences nfc m prepared texts = Inr result"
  by (induction texts arbitrary: prepared) (auto simp: Let_def)

text \<open>
  A prepared corpus exported as text and imported again has the same sentences and the same digest.
\<close>

lemma txt_round_trip:
  assumes prep: "prepare_corpus sha nfc limits request = Inr c"
    and valid: "\<And>x. utf8_valid x \<Longrightarrow> utf8_valid (nfc x)" "list_all (\<lambda>x. utf8_valid (replace_crlf x)) (ir_sentences request)"
    and stable: "\<And>p. p \<in> set (pc_sentences c) \<Longrightarrow> nfc (pr_normalized_text p) = pr_normalized_text p"
    and no_mark: "\<not> starts_with byte_order_mark (pr_normalized_text (hd (pc_sentences c)))"
    and texts: "texts = map pr_normalized_text (pc_sentences c)"
  shows "parse_corpus_upload operation loads (txt_upload (txt_export texts)) = Inr texts"
    and "\<exists>c'. prepare_corpus sha nfc limits \<lparr>ir_language = pc_language c, ir_sentences = texts\<rparr> = Inr c'
      \<and> map pr_normalized_text (pc_sentences c') = texts \<and> pc_content_sha256 c' = pc_content_sha256 c"
proof -
  note pc = prepare_corpus_cases [OF prep]
  have words: "list_all (\<lambda>t. \<exists>ws. t = concat (spaced ws) \<and> list_all is_word ws) texts"
    unfolding texts by (rule prepared_lines [OF prep valid])
  have ne: "texts \<noteq> []" using pc(3) by (simp add: texts)
  have lines: "list_all is_line texts"
    using words spaced_code_points unfolding is_line_def list_all_iff by blast
  note tl = txt_lines [OF lines ne]
  have "\<not> starts_with byte_order_mark (txt_export texts)"
  proof -
    obtain t ts where t: "texts = t # ts" using ne by (cases texts) auto
    then have nm: "\<not> starts_with byte_order_mark t" using no_mark pc(3) by (cases "pc_sentences c") (auto simp: texts)
    have "t \<noteq> []" using t pc(6) by (cases "pc_sentences c") (auto simp: texts)
    obtain rest where r: "txt_export texts = t @ CHR 0x0A # rest" using t by (cases ts) (simp_all add: txt_export_def)
    show ?thesis
    proof
      assume "starts_with byte_order_mark (txt_export texts)"
      with r nm \<open>t \<noteq> []\<close> show False
        by (cases t; cases "tl t"; cases "tl (tl t)") (auto simp: byte_order_mark_def)
    qed
  qed
  with tl show parse: "parse_corpus_upload operation loads (txt_upload (txt_export texts)) = Inr texts"
    by (simp add: parse_txt_upload decode_sig_def)
  have dist: "distinct texts"
  proof -
    have "distinct (first_occurrences seen xs)" "set (first_occurrences seen xs) \<inter> set seen = {}" for seen and xs :: "string list"
      by (induction seen xs rule: first_occurrences.induct) auto
    then show ?thesis by (simp add: texts pc(2) corpus_texts_def)
  qed
  have again: "normalize_sentence nfc t = t" if "t \<in> set texts" for t
  proof -
    from words that obtain ws where "t = concat (spaced ws)" "list_all is_word ws" by (auto simp: list_all_iff)
    moreover have "nfc t = t" using that stable by (auto simp: texts)
    ultimately show ?thesis using words_again by simp
  qed
  have bound: "t \<noteq> [] \<and> str_len t \<le> il_max_sentence_characters limits" if "t \<in> set texts" for t
    using that pc(6) by (auto simp: texts list_all_iff)
  from prepare_sentences_again [of nfc "il_max_sentence_characters limits" texts "[]"] again bound dist obtain result where
    result: "prepare_sentences nfc (il_max_sentence_characters limits) [] texts = Inr result" by (auto simp: list_all_iff)
  have "map pr_normalized_text result = first_occurrences [] (filter (\<lambda>t. t \<noteq> []) (map (normalize_sentence nfc) texts))"
    using prepare_sentences_texts [OF result] by simp
  also have "map (normalize_sentence nfc) texts = texts" using again by (simp add: map_idI)
  also have "filter (\<lambda>t. t \<noteq> []) texts = texts" using bound by (auto simp: filter_id_conv)
  also have "first_occurrences [] texts = texts" using dist by (intro first_occurrences_distinct) simp_all
  finally have same: "map pr_normalized_text result = texts" .
  have "length texts \<le> il_max_sentences limits" using pc(4) by (simp add: texts)
  moreover have "result \<noteq> []" using same ne by auto
  moreover obtain encoded where enc: "dumps (corpus_document (ir_language request) texts) = Inr encoded"
    and "pc_content_sha256 c = sha encoded"
    using prep pc(1) by (auto simp: prepare_corpus_def texts)
  ultimately show "\<exists>c'. prepare_corpus sha nfc limits \<lparr>ir_language = pc_language c, ir_sentences = texts\<rparr> = Inr c'
      \<and> map pr_normalized_text (pc_sentences c') = texts \<and> pc_content_sha256 c' = pc_content_sha256 c"
    using result same pc(1) by (simp add: prepare_corpus_def)
qed

end
