(* ===== verification/Workspaces.thy ===== *)
theory Workspaces imports Usage CorpusFiles JobControl begin

text \<open>
  src/corpuskit/services/projects.py and the persistent part of
  src/corpuskit/services/project_workspaces.py: projects, corpora and their immutable versions. Every
  operation is one session of the caller; the identifiers it creates and the time are arguments.
\<close>

section \<open>Settings, inputs and results\<close>

record workspace_config =
  wc_limits :: import_limits
  wc_max_upload_bytes :: nat
  wc_deletion_retention :: time
  wc_loads :: "string \<Rightarrow> json option"
  wc_names :: name_tables

record project_snapshot =
  ps_id :: uuid
  ps_name :: string
  ps_description :: string
  ps_created_at :: time

record corpus_snapshot =
  cs_id :: uuid
  cs_project :: uuid
  cs_name :: string
  cs_created_at :: time

definition project_snapshot_of :: "project \<Rightarrow> project_snapshot" where
  "project_snapshot_of p = \<lparr>ps_id = p_id p, ps_name = p_name p, ps_description = p_description p, ps_created_at = p_created_at p\<rparr>"

definition corpus_snapshot_of :: "corpus \<Rightarrow> corpus_snapshot" where
  "corpus_snapshot_of c = \<lparr>cs_id = c_id c, cs_project = c_project c, cs_name = c_name c, cs_created_at = c_created_at c\<rparr>"

definition version_snapshot_of :: "corpus_version \<Rightarrow> version_snapshot" where
  "version_snapshot_of v = \<lparr>vs_id = v_id v, vs_corpus = v_corpus v, vs_parent = v_parent v, vs_number = v_number v,
     vs_language = v_language v, vs_sentence_count = v_sentence_count v, vs_content_sha256 = v_content_sha256 v,
     vs_corpusgen_version = v_corpusgen_version v, vs_created_at = v_created_at v\<rparr>"

definition sentence_snapshot_of :: "sentence \<Rightarrow> sentence_snapshot" where
  "sentence_snapshot_of x =
     \<lparr>ss_ordinal = s_ordinal x, ss_original_text = s_original_text x, ss_normalized_text = s_normalized_text x\<rparr>"

text \<open>\<open>_label\<close>, \<open>_description\<close> and \<open>_utf8_size\<close>.\<close>

definition label :: "(string \<Rightarrow> string) \<Rightarrow> string \<Rightarrow> string \<Rightarrow> exn + string" where
  "label nfc operation v =
     (let normalized = join_with '' '' (str_split (nfc v)) in
      if normalized = [] \<or> 160 < str_len normalized \<or> list_ex is_control_char normalized
      then Inl (InvalidRequestError operation) else Inr normalized)"

definition description :: "(string \<Rightarrow> string) \<Rightarrow> string \<Rightarrow> string \<Rightarrow> exn + string" where
  "description nfc operation v =
     (let normalized = str_strip (nfc v) in
      if 4000 < str_len normalized \<or> CHR 0x00 \<in> set normalized
      then Inl (InvalidRequestError operation) else Inr normalized)"

definition utf8_size :: "string list \<Rightarrow> nat" where
  "utf8_size values = sum_list (map length values)"

section \<open>Scoped queries\<close>

definition require_project :: "uuid \<Rightarrow> uuid \<Rightarrow> string \<Rightarrow> db \<Rightarrow> exn + project" where
  "require_project org project_id operation s =
     require (ResourceNotFoundError operation)
       (find (\<lambda>p. p_id p = project_id \<and> p_organization p = org \<and> p_lifecycle p = PROJECT_ACTIVE) (projects s))"

definition require_corpus :: "uuid \<Rightarrow> uuid \<Rightarrow> uuid \<Rightarrow> string \<Rightarrow> db \<Rightarrow> exn + corpus" where
  "require_corpus org project_id corpus_id operation s =
     require (ResourceNotFoundError operation)
       (find (\<lambda>c. c_id c = corpus_id \<and> c_organization c = org \<and> c_project c = project_id
          \<and> active_project org project_id s) (corpora s))"

definition get_version :: "uuid \<Rightarrow> uuid \<Rightarrow> uuid \<Rightarrow> uuid \<Rightarrow> string \<Rightarrow> db \<Rightarrow> exn + corpus_version" where
  "get_version org project_id corpus_id version_id operation s =
     require (ResourceNotFoundError operation)
       (find (\<lambda>v. v_id v = version_id \<and> v_organization v = org \<and> v_corpus v = corpus_id
          \<and> list_ex (\<lambda>c. c_id c = v_corpus v \<and> c_organization c = org \<and> c_project c = project_id) (corpora s)
          \<and> active_project org project_id s) (corpus_versions s))"

definition select_projects :: "uuid \<Rightarrow> db \<Rightarrow> project list" where
  "select_projects org s = sort_key (\<lambda>p. (p_created_at p, unat (p_id p)))
     (filter (\<lambda>p. p_organization p = org \<and> p_lifecycle p = PROJECT_ACTIVE) (projects s))"

definition select_corpora :: "uuid \<Rightarrow> uuid \<Rightarrow> db \<Rightarrow> exn + corpus list" where
  "select_corpora org project_id s =
     bindr (require_project org project_id ''list_corpora'' s) (\<lambda>_.
     Inr (sort_key (\<lambda>c. (c_created_at c, unat (c_id c)))
       (filter (\<lambda>c. c_organization c = org \<and> c_project c = project_id) (corpora s))))"

definition select_versions :: "uuid \<Rightarrow> uuid \<Rightarrow> uuid \<Rightarrow> db \<Rightarrow> exn + corpus_version list" where
  "select_versions org project_id corpus_id s =
     bindr (require_corpus org project_id corpus_id ''list_corpus_versions'' s) (\<lambda>_.
     Inr (sort_key (\<lambda>v. (v_number v, unat (v_id v)))
       (filter (\<lambda>v. v_organization v = org \<and> v_corpus v = corpus_id) (corpus_versions s))))"

definition select_sentences :: "uuid \<Rightarrow> uuid \<Rightarrow> uuid \<Rightarrow> uuid \<Rightarrow> nat \<Rightarrow> nat \<Rightarrow> db \<Rightarrow> exn + sentence list" where
  "select_sentences org project_id corpus_id version_id offset limit s =
     bindr (get_version org project_id corpus_id version_id ''list_sentences'' s) (\<lambda>_.
     Inr (take limit (drop offset (sort_key s_ordinal
       (filter (\<lambda>x. s_organization x = org \<and> s_version x = version_id) (sentences s))))))"

section \<open>Inserting projects, corpora and versions\<close>

definition is_integrity_error :: "exn \<Rightarrow> bool" where
  "is_integrity_error e \<longleftrightarrow> e = IntegrityError"

definition insert_project :: "time \<Rightarrow> uuid \<Rightarrow> uuid \<Rightarrow> uuid \<Rightarrow> string \<Rightarrow> string \<Rightarrow> db \<Rightarrow> exn + project \<times> db" where
  "insert_project now pid org user_id name descr s =
     (let normalized = str_strip name;
          row = \<lparr>p_id = pid, p_organization = org, p_created_by = user_id, p_name = normalized,
            p_description = str_strip descr, p_lifecycle = PROJECT_ACTIVE, p_deletion_requested_at = None,
            p_deletion_retention_until = None, p_deletion_corpus_sentences = None, p_created_at = now\<rparr> in
      bindr (ensure (normalized \<noteq> []) (ValueError ''project name must not be blank'')) (\<lambda>_.
      bindr (reraise is_integrity_error (ResourceConflictError ''create_project'')
        (insert_row projects_ok row (projects s))) (\<lambda>rows.
      Inr (row, s\<lparr>projects := rows\<rparr>))))"

definition new_version ::
    "time \<Rightarrow> uuid \<Rightarrow> uuid \<Rightarrow> uuid \<Rightarrow> uuid \<Rightarrow> uuid option \<Rightarrow> int \<Rightarrow> prepared_corpus \<Rightarrow> corpus_version" where
  "new_version now vid org user_id corpus_id parent number prepared =
     \<lparr>v_id = vid, v_organization = org, v_corpus = corpus_id, v_parent = parent, v_created_by = user_id, v_number = number,
      v_language = pc_language prepared, v_sentence_count = int (length (pc_sentences prepared)),
      v_content_sha256 = pc_content_sha256 prepared, v_corpusgen_version = ''0.1.7'', v_created_at = now\<rparr>"

definition new_sentence :: "uuid \<Rightarrow> uuid \<Rightarrow> prepared_sentence \<Rightarrow> sentence" where
  "new_sentence org vid p =
     \<lparr>s_organization = org, s_version = vid, s_ordinal = int (pr_ordinal p), s_original_text = pr_original_text p,
      s_normalized_text = pr_normalized_text p, s_phonemes = None\<rparr>"

text \<open>A version and its sentences, flushed together.\<close>

definition insert_version :: "string \<Rightarrow> corpus_version \<Rightarrow> prepared_corpus \<Rightarrow> db \<Rightarrow> exn + db" where
  "insert_version operation v prepared s =
     (let rows = sentences s @ map (new_sentence (v_organization v) (v_id v)) (pc_sentences prepared) in
      bindr (reraise is_integrity_error (ResourceConflictError operation)
        (bindr (insert_row corpus_versions_ok v (corpus_versions s)) (\<lambda>versions.
         bindr (ensure (sentences_ok rows) IntegrityError) (\<lambda>_. Inr versions)))) (\<lambda>versions.
      Inr (s\<lparr>corpus_versions := versions, sentences := rows\<rparr>)))"

definition insert_corpus ::
    "time \<Rightarrow> uuid \<Rightarrow> uuid \<Rightarrow> uuid \<Rightarrow> uuid \<Rightarrow> uuid \<Rightarrow> string \<Rightarrow> prepared_corpus \<Rightarrow> db \<Rightarrow> exn + (corpus \<times> corpus_version) \<times> db" where
  "insert_corpus now cid vid org user_id project_id name prepared s =
     bindr (require_project org project_id ''create_corpus'' s) (\<lambda>_.
     let normalized = str_strip name;
         row = \<lparr>c_id = cid, c_organization = org, c_project = project_id, c_created_by = user_id, c_name = normalized,
           c_created_at = now\<rparr>;
         v = new_version now vid org user_id cid None 1 prepared in
     bindr (ensure (normalized \<noteq> []) (ValueError ''corpus name must not be blank'')) (\<lambda>_.
     bindr (reraise is_integrity_error (ResourceConflictError ''create_corpus'')
       (insert_row corpora_ok row (corpora s))) (\<lambda>rows.
     bindr (insert_version ''create_corpus'' v prepared (s\<lparr>corpora := rows\<rparr>)) (\<lambda>s.
     Inr ((row, v), s)))))"

definition append_version ::
    "time \<Rightarrow> uuid \<Rightarrow> uuid \<Rightarrow> uuid \<Rightarrow> uuid \<Rightarrow> uuid \<Rightarrow> prepared_corpus \<Rightarrow> string \<Rightarrow> db \<Rightarrow> exn + corpus_version \<times> db" where
  "append_version now vid org user_id project_id corpus_id prepared operation s =
     bindr (require_project org project_id operation s) (\<lambda>_.
     bindr (require_corpus org project_id corpus_id operation s) (\<lambda>corpus.
     bindr (require (ResourceConflictError operation) (latest_by (\<lambda>v. (v_number v, unat (v_id v)))
       (filter (\<lambda>v. v_organization v = org \<and> v_corpus v = c_id corpus) (corpus_versions s)))) (\<lambda>latest.
     let v = new_version now vid org user_id (c_id corpus) (Some (v_id latest)) (v_number latest + 1) prepared in
     bindr (insert_version operation v prepared s) (\<lambda>s. Inr (v, s)))))"

section \<open>The workspace service\<close>

definition workspace_actor :: "actor \<Rightarrow> db \<Rightarrow> exn + uuid \<times> role" where
  "workspace_actor a s = find_member ''workspace.identity'' a s"

definition in_workspace :: "runtime \<Rightarrow> actor \<Rightarrow> (tenant_context \<Rightarrow> db \<Rightarrow> exn + 'a \<times> db) \<Rightarrow> db \<Rightarrow> (exn + 'a) \<times> db" where
  "in_workspace rt a body s = in_session rt (user_context (ac_organization a) (ac_subject a)) body s"

definition create_project_body ::
    "runtime \<Rightarrow> time \<Rightarrow> uuid \<Rightarrow> actor \<Rightarrow> string \<Rightarrow> string \<Rightarrow> tenant_context \<Rightarrow> db \<Rightarrow> exn + project_snapshot \<times> db" where
  "create_project_body rt now pid a name descr c s =
     bindr (workspace_actor a s) (\<lambda>(user_id, role).
     bindr (require_writer role ''project.create'') (\<lambda>_.
     bindr (insert_project now pid (ac_organization a) user_id name descr s) (\<lambda>(project, s).
     bindr (audit_append rt c now (ac_organization a) (audit_user user_id) PROJECT_CREATED PROJECT_RESOURCE (p_id project)
       (ac_request_id a) [] s) (\<lambda>s.
     Inr (project_snapshot_of project, s)))))"

definition create_project :: "runtime \<Rightarrow> time \<Rightarrow> uuid \<Rightarrow> actor \<Rightarrow> string \<Rightarrow> string \<Rightarrow> db \<Rightarrow> (exn + project_snapshot) \<times> db" where
  "create_project rt now pid a name descr s =
     (case bindr (label (rt_nfc rt) ''project.create'' name) (\<lambda>n.
        bindr (description (rt_nfc rt) ''project.create'' descr) (\<lambda>d. Inr (n, d))) of
        Inl e \<Rightarrow> (Inl e, s)
      | Inr (n, d) \<Rightarrow> in_workspace rt a (create_project_body rt now pid a n d) s)"

definition prepare_import :: "runtime \<Rightarrow> workspace_config \<Rightarrow> string \<Rightarrow> string list \<Rightarrow> string \<Rightarrow> exn + prepared_corpus" where
  "prepare_import rt cfg language texts operation =
     reraise is_type_or_value_error (InvalidRequestError operation)
       (bindr (make_import_request language texts) (\<lambda>request. prepare_corpus (rt_sha rt) (rt_nfc rt) (wc_limits cfg) request))"

record corpus_creation =
  cc_corpus :: corpus_snapshot
  cc_version :: version_snapshot

definition persist_corpus_body ::
    "runtime \<Rightarrow> time \<Rightarrow> uuid \<Rightarrow> uuid \<Rightarrow> actor \<Rightarrow> uuid \<Rightarrow> string \<Rightarrow> prepared_corpus \<Rightarrow> tenant_context \<Rightarrow> db
     \<Rightarrow> exn + corpus_creation \<times> db" where
  "persist_corpus_body rt now cid vid a project_id name prepared c s =
     (let org = ac_organization a in
      bindr (workspace_actor a s) (\<lambda>(user_id, role).
      bindr (require_writer role ''corpus.create'') (\<lambda>_.
      bindr (consume_corpus_sentences rt c now org (int (length (pc_sentences prepared))) ''corpus.create'' s) (\<lambda>s.
      bindr (insert_corpus now cid vid org user_id project_id name prepared s) (\<lambda>((corpus, v), s).
      bindr (audit_append rt c now org (audit_user user_id) CORPUS_CREATED CORPUS_RESOURCE (c_id corpus) (ac_request_id a)
        [(''content_sha256'', JStr (v_content_sha256 v)), (''language'', JStr (v_language v)),
         (''sentence_count'', JInt (v_sentence_count v))] s) (\<lambda>s.
      Inr (\<lparr>cc_corpus = corpus_snapshot_of corpus, cc_version = version_snapshot_of v\<rparr>, s)))))))"

definition persist_corpus ::
    "runtime \<Rightarrow> time \<Rightarrow> uuid \<Rightarrow> uuid \<Rightarrow> actor \<Rightarrow> uuid \<Rightarrow> string \<Rightarrow> prepared_corpus \<Rightarrow> db \<Rightarrow> (exn + corpus_creation) \<times> db" where
  "persist_corpus rt now cid vid a project_id name prepared s =
     (case label (rt_nfc rt) ''corpus.create'' name of
        Inl e \<Rightarrow> (Inl e, s)
      | Inr safe_name \<Rightarrow> in_workspace rt a (persist_corpus_body rt now cid vid a project_id safe_name prepared) s)"

definition persist_version_body ::
    "runtime \<Rightarrow> time \<Rightarrow> uuid \<Rightarrow> actor \<Rightarrow> uuid \<Rightarrow> uuid \<Rightarrow> prepared_corpus \<Rightarrow> string \<Rightarrow> tenant_context \<Rightarrow> db
     \<Rightarrow> exn + version_snapshot \<times> db" where
  "persist_version_body rt now vid a project_id corpus_id prepared operation c s =
     (let org = ac_organization a in
      bindr (workspace_actor a s) (\<lambda>(user_id, role).
      bindr (require_writer role operation) (\<lambda>_.
      bindr (consume_corpus_sentences rt c now org (int (length (pc_sentences prepared))) operation s) (\<lambda>s.
      bindr (append_version now vid org user_id project_id corpus_id prepared operation s) (\<lambda>(v, s).
      bindr (audit_append rt c now org (audit_user user_id) CORPUS_VERSION_CREATED CORPUS_RESOURCE corpus_id (ac_request_id a)
        [(''content_sha256'', JStr (v_content_sha256 v)), (''language'', JStr (v_language v)),
         (''parent_version_id'', JStr (case v_parent v of None \<Rightarrow> ''None'' | Some p \<Rightarrow> uuid_str p)),
         (''sentence_count'', JInt (v_sentence_count v)), (''version_number'', JInt (v_number v))] s) (\<lambda>s.
      Inr (version_snapshot_of v, s)))))))"

definition persist_version ::
    "runtime \<Rightarrow> time \<Rightarrow> uuid \<Rightarrow> actor \<Rightarrow> uuid \<Rightarrow> uuid \<Rightarrow> prepared_corpus \<Rightarrow> string \<Rightarrow> db \<Rightarrow> (exn + version_snapshot) \<times> db" where
  "persist_version rt now vid a project_id corpus_id prepared operation s =
     in_workspace rt a (persist_version_body rt now vid a project_id corpus_id prepared operation) s"

text \<open>The sentences a request brings: typed in, or read from a file.\<close>

definition manual_import :: "runtime \<Rightarrow> workspace_config \<Rightarrow> string \<Rightarrow> string list \<Rightarrow> string \<Rightarrow> exn + prepared_corpus" where
  "manual_import rt cfg language texts operation =
     bindr (ensure (utf8_size texts \<le> wc_max_upload_bytes cfg) (InvalidRequestError operation)) (\<lambda>_.
     prepare_import rt cfg language texts operation)"

definition file_import :: "runtime \<Rightarrow> workspace_config \<Rightarrow> string \<Rightarrow> corpus_upload \<Rightarrow> string \<Rightarrow> exn + prepared_corpus" where
  "file_import rt cfg language upload operation =
     bindr (ensure (cu_content upload \<noteq> [] \<and> length (cu_content upload) \<le> wc_max_upload_bytes cfg)
       (InvalidRequestError operation)) (\<lambda>_.
     bindr (parse_corpus_upload operation (wc_loads cfg) upload) (\<lambda>texts.
     prepare_import rt cfg language texts operation))"

definition create_manual_corpus ::
    "runtime \<Rightarrow> workspace_config \<Rightarrow> time \<Rightarrow> uuid \<Rightarrow> uuid \<Rightarrow> actor \<Rightarrow> uuid \<Rightarrow> string \<Rightarrow> string \<Rightarrow> string list \<Rightarrow> db
     \<Rightarrow> (exn + corpus_creation) \<times> db" where
  "create_manual_corpus rt cfg now cid vid a project_id name language texts s =
     (case manual_import rt cfg language texts ''corpus.create'' of
        Inl e \<Rightarrow> (Inl e, s) | Inr prepared \<Rightarrow> persist_corpus rt now cid vid a project_id name prepared s)"

definition import_corpus ::
    "runtime \<Rightarrow> workspace_config \<Rightarrow> time \<Rightarrow> uuid \<Rightarrow> uuid \<Rightarrow> actor \<Rightarrow> uuid \<Rightarrow> string \<Rightarrow> string \<Rightarrow> corpus_upload \<Rightarrow> db
     \<Rightarrow> (exn + corpus_creation) \<times> db" where
  "import_corpus rt cfg now cid vid a project_id name language upload s =
     (case file_import rt cfg language upload ''corpus.import'' of
        Inl e \<Rightarrow> (Inl e, s) | Inr prepared \<Rightarrow> persist_corpus rt now cid vid a project_id name prepared s)"

definition create_manual_version ::
    "runtime \<Rightarrow> workspace_config \<Rightarrow> time \<Rightarrow> uuid \<Rightarrow> actor \<Rightarrow> uuid \<Rightarrow> uuid \<Rightarrow> string \<Rightarrow> string list \<Rightarrow> db
     \<Rightarrow> (exn + version_snapshot) \<times> db" where
  "create_manual_version rt cfg now vid a project_id corpus_id language texts s =
     (case manual_import rt cfg language texts ''corpus.version.create'' of
        Inl e \<Rightarrow> (Inl e, s) | Inr prepared \<Rightarrow> persist_version rt now vid a project_id corpus_id prepared ''corpus.version.create'' s)"

definition import_version ::
    "runtime \<Rightarrow> workspace_config \<Rightarrow> time \<Rightarrow> uuid \<Rightarrow> actor \<Rightarrow> uuid \<Rightarrow> uuid \<Rightarrow> string \<Rightarrow> corpus_upload \<Rightarrow> db
     \<Rightarrow> (exn + version_snapshot) \<times> db" where
  "import_version rt cfg now vid a project_id corpus_id language upload s =
     (case file_import rt cfg language upload ''corpus.version.import'' of
        Inl e \<Rightarrow> (Inl e, s) | Inr prepared \<Rightarrow> persist_version rt now vid a project_id corpus_id prepared ''corpus.version.import'' s)"

section \<open>Reading a workspace\<close>

definition read_workspace :: "runtime \<Rightarrow> actor \<Rightarrow> (db \<Rightarrow> exn + 'a) \<Rightarrow> db \<Rightarrow> exn + 'a" where
  "read_workspace rt a query s =
     fst (in_workspace rt a (\<lambda>c s. bindr (workspace_actor a s) (\<lambda>_. bindr (query s) (\<lambda>x. Inr (x, s)))) s)"

definition list_projects :: "runtime \<Rightarrow> actor \<Rightarrow> db \<Rightarrow> exn + project_snapshot list" where
  "list_projects rt a = read_workspace rt a (\<lambda>s. Inr (map project_snapshot_of (select_projects (ac_organization a) s)))"

definition list_corpora :: "runtime \<Rightarrow> actor \<Rightarrow> uuid \<Rightarrow> db \<Rightarrow> exn + corpus_snapshot list" where
  "list_corpora rt a project_id = read_workspace rt a (\<lambda>s.
     bindr (select_corpora (ac_organization a) project_id s) (\<lambda>rows. Inr (map corpus_snapshot_of rows)))"

definition list_versions :: "runtime \<Rightarrow> actor \<Rightarrow> uuid \<Rightarrow> uuid \<Rightarrow> db \<Rightarrow> exn + version_snapshot list" where
  "list_versions rt a project_id corpus_id = read_workspace rt a (\<lambda>s.
     bindr (select_versions (ac_organization a) project_id corpus_id s) (\<lambda>rows. Inr (map version_snapshot_of rows)))"

definition list_sentences :: "runtime \<Rightarrow> actor \<Rightarrow> uuid \<Rightarrow> uuid \<Rightarrow> uuid \<Rightarrow> nat \<Rightarrow> nat \<Rightarrow> db \<Rightarrow> exn + sentence_snapshot list" where
  "list_sentences rt a project_id corpus_id version_id offset limit = read_workspace rt a (\<lambda>s.
     bindr (select_sentences (ac_organization a) project_id corpus_id version_id offset limit s) (\<lambda>rows.
     Inr (map sentence_snapshot_of rows)))"

definition export_version ::
    "runtime \<Rightarrow> workspace_config \<Rightarrow> actor \<Rightarrow> uuid \<Rightarrow> uuid \<Rightarrow> uuid \<Rightarrow> export_format \<Rightarrow> db \<Rightarrow> exn + exported_corpus" where
  "export_version rt cfg a project_id corpus_id version_id format = read_workspace rt a (\<lambda>s.
     bindr (require_corpus (ac_organization a) project_id corpus_id ''corpus.export'' s) (\<lambda>corpus.
     bindr (get_version (ac_organization a) project_id corpus_id version_id ''corpus.export'' s) (\<lambda>v.
     bindr (select_sentences (ac_organization a) project_id corpus_id version_id 0 (nat (v_sentence_count v)) s) (\<lambda>rows.
     build_export (rt_sha rt) (wc_names cfg) (c_id corpus) (c_name corpus) (version_snapshot_of v)
       (map sentence_snapshot_of rows) format))))"

end
