(* ===== verification/WorkspaceInvariant.thy ===== *)
theory WorkspaceInvariant imports Workspaces begin

text \<open>
  What holds of the workspace tables: every row belongs to the tenant of its parent, every version has
  exactly its sentences, in order, under its digest, the versions of a corpus are numbered and linked,
  the sentence counter of an organization is the number of its rows, and so is what a pending project
  recorded. The operations of the workspace service keep it.
\<close>

section \<open>The invariant\<close>

definition corpus_placed :: "db \<Rightarrow> corpus \<Rightarrow> bool" where
  "corpus_placed s c \<longleftrightarrow> (\<exists>p \<in> set (projects s). p_id p = c_project c \<and> p_organization p = c_organization c)"

definition version_placed :: "db \<Rightarrow> corpus_version \<Rightarrow> bool" where
  "version_placed s v \<longleftrightarrow> (\<exists>c \<in> set (corpora s). c_id c = v_corpus v \<and> c_organization c = v_organization v)"

definition sentence_placed :: "db \<Rightarrow> sentence \<Rightarrow> bool" where
  "sentence_placed s x \<longleftrightarrow> (\<exists>v \<in> set (corpus_versions s). v_id v = s_version x \<and> v_organization v = s_organization x)"

definition sentences_of :: "uuid \<Rightarrow> db \<Rightarrow> sentence list" where
  "sentences_of version_id s = filter (\<lambda>x. s_version x = version_id) (sentences s)"

definition versions_of :: "uuid \<Rightarrow> db \<Rightarrow> corpus_version list" where
  "versions_of corpus_id s = filter (\<lambda>v. v_corpus v = corpus_id) (corpus_versions s)"

definition version_filled :: "runtime \<Rightarrow> db \<Rightarrow> corpus_version \<Rightarrow> bool" where
  "version_filled rt s v \<longleftrightarrow>
     (let rows = sentences_of (v_id v) s; texts = map s_normalized_text rows in
      v_sentence_count v = int (length rows) \<and> map s_ordinal rows = map int [0..<length rows]
      \<and> v_content_sha256 v = rt_sha rt (encode (canon (corpus_document (v_language v) texts))))"

definition lineage :: "corpus_version list \<Rightarrow> bool" where
  "lineage vs \<longleftrightarrow> vs \<noteq> [] \<and> map v_number vs = map int [1..<Suc (length vs)]
     \<and> map v_parent vs = None # map (Some \<circ> v_id) (butlast vs)"

definition sentences_metered :: "db \<Rightarrow> bool" where
  "sentences_metered s \<longleftrightarrow> (\<forall>org. used_corpus_sentences (usage_of org s) =
     int (count_where (\<lambda>x. s_organization x = org) (sentences s)))"

text \<open>The rows of a project, by the links alone.\<close>

definition corpus_in :: "uuid \<Rightarrow> uuid \<Rightarrow> db \<Rightarrow> uuid \<Rightarrow> bool" where
  "corpus_in org project_id s i \<longleftrightarrow>
     (\<exists>c \<in> set (corpora s). c_id c = i \<and> c_organization c = org \<and> c_project c = project_id)"

definition sentence_in :: "uuid \<Rightarrow> uuid \<Rightarrow> db \<Rightarrow> sentence \<Rightarrow> bool" where
  "sentence_in org project_id s x \<longleftrightarrow> s_organization x = org
     \<and> (\<exists>v \<in> set (corpus_versions s). v_id v = s_version x \<and> v_organization v = org \<and> corpus_in org project_id s (v_corpus v))"

definition sentences_in :: "uuid \<Rightarrow> uuid \<Rightarrow> db \<Rightarrow> int" where
  "sentences_in org project_id s = int (count_where (sentence_in org project_id s) (sentences s))"

definition pending_counted :: "db \<Rightarrow> bool" where
  "pending_counted s \<longleftrightarrow> (\<forall>p \<in> set (projects s). p_lifecycle p = DELETION_PENDING \<longrightarrow>
     p_deletion_corpus_sentences p = Some (sentences_in (p_organization p) (p_id p) s))"

definition rows_ok :: "runtime \<Rightarrow> db \<Rightarrow> bool" where
  "rows_ok rt s \<longleftrightarrow> (\<forall>c \<in> set (corpora s). corpus_placed s c \<and> lineage (versions_of (c_id c) s))
     \<and> (\<forall>v \<in> set (corpus_versions s). version_placed s v \<and> version_filled rt s v)
     \<and> (\<forall>x \<in> set (sentences s). sentence_placed s x) \<and> pending_counted s"

definition workspace_ok :: "runtime \<Rightarrow> db \<Rightarrow> bool" where
  "workspace_ok rt s \<longleftrightarrow> constraints_ok s \<and> rows_ok rt s \<and> sentences_metered s"

lemma workspace_okD:
  assumes "workspace_ok rt s"
  shows "constraints_ok s" and "rows_ok rt s" and "sentences_metered s"
  using assms by (simp_all add: workspace_ok_def)

lemma rows_okD:
  assumes "rows_ok rt s"
  shows "c \<in> set (corpora s) \<Longrightarrow> corpus_placed s c" and "c \<in> set (corpora s) \<Longrightarrow> lineage (versions_of (c_id c) s)"
    and "\<forall>v \<in> set (corpus_versions s). version_placed s v \<and> version_filled rt s v"
    and "\<forall>x \<in> set (sentences s). sentence_placed s x" and "pending_counted s"
  using assms by (simp_all add: rows_ok_def)

lemma workspace_ok_empty: "workspace_ok rt empty_db"
  using constraints_empty
  by (simp add: workspace_ok_def rows_ok_def pending_counted_def sentences_metered_def empty_db_def usage_of_def find_usage_def no_usage_def)

lemma rows_ok_cong:
  assumes "projects s' = projects s" and "corpora s' = corpora s" and "corpus_versions s' = corpus_versions s"
    and "sentences s' = sentences s"
  shows "rows_ok rt s' = rows_ok rt s"
proof -
  have "corpus_placed s' = corpus_placed s" "version_placed s' = version_placed s" "sentence_placed s' = sentence_placed s"
    "version_filled rt s' = version_filled rt s"
    using assms by (simp_all add: fun_eq_iff corpus_placed_def version_placed_def sentence_placed_def version_filled_def
        sentences_of_def)
  moreover have "versions_of i s' = versions_of i s" for i using assms by (simp add: versions_of_def)
  moreover have "sentence_in org i s' = sentence_in org i s" for org i
    using assms by (simp add: fun_eq_iff sentence_in_def corpus_in_def)
  ultimately show ?thesis by (simp add: rows_ok_def pending_counted_def sentences_in_def assms)
qed

text \<open>What the other services leave alone.\<close>

definition same_workspace :: "db \<Rightarrow> db \<Rightarrow> bool" where
  "same_workspace s s' \<longleftrightarrow> projects s' = projects s \<and> corpora s' = corpora s \<and> corpus_versions s' = corpus_versions s
     \<and> sentences s' = sentences s \<and> (\<forall>org. used_corpus_sentences (usage_of org s') = used_corpus_sentences (usage_of org s))"

lemma workspace_ok_cong:
  assumes "same_workspace s s'" and "constraints_ok s'" and "workspace_ok rt s"
  shows "workspace_ok rt s'"
  using assms rows_ok_cong [of s' s rt] by (simp add: same_workspace_def workspace_ok_def sentences_metered_def)

lemma same_workspace_refl [simp]: "same_workspace s s"
  by (simp add: same_workspace_def)

lemma platform_same_workspace:
  assumes "platform_frame s s'" and "\<And>org. used_corpus_sentences (usage_of org s') = used_corpus_sentences (usage_of org s)"
  shows "same_workspace s s'"
  using platform_frame_tables [OF assms(1)] assms(2) by (simp add: same_workspace_def)

lemma audit_append_same_workspace:
  "audit_append rt c now org actor action rtype rid request_id metadata s = Inr s' \<Longrightarrow> same_workspace s s'"
  by (rule platform_same_workspace [OF audit_append_frame(1)]) (simp_all add: audit_append_frame(4))

section \<open>What is prepared is well formed\<close>

definition prepared_ok :: "runtime \<Rightarrow> prepared_corpus \<Rightarrow> bool" where
  "prepared_ok rt prepared \<longleftrightarrow> pc_sentences prepared \<noteq> [] \<and> map pr_ordinal (pc_sentences prepared) = [0..<length (pc_sentences prepared)]
     \<and> pc_content_sha256 prepared = rt_sha rt (encode (canon (corpus_document (pc_language prepared)
          (map pr_normalized_text (pc_sentences prepared)))))"

lemma prepare_import_ok: "prepare_import rt cfg language texts operation = Inr prepared \<Longrightarrow> prepared_ok rt prepared"
  using prepare_corpus_cases [of "rt_sha rt" "rt_nfc rt" "wc_limits cfg" _ prepared]
  by (auto simp: prepare_import_def prepared_ok_def)

lemma manual_import_ok: "manual_import rt cfg language texts operation = Inr prepared \<Longrightarrow> prepared_ok rt prepared"
  by (auto simp: manual_import_def intro: prepare_import_ok)

lemma file_import_ok: "file_import rt cfg language upload operation = Inr prepared \<Longrightarrow> prepared_ok rt prepared"
  by (auto simp: file_import_def intro: prepare_import_ok)

section \<open>Inserting a version\<close>

lemma insert_version_Inr:
  assumes "insert_version operation v prepared s = Inr s'"
  shows "s' = s\<lparr>corpus_versions := corpus_versions s @ [v],
      sentences := sentences s @ map (new_sentence (v_organization v) (v_id v)) (pc_sentences prepared)\<rparr>"
    and "v_id v \<notin> v_id ` set (corpus_versions s)"
  using assms by (auto simp: insert_version_def Let_def corpus_versions_ok_def unique_by_def)

lemma new_version_sel [simp]:
  "v_id (new_version now vid org user_id cid parent n prepared) = vid"
  "v_organization (new_version now vid org user_id cid parent n prepared) = org"
  "v_corpus (new_version now vid org user_id cid parent n prepared) = cid"
  "v_parent (new_version now vid org user_id cid parent n prepared) = parent"
  "v_number (new_version now vid org user_id cid parent n prepared) = n"
  "v_language (new_version now vid org user_id cid parent n prepared) = pc_language prepared"
  "v_sentence_count (new_version now vid org user_id cid parent n prepared) = int (length (pc_sentences prepared))"
  "v_content_sha256 (new_version now vid org user_id cid parent n prepared) = pc_content_sha256 prepared"
  by (simp_all add: new_version_def)

lemma new_sentence_sel [simp]:
  "s_organization (new_sentence org vid p) = org" "s_version (new_sentence org vid p) = vid"
  "s_ordinal (new_sentence org vid p) = int (pr_ordinal p)" "s_normalized_text (new_sentence org vid p) = pr_normalized_text p"
  by (simp_all add: new_sentence_def)

text \<open>A version is added below a corpus that is there; \<open>s\<close> may lack the first version of that corpus.\<close>

lemma insert_version_keeps:
  assumes v: "v = new_version now vid org user_id cid parent n prepared" and p: "prepared_ok rt prepared"
    and i: "insert_version operation v prepared s = Inr s'"
    and c: "c \<in> set (corpora s)" "c_id c = cid" "c_organization c = org"
    and placed: "\<forall>x \<in> set (sentences s). sentence_placed s x"
      "\<forall>v \<in> set (corpus_versions s). version_placed s v \<and> version_filled rt s v"
  shows "\<forall>x \<in> set (sentences s'). sentence_placed s' x"
    and "\<forall>v \<in> set (corpus_versions s'). version_placed s' v \<and> version_filled rt s' v"
    and "versions_of j s' = versions_of j s @ (if j = cid then [v] else [])"
    and "count_where (\<lambda>x. s_organization x = o') (sentences s') = count_where (\<lambda>x. s_organization x = o') (sentences s)
      + (if o' = org then length (pc_sentences prepared) else 0)"
    and "\<not> corpus_in o' pid s cid \<Longrightarrow> sentences_in o' pid s' = sentences_in o' pid s"
proof -
  note s' = insert_version_Inr(1) [OF i] and fresh = insert_version_Inr(2) [OF i]
  let ?new = "map (new_sentence org vid) (pc_sentences prepared)"
  have tables: "corpus_versions s' = corpus_versions s @ [v]" "sentences s' = sentences s @ ?new" "corpora s' = corpora s"
    by (simp_all add: s' v)
  have old: "s_version x \<noteq> vid" if "x \<in> set (sentences s)" for x
    using that placed(1) fresh by (force simp: sentence_placed_def v)
  show "\<forall>x \<in> set (sentences s'). sentence_placed s' x"
    using placed(1) by (auto simp: sentence_placed_def tables v)
  show "versions_of j s' = versions_of j s @ (if j = cid then [v] else [])"
    by (simp add: versions_of_def tables v)
  have none: "filter (\<lambda>x. s_version x = vid) (sentences s) = []" using old by (simp add: filter_empty_conv)
  have of_new: "sentences_of vid s' = ?new"
    by (simp add: sentences_of_def tables none filter_map comp_def)
  have of_old: "sentences_of i s' = sentences_of i s" if "i \<noteq> vid" for i
    using that by (simp add: sentences_of_def tables filter_map comp_def)
  have "version_filled rt s' v"
  proof -
    have "map s_ordinal ?new = map int (map pr_ordinal (pc_sentences prepared))" "map s_normalized_text ?new = map pr_normalized_text (pc_sentences prepared)"
      by (simp_all add: comp_def)
    with p show ?thesis unfolding version_filled_def Let_def by (simp add: v of_new prepared_ok_def del: map_map)
  qed
  moreover have "version_filled rt s' w" if "w \<in> set (corpus_versions s)" for w
  proof -
    have "v_id w \<noteq> vid" using that fresh by (auto simp: v)
    then show ?thesis using that placed(2) by (simp add: version_filled_def of_old)
  qed
  ultimately show "\<forall>v \<in> set (corpus_versions s'). version_placed s' v \<and> version_filled rt s' v"
    using placed(2) c by (auto simp: tables version_placed_def v)
  show "count_where (\<lambda>x. s_organization x = o') (sentences s') = count_where (\<lambda>x. s_organization x = o') (sentences s)
      + (if o' = org then length (pc_sentences prepared) else 0)"
    by (simp add: tables count_where_def filter_map comp_def)
  show "sentences_in o' pid s' = sentences_in o' pid s" if no: "\<not> corpus_in o' pid s cid"
  proof -
    have same: "corpus_in o' pid s' = corpus_in o' pid s" by (simp add: fun_eq_iff corpus_in_def tables)
    have "sentence_in o' pid s' x = sentence_in o' pid s x" if "x \<in> set (sentences s)" for x
      using old [OF that] by (auto simp: sentence_in_def tables same v)
    then have "count_where (sentence_in o' pid s') (sentences s) = count_where (sentence_in o' pid s) (sentences s)"
      by (rule count_where_cong)
    moreover have "\<not> sentence_in o' pid s' x" if "x \<in> set ?new" for x
    proof
      assume "sentence_in o' pid s' x"
      moreover have "s_version x = vid" using that by auto
      ultimately obtain w where "w \<in> set (corpus_versions s')" "v_id w = vid" "corpus_in o' pid s (v_corpus w)"
        unfolding sentence_in_def same by blast
      moreover from this(1,2) fresh have "w = v" by (auto simp: tables v)
      ultimately show False using no by (simp add: v)
    qed
    then have "count_where (sentence_in o' pid s') ?new = 0" by (rule count_where_0)
    ultimately show ?thesis by (simp add: sentences_in_def tables count_where_def)
  qed
qed

section \<open>Projects, corpora and versions\<close>

lemma insert_project_keeps:
  assumes "rows_ok rt s" and "insert_project now pid org user_id name descr s = Inr (project, s')"
  shows "rows_ok rt s'" and "s' = s\<lparr>projects := projects s'\<rparr>"
proof -
  from assms(2) have p: "projects s' = projects s @ [project]" "p_lifecycle project = PROJECT_ACTIVE"
    and s': "s' = s\<lparr>projects := projects s @ [project]\<rparr>"
    by (auto simp: insert_project_def Let_def)
  show "s' = s\<lparr>projects := projects s'\<rparr>" by (simp add: s')
  have eq: "version_placed s' = version_placed s" "sentence_placed s' = sentence_placed s" "version_filled rt s' = version_filled rt s"
    by (simp_all add: s' fun_eq_iff version_placed_def sentence_placed_def version_filled_def sentences_of_def)
  moreover have "sentences_in o' i s' = sentences_in o' i s" "versions_of i s' = versions_of i s" for o' i
    by (simp_all add: s' sentences_in_def sentence_in_def [abs_def] corpus_in_def versions_of_def)
  moreover have "corpus_placed s c \<Longrightarrow> corpus_placed s' c" for c by (auto simp: corpus_placed_def s')
  ultimately show "rows_ok rt s'" using assms(1) p by (simp add: rows_ok_def pending_counted_def s')
qed

definition unique_parents :: "db \<Rightarrow> bool" where
  "unique_parents s \<longleftrightarrow> distinct (map p_id (projects s)) \<and> distinct (map c_id (corpora s))"

lemma constraints_parents: "constraints_ok s \<Longrightarrow> unique_parents s"
  by (simp add: unique_parents_def constraints_ok_def projects_ok_def corpora_ok_def unique_by_def)

text \<open>A row is inserted below an active project only, so what a pending project recorded stays true.\<close>

lemma pending_elsewhere:
  assumes "unique_parents s" and "p \<in> set (projects s)" and "p_lifecycle p = DELETION_PENDING"
    and "q \<in> set (projects s)" and "p_lifecycle q = PROJECT_ACTIVE" and "p_id q = i"
    and "c \<in> set (corpora s)" and "c_project c = i"
  shows "\<not> corpus_in (p_organization p) (p_id p) s (c_id c)"
proof
  assume "corpus_in (p_organization p) (p_id p) s (c_id c)"
  then obtain d where d: "d \<in> set (corpora s)" "c_id d = c_id c" "c_project d = p_id p" by (auto simp: corpus_in_def)
  have "distinct (map c_id (corpora s))" "distinct (map p_id (projects s))" using assms(1) by (simp_all add: unique_parents_def)
  note ids = this
  from distinct_map_inj [OF ids(1) d(1) assms(7) d(2)] d assms have "p_id p = p_id q" by simp
  with distinct_map_inj [OF ids(2) assms(2,4)] assms show False by auto
qed

lemma append_version_keeps:
  assumes ok: "unique_parents s" "rows_ok rt s" and p: "prepared_ok rt prepared"
    and a: "append_version now vid org user_id pid cid prepared operation s = Inr (v, s')"
  shows "rows_ok rt s'"
    and "count_where (\<lambda>x. s_organization x = o') (sentences s') = count_where (\<lambda>x. s_organization x = o') (sentences s)
      + (if o' = org then length (pc_sentences prepared) else 0)"
    and "\<exists>n parent. v = new_version now vid org user_id cid parent n prepared"
    and "s' = s\<lparr>corpus_versions := corpus_versions s', sentences := sentences s'\<rparr>"
proof -
  let ?mine = "filter (\<lambda>w. v_organization w = org \<and> v_corpus w = cid) (corpus_versions s)"
  from a obtain q c latest where q: "q \<in> set (projects s)" "p_id q = pid" "p_lifecycle q = PROJECT_ACTIVE"
    and c: "c \<in> set (corpora s)" "c_id c = cid" "c_organization c = org" "c_project c = pid"
    and latest: "latest_by (\<lambda>v. (v_number v, unat (v_id v))) ?mine = Some latest"
    and v: "v = new_version now vid org user_id cid (Some (v_id latest)) (v_number latest + 1) prepared"
    and i: "insert_version operation v prepared s = Inr s'"
    by (auto simp: append_version_def require_project_def require_corpus_def Let_def dest!: find_SomeD)
  note r = rows_okD [OF ok(2)]
  note k = insert_version_keeps [OF v p i c(1-3) r(4,3)]
  have tables: "projects s' = projects s" "corpora s' = corpora s" by (simp_all add: insert_version_Inr(1) [OF i])
  show "s' = s\<lparr>corpus_versions := corpus_versions s', sentences := sentences s'\<rparr>"
    by (simp add: insert_version_Inr(1) [OF i])
  show "\<exists>n parent. v = new_version now vid org user_id cid parent n prepared" using v by blast
  show "count_where (\<lambda>x. s_organization x = o') (sentences s') = count_where (\<lambda>x. s_organization x = o') (sentences s)
      + (if o' = org then length (pc_sentences prepared) else 0)" by (rule k(4))
  have cid: "distinct (map c_id (corpora s))" using ok(1) by (simp add: unique_parents_def)
  have "v_organization w = org" if w: "w \<in> set (corpus_versions s)" "v_corpus w = cid" for w
  proof -
    from w r(3) obtain d where "d \<in> set (corpora s)" "c_id d = cid" "c_organization d = v_organization w"
      by (auto simp: version_placed_def)
    with distinct_map_inj [OF cid this(1) c(1)] c show ?thesis by simp
  qed
  then have mine: "?mine = versions_of cid s" by (auto simp: versions_of_def intro: filter_cong)
  have lin: "lineage (versions_of cid s)" using r(2) [OF c(1)] c(2) by simp
  let ?vs = "versions_of cid s"
  have last: "latest = last ?vs" "v_number latest = int (length ?vs)"
  proof -
    have "map fst (map (\<lambda>v. (v_number v, unat (v_id v))) ?vs) = map int [1..<Suc (length ?vs)]"
      using lin by (simp add: lineage_def comp_def)
    moreover have "sorted (map int [1..<Suc (length ?vs)])" "distinct (map int [1..<Suc (length ?vs)])"
      by (simp_all add: sorted_map distinct_map sorted_wrt_upt del: upt_Suc)
    moreover have "sorted (map fst ps) \<Longrightarrow> distinct (map fst ps) \<Longrightarrow> sorted ps" for ps :: "(int \<times> nat) list"
      by (induction ps) (force simp: less_eq_prod_def order_le_less)+
    ultimately have "sorted (map (\<lambda>v. (v_number v, unat (v_id v))) ?vs)" by metis
    then have "sort_key (\<lambda>v. (v_number v, unat (v_id v))) ?vs = ?vs" by (rule sort_key_id_if_sorted)
    moreover have "?vs \<noteq> []" using lin by (simp add: lineage_def)
    ultimately show l: "latest = last ?vs"
      using latest unfolding mine latest_by_def by (auto simp: hd_rev [symmetric] split: list.splits)
    have "last (map v_number ?vs) = last (map int [1..<Suc (length ?vs)])" using lin by (simp only: lineage_def)
    then show "v_number latest = int (length ?vs)" using \<open>?vs \<noteq> []\<close>
      by (auto simp: l last_map Suc_le_eq)
  qed
  have new: "lineage (?vs @ [v])"
  proof -
    have ne: "?vs \<noteq> []" using lin by (simp add: lineage_def)
    have "map (Some \<circ> v_id) ?vs = map (Some \<circ> v_id) (butlast ?vs) @ [Some (v_id (last ?vs))]"
      using append_butlast_last_id [OF ne] by (metis (no_types, lifting) comp_apply list.simps(8,9) map_append)
    with lin last v show ?thesis by (simp add: lineage_def)
  qed
  have "pending_counted s'"
    unfolding pending_counted_def
  proof (intro ballI impI)
    fix p assume pp: "p \<in> set (projects s')" "p_lifecycle p = DELETION_PENDING"
    then have "p \<in> set (projects s)" by (simp add: tables)
    with pp r(5) k(5) [OF pending_elsewhere [OF ok(1) _ pp(2) q(1,3,2) c(1,4), unfolded c(2)]]
    show "p_deletion_corpus_sentences p = Some (sentences_in (p_organization p) (p_id p) s')" by (simp add: pending_counted_def)
  qed
  moreover have "corpus_placed s' d \<and> lineage (versions_of (c_id d) s')" if "d \<in> set (corpora s')" for d
    using that r(1,2) [of d] new k(3) [of "c_id d"] by (auto simp: tables corpus_placed_def)
  ultimately show "rows_ok rt s'" using k(1,2) by (simp add: rows_ok_def)
qed

lemma insert_corpus_keeps:
  assumes ok: "unique_parents s" "rows_ok rt s" and p: "prepared_ok rt prepared"
    and a: "insert_corpus now cid vid org user_id pid name prepared s = Inr ((c, v), s')"
  shows "rows_ok rt s'"
    and "count_where (\<lambda>x. s_organization x = o') (sentences s') = count_where (\<lambda>x. s_organization x = o') (sentences s)
      + (if o' = org then length (pc_sentences prepared) else 0)"
    and "v = new_version now vid org user_id cid None 1 prepared" and "c_id c = cid" "c_organization c = org" "c_project c = pid"
    and "s' = s\<lparr>corpora := corpora s @ [c], corpus_versions := corpus_versions s', sentences := sentences s'\<rparr>"
proof -
  from a obtain q where q: "q \<in> set (projects s)" "p_id q = pid" "p_organization q = org" "p_lifecycle q = PROJECT_ACTIVE"
    and c: "c_id c = cid" "c_organization c = org" "c_project c = pid" and rows: "corpora_ok (corpora s @ [c])"
    and v: "v = new_version now vid org user_id cid None 1 prepared"
    and i: "insert_version ''create_corpus'' v prepared (s\<lparr>corpora := corpora s @ [c]\<rparr>) = Inr s'"
    by (auto simp: insert_corpus_def require_project_def Let_def dest!: find_SomeD)
  let ?t = "s\<lparr>corpora := corpora s @ [c]\<rparr>"
  note r = rows_okD [OF ok(2)]
  have fresh: "cid \<notin> c_id ` set (corpora s)" using rows c by (auto simp: corpora_ok_def unique_by_def)
  have placed: "\<forall>x \<in> set (sentences ?t). sentence_placed ?t x"
    "\<forall>v \<in> set (corpus_versions ?t). version_placed ?t v \<and> version_filled rt ?t v"
    using r(3,4) by (auto simp: sentence_placed_def version_placed_def version_filled_def sentences_of_def)
  have in_t: "c \<in> set (corpora ?t)" by simp
  note k = insert_version_keeps [OF v p i in_t c(1,2) placed]
  have none: "versions_of cid ?t = []" using r(3) fresh by (force simp: versions_of_def filter_empty_conv version_placed_def)
  show eq: "s' = s\<lparr>corpora := corpora s @ [c], corpus_versions := corpus_versions s', sentences := sentences s'\<rparr>"
    by (simp add: insert_version_Inr(1) [OF i])
  show "count_where (\<lambda>x. s_organization x = o') (sentences s') = count_where (\<lambda>x. s_organization x = o') (sentences s)
      + (if o' = org then length (pc_sentences prepared) else 0)" using k(4) by simp
  have tables: "projects s' = projects s" "corpora s' = corpora s @ [c]" by (simp_all add: insert_version_Inr(1) [OF i])
  have "pending_counted s'"
    unfolding pending_counted_def
  proof (intro ballI impI)
    fix w assume "w \<in> set (projects s')" and w: "p_lifecycle w = DELETION_PENDING"
    then have ws: "w \<in> set (projects s)" by (simp add: tables)
    have no: "\<not> corpus_in (p_organization w) (p_id w) ?t cid"
      using fresh c distinct_map_inj [OF _ ws q(1), of p_id] ok(1) [unfolded unique_parents_def] q w by (fastforce simp: corpus_in_def image_iff)
    have old: "corpus_in (p_organization w) (p_id w) ?t (v_corpus u) = corpus_in (p_organization w) (p_id w) s (v_corpus u)"
      if "u \<in> set (corpus_versions s)" for u
      using no c by (auto simp: corpus_in_def)
    have "count_where (sentence_in (p_organization w) (p_id w) ?t) (sentences s)
        = count_where (sentence_in (p_organization w) (p_id w) s) (sentences s)"
      by (rule count_where_cong) (use old in \<open>auto simp: sentence_in_def\<close>)
    then have "sentences_in (p_organization w) (p_id w) ?t = sentences_in (p_organization w) (p_id w) s"
      by (simp add: sentences_in_def)
    with k(5) [OF no] ws w r(5) show "p_deletion_corpus_sentences w = Some (sentences_in (p_organization w) (p_id w) s')"
      by (simp add: pending_counted_def)
  qed
  moreover have "corpus_placed s' d \<and> lineage (versions_of (c_id d) s')" if "d \<in> set (corpora s')" for d
  proof (cases "d \<in> set (corpora s)")
    case True
    with fresh have "c_id d \<noteq> cid" by auto
    with True r(1,2) [of d] k(3) [of "c_id d"] show ?thesis by (simp add: tables corpus_placed_def versions_of_def)
  next
    case False
    with that have "d = c" by (simp add: tables)
    with k(3) [of cid] none q c v show ?thesis by (auto simp: tables corpus_placed_def lineage_def)
  qed
  ultimately show "rows_ok rt s'" using k(1,2) by (simp add: rows_ok_def)
qed (use a in \<open>auto simp: insert_corpus_def Let_def\<close>)

section \<open>The operations of the service\<close>

text \<open>A charge, the rows it pays for and the evidence.\<close>

lemma charged_insert:
  assumes ok: "workspace_ok rt s" and fin: "constraints_ok s'"
    and charge: "consume_corpus_sentences rt c now org (int n) operation s = Inr s1"
    and rows: "rows_ok rt s1 \<Longrightarrow> rows_ok rt s2
        \<and> (\<forall>o'. count_where (\<lambda>x. s_organization x = o') (sentences s2) = count_where (\<lambda>x. s_organization x = o') (sentences s1)
            + (if o' = org then n else 0)) \<and> quota_usages s2 = quota_usages s1"
    and audit: "audit_append rt c now org' actor action rtype rid request_id metadata s2 = Inr s'"
  shows "workspace_ok rt s'"
proof -
  note cs = consume_corpus_sentences_Inr [OF charge]
  note f1 = platform_frame_tables [OF charge_frameD(1) [OF cs(1)]]
  have r1: "rows_ok rt s1" using rows_ok_cong [of s1 s rt] f1 workspace_okD(2) [OF ok] by simp
  note r2 = rows [OF r1]
  note a = audit_append_same_workspace [OF audit, unfolded same_workspace_def]
  have "used_corpus_sentences (usage_of o' s2) = used_corpus_sentences (usage_of o' s) + (if o' = org then int n else 0)" for o'
    using r2 cs(3) by (simp add: usage_of_def find_usage_def)
  then have "sentences_metered s'"
    using workspace_okD(3) [OF ok] r2 a f1 by (simp add: sentences_metered_def)
  moreover have "rows_ok rt s'" using r2 rows_ok_cong [of s' s2 rt] a by simp
  ultimately show ?thesis using fin by (simp add: workspace_ok_def)
qed

lemma in_workspace_keeps:
  assumes "workspace_ok rt s" and "\<And>c x s'. body c s = Inr (x, s') \<Longrightarrow> constraints_ok s' \<Longrightarrow> workspace_ok rt s'"
  shows "workspace_ok rt (snd (in_workspace rt a body s))"
  unfolding in_workspace_def by (rule in_session_preserves [where P = "workspace_ok rt"]) (use assms in auto)

lemma create_project_keeps:
  assumes ok: "workspace_ok rt s"
  shows "workspace_ok rt (snd (create_project rt now pid a name descr s))"
proof -
  have body: "workspace_ok rt s'" if "create_project_body rt now pid a n d c s = Inr (x, s')" and "constraints_ok s'" for n d c x s'
  proof -
    from that(1) obtain user_id project s1 where i: "insert_project now pid (ac_organization a) user_id n d s = Inr (project, s1)"
      and u: "audit_append rt c now (ac_organization a) (audit_user user_id) PROJECT_CREATED PROJECT_RESOURCE (p_id project)
        (ac_request_id a) [] s1 = Inr s'"
      by (auto simp: create_project_body_def)
    note k = insert_project_keeps [OF workspace_okD(2) [OF ok] i]
    note s = audit_append_same_workspace [OF u, unfolded same_workspace_def]
    have "usage_of o' s1 = usage_of o' s" "sentences s1 = sentences s" for o'
      by (subst k(2), simp add: usage_of_def find_usage_def) (subst k(2), simp)
    with s k(1) workspace_okD(3) [OF ok] that(2) rows_ok_cong [of s' s1 rt] show ?thesis
      by (simp add: workspace_ok_def sentences_metered_def)
  qed
  show ?thesis
    unfolding create_project_def
    by (auto simp: ok in_workspace_keeps [OF ok body] split: sum.split)
qed

lemma persist_corpus_keeps:
  assumes ok: "workspace_ok rt s" and p: "prepared_ok rt prepared"
  shows "workspace_ok rt (snd (persist_corpus rt now cid vid a pid name prepared s))"
proof -
  have body: "workspace_ok rt s'"
    if "persist_corpus_body rt now cid vid a pid n prepared c s = Inr (x, s')" and fin: "constraints_ok s'" for n c x s'
  proof -
    from that(1) obtain user_id s1 y s2 rid metadata where
      ch: "consume_corpus_sentences rt c now (ac_organization a) (int (length (pc_sentences prepared))) ''corpus.create'' s = Inr s1"
      and i: "insert_corpus now cid vid (ac_organization a) user_id pid n prepared s1 = Inr (y, s2)"
      and u: "audit_append rt c now (ac_organization a) (audit_user user_id) CORPUS_CREATED CORPUS_RESOURCE rid
        (ac_request_id a) metadata s2 = Inr s'"
      unfolding persist_corpus_body_def Let_def bindr_eq_Inr split_paired_Ex prod.case by blast
    have ids: "unique_parents s1"
      using constraints_parents [OF workspace_okD(1) [OF ok]] platform_frame_tables [OF charge_frameD(1) [OF consume_corpus_sentences_Inr(1) [OF ch]]]
      by (simp add: unique_parents_def)
    show ?thesis
    proof (rule charged_insert [OF ok fin ch _ u])
      assume r: "rows_ok rt s1"
      obtain cp v where y: "y = (cp, v)" by (cases y)
      show "rows_ok rt s2 \<and> (\<forall>o'. count_where (\<lambda>x. s_organization x = o') (sentences s2) = count_where (\<lambda>x. s_organization x = o') (sentences s1)
            + (if o' = ac_organization a then length (pc_sentences prepared) else 0)) \<and> quota_usages s2 = quota_usages s1"
        using insert_corpus_keeps(1,2) [OF ids r p i [unfolded y]] arg_cong [OF insert_corpus_keeps(7) [OF ids r p i [unfolded y]], of quota_usages]
        by simp
    qed
  qed
  show ?thesis
    unfolding persist_corpus_def
    by (auto simp: ok in_workspace_keeps [OF ok body] split: sum.split)
qed

lemma persist_version_keeps:
  assumes ok: "workspace_ok rt s" and p: "prepared_ok rt prepared"
  shows "workspace_ok rt (snd (persist_version rt now vid a pid cid prepared operation s))"
proof -
  have body: "workspace_ok rt s'"
    if "persist_version_body rt now vid a pid cid prepared operation c s = Inr (x, s')" and fin: "constraints_ok s'" for c x s'
  proof -
    from that(1) obtain user_id s1 v s2 metadata where
      ch: "consume_corpus_sentences rt c now (ac_organization a) (int (length (pc_sentences prepared))) operation s = Inr s1"
      and i: "append_version now vid (ac_organization a) user_id pid cid prepared operation s1 = Inr (v, s2)"
      and u: "audit_append rt c now (ac_organization a) (audit_user user_id) CORPUS_VERSION_CREATED CORPUS_RESOURCE cid
        (ac_request_id a) metadata s2 = Inr s'"
      unfolding persist_version_body_def Let_def bindr_eq_Inr split_paired_Ex prod.case by blast
    have ids: "unique_parents s1"
      using constraints_parents [OF workspace_okD(1) [OF ok]] platform_frame_tables [OF charge_frameD(1) [OF consume_corpus_sentences_Inr(1) [OF ch]]]
      by (simp add: unique_parents_def)
    show ?thesis
    proof (rule charged_insert [OF ok fin ch _ u])
      assume r: "rows_ok rt s1"
      show "rows_ok rt s2 \<and> (\<forall>o'. count_where (\<lambda>x. s_organization x = o') (sentences s2) = count_where (\<lambda>x. s_organization x = o') (sentences s1)
            + (if o' = ac_organization a then length (pc_sentences prepared) else 0)) \<and> quota_usages s2 = quota_usages s1"
        using append_version_keeps(1,2) [OF ids r p i] arg_cong [OF append_version_keeps(4) [OF ids r p i], of quota_usages] by simp
    qed
  qed
  show ?thesis
    unfolding persist_version_def
    by (rule in_workspace_keeps [OF ok body])
qed

text \<open>The four ways to bring sentences in.\<close>

lemma imports_keep:
  assumes "workspace_ok rt s"
  shows "workspace_ok rt (snd (create_manual_corpus rt cfg now cid vid a pid name language texts s))"
    and "workspace_ok rt (snd (import_corpus rt cfg now cid vid a pid name language upload s))"
    and "workspace_ok rt (snd (create_manual_version rt cfg now vid a pid cid language texts s))"
    and "workspace_ok rt (snd (import_version rt cfg now vid a pid cid language upload s))"
  using assms persist_corpus_keeps [OF assms] persist_version_keeps [OF assms] manual_import_ok file_import_ok
  by (simp_all add: create_manual_corpus_def import_corpus_def create_manual_version_def import_version_def split: sum.split)

end
