(* ===== verification/ProjectDeletion.thy ===== *)
theory ProjectDeletion imports WorkspaceInvariant Platform ArtifactService begin

text \<open>
  src/corpuskit/services/project_deletion.py and project_lifecycle.py: an administrator schedules the
  deletion of a project, and the maintenance purges it when its retention has passed, its artifacts
  are gone from the database and its prefix is empty in the object store. The advisory lock on the
  project serializes its writers; it changes no state. \<open>env\<close> is what runs between the two sessions
  of a purge.
\<close>

section \<open>Scheduling a deletion\<close>

definition minimum_project_retention :: time where
  "minimum_project_retention = 30 * day"

record deletion_snapshot =
  ds_project :: uuid
  ds_requested_at :: time
  ds_retention_until :: time

text \<open>\<open>_snapshot\<close>; its \<open>state\<close> is always \<open>deletion_pending\<close>.\<close>

definition deletion_snapshot_of :: "project \<Rightarrow> exn + deletion_snapshot" where
  "deletion_snapshot_of p =
     (case (p_lifecycle p, p_deletion_requested_at p, p_deletion_retention_until p) of
        (DELETION_PENDING, Some requested, Some until) \<Rightarrow>
          Inr \<lparr>ds_project = p_id p, ds_requested_at = requested, ds_retention_until = until\<rparr>
      | _ \<Rightarrow> Inl (RuntimeError ''project deletion state is inconsistent''))"

definition nonterminal_run_states :: "run_state list" where
  "nonterminal_run_states = [DRAFT, QUEUED, PROVISIONING, RUNNING, CANCELLING]"

definition active_run_in :: "uuid \<Rightarrow> uuid \<Rightarrow> db \<Rightarrow> bool" where
  "active_run_in org project_id s \<longleftrightarrow> list_ex (\<lambda>r. r_organization r = org \<and> r_project r = project_id
     \<and> r_state r \<in> set nonterminal_run_states) (runs s)"

definition active_reservation_in :: "uuid \<Rightarrow> uuid \<Rightarrow> db \<Rightarrow> bool" where
  "active_reservation_in org project_id s \<longleftrightarrow> list_ex (\<lambda>q. qr_organization q = org \<and> qr_state q = RES_ACTIVE
     \<and> list_ex (\<lambda>r. r_id r = qr_run q \<and> r_organization r = org \<and> r_project r = project_id) (runs s)) (quota_reservations s)"

text \<open>The versions of a project, and the sentences that the joins of the count reach.\<close>

definition version_of_project :: "uuid \<Rightarrow> uuid \<Rightarrow> db \<Rightarrow> corpus_version \<Rightarrow> bool" where
  "version_of_project org project_id s v \<longleftrightarrow> v_organization v = org
     \<and> list_ex (\<lambda>c. c_id c = v_corpus v \<and> c_organization c = org \<and> c_project c = project_id) (corpora s)"

definition sentence_of_project :: "uuid \<Rightarrow> uuid \<Rightarrow> db \<Rightarrow> sentence \<Rightarrow> bool" where
  "sentence_of_project org project_id s x \<longleftrightarrow> s_organization x = org
     \<and> list_ex (\<lambda>v. v_id v = s_version x \<and> version_of_project org project_id s v) (corpus_versions s)"

definition project_sentence_count :: "uuid \<Rightarrow> uuid \<Rightarrow> db \<Rightarrow> int" where
  "project_sentence_count org project_id s = int (count_where (sentence_of_project org project_id s) (sentences s))"

definition remaining_artifact :: "uuid \<Rightarrow> uuid \<Rightarrow> artifact \<Rightarrow> bool" where
  "remaining_artifact org project_id x \<longleftrightarrow> a_organization x = org \<and> a_project x = project_id \<and> a_state x \<noteq> DELETED"

definition schedule_artifact :: "time \<Rightarrow> time \<Rightarrow> artifact \<Rightarrow> artifact" where
  "schedule_artifact requested_at until x =
     x\<lparr>a_state := TOMBSTONED,
       a_tombstoned_at := (case a_tombstoned_at x of None \<Rightarrow> Some requested_at | Some t \<Rightarrow> Some t),
       a_retention_until := (if a_retention_until x < until then until else a_retention_until x)\<rparr>"

definition schedule_project :: "time \<Rightarrow> time \<Rightarrow> int \<Rightarrow> project \<Rightarrow> project" where
  "schedule_project requested_at until n p =
     p\<lparr>p_lifecycle := DELETION_PENDING, p_deletion_requested_at := Some requested_at,
       p_deletion_retention_until := Some until, p_deletion_corpus_sentences := Some n\<rparr>"

text \<open>\<open>ProjectDeletionService.request\<close>\<close>

definition request_deletion ::
    "runtime \<Rightarrow> tenant_context \<Rightarrow> time \<Rightarrow> uuid \<Rightarrow> uuid \<Rightarrow> uuid \<Rightarrow> string \<Rightarrow> string option \<Rightarrow> time \<Rightarrow> db
     \<Rightarrow> exn + deletion_snapshot \<times> db" where
  "request_deletion rt c now org user_id project_id confirmation request_id retention s =
     (let operation = ''project.delete'' in
      bindr (ensure (minimum_project_retention \<le> retention)
        (ValueError ''project deletion retention must be at least 30 days'')) (\<lambda>_.
      bindr (require (ResourceNotFoundError operation)
        (find (\<lambda>p. p_id p = project_id \<and> p_organization p = org) (projects s))) (\<lambda>project.
      bindr (ensure (confirmation = ''DELETE '' @ p_name project) (InvalidRequestError operation)) (\<lambda>_.
      if p_lifecycle project = DELETION_PENDING
      then bindr (deletion_snapshot_of project) (\<lambda>snapshot. Inr (snapshot, s))
      else
        bindr (ensure (\<not> active_run_in org project_id s) (ResourceConflictError operation)) (\<lambda>_.
        bindr (ensure (\<not> active_reservation_in org project_id s) (ResourceConflictError operation)) (\<lambda>_.
        let n = project_sentence_count org project_id s; until = now + retention;
            count = count_where (remaining_artifact org project_id) (artifacts s);
            row = schedule_project now until n project in
        bindr (audit_append rt c now org (audit_user user_id) PROJECT_DELETION_REQUESTED PROJECT_RESOURCE (p_id project) request_id
          [(''artifact_count'', JInt (int count)), (''corpus_sentences'', JInt n), (''retention_until'', JStr (isoformat until))]
          (s\<lparr>artifacts := update_where (remaining_artifact org project_id) (schedule_artifact now until) (artifacts s),
             projects := update_where (\<lambda>p. p_id p = p_id project) (\<lambda>_. row) (projects s)\<rparr>)) (\<lambda>s.
        bindr (deletion_snapshot_of row) (\<lambda>snapshot. Inr (snapshot, s)))))))))"

definition require_admin :: "role \<Rightarrow> string \<Rightarrow> exn + unit" where
  "require_admin role operation = ensure (role \<in> {OWNER, ADMIN}) (ResourceNotFoundError operation)"

definition request_project_deletion ::
    "runtime \<Rightarrow> workspace_config \<Rightarrow> time \<Rightarrow> actor \<Rightarrow> uuid \<Rightarrow> string \<Rightarrow> db \<Rightarrow> (exn + deletion_snapshot) \<times> db" where
  "request_project_deletion rt cfg now a project_id confirmation s =
     in_workspace rt a (\<lambda>c s.
       bindr (workspace_actor a s) (\<lambda>(user_id, role).
       bindr (require_admin role ''project.delete'') (\<lambda>_.
       request_deletion rt c now (ac_organization a) user_id project_id confirmation (ac_request_id a)
         (wc_deletion_retention cfg) s))) s"

section \<open>Purging a project\<close>

record project_purge_report =
  pp_eligible :: nat
  pp_deleted :: nat
  pp_deferred :: nat
  pp_failed :: nat

definition due_at :: "time \<Rightarrow> project \<Rightarrow> bool" where
  "due_at cutoff p \<longleftrightarrow> p_lifecycle p = DELETION_PENDING
     \<and> (case p_deletion_retention_until p of None \<Rightarrow> False | Some t \<Rightarrow> t \<le> cutoff)"

definition due_project :: "uuid \<Rightarrow> uuid \<Rightarrow> time \<Rightarrow> db \<Rightarrow> project option" where
  "due_project project_id org cutoff s =
     find (\<lambda>p. p_id p = project_id \<and> p_organization p = org \<and> due_at cutoff p) (projects s)"

definition purge_preconditions :: "uuid \<Rightarrow> uuid \<Rightarrow> db \<Rightarrow> bool" where
  "purge_preconditions org project_id s \<longleftrightarrow> \<not> list_ex (remaining_artifact org project_id) (artifacts s)
     \<and> \<not> active_run_in org project_id s \<and> \<not> active_reservation_in org project_id s"

definition in_project :: "uuid \<Rightarrow> uuid \<Rightarrow> uuid \<Rightarrow> uuid \<Rightarrow> bool" where
  "in_project org project_id o' p' \<longleftrightarrow> o' = org \<and> p' = project_id"

definition run_of_project :: "uuid \<Rightarrow> uuid \<Rightarrow> db \<Rightarrow> uuid \<Rightarrow> bool" where
  "run_of_project org project_id s i \<longleftrightarrow>
     list_ex (\<lambda>r. r_id r = i \<and> in_project org project_id (r_organization r) (r_project r)) (runs s)"

text \<open>The DELETE statements, in their order; the two subqueries read rows that are deleted later.\<close>

definition purge_rows :: "uuid \<Rightarrow> uuid \<Rightarrow> db \<Rightarrow> db" where
  "purge_rows org project_id s =
     (let here = in_project org project_id; of_run = run_of_project org project_id s in
      s\<lparr>run_replays := delete_where (\<lambda>y. here (y_organization y) (y_project y)) (run_replays s),
        execution_facts := delete_where (\<lambda>x. here (x_organization x) (x_project x)) (execution_facts s),
        datg_publications := delete_where (\<lambda>d. here (d_organization d) (d_project d)) (datg_publications s),
        artifacts := delete_where (\<lambda>x. here (a_organization x) (a_project x) \<and> a_state x = DELETED) (artifacts s),
        quota_reservations := delete_where (\<lambda>q. qr_organization q = org \<and> of_run (qr_run q)) (quota_reservations s),
        outbox_messages := delete_where (\<lambda>m. o_organization m = org \<and> of_run (o_run m)) (outbox_messages s),
        run_events := delete_where (\<lambda>e. e_organization e = org \<and> of_run (e_run e)) (run_events s),
        runs := delete_where (\<lambda>r. here (r_organization r) (r_project r)) (runs s),
        sentences := delete_where (sentence_of_project org project_id s) (sentences s),
        corpus_versions := delete_where (version_of_project org project_id s) (corpus_versions s),
        corpora := delete_where (\<lambda>c. here (c_organization c) (c_project c)) (corpora s)\<rparr>)"

text \<open>What follows the DELETE statements: the refund, the evidence and the project row itself.\<close>

definition finish_purge ::
    "runtime \<Rightarrow> time \<Rightarrow> time \<Rightarrow> uuid \<Rightarrow> uuid \<Rightarrow> tenant_context \<Rightarrow> nat \<Rightarrow> int \<Rightarrow> db \<Rightarrow> exn + bool \<times> db" where
  "finish_purge rt now cutoff project_id org c count expected s =
     bindr (if expected \<noteq> 0 then release_corpus_sentences rt c now org expected s else Inr s) (\<lambda>s.
     bindr (service_append rt c cutoff org MAINTENANCE PROJECT_PURGED PROJECT_RESOURCE project_id None
       [(''artifact_count'', JInt (int count)), (''corpus_sentences'', JInt expected)] s) (\<lambda>s.
     Inr (True, s\<lparr>projects := delete_where (\<lambda>p. p_id p = project_id) (projects s)\<rparr>)))"

definition purge_project ::
    "runtime \<Rightarrow> time \<Rightarrow> time \<Rightarrow> uuid \<Rightarrow> uuid \<Rightarrow> tenant_context \<Rightarrow> db \<Rightarrow> exn + bool \<times> db" where
  "purge_project rt now cutoff project_id org c s =
     (case due_project project_id org cutoff s of
        None \<Rightarrow> Inr (False, s)
      | Some project \<Rightarrow>
          if \<not> purge_preconditions org project_id s then Inr (False, s)
          else
            bindr (require (RuntimeError ''project deletion accounting is unavailable'')
              (p_deletion_corpus_sentences project)) (\<lambda>expected.
            bindr (ensure (project_sentence_count org project_id s = expected)
              (RuntimeError ''project corpus quota accounting is inconsistent'')) (\<lambda>_.
            finish_purge rt now cutoff project_id org c
              (count_where (\<lambda>x. a_organization x = org \<and> a_project x = project_id) (artifacts s)) expected
              (purge_rows org project_id s))))"

definition project_prefix :: "uuid \<Rightarrow> uuid \<Rightarrow> string" where
  "project_prefix org project_id = ''artifacts/v1/'' @ uuid_hex org @ ''/'' @ uuid_hex project_id @ ''/''"

definition purge_candidate ::
    "runtime \<Rightarrow> 'v object_store_ops \<Rightarrow> time \<Rightarrow> ('v \<times> db \<Rightarrow> 'v \<times> db) \<Rightarrow> time \<Rightarrow> uuid \<times> uuid \<Rightarrow> 'v \<times> db
     \<Rightarrow> (exn + bool) \<times> 'v \<times> db" where
  "purge_candidate rt ops now env cutoff candidate t =
     (let (project_id, org) = candidate; context = service_context MAINTENANCE (Some org) in
      case in_session rt context (\<lambda>c s. Inr (due_project project_id org cutoff s \<noteq> None \<and> purge_preconditions org project_id s, s)) (snd t) of
        (Inl e, s) \<Rightarrow> (Inl e, fst t, s)
      | (Inr ready, s) \<Rightarrow>
          if \<not> ready then (Inr False, fst t, s)
          else
            (case os_list_keys ops (project_prefix org project_id) 1 None (fst t) of
               Inl e \<Rightarrow> (Inl e, fst t, s)
             | Inr keys \<Rightarrow>
                 if keys \<noteq> [] then (Inr False, fst t, s)
                 else
                   (case env (fst t, s) of (v, s) \<Rightarrow>
                    (case in_session rt context (purge_project rt now cutoff project_id org) s of (r, s) \<Rightarrow> (r, v, s)))))"

text \<open>\<open>except (ObjectStoreError, SQLAlchemyError, RuntimeError, ValueError)\<close>\<close>

definition purge_failure :: "exn \<Rightarrow> bool" where
  "purge_failure e = (case e of TypeError \<Rightarrow> False | OSError \<Rightarrow> False | _ \<Rightarrow> True)"

fun purge_each_project ::
    "runtime \<Rightarrow> 'v object_store_ops \<Rightarrow> time \<Rightarrow> (nat \<Rightarrow> 'v \<times> db \<Rightarrow> 'v \<times> db) \<Rightarrow> time \<Rightarrow> nat \<Rightarrow> (uuid \<times> uuid) list
     \<Rightarrow> project_purge_report \<Rightarrow> 'v \<times> db \<Rightarrow> (exn + project_purge_report) \<times> 'v \<times> db" where
  "purge_each_project rt ops now env cutoff i [] report t = (Inr report, t)"
| "purge_each_project rt ops now env cutoff i (candidate # candidates) report t =
     (case purge_candidate rt ops now (env i) cutoff candidate t of
        (Inl e, t') \<Rightarrow>
          if purge_failure e
          then purge_each_project rt ops now env cutoff (Suc i) candidates (report\<lparr>pp_failed := Suc (pp_failed report)\<rparr>) t'
          else (Inl e, t')
      | (Inr True, t') \<Rightarrow>
          purge_each_project rt ops now env cutoff (Suc i) candidates (report\<lparr>pp_deleted := Suc (pp_deleted report)\<rparr>) t'
      | (Inr False, t') \<Rightarrow>
          purge_each_project rt ops now env cutoff (Suc i) candidates (report\<lparr>pp_deferred := Suc (pp_deferred report)\<rparr>) t')"

definition due_candidates :: "time \<Rightarrow> nat \<Rightarrow> db \<Rightarrow> (uuid \<times> uuid) list" where
  "due_candidates cutoff limit s = map (\<lambda>p. (p_id p, p_organization p))
     (take limit (sort_key (\<lambda>p. (case p_deletion_retention_until p of None \<Rightarrow> 0 | Some u \<Rightarrow> u, unat (p_id p))) (filter (due_at cutoff) (projects s))))"

definition purge_due_projects ::
    "runtime \<Rightarrow> 'v object_store_ops \<Rightarrow> time \<Rightarrow> (nat \<Rightarrow> 'v \<times> db \<Rightarrow> 'v \<times> db) \<Rightarrow> time \<Rightarrow> int \<Rightarrow> 'v \<times> db
     \<Rightarrow> (exn + project_purge_report) \<times> 'v \<times> db" where
  "purge_due_projects rt ops now env cutoff limit t =
     (if \<not> (1 \<le> limit \<and> limit \<le> 1000) then (Inl (ValueError ''project purge limit must be between 1 and 1000''), t)
      else
        (case in_session rt (service_context MAINTENANCE None) (\<lambda>c s. Inr (due_candidates cutoff (nat limit) s, s)) (snd t) of
           (Inl e, s) \<Rightarrow> (Inl e, fst t, s)
         | (Inr candidates, s) \<Rightarrow>
             purge_each_project rt ops now env cutoff 0 candidates
               \<lparr>pp_eligible = length candidates, pp_deleted = 0, pp_deferred = 0, pp_failed = 0\<rparr> (fst t, s)))"

section \<open>The rows of a project\<close>

lemma version_of_project_iff:
  "version_of_project org i s v \<longleftrightarrow> v_organization v = org \<and> corpus_in org i s (v_corpus v)"
  by (auto simp: version_of_project_def corpus_in_def list_ex_iff)

lemma sentence_of_project_iff: "sentence_of_project org i s = sentence_in org i s"
  by (auto simp: fun_eq_iff sentence_of_project_def sentence_in_def version_of_project_iff list_ex_iff)

lemma project_sentence_count_eq: "project_sentence_count org i s = sentences_in org i s"
  by (simp add: project_sentence_count_def sentences_in_def sentence_of_project_iff)

lemma count_where_delete: "count_where P (delete_where D rows) = count_where (\<lambda>x. \<not> D x \<and> P x) rows"
  by (simp add: count_where_def delete_where_def conj_commute)

lemma count_where_split: "count_where P rows = count_where (\<lambda>x. \<not> D x \<and> P x) rows + count_where (\<lambda>x. D x \<and> P x) rows"
  by (induction rows) auto

text \<open>The database without a project.\<close>

definition without_project :: "uuid \<Rightarrow> uuid \<Rightarrow> db \<Rightarrow> db" where
  "without_project org project_id s =
     (purge_rows org project_id s)\<lparr>projects := delete_where (\<lambda>p. p_id p = project_id) (projects s)\<rparr>"

lemma without_project_tables [simp]:
  "projects (without_project org i s) = delete_where (\<lambda>p. p_id p = i) (projects s)"
  "corpora (without_project org i s) = delete_where (\<lambda>c. c_organization c = org \<and> c_project c = i) (corpora s)"
  "corpus_versions (without_project org i s) = delete_where (version_of_project org i s) (corpus_versions s)"
  "sentences (without_project org i s) = delete_where (sentence_in org i s) (sentences s)"
  "runs (without_project org i s) = delete_where (\<lambda>r. r_organization r = org \<and> r_project r = i) (runs s)"
  "run_events (without_project org i s) = delete_where (\<lambda>e. e_organization e = org \<and> run_of_project org i s (e_run e)) (run_events s)"
  "outbox_messages (without_project org i s) =
     delete_where (\<lambda>m. o_organization m = org \<and> run_of_project org i s (o_run m)) (outbox_messages s)"
  "quota_reservations (without_project org i s) =
     delete_where (\<lambda>q. qr_organization q = org \<and> run_of_project org i s (qr_run q)) (quota_reservations s)"
  "artifacts (without_project org i s) =
     delete_where (\<lambda>x. (a_organization x = org \<and> a_project x = i) \<and> a_state x = DELETED) (artifacts s)"
  "quota_usages (without_project org i s) = quota_usages s" "quota_policies (without_project org i s) = quota_policies s"
  "audit_heads (without_project org i s) = audit_heads s" "audit_events (without_project org i s) = audit_events s"
  by (simp_all add: without_project_def purge_rows_def Let_def in_project_def sentence_of_project_iff)

definition project_here :: "runtime \<Rightarrow> uuid \<Rightarrow> uuid \<Rightarrow> db \<Rightarrow> bool" where
  "project_here rt org project_id s \<longleftrightarrow> workspace_ok rt s
     \<and> (\<exists>p \<in> set (projects s). p_id p = project_id \<and> p_organization p = org)"


lemma workspace_unique:
  assumes "constraints_ok s"
  shows "q \<in> set (projects s) \<Longrightarrow> q' \<in> set (projects s) \<Longrightarrow> p_id q = p_id q' \<Longrightarrow> q = q'"
    and "c \<in> set (corpora s) \<Longrightarrow> c' \<in> set (corpora s) \<Longrightarrow> c_id c = c_id c' \<Longrightarrow> c = c'"
    and "v \<in> set (corpus_versions s) \<Longrightarrow> v' \<in> set (corpus_versions s) \<Longrightarrow> v_id v = v_id v' \<Longrightarrow> v = v'"
proof -
  have d: "distinct (map p_id (projects s))" "distinct (map c_id (corpora s))" "distinct (map v_id (corpus_versions s))"
    using assms
    by (simp_all add: constraints_ok_def projects_ok_def corpora_ok_def corpus_versions_ok_def unique_by_def)
  show "q \<in> set (projects s) \<Longrightarrow> q' \<in> set (projects s) \<Longrightarrow> p_id q = p_id q' \<Longrightarrow> q = q'"
    "c \<in> set (corpora s) \<Longrightarrow> c' \<in> set (corpora s) \<Longrightarrow> c_id c = c_id c' \<Longrightarrow> c = c'"
    "v \<in> set (corpus_versions s) \<Longrightarrow> v' \<in> set (corpus_versions s) \<Longrightarrow> v_id v = v_id v' \<Longrightarrow> v = v'"
    using d by (auto dest: distinct_map_inj)
qed

lemma corpus_in_iff:
  "constraints_ok s \<Longrightarrow> c \<in> set (corpora s) \<Longrightarrow> corpus_in org i s (c_id c) \<longleftrightarrow> c_organization c = org \<and> c_project c = i"
  by (auto simp: corpus_in_def dest: workspace_unique(2))

lemma version_of_kept:
  assumes ok: "constraints_ok s" and c: "c \<in> set (corpora s)" "\<not> (c_organization c = org \<and> c_project c = i)"
  shows "versions_of (c_id c) (without_project org i s) = versions_of (c_id c) s"
  using corpus_in_iff [OF ok c(1)] c(2)
  by (auto simp: versions_of_def delete_where_def version_of_project_iff intro!: filter_cong)

lemma sentence_of_version:
  "constraints_ok s \<Longrightarrow> v \<in> set (corpus_versions s) \<Longrightarrow> s_version x = v_id v \<Longrightarrow> sentence_in org i s x \<Longrightarrow>
   version_of_project org i s v"
  by (auto simp: sentence_in_def version_of_project_iff dest: workspace_unique(3))

lemma sentences_of_kept:
  assumes ok: "constraints_ok s" and v: "v \<in> set (corpus_versions s)" "\<not> version_of_project org i s v"
  shows "sentences_of (v_id v) (without_project org i s) = sentences_of (v_id v) s"
  using sentence_of_version [OF ok v(1)] v(2)
  by (auto simp: sentences_of_def delete_where_def intro!: filter_cong)

lemma other_project_sentences:
  assumes ok: "constraints_ok s" and "j \<noteq> i"
  shows "sentences_in o' j (without_project org i s) = sentences_in o' j s"
proof -
  let ?u = "without_project org i s"
  have "(\<not> sentence_in org i s x \<and> sentence_in o' j ?u x) = sentence_in o' j s x" for x
  proof
    assume "sentence_in o' j s x"
    then obtain v c where v: "v \<in> set (corpus_versions s)" "v_id v = s_version x" "v_organization v = o'" "s_organization x = o'"
      and c: "c \<in> set (corpora s)" "c_id c = v_corpus v" "c_organization c = o'" "c_project c = j"
      by (auto simp: sentence_in_def corpus_in_def)
    have no: "\<not> version_of_project org i s v" using corpus_in_iff [OF ok c(1)] c assms(2) by (simp add: version_of_project_iff)
    with sentence_of_version [OF ok v(1)] v(2) have "\<not> sentence_in org i s x" by auto
    moreover have "sentence_in o' j ?u x"
      unfolding sentence_in_def corpus_in_def using v c no assms(2) by auto
    ultimately show "\<not> sentence_in org i s x \<and> sentence_in o' j ?u x" by simp
  qed (auto simp: sentence_in_def corpus_in_def)
  then show ?thesis by (simp add: sentences_in_def count_where_delete)
qed

lemma without_project_rows:
  assumes here: "project_here rt org i s"
  shows "rows_ok rt (without_project org i s)"
proof -
  from here obtain p where ok: "workspace_ok rt s" and project: "p \<in> set (projects s)" "p_id p = i" "p_organization p = org"
    by (auto simp: project_here_def)
  note con = workspace_okD(1) [OF ok]
  let ?u = "without_project org i s"
  note r = rows_okD [OF workspace_okD(2) [OF ok]]
  have "corpus_placed ?u c \<and> lineage (versions_of (c_id c) ?u)" if "c \<in> set (corpora ?u)" for c
  proof -
    from that have c: "c \<in> set (corpora s)" "\<not> (c_organization c = org \<and> c_project c = i)" by auto
    from r(1) [OF c(1)] obtain q where q: "q \<in> set (projects s)" "p_id q = c_project c" "p_organization q = c_organization c"
      by (auto simp: corpus_placed_def)
    with workspace_unique(1) [OF con q(1) project(1)] project c(2) have "p_id q \<noteq> i" by auto
    with q have "corpus_placed ?u c" by (auto simp: corpus_placed_def)
    with r(2) [OF c(1)] version_of_kept [OF con c] show ?thesis by simp
  qed
  moreover have "version_placed ?u v \<and> version_filled rt ?u v" if "v \<in> set (corpus_versions ?u)" for v
  proof -
    from that have v: "v \<in> set (corpus_versions s)" "\<not> version_of_project org i s v" by auto
    with r(3) obtain c where "c \<in> set (corpora s)" "c_id c = v_corpus v" "c_organization c = v_organization v"
      by (auto simp: version_placed_def)
    with v(2) have "version_placed ?u v" by (auto simp: version_placed_def version_of_project_iff corpus_in_def)
    moreover have "version_filled rt ?u v" using r(3) v(1) sentences_of_kept [OF con v] by (simp add: version_filled_def)
    ultimately show ?thesis by simp
  qed
  moreover have "sentence_placed ?u x" if "x \<in> set (sentences ?u)" for x
    using that r(4) by (fastforce simp: sentence_placed_def sentence_in_def version_of_project_iff)
  moreover have "pending_counted ?u"
    using r(5) other_project_sentences [OF con] by (auto simp: pending_counted_def)
  ultimately show ?thesis by (simp add: rows_ok_def)
qed

lemma without_project_count:
  "int (count_where (\<lambda>x. s_organization x = o') (sentences (without_project org i s)))
     = int (count_where (\<lambda>x. s_organization x = o') (sentences s)) - (if o' = org then sentences_in org i s else 0)"
proof -
  have org: "sentence_in org i s x \<Longrightarrow> s_organization x = org" for x by (simp add: sentence_in_def)
  have "count_where (\<lambda>x. sentence_in org i s x \<and> s_organization x = o') (sentences s)
      = (if o' = org then count_where (sentence_in org i s) (sentences s) else 0)"
    by (cases "o' = org") (auto dest: org intro: count_where_cong count_where_0)
  then show ?thesis
    using count_where_split [of "\<lambda>x. s_organization x = o'" "sentences s" "sentence_in org i s"]
    by (simp add: count_where_delete sentences_in_def)
qed

text \<open>What the control plane knows of the other projects' runs stays true.\<close>

lemma without_project_jobs:
  assumes j: "log_ok s" "capacity_ok s" "dispatch_ok s" and "distinct (map r_id (runs s))"
  shows "log_ok (without_project org i s)" and "capacity_ok (without_project org i s)" and "dispatch_ok (without_project org i s)"
proof -
  let ?u = "without_project org i s"
  have run: "run_of_project org i s (r_id r) \<longleftrightarrow> r_organization r = org \<and> r_project r = i" if "r \<in> set (runs s)" for r
  proof -
    have "q = r" if "q \<in> set (runs s)" "r_id q = r_id r" for q
      by (rule distinct_map_inj [OF assms(4) that(1) \<open>r \<in> set (runs s)\<close> that(2)])
    with that show ?thesis by (auto simp: run_of_project_def in_project_def list_ex_iff)
  qed
  have events: "events_of (r_id r) ?u = events_of (r_id r) s" if "r \<in> set (runs ?u)" for r
    using that run by (auto simp: events_of_def delete_where_def intro!: filter_cong)
  have "\<exists>r \<in> set (runs ?u). r_id r = e_run e" if "e \<in> set (run_events ?u)" for e
  proof -
    from that j(1) obtain r where r: "r \<in> set (runs s)" "r_id r = e_run e" by (auto simp: log_ok_def)
    with j(1) that have "e_organization e = r_organization r" by (auto simp: log_ok_def run_log_ok_def events_of_def)
    with that run [OF r(1)] r show ?thesis by auto
  qed
  with j(1) events show "log_ok ?u" by (auto simp: log_ok_def run_log_ok_def)
  have "holds_capacity ?u r = holds_capacity s r" if "r \<in> set (runs ?u)" for r
    using that run [of r] by (auto simp: holds_capacity_def)
  moreover have "\<exists>r \<in> set (runs ?u). r_id r = qr_run q \<and> r_organization r = qr_organization q \<and> qr_class q = run_quota_class (r_kind r)"
    if "q \<in> set (quota_reservations ?u)" for q
  proof -
    from that j(2) obtain r where "r \<in> set (runs s)" "r_id r = qr_run q" "r_organization r = qr_organization q"
      "qr_class q = run_quota_class (r_kind r)" by (auto simp: capacity_ok_def)
    with that run [OF this(1)] show ?thesis by auto
  qed
  ultimately show "capacity_ok ?u" using j(2) by (auto simp: capacity_ok_def)
  show "dispatch_ok ?u"
    unfolding dispatch_ok_def
  proof
    fix r assume r: "r \<in> set (runs ?u)"
    with j(3) obtain m where m: "m \<in> set (outbox_messages s)" "o_run m = r_id r" "o_organization m = r_organization r"
      "o_event_type m = ''run.dispatch''" by (auto simp: dispatch_ok_def)
    with r run [of r] have "m \<in> set (outbox_messages ?u)" by auto
    with m show "\<exists>m \<in> set (outbox_messages ?u). o_run m = r_id r \<and> o_organization m = r_organization r \<and> o_event_type m = ''run.dispatch''"
      by blast
  qed
qed

lemma without_project_held:
  assumes "\<not> active_reservation_in org i s"
  shows "held_jobs o' k (without_project org i s) = held_jobs o' k s"
proof -
  have "\<not> (qr_organization q = org \<and> run_of_project org i s (qr_run q) \<and> qr_state q = RES_ACTIVE)"
    if "q \<in> set (quota_reservations s)" for q
    using that assms by (auto simp: active_reservation_in_def run_of_project_def in_project_def list_ex_iff)
  then show ?thesis
    by (auto simp: held_jobs_def count_where_delete intro!: count_where_cong)
qed

section \<open>A purge that happens\<close>

text \<open>
  What a committed purge did: the project and its rows are gone, the counter is reduced by the sentences
  they held, and nothing else changed but the evidence.
\<close>

lemma purge_project_Inr:
  assumes "purge_project rt now cutoff i org c s = Inr (True, s')"
  shows "\<exists>p. due_project i org cutoff s = Some p \<and> p_deletion_corpus_sentences p = Some (sentences_in org i s)"
    and "purge_preconditions org i s" and "platform_frame (without_project org i s) s'"
    and "quota_reservations s' = quota_reservations (without_project org i s)"
    and "used_corpus_sentences (usage_of o' s') = used_corpus_sentences (usage_of o' s) - (if o' = org then sentences_in org i s else 0)"
    and "digest_ok rt \<Longrightarrow> audit_ok rt s \<Longrightarrow> audit_ok rt s'" and "jobs_ok s \<Longrightarrow> jobs_ok s'"
proof -
  let ?n = "sentences_in org i s" and ?t = "purge_rows org i s"
  from assms obtain p t1 t2 md where p: "due_project i org cutoff s = Some p" "p_deletion_corpus_sentences p = Some ?n"
    and pre: "purge_preconditions org i s"
    and rel: "(if ?n \<noteq> 0 then release_corpus_sentences rt c now org ?n ?t else Inr ?t) = Inr t1"
    and app: "service_append rt c cutoff org MAINTENANCE PROJECT_PURGED PROJECT_RESOURCE i None md t1 = Inr t2"
    and s': "s' = t2\<lparr>projects := delete_where (\<lambda>q. p_id q = i) (projects t2)\<rparr>"
    unfolding purge_project_def finish_purge_def
    by (auto simp: project_sentence_count_eq split: option.splits if_splits)
  show "\<exists>p. due_project i org cutoff s = Some p \<and> p_deletion_corpus_sentences p = Some ?n" using p by blast
  show "purge_preconditions org i s" by (rule pre)
  note ap = service_append_frame [OF app]
  have rl: "platform_frame ?t t1 \<and> quota_reservations t1 = quota_reservations ?t \<and> (\<forall>o'. policy_of o' t1 = policy_of o' ?t)
    \<and> (audit_ok rt ?t \<longrightarrow> audit_ok rt t1) \<and> (jobs_ok ?t \<longrightarrow> jobs_ok t1)
    \<and> (\<forall>o'. used_corpus_sentences (usage_of o' t1) = used_corpus_sentences (usage_of o' ?t) - (if o' = org then ?n else 0))"
  proof (cases "?n = 0")
    case False
    with rel have r: "release_corpus_sentences rt c now org ?n ?t = Inr t1" by simp
    note ri = release_corpus_sentences_Inr [OF r]
    show ?thesis using charge_frameD [OF ri(1)] ri(3) by simp
  qed (use rel in simp)
  have views: "usage_of o' ?t = usage_of o' s" "policy_of o' ?t = policy_of o' s" for o'
    by (simp_all add: purge_rows_def Let_def usage_of_def find_usage_def policy_of_def find_policy_def)
  have sviews: "usage_of o' s' = usage_of o' t2" "policy_of o' s' = policy_of o' t2" for o'
    by (simp_all add: s' usage_of_def find_usage_def policy_of_def find_policy_def)
  have frame: "platform_frame ?t t2" using rl ap(1) by (blast intro: platform_frame_trans)
  have "erase_platform s' = (erase_platform t2)\<lparr>projects := delete_where (\<lambda>q. p_id q = i) (projects t2)\<rparr>"
    by (simp add: s' erase_platform_def)
  also have "\<dots> = (erase_platform ?t)\<lparr>projects := delete_where (\<lambda>q. p_id q = i) (projects s)\<rparr>"
    using frame platform_frame_tables(4) [OF frame] by (simp add: platform_frame_def purge_rows_def Let_def)
  also have "\<dots> = erase_platform (without_project org i s)"
    by (simp add: without_project_def erase_platform_def)
  finally have "erase_platform s' = erase_platform (without_project org i s)" .
  then show "platform_frame (without_project org i s) s'" by (simp add: platform_frame_def)
  show res: "quota_reservations s' = quota_reservations (without_project org i s)"
    using ap(2) rl by (simp add: s' without_project_def)
  show "used_corpus_sentences (usage_of o' s') = used_corpus_sentences (usage_of o' s) - (if o' = org then ?n else 0)" for o'
    using rl ap(4) by (simp add: sviews views)
  have "audit_ok rt ?t = audit_ok rt s" by (rule audit_ok_cong) (simp_all add: purge_rows_def Let_def)
  moreover have "audit_ok rt s' = audit_ok rt t2" by (rule audit_ok_cong) (simp_all add: s')
  ultimately show "digest_ok rt \<Longrightarrow> audit_ok rt s \<Longrightarrow> audit_ok rt s'" using rl ap(5) by simp
  have "held_jobs o' k ?t = held_jobs o' k s" for o' k
    using without_project_held [of org i s o' k] pre
    by (simp add: purge_preconditions_def held_jobs_def purge_rows_def without_project_def Let_def)
  then have "jobs_ok ?t = jobs_ok s" by (simp add: jobs_ok_def views)
  moreover have "jobs_ok s' = jobs_ok t2" by (rule jobs_ok_cong) (simp add: s', simp_all add: sviews)
  ultimately show "jobs_ok s \<Longrightarrow> jobs_ok s'" using rl ap(6) by simp
qed

lemma purge_project_keeps:
  assumes "purge_project rt now cutoff i org c s = Inr (b, s')" and fin: "constraints_ok s'"
  shows "workspace_ok rt s \<Longrightarrow> workspace_ok rt s'" and "digest_ok rt \<Longrightarrow> jobs_inv rt s \<Longrightarrow> jobs_inv rt s'"
proof -
  have same: "s' = s" if "\<not> b"
    using assms(1) that by (auto simp: purge_project_def finish_purge_def split: option.splits if_splits)
  show "workspace_ok rt s'" if ok: "workspace_ok rt s"
  proof (cases b)
    case True
    with assms(1) have purged: "purge_project rt now cutoff i org c s = Inr (True, s')" by simp
    note pu = purge_project_Inr [OF purged]
    have here: "project_here rt org i s"
      using pu(1) ok by (auto simp: project_here_def due_project_def dest: find_SomeD)
    note f = platform_frame_tables [OF pu(3)]
    have "rows_ok rt s'" using without_project_rows [OF here] rows_ok_cong [of s' "without_project org i s" rt] f by simp
    moreover have "sentences_metered s'"
      using workspace_okD(3) [OF ok] pu(5) without_project_count [of _ org i s] f(7) by (simp add: sentences_metered_def)
    ultimately show ?thesis using fin by (simp add: workspace_ok_def)
  qed (use same ok in simp)
  show "jobs_inv rt s'" if d: "digest_ok rt" and inv: "jobs_inv rt s"
  proof (cases b)
    case True
    with assms(1) have purged: "purge_project rt now cutoff i org c s = Inr (True, s')" by simp
    note pu = purge_project_Inr [OF purged]
    note j = jobs_invD [OF inv]
    note f = platform_frame_tables [OF pu(3)]
    note w = without_project_jobs [OF j(4,5,6) constraints_runs(1) [OF j(1)]]
    have "log_ok s'" "capacity_ok s'" "dispatch_ok s'"
      using w log_ok_cong [of s' "without_project org i s"] capacity_ok_cong [of s' "without_project org i s"]
        dispatch_ok_cong [of s' "without_project org i s"] f pu(4) by simp_all
    then show ?thesis using pu(6) [OF d j(2)] pu(7) [OF j(3)] fin by (simp add: jobs_inv_def)
  qed (use same inv in simp)
qed

section \<open>A request that is accepted\<close>

lemma request_deletion_Inr:
  assumes "request_deletion rt c now org user_id i confirmation request_id retention s = Inr (snapshot, s')"
  obtains (again) p where "p \<in> set (projects s)" "p_id p = i" "p_organization p = org" "p_lifecycle p = DELETION_PENDING" "s' = s"
      "deletion_snapshot_of p = Inr snapshot"
  | (scheduled) p t md where "p \<in> set (projects s)" "p_id p = i" "p_organization p = org" "p_lifecycle p = PROJECT_ACTIVE"
      "minimum_project_retention \<le> retention" "confirmation = ''DELETE '' @ p_name p"
      "\<not> active_run_in org i s" "\<not> active_reservation_in org i s"
      "t = s\<lparr>artifacts := update_where (remaining_artifact org i) (schedule_artifact now (now + retention)) (artifacts s),
         projects := update_where (\<lambda>q. p_id q = i) (\<lambda>_. schedule_project now (now + retention) (sentences_in org i s) p) (projects s)\<rparr>"
      "audit_append rt c now org (audit_user user_id) PROJECT_DELETION_REQUESTED PROJECT_RESOURCE i request_id md t = Inr s'"
      "snapshot = \<lparr>ds_project = i, ds_requested_at = now, ds_retention_until = now + retention\<rparr>"
proof -
  from assms obtain p where p: "find (\<lambda>p. p_id p = i \<and> p_organization p = org) (projects s) = Some p"
    and ret: "minimum_project_retention \<le> retention" "confirmation = ''DELETE '' @ p_name p"
    by (auto simp: request_deletion_def Let_def)
  from find_SomeD [OF p] have ps: "p \<in> set (projects s)" "p_id p = i" "p_organization p = org" by simp_all
  show thesis
  proof (cases "p_lifecycle p")
    case DELETION_PENDING
    with assms p ps show thesis by (intro again [of p]) (auto simp: request_deletion_def Let_def)
  next
    case PROJECT_ACTIVE
    let ?row = "schedule_project now (now + retention) (sentences_in org i s) p"
    from PROJECT_ACTIVE assms p ps obtain md where idle: "\<not> active_run_in org i s" "\<not> active_reservation_in org i s"
      and app: "audit_append rt c now org (audit_user user_id) PROJECT_DELETION_REQUESTED PROJECT_RESOURCE i request_id md
        (s\<lparr>artifacts := update_where (remaining_artifact org i) (schedule_artifact now (now + retention)) (artifacts s),
           projects := update_where (\<lambda>q. p_id q = i) (\<lambda>_. ?row) (projects s)\<rparr>) = Inr s'"
      and snap: "deletion_snapshot_of ?row = Inr snapshot"
      by (auto simp: request_deletion_def Let_def project_sentence_count_eq)
    have "snapshot = \<lparr>ds_project = i, ds_requested_at = now, ds_retention_until = now + retention\<rparr>"
      using snap ps by (simp add: deletion_snapshot_of_def schedule_project_def)
    with PROJECT_ACTIVE ps ret idle app show thesis by (intro scheduled [of p]) simp_all
  qed
qed

lemma request_deletion_keeps:
  assumes "request_deletion rt c now org user_id i confirmation request_id retention s = Inr (snapshot, s')" and fin: "constraints_ok s'"
  shows "workspace_ok rt s \<Longrightarrow> workspace_ok rt s'" and "digest_ok rt \<Longrightarrow> jobs_inv rt s \<Longrightarrow> jobs_inv rt s'"
proof -
  show "workspace_ok rt s'" if ok: "workspace_ok rt s"
    using assms(1)
  proof (cases rule: request_deletion_Inr)
    case (scheduled p t md)
    let ?row = "schedule_project now (now + retention) (sentences_in org i s) p"
    note r = rows_okD [OF workspace_okD(2) [OF ok]]
    note same = audit_append_same_workspace [OF scheduled(10), unfolded same_workspace_def]
    have t: "corpora t = corpora s" "corpus_versions t = corpus_versions s" "sentences t = sentences s" "quota_usages t = quota_usages s"
      by (simp_all add: scheduled(9))
    have projects: "set (projects t) = (\<lambda>q. if p_id q = i then ?row else q) ` set (projects s)"
      by (simp add: scheduled(9) set_update_where)
    have unique: "q = p" if "q \<in> set (projects s)" "p_id q = i" for q
      using workspace_unique(1) [OF workspace_okD(1) [OF ok] that(1) scheduled(1)] that(2) scheduled(2) by simp
    have "corpus_placed t c" if c: "c \<in> set (corpora s)" for c
    proof -
      from r(1) [OF c] obtain q where q: "q \<in> set (projects s)" "p_id q = c_project c" "p_organization q = c_organization c"
        by (auto simp: corpus_placed_def)
      show ?thesis
      proof (cases "p_id q = i")
        case True
        with unique [OF q(1)] q have "?row \<in> set (projects t)" "p_id ?row = c_project c" "p_organization ?row = c_organization c"
          by (auto simp: projects schedule_project_def)
        then show ?thesis unfolding corpus_placed_def by blast
      next
        case False
        with q show ?thesis by (auto simp: corpus_placed_def projects)
      qed
    qed
    moreover have "sentences_in o' j t = sentences_in o' j s" for o' j
      by (simp add: sentences_in_def sentence_in_def [abs_def] corpus_in_def t)
    moreover from this have "pending_counted t"
      using r(5) scheduled(2,3) by (auto simp: pending_counted_def projects schedule_project_def)
    moreover have "versions_of j t = versions_of j s" "version_placed t = version_placed s" "sentence_placed t = sentence_placed s"
      "version_filled rt t = version_filled rt s" for j
      by (simp_all add: fun_eq_iff versions_of_def version_placed_def sentence_placed_def version_filled_def sentences_of_def t)
    ultimately have "rows_ok rt t" using r(2-4) by (simp add: rows_ok_def t)
    moreover have "usage_of o' t = usage_of o' s" for o' by (simp add: usage_of_def find_usage_def t)
    ultimately show ?thesis
      using workspace_okD(3) [OF ok] fin same rows_ok_cong [of s' t rt] t by (simp add: workspace_ok_def sentences_metered_def)
  qed (use ok in simp)
  show "jobs_inv rt s'" if d: "digest_ok rt" and inv: "jobs_inv rt s"
    using assms(1)
  proof (cases rule: request_deletion_Inr)
    case (scheduled p t md)
    note j = jobs_invD [OF inv]
    note f = audit_append_frame [OF scheduled(10)]
    have t: "runs t = runs s" "run_events t = run_events s" "outbox_messages t = outbox_messages s" "quota_reservations t = quota_reservations s"
      "audit_events t = audit_events s" "audit_heads t = audit_heads s" "quota_usages t = quota_usages s" "quota_policies t = quota_policies s"
      by (simp_all add: scheduled(9))
    have "audit_ok rt t" using j(2) audit_ok_cong [of t s rt] t by simp
    then have "audit_ok rt s'" by (rule audit_append_audit_ok [OF d _ scheduled(10)])
    moreover have "usage_of o' t = usage_of o' s" "policy_of o' t = policy_of o' s" for o'
      by (simp_all add: usage_of_def find_usage_def policy_of_def find_policy_def t)
    then have "jobs_ok s'" using j(3) jobs_ok_cong [of s' s] f t by simp
    ultimately show ?thesis
      using j fin platform_frame_tables [OF f(1)] f(2) t
      by (simp add: jobs_inv_def log_ok_cong [of s' s] capacity_ok_cong [of s' s] dispatch_ok_cong [of s' s])
  qed (use inv in simp)
qed

end
