(* ===== verification/WorkspaceHistory.thy ===== *)
theory WorkspaceHistory imports ProjectDeletion System begin

text \<open>
  The workspace service, the deletion of projects and the control plane side by side: whatever order
  their transactions come in, the invariants of both hold.
\<close>

section \<open>The control plane beside the workspace\<close>

definition control_ok :: "runtime \<Rightarrow> db \<Rightarrow> bool" where
  "control_ok rt s \<longleftrightarrow> audit_ok rt s \<and> jobs_ok s \<and> log_ok s \<and> capacity_ok s \<and> dispatch_ok s"

lemma jobs_inv_control: "jobs_inv rt s \<longleftrightarrow> constraints_ok s \<and> control_ok rt s"
  by (simp add: jobs_inv_def control_ok_def)

definition same_control :: "db \<Rightarrow> db \<Rightarrow> bool" where
  "same_control s s' \<longleftrightarrow> runs s' = runs s \<and> run_events s' = run_events s \<and> outbox_messages s' = outbox_messages s
     \<and> quota_reservations s' = quota_reservations s \<and> quota_usages s' = quota_usages s \<and> quota_policies s' = quota_policies s
     \<and> audit_events s' = audit_events s \<and> audit_heads s' = audit_heads s"

lemma control_ok_same:
  assumes "same_control s s'"
  shows "control_ok rt s' = control_ok rt s"
proof -
  note eq = assms [unfolded same_control_def]
  have "usage_of o' s' = usage_of o' s" "policy_of o' s' = policy_of o' s" for o'
    using eq by (simp_all add: usage_of_def find_usage_def policy_of_def find_policy_def)
  then have "jobs_ok s' = jobs_ok s" using eq by (intro jobs_ok_cong) simp_all
  with eq show ?thesis
    by (simp add: control_ok_def audit_ok_cong [of s' s] log_ok_cong [of s' s] capacity_ok_cong [of s' s] dispatch_ok_cong [of s' s])
qed

lemma control_ok_frame:
  assumes "platform_frame s s'" and "quota_reservations s' = quota_reservations s" and "audit_ok rt s'" and "jobs_ok s'" and "control_ok rt s"
  shows "control_ok rt s'"
  using assms platform_frame_tables [OF assms(1)]
  by (simp add: control_ok_def log_ok_cong [of s' s] capacity_ok_cong [of s' s] dispatch_ok_cong [of s' s])

lemma charge_control_ok:
  assumes "charge_frame rt s s'" and "control_ok rt s"
  shows "control_ok rt s'"
  using charge_frameD [OF assms(1)] assms(2) by (intro control_ok_frame [OF _ _ _ _ assms(2)]) (simp_all add: control_ok_def)

lemma audit_control_ok:
  assumes "digest_ok rt" and "control_ok rt s"
    and a: "audit_append rt c now org actor action rtype rid request_id metadata s = Inr s'"
  shows "control_ok rt s'"
proof -
  note f = audit_append_frame [OF a]
  have "jobs_ok s' = jobs_ok s" using f by (intro jobs_ok_cong) simp_all
  with f assms(2) audit_append_audit_ok [OF assms(1) _ a] show ?thesis
    by (intro control_ok_frame [OF f(1,2) _ _ assms(2)]) (simp_all add: control_ok_def)
qed

lemma inserts_same_control:
  "insert_project now i org user_id name descr s = Inr (p, s') \<Longrightarrow> same_control s s'"
  "insert_corpus now cid vid org user_id i name prepared s = Inr (y, s') \<Longrightarrow> same_control s s'"
  "append_version now vid org user_id i cid prepared operation s = Inr (v, s') \<Longrightarrow> same_control s s'"
  by (auto simp: same_control_def insert_project_def insert_corpus_def append_version_def insert_version_def Let_def)

lemma in_workspace_jobs:
  assumes "jobs_inv rt s" and "\<And>c x s'. body c s = Inr (x, s') \<Longrightarrow> control_ok rt s'"
  shows "jobs_inv rt (snd (in_workspace rt a body s))"
  unfolding in_workspace_def by (rule in_session_preserves [where P = "jobs_inv rt"]) (use assms in \<open>auto simp: jobs_inv_control\<close>)

lemma create_project_jobs:
  assumes "digest_ok rt" and inv: "jobs_inv rt s"
  shows "jobs_inv rt (snd (create_project rt now i a name descr s))"
proof -
  have body: "control_ok rt s'" if "create_project_body rt now i a n d c s = Inr (x, s')" for n d c x s'
  proof -
    from that obtain user_id project s1 where p: "insert_project now i (ac_organization a) user_id n d s = Inr (project, s1)"
      and u: "audit_append rt c now (ac_organization a) (audit_user user_id) PROJECT_CREATED PROJECT_RESOURCE (p_id project)
        (ac_request_id a) [] s1 = Inr s'"
      by (auto simp: create_project_body_def)
    from inserts_same_control(1) [OF p] inv have "control_ok rt s1" by (simp add: control_ok_same jobs_inv_control)
    from audit_control_ok [OF assms(1) this u] show ?thesis .
  qed
  show ?thesis
    unfolding create_project_def by (auto simp: inv in_workspace_jobs [OF inv body] split: sum.split)
qed

lemma persist_corpus_jobs:
  assumes "digest_ok rt" and inv: "jobs_inv rt s"
  shows "jobs_inv rt (snd (persist_corpus rt now cid vid a i name prepared s))"
proof -
  have body: "control_ok rt s'" if "persist_corpus_body rt now cid vid a i n prepared c s = Inr (x, s')" for n c x s'
  proof -
    from that obtain user_id s1 y s2 rid metadata where
      ch: "consume_corpus_sentences rt c now (ac_organization a) (int (length (pc_sentences prepared))) ''corpus.create'' s = Inr s1"
      and k: "insert_corpus now cid vid (ac_organization a) user_id i n prepared s1 = Inr (y, s2)"
      and u: "audit_append rt c now (ac_organization a) (audit_user user_id) CORPUS_CREATED CORPUS_RESOURCE rid
        (ac_request_id a) metadata s2 = Inr s'"
      unfolding persist_corpus_body_def Let_def bindr_eq_Inr split_paired_Ex prod.case by blast
    have "control_ok rt s1"
      using charge_control_ok [OF consume_corpus_sentences_Inr(1) [OF ch]] inv by (simp add: jobs_inv_control)
    then have "control_ok rt s2" using control_ok_same [OF inserts_same_control(2) [OF k]] by simp
    from audit_control_ok [OF assms(1) this u] show ?thesis .
  qed
  show ?thesis
    unfolding persist_corpus_def by (auto simp: inv in_workspace_jobs [OF inv body] split: sum.split)
qed

lemma persist_version_jobs:
  assumes "digest_ok rt" and inv: "jobs_inv rt s"
  shows "jobs_inv rt (snd (persist_version rt now vid a i cid prepared operation s))"
proof -
  have body: "control_ok rt s'" if "persist_version_body rt now vid a i cid prepared operation c s = Inr (x, s')" for c x s'
  proof -
    from that obtain user_id s1 v s2 metadata where
      ch: "consume_corpus_sentences rt c now (ac_organization a) (int (length (pc_sentences prepared))) operation s = Inr s1"
      and k: "append_version now vid (ac_organization a) user_id i cid prepared operation s1 = Inr (v, s2)"
      and u: "audit_append rt c now (ac_organization a) (audit_user user_id) CORPUS_VERSION_CREATED CORPUS_RESOURCE cid
        (ac_request_id a) metadata s2 = Inr s'"
      unfolding persist_version_body_def Let_def bindr_eq_Inr split_paired_Ex prod.case by blast
    have "control_ok rt s1"
      using charge_control_ok [OF consume_corpus_sentences_Inr(1) [OF ch]] inv by (simp add: jobs_inv_control)
    then have "control_ok rt s2" using control_ok_same [OF inserts_same_control(3) [OF k]] by simp
    from audit_control_ok [OF assms(1) this u] show ?thesis .
  qed
  show ?thesis
    unfolding persist_version_def by (rule in_workspace_jobs [OF inv body])
qed

section \<open>Both invariants\<close>

definition estate_ok :: "runtime \<Rightarrow> db \<Rightarrow> bool" where
  "estate_ok rt s \<longleftrightarrow> workspace_ok rt s \<and> jobs_inv rt s"

lemma estate_ok_empty: "estate_ok rt empty_db"
  by (simp add: estate_ok_def workspace_ok_empty jobs_inv_empty)

lemma workspace_estate:
  assumes "digest_ok rt" and "estate_ok rt s"
  shows "estate_ok rt (snd (create_project rt now i a name descr s))"
    and "estate_ok rt (snd (create_manual_corpus rt cfg now cid vid a i name language texts s))"
    and "estate_ok rt (snd (import_corpus rt cfg now cid vid a i name language upload s))"
    and "estate_ok rt (snd (create_manual_version rt cfg now vid a i cid language texts s))"
    and "estate_ok rt (snd (import_version rt cfg now vid a i cid language upload s))"
proof -
  have w: "workspace_ok rt s" and j: "jobs_inv rt s" using assms(2) by (simp_all add: estate_ok_def)
  note jobs = create_project_jobs [OF assms(1) j] persist_corpus_jobs [OF assms(1) j] persist_version_jobs [OF assms(1) j]
  show "estate_ok rt (snd (create_project rt now i a name descr s))"
    using create_project_keeps [OF w] jobs(1) by (simp add: estate_ok_def)
  show "estate_ok rt (snd (create_manual_corpus rt cfg now cid vid a i name language texts s))"
    using imports_keep(1) [OF w] jobs(2) j by (auto simp: estate_ok_def create_manual_corpus_def split: sum.split)
  show "estate_ok rt (snd (import_corpus rt cfg now cid vid a i name language upload s))"
    using imports_keep(2) [OF w] jobs(2) j by (auto simp: estate_ok_def import_corpus_def split: sum.split)
  show "estate_ok rt (snd (create_manual_version rt cfg now vid a i cid language texts s))"
    using imports_keep(3) [OF w] jobs(3) j by (auto simp: estate_ok_def create_manual_version_def split: sum.split)
  show "estate_ok rt (snd (import_version rt cfg now vid a i cid language upload s))"
    using imports_keep(4) [OF w] jobs(3) j by (auto simp: estate_ok_def import_version_def split: sum.split)
qed

lemma request_project_deletion_estate:
  assumes "digest_ok rt" and "estate_ok rt s"
  shows "estate_ok rt (snd (request_project_deletion rt cfg now a i confirmation s))"
  unfolding request_project_deletion_def in_workspace_def
  by (rule in_session_preserves [where P = "estate_ok rt"])
    (use assms request_deletion_keeps in \<open>auto simp: estate_ok_def\<close>)

text \<open>A purge keeps what the purge of one project keeps.\<close>

definition purge_keeps :: "(db \<Rightarrow> bool) \<Rightarrow> runtime \<Rightarrow> time \<Rightarrow> time \<Rightarrow> bool" where
  "purge_keeps P rt now cutoff \<longleftrightarrow> (\<forall>i org c s b s'.
     purge_project rt now cutoff i org c s = Inr (b, s') \<and> constraints_ok s' \<and> P s \<longrightarrow> P s')"

lemma purge_candidate_keeps:
  assumes "purge_keeps P rt now cutoff" and "P (snd t)" and "\<And>u. P (snd u) \<Longrightarrow> P (snd (env u))"
  shows "P (snd (snd (purge_candidate rt ops now env cutoff candidate t)))"
proof -
  obtain i org where cand: "candidate = (i, org)" by fastforce
  have purged: "P (snd (in_session rt ctx (purge_project rt now cutoff i org) s))" if "P s" for ctx s
    by (rule in_session_preserves [where P = P]) (use assms(1) that in \<open>auto simp: purge_keeps_def\<close>)
  have read: "snd (in_session rt ctx (\<lambda>c s. Inr (f s, s)) s) = s" for ctx s and f :: "db \<Rightarrow> bool"
    by (rule in_session_preserves [where P = "\<lambda>t. t = s"]) auto
  let ?first = "in_session rt (service_context MAINTENANCE (Some org))
    (\<lambda>c s. Inr (due_project i org cutoff s \<noteq> None \<and> purge_preconditions org i s, s)) (snd t)"
  have "snd ?first = snd t" by (rule read)
  then obtain r1 where f: "?first = (r1, snd t)" by (cases ?first) simp
  have kept: "P (snd (env (fst t, snd t)))" using assms(2,3) by simp
  obtain v s where e: "env (fst t, snd t) = (v, s)" by fastforce
  obtain r2 s' where g: "in_session rt (service_context MAINTENANCE (Some org)) (purge_project rt now cutoff i org) s = (r2, s')" by fastforce
  have "P s'" using purged [of s "service_context MAINTENANCE (Some org)"] kept e g by simp
  then show ?thesis
    unfolding purge_candidate_def Let_def cand prod.case f
    using assms(2) e g by (auto split: sum.split)
qed

lemma purge_each_project_keeps:
  assumes "purge_keeps P rt now cutoff" and env: "\<And>i u. P (snd u) \<Longrightarrow> P (snd (env i u))"
  shows "P (snd t) \<Longrightarrow> P (snd (snd (purge_each_project rt ops now env cutoff i candidates report t)))"
proof (induction candidates arbitrary: i report t)
  case (Cons candidate candidates)
  obtain r t' where c: "purge_candidate rt ops now (env i) cutoff candidate t = (r, t')" by (rule prod.exhaust)
  have "P (snd (snd (purge_candidate rt ops now (env i) cutoff candidate t)))"
    by (rule purge_candidate_keeps [where P = P, OF assms(1) Cons.prems env])
  then have "P (snd t')" by (simp add: c)
  with Cons.IH c show ?case by (auto split: sum.split bool.split)
qed simp

lemma purge_due_projects_keeps:
  assumes "purge_keeps P rt now cutoff" and "\<And>i u. P (snd u) \<Longrightarrow> P (snd (env i u))" and ok: "P (snd t)"
  shows "P (snd (snd (purge_due_projects rt ops now env cutoff limit t)))"
proof -
  let ?read = "in_session rt (service_context MAINTENANCE None) (\<lambda>c s. Inr (due_candidates cutoff (nat limit) s, s)) (snd t)"
  have "snd ?read = snd t" by (rule in_session_preserves [where P = "\<lambda>u. u = snd t"]) auto
  then obtain r where r: "?read = (r, snd t)" by (cases ?read) simp
  show ?thesis
    unfolding purge_due_projects_def r using ok purge_each_project_keeps [where P = P, OF assms(1,2), where t = "(fst t, snd t)"]
    by (auto split: sum.split)
qed

lemma purge_keeps_estate: "digest_ok rt \<Longrightarrow> purge_keeps (estate_ok rt) rt now cutoff"
  using purge_project_keeps by (auto simp: purge_keeps_def estate_ok_def)

lemma purge_keeps_cursors: "purge_keeps (\<lambda>s. maintenance_cursors s = m) rt now cutoff"
  unfolding purge_keeps_def
proof (intro allI impI, elim conjE)
  fix i org c s b s' assume p: "purge_project rt now cutoff i org c s = Inr (b, s')" and m: "maintenance_cursors s = m"
  have rows: "maintenance_cursors (purge_rows org i s) = maintenance_cursors s" by (simp add: purge_rows_def Let_def)
  from p show "maintenance_cursors s' = m"
    using m rows platform_frame_tables(16) [OF service_append_frame(1)] platform_frame_tables(16) [OF charge_frameD(1) [OF release_corpus_sentences_Inr(1)]]
    by (fastforce simp: purge_project_def finish_purge_def split: option.splits if_splits)
qed

section \<open>Any order of transactions\<close>

text \<open>
  A step of the control plane is any of its operations (\<open>evolves\<close>), which write none of the workspace
  tables. What runs between the two sessions of a purge is again a sequence of such steps.
\<close>

inductive estate_evolves :: "runtime \<Rightarrow> 'v object_store_ops \<Rightarrow> 'v \<times> db \<Rightarrow> 'v \<times> db \<Rightarrow> bool"
  for rt :: runtime and ops :: "'v object_store_ops" where
  estate_idle: "estate_evolves rt ops t t"
| estate_then: "estate_evolves rt ops t u \<Longrightarrow> estate_evolves rt ops u w \<Longrightarrow> estate_evolves rt ops t w"
| store_changes: "estate_evolves rt ops (v, s) (v', s)"
| control_plane: "evolves rt s s' \<Longrightarrow> same_workspace s s' \<Longrightarrow> estate_evolves rt ops (v, s) (v, s')"
| creates_project: "estate_evolves rt ops (v, s) (v, snd (create_project rt now i a name descr s))"
| creates_corpus: "estate_evolves rt ops (v, s) (v, snd (create_manual_corpus rt cfg now cid vid a i name language texts s))"
| imports_corpus: "estate_evolves rt ops (v, s) (v, snd (import_corpus rt cfg now cid vid a i name language upload s))"
| creates_version: "estate_evolves rt ops (v, s) (v, snd (create_manual_version rt cfg now vid a i cid language texts s))"
| imports_version: "estate_evolves rt ops (v, s) (v, snd (import_version rt cfg now vid a i cid language upload s))"
| requests_deletion: "estate_evolves rt ops (v, s) (v, snd (request_project_deletion rt cfg now a i confirmation s))"
| purges_projects: "(\<And>i u. estate_evolves rt ops u (env i u)) \<Longrightarrow>
     estate_evolves rt ops t (snd (purge_due_projects rt ops now env cutoff limit t))"

lemma estate_evolves_ok:
  assumes "estate_evolves rt ops t t'" and "digest_ok rt"
  shows "estate_ok rt (snd t) \<Longrightarrow> estate_ok rt (snd t')"
  using assms(1)
proof (induction rule: estate_evolves.induct)
  case (control_plane s s' v)
  then have "jobs_inv rt s'" using evolves_inv [OF control_plane(1) assms(2)] by (simp add: estate_ok_def)
  with control_plane show ?case
    using workspace_ok_cong [OF control_plane(2)] by (simp add: estate_ok_def jobs_invD(1))
next
  case (purges_projects env t now cutoff limit)
  then show ?case by (intro purge_due_projects_keeps [where P = "estate_ok rt", OF purge_keeps_estate [OF assms(2)]]) auto
qed (use assms(2) in \<open>simp_all add: workspace_estate request_project_deletion_estate\<close>)

definition estate_reachable :: "runtime \<Rightarrow> 'v object_store_ops \<Rightarrow> db \<Rightarrow> bool" where
  "estate_reachable rt ops s \<longleftrightarrow> (\<exists>v0 v. estate_evolves rt ops (v0, empty_db) (v, s))"

lemma estate_reachable_ok: "estate_reachable rt ops s \<Longrightarrow> digest_ok rt \<Longrightarrow> workspace_ok rt s \<and> jobs_inv rt s"
  using estate_evolves_ok [of rt ops] estate_ok_empty [of rt] by (fastforce simp: estate_reachable_def estate_ok_def)

end
