(* ===== verification/WorkspaceSamples.thy ===== *)
theory WorkspaceSamples imports Samples WorkspaceHistory begin

text \<open>
  A small workspace for the examples: the databases before and after two projects are created, a corpus
  is imported, the deletion of its project is requested and the project is purged.
\<close>

definition sample_workspace :: workspace_config where
  "sample_workspace = \<lparr>wc_limits = \<lparr>il_max_sentences = 10, il_max_sentence_characters = 100\<rparr>, wc_max_upload_bytes = 1000,
     wc_deletion_retention = 30 * day, wc_loads = (\<lambda>_. None),
     wc_names = \<lparr>nt_nfkc = (\<lambda>s. s), nt_nfkd = (\<lambda>s. s), nt_hidden = (\<lambda>_. False)\<rparr>\<rparr>"

definition empty_store :: mem_store where
  "empty_store = \<lparr>ms_objects = [], ms_fail_put = False, ms_fail_delete = False\<rparr>"

abbreviation sample_store_ops :: "mem_store object_store_ops" where
  "sample_store_ops \<equiv> mem_ops (rt_sha sample_runtime)"

definition tenant_db :: db where
  "tenant_db = sample_db\<lparr>projects := []\<rparr>"

definition sample_project :: "uuid \<Rightarrow> string \<Rightarrow> time \<Rightarrow> project" where
  "sample_project i name t = \<lparr>p_id = i, p_organization = 1, p_created_by = 2, p_name = name, p_description = ''first'',
     p_lifecycle = PROJECT_ACTIVE, p_deletion_requested_at = None, p_deletion_retention_until = None,
     p_deletion_corpus_sentences = None, p_created_at = t\<rparr>"

definition sample_sentence :: "int \<Rightarrow> string \<Rightarrow> string \<Rightarrow> sentence" where
  "sample_sentence n original text = \<lparr>s_organization = 1, s_version = 31, s_ordinal = n, s_original_text = original,
     s_normalized_text = text, s_phonemes = None\<rparr>"

definition workspace_audit ::
    "nat \<Rightarrow> actor_kind \<Rightarrow> string \<Rightarrow> audit_action \<Rightarrow> resource_type \<Rightarrow> uuid \<Rightarrow> metadata \<Rightarrow> string \<Rightarrow> time \<Rightarrow> audit_event" where
  "workspace_audit n kind who action rtype rid metadata previous t = \<lparr>ev_payload = \<lparr>ap_organization = 1, ap_sequence = n,
     ap_actor_kind = kind, ap_actor_id = who, ap_action = action, ap_resource_type = rtype, ap_resource_id = rid,
     ap_request_id = None, ap_occurred_at = t, ap_metadata = metadata, ap_previous_hash = previous\<rparr>, ev_event_hash = sample_digest\<rparr>"

definition user_two :: string where
  "user_two = ''00000000-0000-0000-0000-000000000002''"

text \<open>Two projects, one of them with a corpus.\<close>

definition first_db :: db where
  "first_db = tenant_db
     \<lparr>projects := [sample_project 4 ''demo'' 100],
      quota_policies := [\<lparr>qp_organization = 1, qp_values = default_policy, qp_updated_at = 100\<rparr>],
      quota_usages := [sample_usage 0 100],
      audit_heads := [sample_head 1 100],
      audit_events := [workspace_audit 1 USER_ACTOR user_two PROJECT_CREATED PROJECT_RESOURCE 4 [] audit_genesis_hash 100]\<rparr>"

definition projects_db :: db where
  "projects_db = tenant_db
     \<lparr>projects := [sample_project 4 ''demo'' 100, sample_project 5 ''keep'' 150],
      quota_policies := [\<lparr>qp_organization = 1, qp_values = default_policy, qp_updated_at = 100\<rparr>],
      quota_usages := [sample_usage 0 100],
      audit_heads := [sample_head 2 150],
      audit_events := [workspace_audit 1 USER_ACTOR user_two PROJECT_CREATED PROJECT_RESOURCE 4 [] audit_genesis_hash 100,
        workspace_audit 2 USER_ACTOR user_two PROJECT_CREATED PROJECT_RESOURCE 5 [] sample_digest 150]\<rparr>"

definition corpus_db :: db where
  "corpus_db = projects_db
     \<lparr>corpora := [\<lparr>c_id = 30, c_organization = 1, c_project = 4, c_created_by = 2, c_name = ''words'', c_created_at = 200\<rparr>],
      corpus_versions := [\<lparr>v_id = 31, v_organization = 1, v_corpus = 30, v_parent = None, v_created_by = 2, v_number = 1,
        v_language = ''en-us'', v_sentence_count = 2, v_content_sha256 = sample_digest, v_corpusgen_version = ''0.1.7'',
        v_created_at = 200\<rparr>],
      sentences := [sample_sentence 0 ''a  b'' ''a b'', sample_sentence 1 ''c'' ''c''],
      quota_usages := [(sample_usage 0 200)\<lparr>qu_corpus_sentences := 2\<rparr>],
      audit_heads := [sample_head 3 200],
      audit_events := audit_events projects_db @ [workspace_audit 3 USER_ACTOR user_two CORPUS_CREATED CORPUS_RESOURCE 30
        [(''content_sha256'', JStr sample_digest), (''language'', JStr ''en-us''), (''sentence_count'', JInt 2)] sample_digest 200]\<rparr>"

definition pending_db :: db where
  "pending_db = corpus_db
     \<lparr>projects := [schedule_project 300 (300 + 30 * day) 2 (sample_project 4 ''demo'' 100), sample_project 5 ''keep'' 150],
      audit_heads := [sample_head 4 300],
      audit_events := audit_events corpus_db @ [workspace_audit 4 USER_ACTOR user_two PROJECT_DELETION_REQUESTED PROJECT_RESOURCE 4
        [(''artifact_count'', JInt 0), (''corpus_sentences'', JInt 2), (''retention_until'', JStr ''1970-01-31T00:00:00.000300+00:00'')]
        sample_digest 300]\<rparr>"

definition purged_db :: db where
  "purged_db = projects_db
     \<lparr>projects := [sample_project 5 ''keep'' 150],
      quota_usages := [sample_usage 0 400],
      audit_heads := [sample_head 5 (300 + 30 * day)],
      audit_events := audit_events pending_db @ [workspace_audit 5 SERVICE_ACTOR ''service:maintenance'' PROJECT_PURGED PROJECT_RESOURCE 4
        [(''artifact_count'', JInt 0), (''corpus_sentences'', JInt 2)] sample_digest (300 + 30 * day)]\<rparr>"

lemma sample_projects:
  "snd (create_project sample_runtime 100 4 sample_actor '' demo '' ''first  '' tenant_db) = first_db"
  "snd (create_project sample_runtime 150 5 sample_actor ''keep'' ''first'' first_db) = projects_db"
  by code_simp+

lemma sample_corpus:
  "snd (create_manual_corpus sample_runtime sample_workspace 200 30 31 sample_actor 4 ''words'' ''en-US'' [''a  b'', ''c'', ''a b''] projects_db)
     = corpus_db"
  by code_simp

lemma sample_request: "snd (request_project_deletion sample_runtime sample_workspace 300 sample_actor 4 ''DELETE demo'' corpus_db) = pending_db"
  by code_simp

lemma sample_request_accepted:
  "is_Inr (fst (request_project_deletion sample_runtime sample_workspace 300 sample_actor 4 ''DELETE demo'' corpus_db))"
  by code_simp

lemma tenant_db_reached: "estate_evolves sample_runtime ops (v, empty_db) (v, tenant_db)"
proof (rule control_plane)
  have "constraints_ok tenant_db" by code_simp
  then show "evolves sample_runtime empty_db tenant_db"
    by (intro directory) (simp add: directory_step_def tenant_db_def sample_db_def)
  show "same_workspace empty_db tenant_db"
    by (simp add: same_workspace_def tenant_db_def sample_db_def empty_db_def usage_of_def find_usage_def)
qed

lemma corpus_db_reached: "estate_evolves sample_runtime ops (v, empty_db) (v, corpus_db)"
  using estate_then [OF estate_then [OF estate_then [OF tenant_db_reached
    creates_project [of _ _ _ _ 100 4 sample_actor "'' demo ''" "''first  ''"]]
    creates_project [of _ _ _ _ 150 5 sample_actor "''keep''" "''first''"]]
    creates_corpus [of _ _ _ _ sample_workspace 200 30 31 sample_actor 4 "''words''" "''en-US''" "[''a  b'', ''c'', ''a b'']"]]
  by (simp only: sample_projects sample_corpus)

lemma pending_db_reached: "estate_evolves sample_runtime ops (v, empty_db) (v, pending_db)"
  using estate_then [OF corpus_db_reached requests_deletion [of _ _ _ _ sample_workspace 300 sample_actor 4 "''DELETE demo''"]]
  by (simp only: sample_request)

lemma corpus_db_reachable: "estate_reachable sample_runtime ops corpus_db"
  unfolding estate_reachable_def by (intro exI) (rule corpus_db_reached)

lemma pending_db_reachable: "estate_reachable sample_runtime ops pending_db"
  unfolding estate_reachable_def by (intro exI) (rule pending_db_reached)

text \<open>The purge of the first project, step by step.\<close>

definition sample_maintenance :: tenant_context where
  "sample_maintenance = \<lparr>tc_organization = Some 1, tc_identity = MAINTENANCE, tc_actor = ''service:maintenance''\<rparr>"

lemma sample_due:
  "due_project 4 1 (300 + 30 * day) pending_db = Some (schedule_project 300 (300 + 30 * day) 2 (sample_project 4 ''demo'' 100))"
  "purge_preconditions 1 4 pending_db" "project_sentence_count 1 4 pending_db = 2"
  by code_simp+

lemma sample_rows: "purge_rows 1 4 pending_db = pending_db\<lparr>corpora := [], corpus_versions := [], sentences := []\<rparr>"
  by (simp add: purge_rows_def Let_def pending_db_def corpus_db_def projects_db_def tenant_db_def sample_db_def empty_db_def
      delete_where_def in_project_def sentence_of_project_def version_of_project_def sample_sentence_def)

lemma sample_finish:
  "finish_purge sample_runtime 400 (300 + 30 * day) 4 1 sample_maintenance 0 2
     (pending_db\<lparr>corpora := [], corpus_versions := [], sentences := []\<rparr>) = Inr (True, purged_db)"
  by code_simp

lemma purged_db_constraints: "constraints_ok purged_db"
  by code_simp

lemma pending_db_ok: "workspace_ok sample_runtime pending_db" "constraints_ok pending_db"
  using estate_reachable_ok [OF pending_db_reachable sample_digest_ok] by (simp_all add: workspace_ok_def)

lemma sample_purge:
  "purge_candidate sample_runtime sample_store_ops 400 (\<lambda>u. u) (300 + 30 * day) (4, 1) (empty_store, pending_db)
     = (Inr True, empty_store, purged_db)"
proof -
  have "service_context MAINTENANCE (Some 1) = Inr sample_maintenance" "open_session sample_runtime (Some sample_maintenance) = Inr ()"
    "os_list_keys sample_store_ops (project_prefix 1 4) 1 None empty_store = Inr []" by code_simp+
  moreover have "purge_project sample_runtime 400 (300 + 30 * day) 4 1 sample_maintenance pending_db = Inr (True, purged_db)"
  proof -
    have "artifacts pending_db = []"
      by (simp add: pending_db_def corpus_db_def projects_db_def tenant_db_def sample_db_def empty_db_def)
    then show ?thesis
      by (simp add: purge_project_def sample_due sample_rows sample_finish schedule_project_def)
  qed
  ultimately show ?thesis
    using sample_due pending_db_ok(2) purged_db_constraints
    by (simp add: purge_candidate_def in_session_def session_def)
qed

end
