(* ===== verification/WorkspaceGuarantees.thy ===== *)
theory WorkspaceGuarantees imports WorkspaceSamples begin

text \<open>
  The properties of project workspaces: what the import and the export of corpora promise, what holds
  of the workspace tables in every reachable database, and what a purge removes.
\<close>

section \<open>Importing what was exported\<close>

text \<open>
  C33. A text export is an exact backup: the file written from an imported corpus, uploaded again with
  the same language, is accepted and prepares the same sentences under the same content digest. The
  export must fit the upload limit, the stored texts must be in normal form, as NFC leaves them, and
  the first one must not begin with a byte order mark, which the reader would drop.
\<close>

theorem text_export_reimport:
  assumes "prepare_import rt cfg language originals operation = Inr c"
    and "\<And>x. utf8_valid x \<Longrightarrow> utf8_valid (rt_nfc rt x)" and "list_all (\<lambda>x. utf8_valid (replace_crlf x)) originals"
    and "\<And>p. p \<in> set (pc_sentences c) \<Longrightarrow> rt_nfc rt (pr_normalized_text p) = pr_normalized_text p"
    and "\<not> starts_with byte_order_mark (pr_normalized_text (hd (pc_sentences c)))"
    and "length (txt_export (map pr_normalized_text (pc_sentences c))) \<le> wc_max_upload_bytes cfg"
  shows "\<exists>c'. file_import rt cfg language (txt_upload (txt_export (map pr_normalized_text (pc_sentences c)))) operation' = Inr c'
     \<and> pc_language c' = pc_language c \<and> pc_content_sha256 c' = pc_content_sha256 c
     \<and> map pr_normalized_text (pc_sentences c') = map pr_normalized_text (pc_sentences c)"
proof -
  let ?texts = "map pr_normalized_text (pc_sentences c)"
  from assms(1) obtain request where r: "make_import_request language originals = Inr request"
    and p: "prepare_corpus (rt_sha rt) (rt_nfc rt) (wc_limits cfg) request = Inr c" by (auto simp: prepare_import_def)
  then have o: "ir_sentences request = originals" and again: "make_import_request language ?texts = Inr (request\<lparr>ir_sentences := ?texts\<rparr>)"
    by (auto simp: make_import_request_def)
  have "list_all (\<lambda>x. utf8_valid (replace_crlf x)) (ir_sentences request)" using assms(3) o by simp
  note rt = txt_round_trip [OF p assms(2) this assms(4,5) refl]
  note lang = prepare_corpus_cases(1) [OF p]
  from rt(2) obtain c' where c': "prepare_corpus (rt_sha rt) (rt_nfc rt) (wc_limits cfg) (request\<lparr>ir_sentences := ?texts\<rparr>) = Inr c'"
    and same: "map pr_normalized_text (pc_sentences c') = ?texts" "pc_content_sha256 c' = pc_content_sha256 c"
    using lang by (cases request) auto
  moreover have "pc_language c' = pc_language c" using prepare_corpus_cases(1) [OF c'] lang by simp
  moreover have "txt_export ?texts \<noteq> []" by (simp add: txt_export_def)
  ultimately show ?thesis
    using rt(1) assms(6) again by (simp add: file_import_def prepare_import_def txt_upload_def)
qed

definition sample_prepared :: prepared_corpus where
  "sample_prepared = \<lparr>pc_language = ''en-us'', pc_sentences =
     [\<lparr>pr_ordinal = 0, pr_original_text = ''a  b'', pr_normalized_text = ''a b''\<rparr>,
      \<lparr>pr_ordinal = 1, pr_original_text = ''c'', pr_normalized_text = ''c''\<rparr>], pc_content_sha256 = sample_digest\<rparr>"

theorem text_export_reimport_witness:
  "\<exists>c'. file_import sample_runtime sample_workspace ''en-US'' (txt_upload (''a b'' @ [CHR 0x0A] @ ''c'' @ [CHR 0x0A])) ''corpus.import'' = Inr c'
     \<and> map pr_normalized_text (pc_sentences c') = [''a b'', ''c''] \<and> pc_content_sha256 c' = sample_digest"
proof -
  have p: "prepare_import sample_runtime sample_workspace ''en-US'' [''a  b'', ''c'', ''a b''] ''corpus.create'' = Inr sample_prepared"
    and v: "list_all (\<lambda>x. utf8_valid (replace_crlf x)) [''a  b'', ''c'', ''a b'']" by code_simp+
  have texts: "map pr_normalized_text (pc_sentences sample_prepared) = [''a b'', ''c'']" by (simp add: sample_prepared_def)
  have "txt_export [''a b'', ''c''] = ''a b'' @ [CHR 0x0A] @ ''c'' @ [CHR 0x0A]" by code_simp
  moreover have "\<not> starts_with byte_order_mark (pr_normalized_text (hd (pc_sentences sample_prepared)))" by code_simp
  moreover have "rt_nfc sample_runtime x = x" "wc_max_upload_bytes sample_workspace = 1000" "pc_content_sha256 sample_prepared = sample_digest" for x
    by (simp_all add: sample_runtime_def sample_workspace_def sample_prepared_def)
  ultimately show ?thesis
    using text_export_reimport [OF p _ v, of "''corpus.import''"] texts by auto
qed

section \<open>Well-formed workspaces\<close>

text \<open>
  C34. In every database that the workspace service, the deletion of projects and the control plane
  reach, in any order, every corpus, version and sentence stands under a parent of its own
  organization, and the versions of a corpus are numbered from one without a gap, each linked to the
  one before it.
\<close>

theorem workspace_hierarchy:
  assumes "estate_reachable rt ops s" and "digest_ok rt"
  shows "(\<forall>c \<in> set (corpora s). \<exists>p \<in> set (projects s). p_id p = c_project c \<and> p_organization p = c_organization c)
     \<and> (\<forall>v \<in> set (corpus_versions s). \<exists>c \<in> set (corpora s). c_id c = v_corpus v \<and> c_organization c = v_organization v)
     \<and> (\<forall>x \<in> set (sentences s). \<exists>v \<in> set (corpus_versions s). v_id v = s_version x \<and> v_organization v = s_organization x)
     \<and> (\<forall>c \<in> set (corpora s). map v_number (versions_of (c_id c) s) = map int [1..<Suc (length (versions_of (c_id c) s))]
          \<and> map v_parent (versions_of (c_id c) s) = None # map (Some \<circ> v_id) (butlast (versions_of (c_id c) s)))"
proof -
  from estate_reachable_ok [OF assms] have "rows_ok rt s" by (blast dest: workspace_okD(2))
  from rows_okD [OF this] show ?thesis
    unfolding corpus_placed_def version_placed_def sentence_placed_def lineage_def by blast
qed

theorem workspace_hierarchy_witness:
  "\<exists>v \<in> set (corpus_versions corpus_db). v_id v = 31 \<and> v_organization v = 1 \<and> map v_number (versions_of 30 corpus_db) = [1]"
proof -
  have t: "length (versions_of 30 corpus_db) = 1" "\<exists>x \<in> set (sentences corpus_db). s_version x = 31 \<and> s_organization x = 1"
    "\<exists>c \<in> set (corpora corpus_db). c_id c = 30"
    by (simp_all add: versions_of_def corpus_db_def sample_sentence_def)
  from workspace_hierarchy [OF corpus_db_reachable [of sample_store_ops] sample_digest_ok] t show ?thesis by fastforce
qed

text \<open>
  C35. In the same databases every version has exactly the sentences it counts, numbered from zero,
  and its digest is that of their canonical document; the sentence counter of an organization is the
  number of its rows, and a project that waits for its purge recorded the number that it has.
\<close>

theorem workspace_contents:
  assumes "estate_reachable rt ops s" and "digest_ok rt"
  shows "(\<forall>v \<in> set (corpus_versions s). v_sentence_count v = int (length (sentences_of (v_id v) s))
       \<and> map s_ordinal (sentences_of (v_id v) s) = map int [0..<length (sentences_of (v_id v) s)]
       \<and> v_content_sha256 v = rt_sha rt (encode (canon (corpus_document (v_language v) (map s_normalized_text (sentences_of (v_id v) s))))))
     \<and> (\<forall>org. used_corpus_sentences (usage_of org s) = int (count_where (\<lambda>x. s_organization x = org) (sentences s)))
     \<and> (\<forall>p \<in> set (projects s). p_lifecycle p = DELETION_PENDING \<longrightarrow>
          p_deletion_corpus_sentences p = Some (project_sentence_count (p_organization p) (p_id p) s))"
proof -
  from estate_reachable_ok [OF assms] have "rows_ok rt s" "sentences_metered s" by (blast dest: workspace_okD)+
  with rows_okD(3,5) [OF this(1)] show ?thesis
    by (simp add: version_filled_def Let_def sentences_metered_def pending_counted_def project_sentence_count_eq)
qed

theorem workspace_contents_witness:
  "used_corpus_sentences (usage_of 1 pending_db) = 2
     \<and> (\<exists>p \<in> set (projects pending_db). p_lifecycle p = DELETION_PENDING \<and> p_deletion_corpus_sentences p = Some 2)"
proof -
  have t: "count_where (\<lambda>x. s_organization x = 1) (sentences pending_db) = 2"
    "\<exists>p \<in> set (projects pending_db). p_lifecycle p = DELETION_PENDING \<and> p_organization p = 1 \<and> p_id p = 4"
    by (simp_all add: pending_db_def corpus_db_def sample_sentence_def schedule_project_def sample_project_def)
  from workspace_contents [OF pending_db_reachable [of sample_store_ops] sample_digest_ok] t sample_due(3) show ?thesis by fastforce
qed

section \<open>Deleting a project\<close>

lemma scheduled_artifact: "a_state x \<noteq> DELETED \<Longrightarrow> a_state (schedule_artifact now until x) = TOMBSTONED
    \<and> until \<le> a_retention_until (schedule_artifact now until x)"
  by (simp add: schedule_artifact_def)

definition other_tables_kept :: "db \<Rightarrow> db \<Rightarrow> bool" where
  "other_tables_kept s s' \<longleftrightarrow> organizations s' = organizations s \<and> users s' = users s \<and> memberships s' = memberships s
     \<and> corpora s' = corpora s \<and> corpus_versions s' = corpus_versions s \<and> sentences s' = sentences s
     \<and> runs s' = runs s \<and> run_events s' = run_events s \<and> outbox_messages s' = outbox_messages s
     \<and> datg_publications s' = datg_publications s \<and> execution_facts s' = execution_facts s \<and> run_replays s' = run_replays s
     \<and> quota_reservations s' = quota_reservations s \<and> rate_windows s' = rate_windows s
     \<and> maintenance_cursors s' = maintenance_cursors s \<and> prefix (audit_events s) (audit_events s')
     \<and> (\<forall>org. policy_of org s' = policy_of org s \<and> usage_of org s' = usage_of org s)"

lemma update_where_constant:
  assumes "\<And>y. y \<in> set xs \<Longrightarrow> k y = k x \<Longrightarrow> y = x"
  shows "update_where (\<lambda>y. k y = k x) (\<lambda>_. f x) xs = update_where (\<lambda>y. k y = k x) f xs"
  using assms by (auto simp: update_where_def)

text \<open>
  C36. An accepted request to delete an active project was confirmed with its name and finds no
  unfinished run and no held capacity. It schedules the deletion and does nothing else: the project's row
  takes the dates and its number of sentences and waits for at least thirty days, every artifact of it
  that is not deleted is tombstoned for at least as long, and every other project, every artifact of
  other projects and every row of the other tables is as it was, with the audit log extended. A repeated
  request answers the same dates and changes nothing.
\<close>

theorem deletion_scheduled:
  assumes "request_project_deletion rt cfg now a i confirmation s = (Inr snapshot, s')" and "active_project (ac_organization a) i s"
    and "constraints_ok s"
  shows "(\<exists>p \<in> set (projects s). p_id p = i \<and> confirmation = ''DELETE '' @ p_name p)
     \<and> \<not> active_run_in (ac_organization a) i s \<and> \<not> active_reservation_in (ac_organization a) i s
     \<and> ds_retention_until snapshot = now + wc_deletion_retention cfg \<and> 30 * day \<le> wc_deletion_retention cfg
     \<and> (\<exists>p \<in> set (projects s'). p_id p = i \<and> p_lifecycle p = DELETION_PENDING
          \<and> p_deletion_retention_until p = Some (ds_retention_until snapshot))
     \<and> projects s' = update_where (\<lambda>p. p_id p = i)
          (\<lambda>p. p\<lparr>p_lifecycle := DELETION_PENDING, p_deletion_requested_at := Some now,
             p_deletion_retention_until := Some (ds_retention_until snapshot),
             p_deletion_corpus_sentences := Some (sentences_in (ac_organization a) i s)\<rparr>) (projects s)
     \<and> artifacts s' = update_where (\<lambda>x. a_organization x = ac_organization a \<and> a_project x = i \<and> a_state x \<noteq> DELETED)
          (\<lambda>x. x\<lparr>a_state := TOMBSTONED, a_tombstoned_at := Some (case a_tombstoned_at x of None \<Rightarrow> now | Some t \<Rightarrow> t),
             a_retention_until := max (a_retention_until x) (ds_retention_until snapshot)\<rparr>) (artifacts s)
     \<and> map a_id (artifacts s') = map a_id (artifacts s)
     \<and> (\<forall>x \<in> set (artifacts s'). a_organization x = ac_organization a \<and> a_project x = i \<longrightarrow>
          a_state x = DELETED \<or> a_state x = TOMBSTONED \<and> ds_retention_until snapshot \<le> a_retention_until x)
     \<and> other_tables_kept s s'
     \<and> request_project_deletion rt cfg now' a i confirmation s' = (Inr snapshot, s')"
proof -
  let ?org = "ac_organization a" and ?until = "now + wc_deletion_retention cfg"
  from assms(1) obtain c user_id role where ctx: "user_context ?org (ac_subject a) = Inr c"
    and who: "find_member ''workspace.identity'' a s = Inr (user_id, role)" and admin: "require_admin role ''project.delete'' = Inr ()"
    and req: "request_deletion rt c now ?org user_id i confirmation (ac_request_id a) (wc_deletion_retention cfg) s = Inr (snapshot, s')"
    and fin: "constraints_ok s'"
    by (auto simp: request_project_deletion_def in_workspace_def workspace_actor_def dest!: in_session_Inr)
  from req show ?thesis
  proof (cases rule: request_deletion_Inr)
    case (again p)
    from assms(2) obtain q where "q \<in> set (projects s)" "p_id q = i" "p_lifecycle q = PROJECT_ACTIVE"
      by (auto simp: active_project_def list_ex_iff)
    with again workspace_unique(1) [OF assms(3) _ again(1), of q] show ?thesis by simp
  next
    case (scheduled p t md)
    let ?row = "schedule_project now ?until (sentences_in ?org i s) p"
    note f = platform_frame_tables [OF audit_append_frame(1) [OF scheduled(10)]]
    have ps: "projects s' = update_where (\<lambda>q. p_id q = i) (\<lambda>_. ?row) (projects s)"
      and as: "artifacts s' = update_where (remaining_artifact ?org i) (schedule_artifact now ?until) (artifacts s)"
      using f by (simp_all add: scheduled(9))
    have row: "?row \<in> set (projects s')" using scheduled(1,2) by (auto simp: ps set_update_where)
    have only: "q = ?row" if "q \<in> set (projects s')" "p_id q = i" for q
      using that by (auto simp: ps set_update_where split: if_splits)
    have sel: "p_id ?row = i" "p_organization ?row = ?org" "p_name ?row = p_name p" "p_lifecycle ?row = DELETION_PENDING"
      "p_deletion_requested_at ?row = Some now" "p_deletion_retention_until ?row = Some ?until"
      using scheduled(2,3) by (simp_all add: schedule_project_def)
    have found: "find (\<lambda>q. p_id q = i \<and> p_organization q = ?org) (projects s') = Some ?row"
    proof (cases "find (\<lambda>q. p_id q = i \<and> p_organization q = ?org) (projects s')")
      case None
      with row sel show ?thesis by (auto simp: find_None_iff_set)
    next
      case (Some q)
      with only [of q] find_SomeD [OF Some] show ?thesis by simp
    qed
    have "deletion_snapshot_of ?row = Inr snapshot"
      using sel by (simp add: deletion_snapshot_of_def scheduled(11))
    then have "request_deletion rt c now' ?org user_id i confirmation (ac_request_id a) (wc_deletion_retention cfg) s' = Inr (snapshot, s')"
      using scheduled(5,6) found sel by (simp add: request_deletion_def)
    moreover have "find_member ''workspace.identity'' a s' = Inr (user_id, role)"
      using who f by (simp add: find_member_def member_rows_def scheduled(9))
    moreover have "open_session rt (Some c) = Inr ()" by (rule open_session_valid [OF user_context_valid [OF ctx]])
    ultimately have again: "request_project_deletion rt cfg now' a i confirmation s' = (Inr snapshot, s')"
      using ctx admin fin by (simp add: request_project_deletion_def in_workspace_def in_session_def session_def workspace_actor_def)
    have "map a_id (artifacts s') = map a_id (artifacts s)"
      unfolding as by (rule map_update_where) (simp add: schedule_artifact_def)
    moreover have "a_state x = DELETED \<or> a_state x = TOMBSTONED \<and> ?until \<le> a_retention_until x"
      if "x \<in> set (artifacts s')" "a_organization x = ?org" "a_project x = i" for x
    proof -
      from that(1) obtain y where "y \<in> set (artifacts s)" "x = (if remaining_artifact ?org i y then schedule_artifact now ?until y else y)"
        by (auto simp: as set_update_where)
      with that(2,3) scheduled_artifact [of y now ?until] show ?thesis by (auto simp: remaining_artifact_def split: if_splits)
    qed
    moreover have "projects s' = update_where (\<lambda>p. p_id p = i)
          (\<lambda>p. p\<lparr>p_lifecycle := DELETION_PENDING, p_deletion_requested_at := Some now,
             p_deletion_retention_until := Some ?until, p_deletion_corpus_sentences := Some (sentences_in ?org i s)\<rparr>) (projects s)"
      using update_where_constant [where k = p_id and xs = "projects s" and x = p and f = "schedule_project now ?until (sentences_in ?org i s)"]
        workspace_unique(1) [OF assms(3) _ scheduled(1)] scheduled(2) by (simp add: ps schedule_project_def [abs_def])
    moreover have "artifacts s' = update_where (\<lambda>x. a_organization x = ?org \<and> a_project x = i \<and> a_state x \<noteq> DELETED)
          (\<lambda>x. x\<lparr>a_state := TOMBSTONED, a_tombstoned_at := Some (case a_tombstoned_at x of None \<Rightarrow> now | Some t \<Rightarrow> t),
             a_retention_until := max (a_retention_until x) ?until\<rparr>) (artifacts s)"
      by (auto simp: as update_where_def remaining_artifact_def schedule_artifact_def max_def split: option.splits)
    moreover have "other_tables_kept s s'"
    proof -
      have "extends s t" by (simp add: scheduled(9) extends_def)
      from audit_append_extends [OF scheduled(10) this] audit_append_frame [OF scheduled(10)]
      show ?thesis using f by (simp add: other_tables_kept_def extends_def scheduled(9) policy_of_def usage_of_def find_policy_def find_usage_def)
    qed
    ultimately show ?thesis
      using scheduled row sel again by (auto simp: minimum_project_retention_def)
  qed
qed

theorem deletion_scheduled_witness:
  "\<exists>snapshot. request_project_deletion sample_runtime sample_workspace 999 sample_actor 4 ''DELETE demo'' pending_db = (Inr snapshot, pending_db)
     \<and> ds_retention_until snapshot = 300 + 30 * day"
proof -
  let ?p = "request_project_deletion sample_runtime sample_workspace 300 sample_actor 4 ''DELETE demo'' corpus_db"
  obtain snapshot where p: "?p = (Inr snapshot, pending_db)"
    using is_InrD [OF sample_request_accepted] sample_request by metis
  have "active_project (ac_organization sample_actor) 4 corpus_db"
    by (simp add: active_project_def sample_actor_def corpus_db_def projects_db_def sample_project_def)
  moreover have "constraints_ok corpus_db"
    using estate_reachable_ok [OF corpus_db_reachable sample_digest_ok] by (simp add: workspace_ok_def)
  moreover have "wc_deletion_retention sample_workspace = 30 * day" by (simp add: sample_workspace_def)
  ultimately show ?thesis using deletion_scheduled [OF p, of 999] by auto
qed

lemma purge_candidate_Inr:
  assumes "purge_candidate rt ops now env cutoff (i, org) t = (Inr True, t')"
  shows "\<exists>c. purge_project rt now cutoff i org c (snd (env t)) = Inr (True, snd t')" and "constraints_ok (snd t')"
    and "fst t' = fst (env t)" and "os_list_keys ops (project_prefix org i) 1 None (fst t) = Inr []"
proof -
  let ?ctx = "service_context MAINTENANCE (Some org)"
  let ?read = "in_session rt ?ctx (\<lambda>c s. Inr (due_project i org cutoff s \<noteq> None \<and> purge_preconditions org i s, s)) (snd t)"
  have "snd ?read = snd t" by (rule in_session_preserves [where P = "\<lambda>u. u = snd t"]) auto
  then obtain r where r: "?read = (r, snd t)" by (cases ?read) simp
  obtain v s where e: "env t = (v, s)" by (rule prod.exhaust)
  obtain r' s' where p: "in_session rt ?ctx (purge_project rt now cutoff i org) s = (r', s')" by (rule prod.exhaust)
  from assms have "r' = Inr True \<and> t' = (v, s') \<and> os_list_keys ops (project_prefix org i) 1 None (fst t) = Inr []"
    unfolding purge_candidate_def Let_def prod.case r by (auto simp: e p split: sum.splits if_splits)
  with p e in_session_Inr [of rt ?ctx "purge_project rt now cutoff i org" s True s']
  show "\<exists>c. purge_project rt now cutoff i org c (snd (env t)) = Inr (True, snd t')" "constraints_ok (snd t')"
    "fst t' = fst (env t)" "os_list_keys ops (project_prefix org i) 1 None (fst t) = Inr []" by auto
qed

text \<open>
  C37. A purge that reports a deleted project removed exactly that project: it was due, its prefix in the
  object store was empty, the project, its corpora, versions, sentences, runs and artifacts are gone and
  every other row of these tables is kept, the sentence counter of its organization drops by the
  sentences it held, the object store is as the others left it, and the invariants of the control
  plane hold for what remains.
\<close>

theorem project_purge_exact:
  assumes "purge_candidate rt ops now env cutoff (i, org) t = (Inr True, t')"
    and "estate_reachable rt ops (snd (env t))" and "digest_ok rt" and "s = snd (env t)" and "s' = snd t'"
  shows "os_list_keys ops (project_prefix org i) 1 None (fst t) = Inr [] \<and> fst t' = fst (env t)
     \<and> (\<exists>p \<in> set (projects s). p_id p = i \<and> p_organization p = org \<and> due_at cutoff p)
     \<and> projects s' = filter (\<lambda>p. p_id p \<noteq> i) (projects s)
     \<and> corpora s' = filter (\<lambda>c. \<not> (c_organization c = org \<and> c_project c = i)) (corpora s)
     \<and> corpus_versions s' = filter (\<lambda>v. \<not> version_of_project org i s v) (corpus_versions s)
     \<and> sentences s' = filter (\<lambda>x. \<not> sentence_of_project org i s x) (sentences s)
     \<and> runs s' = filter (\<lambda>r. \<not> (r_organization r = org \<and> r_project r = i)) (runs s)
     \<and> artifacts s' = filter (\<lambda>x. \<not> (a_organization x = org \<and> a_project x = i)) (artifacts s)
     \<and> (\<forall>o'. used_corpus_sentences (usage_of o' s')
          = used_corpus_sentences (usage_of o' s) - (if o' = org then project_sentence_count org i s else 0))
     \<and> jobs_inv rt s'"
proof -
  note pc = purge_candidate_Inr [OF assms(1)]
  from pc(1) obtain c where c: "purge_project rt now cutoff i org c s = Inr (True, s')" using assms(4,5) by blast
  note pu = purge_project_Inr [OF c]
  note f = platform_frame_tables [OF pu(3), simplified]
  have "jobs_inv rt s" using estate_reachable_ok [OF assms(2,3)] assms(4) by simp
  then have "jobs_inv rt s'" using purge_project_keeps(2) [OF c _ assms(3)] pc(2) assms(5) by simp
  moreover have "artifacts s' = filter (\<lambda>x. \<not> (a_organization x = org \<and> a_project x = i)) (artifacts s)"
    using pu(2) f(11) by (auto simp: purge_preconditions_def remaining_artifact_def list_ex_iff delete_where_def intro!: filter_cong)
  moreover have "\<exists>p \<in> set (projects s). p_id p = i \<and> p_organization p = org \<and> due_at cutoff p"
    using pu(1) by (auto simp: due_project_def dest: find_SomeD)
  ultimately show ?thesis
    using f pc(3,4) pu(5)
    by (simp add: delete_where_def sentence_of_project_iff project_sentence_count_eq comp_def)
qed

theorem project_purge_exact_witness:
  "projects purged_db = filter (\<lambda>p. p_id p \<noteq> 4) (projects pending_db) \<and> sentences purged_db = []
     \<and> used_corpus_sentences (usage_of 1 purged_db) = 0"
proof -
  have "used_corpus_sentences (usage_of 1 pending_db) = 2"
    by (simp add: usage_of_def find_usage_def pending_db_def corpus_db_def counters_of_def sample_usage_def)
  moreover have "sentences purged_db = []"
    by (simp add: purged_db_def projects_db_def tenant_db_def sample_db_def empty_db_def)
  moreover have "estate_reachable sample_runtime sample_store_ops (snd (empty_store, pending_db))"
    by (simp add: pending_db_reachable)
  ultimately show ?thesis
    using project_purge_exact [OF sample_purge _ sample_digest_ok refl refl] sample_due(3) by simp
qed

end
