(* ===== verification/Maintenance.thy ===== *)
theory Maintenance imports WorkspaceHistory RateLimits ArtifactAdoption begin

text \<open>
  src/corpuskit/services/maintenance.py: the runner that expires reservations, purges artifacts and
  projects, reconciles the object store and cleans the staging area, and the cursors it keeps in the
  database so that the next run goes on where one stopped. An instant has its time zone, so the check
  of \<open>_utc\<close> has no counterpart; the report is a record of counts.
\<close>

section \<open>Cursors\<close>

datatype maintenance_operation = ARTIFACT_RECONCILIATION | STAGING_CLEANUP

fun maintenance_operation_value :: "maintenance_operation \<Rightarrow> string" where
  "maintenance_operation_value ARTIFACT_RECONCILIATION = ''artifact-reconciliation''"
| "maintenance_operation_value STAGING_CLEANUP = ''staging-cleanup''"

definition is_hex_part :: "nat \<Rightarrow> string \<Rightarrow> bool" where
  "is_hex_part n s \<longleftrightarrow> length s = n \<and> list_all is_hex_char s"

definition artifact_cursor_kinds :: "string list" where
  "artifact_cursor_kinds = [''run-manifest'', ''corpus-text'', ''evaluation-report'', ''export'', ''checkpoint'',
     ''model-adapter'', ''run-result'']"

text \<open>\<open>_ARTIFACT_CURSOR.fullmatch\<close>, \<open>_STAGING_CURSOR.fullmatch\<close> and \<open>_FINGERPRINT.fullmatch\<close>: no part has a slash.\<close>

definition artifact_cursor_ok :: "string \<Rightarrow> bool" where
  "artifact_cursor_ok key \<longleftrightarrow>
     (case split_on CHR ''/'' [] key of
        [area, version, org, project, scope, kind, shard, digest] \<Rightarrow>
          area = ''artifacts'' \<and> version = ''v1'' \<and> is_hex_part 32 org \<and> is_hex_part 32 project
          \<and> (scope = ''project'' \<or> is_hex_part 32 scope) \<and> kind \<in> set artifact_cursor_kinds
          \<and> is_hex_part 2 shard \<and> is_hex_part 64 digest
      | _ \<Rightarrow> False)"

definition staging_cursor_ok :: "string \<Rightarrow> bool" where
  "staging_cursor_ok key \<longleftrightarrow>
     (case split_on CHR ''/'' [] key of
        [area, version, algorithm, shard, digest] \<Rightarrow>
          area = ''staging'' \<and> version = ''v1'' \<and> algorithm = ''sha256'' \<and> is_hex_part 2 shard \<and> is_hex_part 64 digest
      | _ \<Rightarrow> False)"

definition maintenance_fingerprint :: "string \<Rightarrow> exn + string" where
  "maintenance_fingerprint fingerprint =
     bindr (ensure (is_hex_part 64 fingerprint) (ValueError ''maintenance backend fingerprint is invalid'')) (\<lambda>_. Inr fingerprint)"

definition validate_cursor :: "string option \<Rightarrow> (string \<Rightarrow> bool) \<Rightarrow> string \<Rightarrow> exn + unit" where
  "validate_cursor cursor pattern what =
     ensure (case cursor of None \<Rightarrow> True | Some key \<Rightarrow> pattern key) (ValueError (what @ '' cursor is invalid''))"

definition validate_progress :: "string option \<Rightarrow> string option \<Rightarrow> (string \<Rightarrow> bool) \<Rightarrow> string \<Rightarrow> exn + unit" where
  "validate_progress current next_cursor pattern what =
     bindr (validate_cursor next_cursor pattern what) (\<lambda>_.
     ensure (case (next_cursor, current) of (Some key, Some last_key) \<Rightarrow> \<not> key \<le> last_key | _ \<Rightarrow> True)
       (ValueError (what @ '' cursor did not advance'')))"

section \<open>Their rows\<close>

definition is_cursor_row :: "string \<Rightarrow> maintenance_operation \<Rightarrow> maintenance_cursor \<Rightarrow> bool" where
  "is_cursor_row fingerprint operation m \<longleftrightarrow>
     mc_operation m = maintenance_operation_value operation \<and> mc_backend_fingerprint m = fingerprint"

definition cursor_row :: "string \<Rightarrow> maintenance_operation \<Rightarrow> db \<Rightarrow> maintenance_cursor option" where
  "cursor_row fingerprint operation s = find (is_cursor_row fingerprint operation) (maintenance_cursors s)"

definition stored_cursor :: "string \<Rightarrow> maintenance_operation \<Rightarrow> db \<Rightarrow> string option" where
  "stored_cursor fingerprint operation s = Option.bind (cursor_row fingerprint operation s) mc_cursor"

definition load_cursor :: "runtime \<Rightarrow> string \<Rightarrow> maintenance_operation \<Rightarrow> db \<Rightarrow> (exn + string option) \<times> db" where
  "load_cursor rt fingerprint operation s =
     in_session rt (service_context MAINTENANCE None) (\<lambda>c s. Inr (stored_cursor fingerprint operation s, s)) s"

text \<open>An assignment that changes nothing issues no UPDATE.\<close>

definition advance_cursor ::
    "runtime \<Rightarrow> time \<Rightarrow> string \<Rightarrow> maintenance_operation \<Rightarrow> string option \<Rightarrow> string option \<Rightarrow> db \<Rightarrow> (exn + unit) \<times> db" where
  "advance_cursor rt now fingerprint operation expected next_cursor s =
     in_session rt (service_context MAINTENANCE None) (\<lambda>c s.
       bindr (ensure (stored_cursor fingerprint operation s = expected) MaintenanceStateConflictError) (\<lambda>_.
       case cursor_row fingerprint operation s of
         None \<Rightarrow> Inr ((), s\<lparr>maintenance_cursors := maintenance_cursors s @
             [\<lparr>mc_operation = maintenance_operation_value operation, mc_backend_fingerprint = fingerprint,
               mc_cursor = next_cursor, mc_updated_at = now\<rparr>]\<rparr>)
       | Some row \<Rightarrow>
           if mc_cursor row = next_cursor then Inr ((), s)
           else Inr ((), s\<lparr>maintenance_cursors := update_where (is_cursor_row fingerprint operation)
             (\<lambda>m. m\<lparr>mc_cursor := next_cursor, mc_updated_at := now\<rparr>) (maintenance_cursors s)\<rparr>))) s"

section \<open>Scanning page by page\<close>

definition then_do :: "(exn + 'a) \<times> 't \<Rightarrow> ('a \<Rightarrow> 't \<Rightarrow> (exn + 'b) \<times> 't) \<Rightarrow> (exn + 'b) \<times> 't" where
  "then_do m f = (case m of (Inl e, t) \<Rightarrow> (Inl e, t) | (Inr a, t) \<Rightarrow> f a t)"

definition on_db :: "(db \<Rightarrow> (exn + 'a) \<times> db) \<Rightarrow> 'v \<times> db \<Rightarrow> (exn + 'a) \<times> 'v \<times> db" where
  "on_db f t = (case f (snd t) of (r, s) \<Rightarrow> (r, fst t, s))"

text \<open>What the reconciliation and the staging cleanup have in common; a page and its advance know their number.\<close>

record ('t, 'r) scan =
  sc_page :: "nat \<Rightarrow> string option \<Rightarrow> 't \<Rightarrow> (exn + 'r) \<times> 't"
  sc_next :: "'r \<Rightarrow> string option"
  sc_pattern :: "string \<Rightarrow> bool"
  sc_label :: string
  sc_advance :: "nat \<Rightarrow> string option \<Rightarrow> string option \<Rightarrow> 't \<Rightarrow> (exn + unit) \<times> 't"

text \<open>At most \<open>n\<close> more pages, from page \<open>i\<close> and \<open>cursor\<close>: the reports of all pages and the last cursor.\<close>

primrec scan_pages ::
    "('t, 'r) scan \<Rightarrow> nat \<Rightarrow> nat \<Rightarrow> string option \<Rightarrow> 'r list \<Rightarrow> 't \<Rightarrow> (exn + 'r list \<times> string option) \<times> 't" where
  "scan_pages sc 0 = (\<lambda>i cursor reports t. (Inr (reports, cursor), t))"
| "scan_pages sc (Suc n) = (\<lambda>i cursor reports t.
     then_do (sc_page sc i cursor t) (\<lambda>report t.
     then_do (validate_progress cursor (sc_next sc report) (sc_pattern sc) (sc_label sc), t) (\<lambda>_ t.
     then_do (sc_advance sc i cursor (sc_next sc report) t) (\<lambda>_ t.
     if sc_next sc report = None then (Inr (reports @ [report], None), t)
     else scan_pages sc n (Suc i) (sc_next sc report) (reports @ [report]) t))))"

section \<open>One run\<close>

text \<open>
  What happens around the runner: the clock of the rows it writes, the instants it reads, and what
  other processes do inside its steps and between them (\<open>mw_between\<close> before each step, \<open>mw_turn\<close>
  between a page and the advance of its cursor).
\<close>

record 'v maintenance_world =
  mw_clock :: "nat \<Rightarrow> time"
  mw_started :: time
  mw_completed :: time
  mw_windows :: clock_source
  mw_expiry :: world
  mw_purge :: "nat \<Rightarrow> 'v \<times> db \<Rightarrow> 'v \<times> db"
  mw_pages :: "maintenance_operation \<Rightarrow> nat \<Rightarrow> nat \<Rightarrow> 'v \<times> db \<Rightarrow> 'v \<times> db"
  mw_turn :: "maintenance_operation \<Rightarrow> nat \<Rightarrow> 'v \<times> db \<Rightarrow> 'v \<times> db"
  mw_projects :: "nat \<Rightarrow> 'v \<times> db \<Rightarrow> 'v \<times> db"
  mw_between :: "nat \<Rightarrow> 'v \<times> db \<Rightarrow> 'v \<times> db"

text \<open>The services of the runner; \<open>mn_limiter\<close> is the optional rate limiter.\<close>

record maintenance_config =
  mn_artifacts :: artifact_config
  mn_adoption :: adoption_config
  mn_limiter :: "rate_limiter option"
  mn_fingerprint :: string

definition reconciliation_scan ::
    "runtime \<Rightarrow> maintenance_config \<Rightarrow> 'v object_store_ops \<Rightarrow> 'v maintenance_world \<Rightarrow> int \<Rightarrow> ('v \<times> db, reconciliation_report) scan" where
  "reconciliation_scan rt cfg ops w limit =
     \<lparr>sc_page = (\<lambda>i cursor. reconcile_orphans rt (mn_artifacts cfg) ops (mw_pages w ARTIFACT_RECONCILIATION i) cursor limit (mw_started w)),
      sc_next = rr_next_cursor, sc_pattern = artifact_cursor_ok, sc_label = ''reconciliation'',
      sc_advance = (\<lambda>i cursor next_cursor t. on_db (advance_cursor rt (mw_clock w i) (mn_fingerprint cfg) ARTIFACT_RECONCILIATION
        cursor next_cursor) (mw_turn w ARTIFACT_RECONCILIATION i t))\<rparr>"

definition staging_scan ::
    "runtime \<Rightarrow> maintenance_config \<Rightarrow> 'v object_store_ops \<Rightarrow> 'v maintenance_world \<Rightarrow> int \<Rightarrow> ('v \<times> db, staging_report) scan" where
  "staging_scan rt cfg ops w limit =
     \<lparr>sc_page = (\<lambda>i cursor. cleanup_staging (mn_adoption cfg) ops (mw_pages w STAGING_CLEANUP i) cursor limit (mw_started w)),
      sc_next = sg_next_cursor, sc_pattern = staging_cursor_ok, sc_label = ''staging'',
      sc_advance = (\<lambda>i cursor next_cursor t. on_db (advance_cursor rt (mw_clock w i) (mn_fingerprint cfg) STAGING_CLEANUP
        cursor next_cursor) (mw_turn w STAGING_CLEANUP i t))\<rparr>"

record reconciliation_summary =
  rs_scanned :: nat
  rs_pages :: nat
  rs_orphaned :: nat
  rs_deleted :: nat
  rs_delete_failures :: nat
  rs_missing :: nat
  rs_corrupt :: nat
  rs_more_available :: bool

definition reconciliation_summary_of :: "reconciliation_report list \<Rightarrow> string option \<Rightarrow> reconciliation_summary" where
  "reconciliation_summary_of reports cursor =
     (let total = (\<lambda>f. sum_list (map f reports)) in
      \<lparr>rs_scanned = total rr_scanned, rs_pages = length reports, rs_orphaned = total rr_orphaned, rs_deleted = total rr_deleted,
       rs_delete_failures = total rr_delete_failures, rs_missing = total rr_missing, rs_corrupt = total rr_corrupt,
       rs_more_available = (cursor \<noteq> None)\<rparr>)"

record staging_summary =
  gs_scanned :: nat
  gs_pages :: nat
  gs_deleted :: nat
  gs_deferred :: nat
  gs_failed :: nat
  gs_more_available :: bool

definition staging_summary_of :: "staging_report list \<Rightarrow> string option \<Rightarrow> staging_summary" where
  "staging_summary_of reports cursor =
     (let total = (\<lambda>f. sum_list (map f reports)) in
      \<lparr>gs_scanned = total sg_scanned, gs_pages = length reports, gs_deleted = total sg_deleted, gs_deferred = total sg_deferred,
       gs_failed = total sg_failed, gs_more_available = (cursor \<noteq> None)\<rparr>)"

record maintenance_report =
  me_started_at :: time
  me_completed_at :: time
  me_reservations_expired :: nat
  me_windows_deleted :: int
  me_artifact_purge :: purge_report
  me_reconciliation :: reconciliation_summary
  me_staging :: staging_summary
  me_project_purge :: project_purge_report

definition run_once ::
    "runtime \<Rightarrow> maintenance_config \<Rightarrow> 'v object_store_ops \<Rightarrow> 'v maintenance_world \<Rightarrow> int \<Rightarrow> int \<Rightarrow> int \<Rightarrow> 'v \<times> db
     \<Rightarrow> (exn + maintenance_report) \<times> 'v \<times> db" where
  "run_once rt cfg ops w limit max_reconciliation_pages max_staging_pages t =
     (if \<not> (1 \<le> limit \<and> limit \<le> 1000) then (Inl (ValueError ''maintenance limit must be between 1 and 1000''), t)
      else if \<not> (1 \<le> max_staging_pages \<and> max_staging_pages \<le> 20)
      then (Inl (ValueError ''staging page limit must be between 1 and 20''), t)
      else if \<not> (1 \<le> max_reconciliation_pages \<and> max_reconciliation_pages \<le> 20)
      then (Inl (ValueError ''reconciliation page limit must be between 1 and 20''), t)
      else
        then_do (on_db (load_cursor rt (mn_fingerprint cfg) ARTIFACT_RECONCILIATION) t) (\<lambda>reconciliation_cursor t.
        then_do (on_db (load_cursor rt (mn_fingerprint cfg) STAGING_CLEANUP) (mw_between w 0 t)) (\<lambda>staging_cursor t.
        then_do (validate_cursor reconciliation_cursor artifact_cursor_ok ''reconciliation'', t) (\<lambda>_ t.
        then_do (validate_cursor staging_cursor staging_cursor_ok ''staging'', t) (\<lambda>_ t.
        then_do (on_db (expire_stale rt (mw_expiry w) (mw_started w) limit) (mw_between w 1 t)) (\<lambda>expired t.
        then_do (purge_due rt ops (mw_clock w 0) (mw_purge w) (mw_started w) (nat limit) (mw_between w 2 t)) (\<lambda>purge t.
        then_do (scan_pages (reconciliation_scan rt cfg ops w limit) (nat max_reconciliation_pages) 0 reconciliation_cursor []
          (mw_between w 3 t)) (\<lambda>(pages, reconciliation_cursor) t.
        then_do (scan_pages (staging_scan rt cfg ops w limit) (nat max_staging_pages) 0 staging_cursor [] (mw_between w 4 t))
          (\<lambda>(staged, cursor) t.
        then_do (purge_due_projects rt ops (mw_clock w 1) (mw_projects w) (mw_started w) limit (mw_between w 5 t)) (\<lambda>projects t.
        then_do (case mn_limiter cfg of None \<Rightarrow> (Inr 0, t)
            | Some limiter \<Rightarrow> on_db (purge_expired rt limiter (mw_windows w) limit) (mw_between w 6 t)) (\<lambda>windows t.
        (Inr \<lparr>me_started_at = mw_started w, me_completed_at = mw_completed w, me_reservations_expired = expired,
           me_windows_deleted = windows, me_artifact_purge = purge,
           me_reconciliation = reconciliation_summary_of pages reconciliation_cursor,
           me_staging = staging_summary_of staged cursor, me_project_purge = projects\<rparr>, t))))))))))))"

section \<open>What sequencing and scanning keep\<close>

lemma then_do_keeps:
  assumes "P (snd m)" and "\<And>a t. P t \<Longrightarrow> P (snd (f a t))"
  shows "P (snd (then_do m f))"
  using assms by (cases m; cases "fst m") (auto simp: then_do_def)

lemma if_keeps: "P (snd a) \<Longrightarrow> P (snd b) \<Longrightarrow> P (snd (if c then a else b))"
  by simp

lemma pair_keeps: "(\<And>x y. P (snd (f x y t))) \<Longrightarrow> P (snd ((case p of (x, y) \<Rightarrow> f x y) t))"
  by (cases p) simp

lemma then_do_Inr: "then_do m f = (Inr b, t') \<longleftrightarrow> (\<exists>a t. m = (Inr a, t) \<and> f a t = (Inr b, t'))"
  by (auto simp: then_do_def split: prod.splits sum.splits)

lemma snd_on_db [simp]: "snd (on_db f t) = (fst t, snd (f (snd t)))"
  by (cases "f (snd t)") (simp add: on_db_def)

lemma fst_on_db [simp]: "fst (on_db f t) = fst (f (snd t))"
  by (cases "f (snd t)") (simp add: on_db_def)

lemma on_db_Inr: "on_db f t = (Inr a, t') \<longleftrightarrow> f (snd t) = (Inr a, snd t') \<and> fst t' = fst t"
  by (cases "f (snd t)"; cases t') (auto simp: on_db_def)

lemma scan_pages_keeps:
  assumes "\<And>i cursor t. P t \<Longrightarrow> P (snd (sc_page sc i cursor t))" and "\<And>i c n t. P t \<Longrightarrow> P (snd (sc_advance sc i c n t))"
  shows "P t \<Longrightarrow> P (snd (scan_pages sc n i cursor reports t))"
proof (induction n arbitrary: i cursor reports t)
  case (Suc n)
  then show ?case
    by (simp, intro then_do_keeps [where P = P]) (simp_all add: assms)
qed simp

section \<open>Every step keeps what its rows keep\<close>

lemma sweep_orphans_keeps:
  assumes "\<And>i u. P (snd u) \<Longrightarrow> P (snd (env i u))"
  shows "P (snd t) \<Longrightarrow> P (snd (snd (sweep_orphans ops cutoff env referenced i keys n t)))"
proof (induction keys arbitrary: i n t)
  case (Cons key keys)
  obtain v s where e: "env i t = (v, s)" by (rule prod.exhaust)
  with assms [OF Cons.prems, of i] have "P s" by simp
  then have "P (snd (v', s))" for v' by simp
  note IH = Cons.IH [OF Cons.prems] Cons.IH [OF this]
  obtain d v' where "os_delete ops key v = (d, v')" by (rule prod.exhaust)
  with e \<open>P s\<close> show ?case by (simp add: IH Let_def split: sum.split)
qed simp

lemma reconcile_orphans_keeps:
  assumes "\<And>i u. P (snd u) \<Longrightarrow> P (snd (env i u))" and "P (snd t)"
  shows "P (snd (snd (reconcile_orphans rt cfg ops env cursor limit now t)))"
proof (cases "reconciliation_page_of rt ops cursor limit t")
  case (Inr page)
  let ?sw = "sweep_orphans ops (now - ac_orphan_grace cfg) env (rp_referenced page) 0 (rp_keys page)
      \<lparr>oc_orphaned = 0, oc_deleted = 0, oc_failures = 0\<rparr> t"
  have "P (snd (snd ?sw))" by (rule sweep_orphans_keeps [where P = P, OF assms])
  then show ?thesis by (cases ?sw; cases "fst ?sw") (auto simp: reconcile_orphans_def Inr)
qed (simp add: reconcile_orphans_def assms(2))

lemma sweep_staging_keeps:
  assumes "\<And>i u. P (snd u) \<Longrightarrow> P (snd (env i u))"
  shows "P (snd t) \<Longrightarrow> P (snd (snd (sweep_staging ops cutoff env i keys (a, b, c) t)))"
proof (induction keys arbitrary: i a b c t)
  case (Cons key keys)
  obtain v s where e: "env i t = (v, s)" by (rule prod.exhaust)
  with assms [OF Cons.prems, of i] have "P s" by simp
  then have "P (snd (v', s))" for v' by simp
  note IH = Cons.IH [OF Cons.prems] Cons.IH [OF this]
  obtain d v' where "os_delete ops key v = (d, v')" by (rule prod.exhaust)
  with e \<open>P s\<close> show ?case by (simp add: IH split: sum.split)
qed simp

lemma cleanup_staging_keeps:
  assumes "\<And>i u. P (snd u) \<Longrightarrow> P (snd (env i u))" and "P (snd t)"
  shows "P (snd (snd (cleanup_staging cfg ops env cursor limit now t)))"
proof (cases "os_list_keys ops staging_prefix limit cursor (fst t)")
  case (Inr keys)
  let ?sw = "sweep_staging ops (now - aq_staging_grace cfg) env 0 keys (0, 0, 0) t"
  have "P (snd (snd ?sw))" by (rule sweep_staging_keeps [where P = P, OF assms])
  then show ?thesis using assms(2) by (cases ?sw; cases "fst ?sw") (auto simp: cleanup_staging_def Inr)
qed (simp add: cleanup_staging_def assms(2))

section \<open>The estate\<close>

lemma estate_ok_same: "same_control s s' \<Longrightarrow> same_workspace s s' \<Longrightarrow> constraints_ok s' \<Longrightarrow> estate_ok rt s \<Longrightarrow> estate_ok rt s'"
  by (simp add: estate_ok_def jobs_inv_control control_ok_same workspace_ok_cong)

lemma same_workspace_trans: "same_workspace s t \<Longrightarrow> same_workspace t u \<Longrightarrow> same_workspace s u"
  by (simp add: same_workspace_def)

lemma same_workspace_other:
  "same_workspace s (s\<lparr>maintenance_cursors := m\<rparr>)" "same_workspace s (s\<lparr>rate_windows := r\<rparr>)"
  "same_workspace s (s\<lparr>artifacts := a\<rparr>)" "same_workspace s (s\<lparr>runs := q, run_events := e\<rparr>)"
  by (simp_all add: same_workspace_def usage_of_def find_usage_def)

lemma load_cursor_same [simp]: "snd (load_cursor rt fp operation s) = s"
  unfolding load_cursor_def by (rule in_session_preserves [where P = "\<lambda>t. t = s"]) auto

lemma advance_cursor_estate:
  assumes "estate_ok rt s"
  shows "estate_ok rt (snd (advance_cursor rt now fp operation expected next_cursor s))"
  unfolding advance_cursor_def
  by (rule in_session_preserves [where P = "estate_ok rt"])
    (auto intro!: estate_ok_same [OF _ _ _ assms] same_workspace_other simp: assms same_control_def split: option.splits if_splits)

lemma purge_expired_estate:
  assumes "estate_ok rt s"
  shows "estate_ok rt (snd (purge_expired rt rl source limit s))"
proof (cases "purge_expired rt rl source limit s")
  case (Pair r s')
  then show ?thesis
    by (cases rule: purge_expired_cases)
      (auto intro!: estate_ok_same [OF _ _ _ assms] same_workspace_other simp: assms Pair same_control_def)
qed

lemma service_append_workspace:
  "service_append rt c now org identity action rtype rid request_id metadata s = Inr s' \<Longrightarrow> same_workspace s s'"
  by (rule platform_same_workspace [OF service_append_frame(1)]) (simp_all add: service_append_frame(4))

lemma service_append_control:
  assumes "service_append rt c now org identity action rtype rid request_id metadata s = Inr s'" and "digest_ok rt" and "control_ok rt s"
  shows "control_ok rt s'"
  using assms audit_control_ok by (auto simp: service_append_def)

lemma purge_row_estate:
  assumes "purge_row rt now cutoff x c s = Inr (b, s')" and "digest_ok rt" and "constraints_ok s'" and "estate_ok rt s"
  shows "estate_ok rt s'"
proof (cases "s' = s")
  case False
  with assms(1) obtain s1 md where rel: "release_artifact rt c now (a_organization x) (a_size_bytes x) (mark_deleted cutoff x s) = Inr s1"
    and app: "service_append rt c now (a_organization x) MAINTENANCE ARTIFACT_PURGED ARTIFACT_RESOURCE (a_id x) None md s1 = Inr s'"
    by (auto simp: purge_row_def split: if_splits)
  note ri = release_artifact_Inr [OF rel]
  have m: "same_control s (mark_deleted cutoff x s)" "same_workspace s (mark_deleted cutoff x s)"
    by (auto simp: mark_deleted_def same_control_def intro: same_workspace_other)
  have "control_ok rt (mark_deleted cutoff x s)" using control_ok_same [OF m(1)] assms(4) by (simp add: estate_ok_def jobs_inv_control)
  then have "control_ok rt s'" using service_append_control [OF app assms(2) charge_control_ok [OF ri(1)]] by simp
  moreover have "same_workspace (mark_deleted cutoff x s) s1"
    by (rule platform_same_workspace [OF charge_frameD(1) [OF ri(1)]]) (simp add: ri(2))
  then have "same_workspace s s'"
    using m(2) service_append_workspace [OF app] by (blast intro: same_workspace_trans)
  ultimately show ?thesis
    using assms(3,4) by (simp add: estate_ok_def jobs_inv_control workspace_ok_cong)
qed (use assms in simp)

lemma purge_due_estate:
  assumes "digest_ok rt" and env: "\<And>i u. estate_ok rt (snd u) \<Longrightarrow> estate_ok rt (snd (env i u))" and "estate_ok rt (snd t)"
  shows "estate_ok rt (snd (snd (purge_due rt ops now env cutoff limit t)))"
proof -
  have row: "estate_ok rt (snd (in_session rt ctx (purge_row rt now cutoff x) s))" if "estate_ok rt s" for ctx x s
    by (rule in_session_preserves [where P = "estate_ok rt"]) (use purge_row_estate assms(1) that in blast)+
  have one: "estate_ok rt (snd (snd (purge_one rt ops now cutoff (env j) x u)))" if u: "estate_ok rt (snd u)" for j x u
  proof -
    obtain d v where d: "os_delete ops (a_storage_key x) (fst u) = (d, v)" by (rule prod.exhaust)
    obtain v' s where e: "env j (v, snd u) = (v', s)" by (rule prod.exhaust)
    have "estate_ok rt s" using env [of "(v, snd u)" j] u e by simp
    note r = row [OF this, of "service_context MAINTENANCE (Some (a_organization x))" x]
    show ?thesis
      using r u by (cases "in_session rt (service_context MAINTENANCE (Some (a_organization x))) (purge_row rt now cutoff x) s")
        (auto simp: purge_one_def d e split: sum.split)
  qed
  have each: "estate_ok rt (snd u) \<Longrightarrow> estate_ok rt (snd (snd (purge_each rt ops now cutoff env i xs counts u)))" for i xs counts u
  proof (induction xs arbitrary: i counts u)
    case (Cons x xs)
    obtain r u' where p: "purge_one rt ops now cutoff (env (2 * i + 1)) x (env (2 * i) u) = (r, u')" by (rule prod.exhaust)
    have "estate_ok rt (snd (snd (purge_one rt ops now cutoff (env (2 * i + 1)) x (env (2 * i) u))))"
      by (rule one [OF env [OF Cons.prems]])
    then have "estate_ok rt (snd u')" unfolding p by simp
    then show ?case using Cons.IH p by (cases counts) (auto split: sum.split)
  qed simp
  let ?read = "in_session rt (service_context MAINTENANCE None) (\<lambda>c s. Inr (purge_candidates cutoff limit s, s)) (snd t)"
  have "snd ?read = snd t" by (rule in_session_preserves [where P = "\<lambda>u. u = snd t"]) auto
  then obtain r where r: "?read = (r, snd t)" by (cases ?read) simp
  show ?thesis
  proof (cases r)
    case (Inr rows)
    obtain q u where p: "purge_each rt ops now cutoff env 0 rows (0, 0) t = (q, u)" by (rule prod.exhaust)
    have "estate_ok rt (snd (snd (purge_each rt ops now cutoff env 0 rows (0, 0) t)))"
      by (rule each) (simp add: assms(3))
    with p show ?thesis by (cases q) (auto simp: purge_due_def r Inr)
  qed (simp add: purge_due_def r assms(3))
qed

text \<open>The expiry of a reservation moves runs and counters of jobs, nothing of a workspace.\<close>

lemma expire_run_workspace: "expire_run now run target code s = Inr s' \<Longrightarrow> same_workspace s s'"
  by (auto simp: expire_run_def intro: same_workspace_other)

lemma release_run_workspace:
  assumes "release_run rt c now org run_id state s = Inr (b, s')"
  shows "same_workspace s s'"
  using assms
proof (cases rule: release_run_cases)
  case (released q)
  then show ?thesis
    by (intro platform_same_workspace) (auto simp: add_used_jobs_def split: quota_class.split)
qed simp_all

lemma expire_one_workspace:
  assumes "expire_one rt now cutoff candidate c s = Inr (b, s')"
  shows "same_workspace s s'"
proof -
  obtain q org run_id where cand: "candidate = (q, org, run_id)" by (cases candidate)
  note one = assms [unfolded cand]
  from one show ?thesis
  proof (cases rule: expire_one_steps)
    case (stale run q s1 released s2)
    have "same_workspace s s1" using stale(7) by (auto split: option.splits prod.splits dest: expire_run_workspace)
    moreover have "same_workspace s1 s2" by (rule release_run_workspace [OF stale(8)])
    moreover have "same_workspace s2 s'"
      using stale(9) by (auto split: if_splits option.splits prod.splits dest!: service_append_workspace intro: same_workspace_trans)
    ultimately show ?thesis by (blast intro: same_workspace_trans)
  qed simp
qed

lemma expire_stale_estate:
  assumes "digest_ok rt" and env: "\<And>i s. estate_ok rt s \<Longrightarrow> estate_ok rt (w_env w i s)" and "estate_ok rt s"
  shows "estate_ok rt (snd (expire_stale rt w now limit s))"
proof -
  have each: "estate_ok rt s \<Longrightarrow> estate_ok rt (snd (expire_each rt w now i xs n s))" for i xs n s
  proof (induction xs arbitrary: i n s)
    case (Cons x xs)
    let ?t = "in_session rt (service_context MAINTENANCE (Some (fst (snd x)))) (expire_one rt (w_clock w i) now x) (w_env w i s)"
    have ok: "estate_ok rt (w_env w i s)" using env Cons.prems by blast
    have "estate_ok rt (snd ?t)"
    proof (rule in_session_preserves [where P = "estate_ok rt", OF _ ok])
      fix c b s' assume e: "expire_one rt (w_clock w i) now x c (w_env w i s) = Inr (b, s')" "constraints_ok s'"
      from expire_one_inv [OF e(1) assms(1) _ e(2)] ok have "jobs_inv rt s'" by (simp add: estate_ok_def)
      with workspace_ok_cong [OF expire_one_workspace [OF e(1)] e(2)] ok show "estate_ok rt s'" by (simp add: estate_ok_def)
    qed
    with Cons.IH show ?case by (auto split: prod.split sum.split)
  qed simp
  let ?read = "in_session rt (service_context MAINTENANCE None) (\<lambda>c s. Inr (expiry_candidates now (nat limit) s, s)) s"
  have "snd ?read = s" by (rule in_session_preserves [where P = "\<lambda>u. u = s"]) auto
  then obtain r where r: "?read = (r, s)" by (cases ?read) simp
  show ?thesis
    unfolding expire_stale_def r using each [OF assms(3)] assms(3) by (simp split: sum.split)
qed

section \<open>A run of the maintenance\<close>

text \<open>What runs beside the maintenance keeps the invariants.\<close>

definition maintenance_world_ok :: "runtime \<Rightarrow> 'v maintenance_world \<Rightarrow> bool" where
  "maintenance_world_ok rt w \<longleftrightarrow> (\<forall>i s. estate_ok rt s \<longrightarrow> estate_ok rt (w_env (mw_expiry w) i s))
     \<and> (\<forall>i operation j u. estate_ok rt (snd u) \<longrightarrow> estate_ok rt (snd (mw_purge w i u)) \<and> estate_ok rt (snd (mw_pages w operation i j u))
          \<and> estate_ok rt (snd (mw_turn w operation i u)) \<and> estate_ok rt (snd (mw_projects w i u)) \<and> estate_ok rt (snd (mw_between w i u)))"

lemma maintenance_worldD:
  assumes "maintenance_world_ok rt w"
  shows "estate_ok rt s \<Longrightarrow> estate_ok rt (w_env (mw_expiry w) i s)"
    and "estate_ok rt (snd u) \<Longrightarrow> estate_ok rt (snd (mw_purge w i u))"
    and "estate_ok rt (snd u) \<Longrightarrow> estate_ok rt (snd (mw_pages w operation i j u))"
    and "estate_ok rt (snd u) \<Longrightarrow> estate_ok rt (snd (mw_turn w operation i u))"
    and "estate_ok rt (snd u) \<Longrightarrow> estate_ok rt (snd (mw_projects w i u))"
    and "estate_ok rt (snd u) \<Longrightarrow> estate_ok rt (snd (mw_between w i u))"
  using assms unfolding maintenance_world_ok_def by blast+

lemma scans_estate:
  assumes w: "maintenance_world_ok rt w" and t: "estate_ok rt (snd t)"
  shows "estate_ok rt (snd (snd (scan_pages (reconciliation_scan rt cfg ops w limit) n i cursor reports t)))"
    and "estate_ok rt (snd (snd (scan_pages (staging_scan rt cfg ops w limit) n i cursor reports' t)))"
  by (rule scan_pages_keeps [where P = "\<lambda>t. estate_ok rt (snd t)", OF _ _ t];
      simp add: reconciliation_scan_def staging_scan_def advance_cursor_estate maintenance_worldD [OF w]
        reconcile_orphans_keeps [where P = "estate_ok rt"] cleanup_staging_keeps [where P = "estate_ok rt"])+

lemma run_once_estate:
  assumes "digest_ok rt" and w: "maintenance_world_ok rt w" and "estate_ok rt (snd t)"
  shows "estate_ok rt (snd (snd (run_once rt cfg ops w limit m n t)))"
proof -
  note wd = maintenance_worldD [OF w]
  note steps = expire_stale_estate [OF assms(1) wd(1)] purge_due_estate [OF assms(1) wd(2)] scans_estate [OF w]
    purge_due_projects_keeps [where P = "estate_ok rt", OF purge_keeps_estate [OF assms(1)] wd(5)] purge_expired_estate
  note keeps = then_do_keeps [where P = "\<lambda>t. estate_ok rt (snd t)"]
  have read: "estate_ok rt (snd (snd (on_db (load_cursor rt fp operation) u)))" if "estate_ok rt (snd u)" for fp operation and u :: "'a \<times> db"
    using that by simp
  show ?thesis
    unfolding run_once_def
    by (intro keeps if_keeps [where P = "\<lambda>t. estate_ok rt (snd t)"] pair_keeps [where P = "\<lambda>t. estate_ok rt (snd t)"] read steps wd | simp only: prod.case snd_conv assms(3)
      | simp add: read steps wd split: option.split)+
qed

section \<open>Maintenance beside everything else\<close>

text \<open>Runs of the maintenance in any order with the steps of the estate, and interleaved with them.\<close>

inductive maintained :: "runtime \<Rightarrow> 'v object_store_ops \<Rightarrow> 'v \<times> db \<Rightarrow> 'v \<times> db \<Rightarrow> bool"
  for rt :: runtime and ops :: "'v object_store_ops" where
  maintained_then: "maintained rt ops t u \<Longrightarrow> maintained rt ops u w \<Longrightarrow> maintained rt ops t w"
| estate_step: "estate_evolves rt ops t t' \<Longrightarrow> maintained rt ops t t'"
| runs_once: "(\<And>i v s. maintained rt ops (v, s) (v, w_env (mw_expiry w) i s)) \<Longrightarrow> (\<And>i u. maintained rt ops u (mw_purge w i u)) \<Longrightarrow>
     (\<And>operation i j u. maintained rt ops u (mw_pages w operation i j u)) \<Longrightarrow>
     (\<And>operation i u. maintained rt ops u (mw_turn w operation i u)) \<Longrightarrow>
     (\<And>i u. maintained rt ops u (mw_projects w i u)) \<Longrightarrow> (\<And>i u. maintained rt ops u (mw_between w i u)) \<Longrightarrow>
     maintained rt ops t (snd (run_once rt cfg ops w limit m n t))"

lemma maintained_estate:
  assumes "maintained rt ops t t'" and "digest_ok rt"
  shows "estate_ok rt (snd t) \<Longrightarrow> estate_ok rt (snd t')"
  using assms(1)
proof (induction rule: maintained.induct)
  case (estate_step t t')
  then show ?case using estate_evolves_ok assms(2) by blast
next
  case (runs_once w t cfg limit m n)
  have "maintenance_world_ok rt w" unfolding maintenance_world_ok_def using runs_once.IH by (auto simp: prod.case_eq_if)
  then show ?case using run_once_estate assms(2) runs_once.prems by blast
qed blast

section \<open>Cursors that are valid\<close>

lemma split_on_part: "CHR ''/'' \<notin> set a \<Longrightarrow> split_on CHR ''/'' cur (a @ CHR ''/'' # r) = (rev cur @ a) # split_on CHR ''/'' [] r"
  by (induction a arbitrary: cur) auto

lemma split_on_last: "CHR ''/'' \<notin> set a \<Longrightarrow> split_on CHR ''/'' cur a = [rev cur @ a]"
  by (induction a arbitrary: cur) auto

lemma hex_parts:
  "is_hex_part 32 (uuid_hex u)" "is_sha256_hex sha \<Longrightarrow> is_hex_part 2 (take 2 sha)" "is_sha256_hex sha \<Longrightarrow> is_hex_part 64 sha"
  "is_sha256_hex sha \<Longrightarrow> CHR ''/'' \<notin> set sha"
  using slash_not_hex uuid_hex_all_hex [of u] by (auto simp: is_hex_part_def is_sha256_hex_def list_all_iff dest: in_set_takeD)

lemma artifact_cursor_of_key:
  assumes "artifact_storage_key org project run_id kind sha = Inr key"
  shows "artifact_cursor_ok key \<longleftrightarrow> kind \<noteq> PROMPT_SET"
proof -
  from assms have sha: "is_sha256_hex sha" and key: "key = ''artifacts'' @ CHR ''/'' # ''v1'' @ CHR ''/'' # uuid_hex org @ CHR ''/'' # uuid_hex project
      @ CHR ''/'' # artifact_scope run_id @ CHR ''/'' # artifact_kind_value kind @ CHR ''/'' # take 2 sha @ CHR ''/'' # sha"
    by (auto simp: artifact_storage_key_eq_Inr)
  have scope: "CHR ''/'' \<notin> set (artifact_scope run_id)" "artifact_scope run_id = ''project'' \<or> is_hex_part 32 (artifact_scope run_id)"
    by (auto simp: artifact_scope_def uuid_hex_no_slash hex_parts(1) split: option.split)
  have kinds: "artifact_kind_value kind \<in> set artifact_cursor_kinds \<longleftrightarrow> kind \<noteq> PROMPT_SET"
    by (cases kind) (simp_all add: artifact_cursor_kinds_def)
  have "split_on CHR ''/'' [] key = [''artifacts'', ''v1'', uuid_hex org, uuid_hex project, artifact_scope run_id,
      artifact_kind_value kind, take 2 sha, sha]"
    unfolding key
    by (simp add: split_on_part split_on_last scope uuid_hex_no_slash artifact_kind_no_slash sha256_hex_no_slash [OF sha] hex_parts(4) [OF sha])
  then show ?thesis using scope kinds by (simp add: artifact_cursor_ok_def hex_parts sha)
qed

lemma staging_cursor_of_key:
  assumes "staged_artifact_storage_key sha = Inr key"
  shows "staging_cursor_ok key"
proof -
  from assms have sha: "is_sha256_hex sha" and key: "key = ''staging'' @ CHR ''/'' # ''v1'' @ CHR ''/'' # ''sha256'' @ CHR ''/'' # take 2 sha @ CHR ''/'' # sha"
    by (auto simp: staged_artifact_storage_key_def split: if_splits)
  have "split_on CHR ''/'' [] key = [''staging'', ''v1'', ''sha256'', take 2 sha, sha]"
    unfolding key by (simp add: split_on_part split_on_last sha256_hex_no_slash [OF sha] hex_parts(4) [OF sha])
  then show ?thesis by (simp add: staging_cursor_ok_def hex_parts sha)
qed

section \<open>Scans go forward\<close>

lemma find_update_keep:
  assumes "\<And>r. P r \<Longrightarrow> P (f r)"
  shows "find P (update_where P f rows) = map_option f (find P rows)"
  by (induction rows) (auto simp: assms)

lemma cursor_row_other:
  assumes "operation' \<noteq> operation"
  shows "cursor_row fp operation' (s\<lparr>maintenance_cursors := update_where (is_cursor_row fp operation)
      (\<lambda>m. m\<lparr>mc_cursor := c, mc_updated_at := now\<rparr>) (maintenance_cursors s)\<rparr>) = cursor_row fp operation' s"
    and "cursor_row fp operation' (s\<lparr>maintenance_cursors := maintenance_cursors s @
      [\<lparr>mc_operation = maintenance_operation_value operation, mc_backend_fingerprint = fp, mc_cursor = c, mc_updated_at = now\<rparr>]\<rparr>)
      = cursor_row fp operation' s"
proof -
  have apart: "maintenance_operation_value operation' \<noteq> maintenance_operation_value operation"
    using assms by (cases operation; cases operation') simp_all
  show "cursor_row fp operation' (s\<lparr>maintenance_cursors := update_where (is_cursor_row fp operation)
      (\<lambda>m. m\<lparr>mc_cursor := c, mc_updated_at := now\<rparr>) (maintenance_cursors s)\<rparr>) = cursor_row fp operation' s"
    unfolding cursor_row_def using apart by (simp, intro find_update_where_other) (auto simp: is_cursor_row_def)
  show "cursor_row fp operation' (s\<lparr>maintenance_cursors := maintenance_cursors s @
      [\<lparr>mc_operation = maintenance_operation_value operation, mc_backend_fingerprint = fp, mc_cursor = c, mc_updated_at = now\<rparr>]\<rparr>)
      = cursor_row fp operation' s"
    using apart by (simp add: cursor_row_def find_append is_cursor_row_def split: option.split)
qed

text \<open>A successful advance found the cursor it expected and stored the next one, and nothing else.\<close>

lemma advance_cursor_Inr:
  assumes "advance_cursor rt now fp operation expected next_cursor s = (Inr u, s')"
  shows "stored_cursor fp operation s = expected" and "stored_cursor fp operation s' = next_cursor"
    and "operation' \<noteq> operation \<Longrightarrow> stored_cursor fp operation' s' = stored_cursor fp operation' s"
proof -
  from assms obtain c where b: "bindr (ensure (stored_cursor fp operation s = expected) MaintenanceStateConflictError) (\<lambda>_.
       case cursor_row fp operation s of
         None \<Rightarrow> Inr ((), s\<lparr>maintenance_cursors := maintenance_cursors s @
             [\<lparr>mc_operation = maintenance_operation_value operation, mc_backend_fingerprint = fp,
               mc_cursor = next_cursor, mc_updated_at = now\<rparr>]\<rparr>)
       | Some row \<Rightarrow>
           if mc_cursor row = next_cursor then Inr ((), s)
           else Inr ((), s\<lparr>maintenance_cursors := update_where (is_cursor_row fp operation)
             (\<lambda>m. m\<lparr>mc_cursor := next_cursor, mc_updated_at := now\<rparr>) (maintenance_cursors s)\<rparr>)) = Inr (u, s')"
    unfolding advance_cursor_def by (blast dest: in_session_Inr)
  then show "stored_cursor fp operation s = expected" by simp
  have "is_cursor_row fp operation (m\<lparr>mc_cursor := next_cursor, mc_updated_at := now\<rparr>)" if "is_cursor_row fp operation m" for m
    using that by (simp add: is_cursor_row_def)
  note upd = find_update_keep [where P = "is_cursor_row fp operation", OF this]
  show "stored_cursor fp operation s' = next_cursor"
  proof (cases "cursor_row fp operation s")
    case None
    with b have "s' = s\<lparr>maintenance_cursors := maintenance_cursors s @
             [\<lparr>mc_operation = maintenance_operation_value operation, mc_backend_fingerprint = fp,
               mc_cursor = next_cursor, mc_updated_at = now\<rparr>]\<rparr>" by simp
    with None show ?thesis by (simp add: stored_cursor_def cursor_row_def find_append is_cursor_row_def)
  next
    case (Some row)
    with b upd [where rows = "maintenance_cursors s"] show ?thesis by (auto simp: stored_cursor_def cursor_row_def split: if_splits)
  qed
  show "operation' \<noteq> operation \<Longrightarrow> stored_cursor fp operation' s' = stored_cursor fp operation' s"
    using b by (auto simp: stored_cursor_def cursor_row_other split: option.splits if_splits)
qed

text \<open>Each page ends after the one before it, and only the last one may end the scan.\<close>

fun advancing :: "string option \<Rightarrow> string option list \<Rightarrow> bool" where
  "advancing cursor [] = True"
| "advancing cursor (None # nexts) = (nexts = [])"
| "advancing cursor (Some key # nexts) = ((case cursor of None \<Rightarrow> True | Some last_key \<Rightarrow> last_key < key) \<and> advancing (Some key) nexts)"

lemma scan_pages_Inr:
  assumes advance: "\<And>i c n t t'. sc_advance sc i c n t = (Inr (), t') \<Longrightarrow> store t' = n"
  shows "scan_pages sc n i cursor reports t = (Inr (reports', cursor'), t') \<Longrightarrow>
    \<exists>pages. reports' = reports @ pages \<and> length pages \<le> n \<and> (0 < n \<longrightarrow> pages \<noteq> [] \<and> store t' = cursor')
      \<and> (cursor' \<noteq> None \<longrightarrow> length pages = n) \<and> advancing cursor (map (sc_next sc) pages)
      \<and> (pages \<noteq> [] \<longrightarrow> sc_next sc (last pages) = cursor')"
proof (induction n arbitrary: i cursor reports t)
  case (Suc n)
  from Suc.prems obtain report t1 t2 where v: "validate_progress cursor (sc_next sc report) (sc_pattern sc) (sc_label sc) = Inr ()"
    and a: "sc_advance sc i cursor (sc_next sc report) t1 = (Inr (), t2)"
    and rest: "(if sc_next sc report = None then (Inr (reports @ [report], None), t2)
       else scan_pages sc n (Suc i) (sc_next sc report) (reports @ [report]) t2) = (Inr (reports', cursor'), t')"
    by (auto simp: then_do_Inr)
  from v have order: "advancing cursor [sc_next sc report]"
    by (auto simp: validate_progress_def not_le split: option.splits)
  show ?case
  proof (cases "sc_next sc report")
    case None
    with rest order advance [OF a] show ?thesis by (auto intro!: exI [of _ "[report]"])
  next
    case (Some key)
    with rest have r: "scan_pages sc n (Suc i) (Some key) (reports @ [report]) t2 = (Inr (reports', cursor'), t')" by simp
    from Suc.IH [OF this] obtain pages where p: "reports' = (reports @ [report]) @ pages" "length pages \<le> n"
      "0 < n \<longrightarrow> pages \<noteq> [] \<and> store t' = cursor'" "cursor' \<noteq> None \<longrightarrow> length pages = n"
      "advancing (Some key) (map (sc_next sc) pages)" "pages \<noteq> [] \<longrightarrow> sc_next sc (last pages) = cursor'" by blast
    have stop: "cursor' = Some key \<and> t' = t2 \<and> pages = []" if "n = 0" using r p(2) that by simp
    have "store t' = cursor' \<and> sc_next sc (last (report # pages)) = cursor'"
      using p(3,6) stop advance [OF a] Some by (cases "n = 0") simp_all
    moreover have "advancing cursor (map (sc_next sc) (report # pages))" using p(5) order Some by simp
    ultimately show ?thesis using p(1,2,4) by (intro exI [of _ "report # pages"]) simp
  qed
qed simp

lemma advancing_last: "advancing cursor cs \<Longrightarrow> cs \<noteq> [] \<Longrightarrow> last cs = Some key \<Longrightarrow> cursor = Some k \<Longrightarrow> k < key"
proof (induction cursor cs arbitrary: k rule: advancing.induct)
  case (3 cursor key' nexts)
  then show ?case by (cases "nexts = []") (auto split: if_splits intro: less_trans)
qed auto

text \<open>Nobody else writes the cursors of this backend.\<close>

definition cursors_private :: "string \<Rightarrow> 'v maintenance_world \<Rightarrow> bool" where
  "cursors_private fp w \<longleftrightarrow> (\<forall>operation operation' i j u.
     stored_cursor fp operation (snd (mw_pages w operation' i j u)) = stored_cursor fp operation (snd u)
     \<and> stored_cursor fp operation (snd (mw_turn w operation' i u)) = stored_cursor fp operation (snd u)
     \<and> stored_cursor fp operation (snd (mw_projects w i u)) = stored_cursor fp operation (snd u)
     \<and> stored_cursor fp operation (snd (mw_between w i u)) = stored_cursor fp operation (snd u))"

lemma cursors_privateD:
  assumes "cursors_private fp w"
  shows "stored_cursor fp operation (snd (mw_pages w operation' i j u)) = stored_cursor fp operation (snd u)"
    and "stored_cursor fp operation (snd (mw_turn w operation' i u)) = stored_cursor fp operation (snd u)"
    and "stored_cursor fp operation (snd (mw_projects w i u)) = stored_cursor fp operation (snd u)"
    and "stored_cursor fp operation (snd (mw_between w i u)) = stored_cursor fp operation (snd u)"
  using assms unfolding cursors_private_def by blast+

lemma advance_cursor_other:
  assumes "operation' \<noteq> operation"
  shows "stored_cursor fp operation' (snd (advance_cursor rt now fp operation expected next_cursor s)) = stored_cursor fp operation' s"
proof (cases "advance_cursor rt now fp operation expected next_cursor s")
  case (Pair r s')
  then show ?thesis
    using advance_cursor_Inr(3) [of rt now fp operation expected next_cursor s _ s' operation'] assms
    by (cases r) (auto simp: advance_cursor_def dest: in_session_Inl)
qed

lemma staging_scan_other:
  assumes "cursors_private (mn_fingerprint cfg) w"
  shows "stored_cursor (mn_fingerprint cfg) ARTIFACT_RECONCILIATION (snd (snd (scan_pages (staging_scan rt cfg ops w limit) n i cursor reports t)))
    = stored_cursor (mn_fingerprint cfg) ARTIFACT_RECONCILIATION (snd t)"
proof -
  let ?c = "\<lambda>s. stored_cursor (mn_fingerprint cfg) ARTIFACT_RECONCILIATION s"
  let ?x = "?c (snd t)"
  note pr = cursors_privateD [OF assms]
  show ?thesis
    by (rule scan_pages_keeps [where P = "\<lambda>u. ?c (snd u) = ?x"])
      (simp_all add: staging_scan_def advance_cursor_other pr cleanup_staging_keeps [where P = "\<lambda>s. ?c s = ?x"])
qed

lemma projects_keep_cursors:
  assumes "cursors_private fp w"
  shows "stored_cursor fp operation (snd (snd (purge_due_projects rt ops now (mw_projects w) cutoff limit t)))
    = stored_cursor fp operation (snd t)"
proof -
  let ?P = "\<lambda>s. stored_cursor fp operation s = stored_cursor fp operation (snd t)"
  have "purge_keeps ?P rt now cutoff"
    using purge_keeps_cursors unfolding purge_keeps_def stored_cursor_def cursor_row_def by metis
  then show ?thesis
    by (rule purge_due_projects_keeps [where P = ?P]) (simp_all add: cursors_privateD [OF assms])
qed

lemma limiter_keeps_cursors:
  "stored_cursor fp operation (snd (purge_expired rt rl source limit s)) = stored_cursor fp operation s"
proof (cases "purge_expired rt rl source limit s")
  case (Pair r s')
  then show ?thesis by (cases rule: purge_expired_cases) (simp_all add: Pair stored_cursor_def cursor_row_def)
qed

text \<open>A scan of at most \<open>bound\<close> pages between the stored cursors \<open>before\<close> and \<open>after\<close>, and what its summary says.\<close>

definition went_on :: "string option \<Rightarrow> string option \<Rightarrow> int \<Rightarrow> nat \<Rightarrow> bool \<Rightarrow> bool" where
  "went_on before after bound pages unfinished \<longleftrightarrow> 1 \<le> pages \<and> int pages \<le> bound \<and> unfinished = (after \<noteq> None)
     \<and> (unfinished \<longrightarrow> int pages = bound) \<and> (\<forall>key key'. before = Some key \<and> after = Some key' \<longrightarrow> key < key')"

definition scan_stores :: "('t, 'r) scan \<Rightarrow> ('t \<Rightarrow> string option) \<Rightarrow> bool" where
  "scan_stores sc store \<longleftrightarrow> (\<forall>i c n t t'. sc_advance sc i c n t = (Inr (), t') \<longrightarrow> store t' = n)"

lemma scan_went_on:
  assumes "scan_pages sc (nat bound) 0 cursor [] t = (Inr (reports, cursor'), t')" and "1 \<le> bound"
    and "scan_stores sc store"
  shows "went_on cursor cursor' bound (length reports) (cursor' \<noteq> None)" and "store t' = cursor'"
proof -
  have "sc_advance sc i c n t = (Inr (), t') \<Longrightarrow> store t' = n" for i c n t t' using assms(3) by (auto simp: scan_stores_def)
  from scan_pages_Inr [of sc store, OF this assms(1)] assms(2) obtain pages where p: "reports = pages" "length pages \<le> nat bound"
    "pages \<noteq> []" "store t' = cursor'" "cursor' \<noteq> None \<longrightarrow> length pages = nat bound"
    "advancing cursor (map (sc_next sc) pages)" "sc_next sc (last pages) = cursor'" by auto
  then show "store t' = cursor'" by simp
  have "key < key'" if "cursor = Some key" "cursor' = Some key'" for key key'
    using advancing_last [OF p(6) _ _ that(1), of key'] p(3,7) that(2) by (simp add: last_map)
  moreover have "1 \<le> length pages" using p(3) by (cases pages) auto
  ultimately show "went_on cursor cursor' bound (length reports) (cursor' \<noteq> None)"
    using p(1,2,5) assms(2) by (auto simp: went_on_def)
qed

lemma scans_store:
  "scan_stores (reconciliation_scan rt cfg ops w limit) (\<lambda>t. stored_cursor (mn_fingerprint cfg) ARTIFACT_RECONCILIATION (snd t))"
  "scan_stores (staging_scan rt cfg ops w limit) (\<lambda>t. stored_cursor (mn_fingerprint cfg) STAGING_CLEANUP (snd t))"
  by (auto simp: scan_stores_def reconciliation_scan_def staging_scan_def on_db_Inr dest: advance_cursor_Inr(2))

lemma load_cursor_Inr: "load_cursor rt fp operation s = (Inr cursor, s') \<Longrightarrow> cursor = stored_cursor fp operation s \<and> s' = s"
  by (auto simp: load_cursor_def dest!: in_session_Inr)

lemma on_db_load: "on_db (load_cursor rt fp operation) t = (Inr c, t') \<Longrightarrow> c = stored_cursor fp operation (snd t) \<and> t' = t"
  by (cases t'; cases t) (auto simp: on_db_Inr dest: load_cursor_Inr)

text \<open>The steps of a run that reports.\<close>

lemma run_once_Inr:
  assumes "run_once rt cfg ops w limit m n t = (Inr report, t')"
  obtains c d t1 t2 t3 t4 pages staged c' d' where "1 \<le> m" and "1 \<le> n"
    and "c = stored_cursor (mn_fingerprint cfg) ARTIFACT_RECONCILIATION (snd t)"
    and "d = stored_cursor (mn_fingerprint cfg) STAGING_CLEANUP (snd (mw_between w 0 t))"
    and "scan_pages (reconciliation_scan rt cfg ops w limit) (nat m) 0 c [] t1 = (Inr (pages, c'), t2)"
    and "scan_pages (staging_scan rt cfg ops w limit) (nat n) 0 d [] (mw_between w 4 t2) = (Inr (staged, d'), t3)"
    and "t4 = snd (purge_due_projects rt ops (mw_clock w 1) (mw_projects w) (mw_started w) limit (mw_between w 5 t3))"
    and "t' = snd (case mn_limiter cfg of None \<Rightarrow> (Inr 0, t4)
            | Some limiter \<Rightarrow> on_db (purge_expired rt limiter (mw_windows w) limit) (mw_between w 6 t4))"
    and "me_reconciliation report = reconciliation_summary_of pages c'" and "me_staging report = staging_summary_of staged d'"
proof -
  from assms have b: "1 \<le> m" "1 \<le> n" and "1 \<le> limit \<and> limit \<le> 1000" "1 \<le> n \<and> n \<le> 20" "1 \<le> m \<and> m \<le> 20"
    by (auto simp: run_once_def split: if_splits)
  then have f: "(\<not> (1 \<le> limit \<and> limit \<le> 1000)) = False" "(\<not> (1 \<le> n \<and> n \<le> 20)) = False" "(\<not> (1 \<le> m \<and> m \<le> 20)) = False"
    by simp_all
  show thesis
    using assms unfolding run_once_def f if_False then_do_Inr
    by - (elim exE conjE, (drule on_db_load)+, elim conjE, hypsubst, (simp only: split_paired_all prod.case then_do_Inr, elim exE conjE)+,
      rule that [OF b refl refl], assumption, assumption, rule refl, auto simp del: snd_on_db split: option.split)
qed

lemma run_once_went_on:
  assumes "run_once rt cfg ops w limit m n t = (Inr report, t')" and "cursors_private (mn_fingerprint cfg) w"
    and stored: "stored = (\<lambda>operation u. stored_cursor (mn_fingerprint cfg) operation (snd u))"
  shows "went_on (stored ARTIFACT_RECONCILIATION t) (stored ARTIFACT_RECONCILIATION t') m
      (rs_pages (me_reconciliation report)) (rs_more_available (me_reconciliation report))
    \<and> went_on (stored STAGING_CLEANUP t) (stored STAGING_CLEANUP t') n
      (gs_pages (me_staging report)) (gs_more_available (me_staging report))"
  using assms(1)
proof (cases rule: run_once_Inr)
  case (1 c d t1 t2 t3 t4 pages staged c' d')
  note pr = cursors_privateD [OF assms(2)]
  have tail: "stored operation t' = stored operation t3" for operation
    using 1(7,8) projects_keep_cursors [OF assms(2)] by (simp add: stored pr limiter_keeps_cursors split: option.split)
  have "stored ARTIFACT_RECONCILIATION t3 = stored ARTIFACT_RECONCILIATION t2"
    using staging_scan_other [OF assms(2), of rt ops limit "nat n" 0 d "[]" "mw_between w 4 t2"] 1(6) by (simp add: stored pr)
  then have "went_on c (stored ARTIFACT_RECONCILIATION t') m (length pages) (c' \<noteq> None)" and "stored ARTIFACT_RECONCILIATION t = c"
    using scan_went_on [OF 1(5,1) scans_store(1)] 1(3) tail by (simp_all add: stored)
  moreover have "went_on d (stored STAGING_CLEANUP t') n (length staged) (d' \<noteq> None)" and "stored STAGING_CLEANUP t = d"
    using scan_went_on [OF 1(6,2) scans_store(2)] 1(4) tail by (simp_all add: stored pr)
  ultimately show ?thesis
    by (simp add: 1(9,10) reconciliation_summary_of_def staging_summary_of_def Let_def)
qed

end
