(* ===== verification/MaintenanceGuarantees.thy ===== *)
theory MaintenanceGuarantees imports WorkspaceSamples Maintenance begin

text \<open>
  The properties of the maintenance: what it keeps, that its scans go forward, and the artifacts at
  which the reconciliation stops for good.
\<close>

section \<open>A sample run\<close>

definition quiet_world :: "time \<Rightarrow> 'v maintenance_world" where
  "quiet_world now = \<lparr>mw_clock = (\<lambda>_. now), mw_started = now, mw_completed = now, mw_windows = DatabaseClock None,
     mw_expiry = \<lparr>w_clock = (\<lambda>_. now), w_env = (\<lambda>_ s. s)\<rparr>, mw_purge = (\<lambda>_ u. u), mw_pages = (\<lambda>_ _ _ u. u), mw_turn = (\<lambda>_ _ u. u),
     mw_projects = (\<lambda>_ u. u), mw_between = (\<lambda>_ u. u)\<rparr>"

definition sample_services :: maintenance_config where
  "sample_services = \<lparr>mn_artifacts = \<lparr>ac_max_bytes = 1000, ac_retention = 100, ac_orphan_grace = 50, ac_chunk_bytes = 2, ac_prompt_bytes = (\<lambda>_. None)\<rparr>,
     mn_adoption = \<lparr>aq_max_bytes = 1000, aq_chunk_bytes = 2, aq_retention = 100, aq_staging_grace = 50, aq_validate = (\<lambda>_ _. None),
       aq_selection_matches = (\<lambda>_ _. False), aq_datg_build = (\<lambda>_ _. None), aq_publish_datg = None\<rparr>,
     mn_limiter = None, mn_fingerprint = replicate 64 CHR ''f''\<rparr>"

definition sample_object :: "string \<Rightarrow> string \<times> string \<times> object_descriptor" where
  "sample_object key = (key, ''x'', \<lparr>od_key = key, od_size_bytes = 1, od_sha256 = replicate 64 CHR ''0'', od_media_type = ''text/plain'', od_modified_at = 380\<rparr>)"

definition staged_key :: "char \<Rightarrow> string" where
  "staged_key c = ''staging/v1/sha256/'' @ replicate 2 c @ ''/'' @ replicate 64 c"

definition sample_staging :: mem_store where
  "sample_staging = \<lparr>ms_objects = map (sample_object \<circ> staged_key) [CHR ''a'', CHR ''b'', CHR ''c''], ms_fail_put = False, ms_fail_delete = False\<rparr>"

section \<open>What the maintenance keeps\<close>

text \<open>
  C38. However runs of the maintenance, the workspace service, the deletion of projects and the control
  plane interleave, in every database they reach from the empty one the invariants of the control
  plane and of the workspaces hold, also after a run that stopped at an error.
\<close>

theorem maintenance_keeps_invariants:
  assumes "maintained rt ops (v0, empty_db) (v, s)" and "digest_ok rt"
  shows "jobs_inv rt s \<and> workspace_ok rt s"
  using maintained_estate [OF assms] estate_ok_empty [of rt] by (simp add: estate_ok_def)

theorem maintenance_keeps_invariants_witness:
  "jobs_inv sample_runtime (snd (snd (run_once sample_runtime sample_services sample_store_ops (quiet_world (300 + 30 * day)) 10 1 1
     (sample_staging, pending_db))))"
proof -
  let ?t = "(sample_staging, pending_db)"
  have idle: "maintained sample_runtime sample_store_ops u u" for u by (rule estate_step) (rule estate_idle)
  have "maintained sample_runtime sample_store_ops (sample_staging, empty_db) ?t"
    by (rule estate_step) (rule pending_db_reached)
  moreover have "maintained sample_runtime sample_store_ops ?t
      (snd (run_once sample_runtime sample_services sample_store_ops (quiet_world (300 + 30 * day)) 10 1 1 ?t))"
    by (rule runs_once) (simp_all add: quiet_world_def idle)
  ultimately have "maintained sample_runtime sample_store_ops (sample_staging, empty_db)
      (snd (run_once sample_runtime sample_services sample_store_ops (quiet_world (300 + 30 * day)) 10 1 1 ?t))"
    by (rule maintained_then)
  then show ?thesis
    using maintenance_keeps_invariants [of sample_runtime sample_store_ops sample_staging _ _, OF _ sample_digest_ok] by (metis prod.collapse)
qed

section \<open>Scans that go on where the last run stopped\<close>

text \<open>
  C39. When nobody else writes the cursors of the backend, a run of the maintenance that reports has
  advanced both of its scans: each took at least one page and at most its bound, it reports more
  pages exactly when a cursor is stored, then it took all of its pages, and the stored cursor is
  greater than the one it started from. So the runs of a scan go through the keys in order and, the
  keys being finite, come to the end of them.
\<close>

theorem maintenance_scans_advance:
  assumes "run_once rt cfg ops w limit m n t = (Inr report, t')" and "cursors_private (mn_fingerprint cfg) w"
  shows "went_on (stored_cursor (mn_fingerprint cfg) ARTIFACT_RECONCILIATION (snd t)) (stored_cursor (mn_fingerprint cfg) ARTIFACT_RECONCILIATION (snd t')) m
      (rs_pages (me_reconciliation report)) (rs_more_available (me_reconciliation report))
    \<and> went_on (stored_cursor (mn_fingerprint cfg) STAGING_CLEANUP (snd t)) (stored_cursor (mn_fingerprint cfg) STAGING_CLEANUP (snd t')) n
      (gs_pages (me_staging report)) (gs_more_available (me_staging report))"
  by (rule run_once_went_on [OF assms refl])

lemma sample_run: "(case run_once sample_runtime sample_services sample_store_ops (quiet_world 400) 1 1 2 (sample_staging, empty_db) of
    (r, t) \<Rightarrow> (case r of Inl e \<Rightarrow> False | Inr report \<Rightarrow> gs_pages (me_staging report) = 2)
      \<and> stored_cursor (mn_fingerprint sample_services) STAGING_CLEANUP (snd t) = Some (staged_key CHR ''b''))"
  by code_simp

theorem maintenance_scans_advance_witness:
  "\<exists>report t'. run_once sample_runtime sample_services sample_store_ops (quiet_world 400) 1 1 2 (sample_staging, empty_db) = (Inr report, t')
     \<and> gs_pages (me_staging report) = 2 \<and> gs_more_available (me_staging report)"
proof -
  obtain r t' where run: "run_once sample_runtime sample_services sample_store_ops (quiet_world 400) 1 1 2 (sample_staging, empty_db) = (r, t')"
    by (rule prod.exhaust)
  with sample_run obtain report where r: "r = Inr report" "gs_pages (me_staging report) = 2"
    and c: "stored_cursor (mn_fingerprint sample_services) STAGING_CLEANUP (snd t') = Some (staged_key CHR ''b'')"
    by (auto split: sum.splits)
  have "cursors_private (mn_fingerprint sample_services) (quiet_world 400)" by (simp add: cursors_private_def quiet_world_def)
  from maintenance_scans_advance [OF run [unfolded r(1)] this] c have "gs_more_available (me_staging report)" by (simp add: went_on_def)
  with run r show ?thesis by blast
qed

section \<open>Prompt sets\<close>

text \<open>
  C40. The pattern that the runner checks a reconciliation cursor against leaves out one kind of
  artifact: the storage key of a prompt set is refused, those of all other kinds are accepted. When
  a page of the reconciliation ends at a prompt set the run fails, and it stores no cursor, so that
  the next run starts at the same page.
\<close>

theorem prompt_set_stalls_maintenance:
  assumes "artifact_storage_key org project run_id PROMPT_SET sha = Inr key"
    and "reconcile_orphans rt (mn_artifacts cfg) ops (mw_pages w ARTIFACT_RECONCILIATION 0) cursor limit (mw_started w) t = (Inr report, t')"
    and "rr_next_cursor report = Some key" and "cursors_private (mn_fingerprint cfg) w"
  shows "scan_pages (reconciliation_scan rt cfg ops w limit) (Suc n) 0 cursor [] t = (Inl (ValueError ''reconciliation cursor is invalid''), t')
    \<and> stored_cursor (mn_fingerprint cfg) ARTIFACT_RECONCILIATION (snd t') = stored_cursor (mn_fingerprint cfg) ARTIFACT_RECONCILIATION (snd t)
    \<and> (\<forall>kind key'. artifact_storage_key org project run_id kind sha = Inr key' \<longrightarrow> (artifact_cursor_ok key' \<longleftrightarrow> kind \<noteq> PROMPT_SET))"
proof -
  let ?P = "\<lambda>s. stored_cursor (mn_fingerprint cfg) ARTIFACT_RECONCILIATION s = stored_cursor (mn_fingerprint cfg) ARTIFACT_RECONCILIATION (snd t)"
  have "?P (snd (snd (reconcile_orphans rt (mn_artifacts cfg) ops (mw_pages w ARTIFACT_RECONCILIATION 0) cursor limit (mw_started w) t)))"
    by (rule reconcile_orphans_keeps [where P = ?P]) (simp_all add: cursors_privateD [OF assms(4)])
  then have "?P (snd t')" by (simp add: assms(2))
  moreover have "\<not> artifact_cursor_ok key" using artifact_cursor_of_key [OF assms(1)] by simp
  ultimately show ?thesis
    using assms(2,3) artifact_cursor_of_key
    by (auto simp: reconciliation_scan_def then_do_def validate_progress_def validate_cursor_def)
qed

definition prompt_key :: string where
  "prompt_key = ''artifacts/v1/00000000000000000000000000000001/00000000000000000000000000000004/project/prompt-set/aa/'' @ sample_digest"

definition prompt_store :: mem_store where
  "prompt_store = \<lparr>ms_objects = [sample_object prompt_key], ms_fail_put = False, ms_fail_delete = False\<rparr>"

lemma sample_prompt_page: "reconcile_orphans sample_runtime (mn_artifacts sample_services) sample_store_ops (\<lambda>_ u. u) None 1 400 (prompt_store, empty_db)
    = (Inr \<lparr>rr_scanned = 1, rr_orphaned = 1, rr_deleted = 0, rr_delete_failures = 0, rr_missing = 0, rr_corrupt = 0,
         rr_next_cursor = Some prompt_key\<rparr>, (prompt_store, empty_db))"
  by code_simp

theorem prompt_set_stalls_maintenance_witness:
  "scan_pages (reconciliation_scan sample_runtime sample_services sample_store_ops (quiet_world 400) 1) 5 0 None [] (prompt_store, empty_db)
     = (Inl (ValueError ''reconciliation cursor is invalid''), (prompt_store, empty_db))"
proof -
  have key: "artifact_storage_key 1 4 None PROMPT_SET sample_digest = Inr prompt_key" by code_simp
  have alone: "cursors_private (mn_fingerprint sample_services) (quiet_world 400)" by (simp add: cursors_private_def quiet_world_def)
  have quiet: "mw_pages (quiet_world 400) ARTIFACT_RECONCILIATION 0 = (\<lambda>_ u. u)" "mw_started (quiet_world 400 :: mem_store maintenance_world) = 400"
    by (simp_all add: quiet_world_def)
  have page: "reconcile_orphans sample_runtime (mn_artifacts sample_services) sample_store_ops
      (mw_pages (quiet_world 400) ARTIFACT_RECONCILIATION 0) None 1 (mw_started (quiet_world 400 :: mem_store maintenance_world))
      (prompt_store, empty_db) = (Inr \<lparr>rr_scanned = 1, rr_orphaned = 1, rr_deleted = 0, rr_delete_failures = 0, rr_missing = 0,
        rr_corrupt = 0, rr_next_cursor = Some prompt_key\<rparr>, (prompt_store, empty_db))"
    by (simp only: quiet sample_prompt_page)
  have "(5 :: nat) = Suc 4" by simp
  then show ?thesis
    using prompt_set_stalls_maintenance [OF key page _ alone, of 4] by (simp only: reconciliation_report.simps simp_thms)
qed

end
