(* ===== verification/Spec2Isabelle.thy ===== *)
theory Spec2Isabelle imports Guarantees WorkGuarantees ServiceGuarantees DataGuarantees ResourceGuarantees ArtifactGuarantees WorkspaceGuarantees MaintenanceGuarantees begin

text \<open>
  A verification development of the durable job control plane of corpuskit (src/corpuskit): the
  part of the program that accepts runs from users, keeps them in a relational database, hands them
  to workers, publishes their results, and accounts for capacity, storage and evidence.

  The program. A user submits a run (services/jobs.py): in one transaction the specification is
  normalised (domain/jobs.py), the request is authorised, the run row, its first event, a capacity
  reservation (services/platform.py), a dispatch intent (the outbox) and an audit event are written.
  A dispatcher claims outbox messages under a lease and starts workflows; a worker moves the run
  along its lifecycle with compare-and-swap updates (workflows/store.py), records progress, and
  publishes one result artifact. Users cancel and retry; a maintenance sweep expires reservations
  that ran out; administrators read the audit log and replace the quota policy.

  State. The database (theory Schema) is a record of tables, each a list of row records with the
  columns of persistence/models.py; \<open>constraints_ok\<close> is the conjunction of the UNIQUE and CHECK
  constraints. A transaction (Tenant, Identity) is a function from the database it starts from to an
  error or a result and a new database, and it commits only if the constraints hold, otherwise the
  database stays as it was. What concurrent transactions commit between two statements of one is
  the argument \<open>env\<close> (a function on databases, applied where the code reads again), or, for the
  operations that run several sessions, the record \<open>world\<close> with a clock and such a function for every
  point. A claim of the outbox takes such a function between its selection and each of its UPDATEs, and
  \<open>beside\<close> (Outbox) is what other dispatchers may do there. Exceptions are the constructors of \<open>exn\<close>
  (Errors) in the left summand of a sum; \<open>bindr\<close> (Prelude) sequences. Strings are lists of UTF-8 bytes
  (Utf8), instants are integers of microseconds (Values), JSON values keep the order of their keys (Json).

  Theories and the code they model:
  \<^item> Prelude, Errors, Json, Values, Utf8: the result monad, row operations, domain/errors.py, canonical JSON, UUIDs and timestamps, text.
  \<^item> JobsDomain, ArtifactDomain, PlatformDomain, Corpora: domain/jobs.py, artifacts.py, platform.py, corpora.py.
  \<^item> Schema: persistence/models.py. Tenant, Identity: persistence/tenant_context.py, database.py and the membership queries.
  \<^item> AuditTrail, Quota, Usage, Platform: services/platform.py (AuditWriter, QuotaManager, PlatformService).
  \<^item> RunLog, JobControl, Outbox: services/jobs.py (JobControlPlane, TransactionalOutbox); RunLog holds the invariants that tie runs to events, reservations and dispatch intents.
  \<^item> RunStore, Publication: workflows/store.py (DurableRunStore), workflows/contracts.py and progress.py.
  \<^item> History, System: every operation extends the history; the interleaved operations as an inductive relation \<open>evolves\<close> in which interference is itself such a sequence.
  \<^item> Samples: a concrete deployment, on which the instances of the theorems are computed.
  \<^item> RateLimits: services/rate_limits.py (fixed windows and their sweep).
  \<^item> ObjectStore: persistence/artifact_store.py (the in-memory and the filesystem adapter).
  \<^item> ArtifactService, ArtifactAdoption: services/artifacts.py and services/artifact_adoption.py over the locale \<open>object_store\<close>.
  \<^item> CorpusFiles: reading and writing corpus files (services/project_workspaces.py, with Python's csv module written out).
  \<^item> Workspaces, ProjectDeletion: services/projects.py, the persistence of project_workspaces.py, and services/project_deletion.py.
  \<^item> WorkspaceInvariant, WorkspaceHistory, WorkspaceSamples: the invariants of the workspace tables, the relation \<open>estate_evolves\<close> that interleaves workspaces, deletions and the control plane, and its sample.
  \<^item> Maintenance: services/maintenance.py, the run that composes the expiry, the purges, both scans and the sweep of rate windows, with its stored cursors.
  \<^item> Guarantees, WorkGuarantees, ServiceGuarantees, DataGuarantees, ResourceGuarantees, ArtifactGuarantees, WorkspaceGuarantees, MaintenanceGuarantees: the properties, each stated over the reachable states where it depends on the invariants.

  Lemmas. For every operation there is a lemma of its outcomes (\<open>_cases\<close>, \<open>_steps\<close>, \<open>_Inr\<close>), one that
  it keeps \<open>jobs_inv\<close> (\<open>_inv\<close>) and one that it extends the history (\<open>_extends\<close>). Three interfaces are
  locales: \<open>hash_chain\<close> (AuditTrail), interpreted on the audit events, \<open>metered\<close> (Usage), interpreted on
  the artifact and the sentence counters, and \<open>object_store\<close> (ObjectStore), interpreted on both adapters.

  Composition. \<open>jobs_inv\<close> is the invariant of the control plane, \<open>vault\<close> that of a database beside an
  object store, and \<open>estate_ok\<close> that of the workspaces over \<open>jobs_inv\<close>. A purge of a project is the one
  operation that deletes runs, so it is a step of \<open>estate_evolves\<close> and not of \<open>evolves\<close>, and the history
  properties of runs speak about \<open>evolves\<close>. A step of the control plane in \<open>estate_evolves\<close> leaves the
  workspace tables alone (\<open>same_workspace\<close>), as its operations do. \<open>maintained\<close> adds whole runs of the
  maintenance, with everything else inside and between their steps.

  Bounds. The compare-and-swap loops have the bounds of the code: three attempts for a cancellation
  (\<open>cancel_attempts\<close>), eight for a transition and for progress (\<open>max_cas_attempts\<close>); when they are used
  up the code raises, and so does the model. A scan of the maintenance takes the number of pages it is
  given (\<open>scan_pages\<close>). No other fuel is used: the remaining recursion is over
  lists.

  Parameters. The record \<open>runtime\<close> holds what is not code of the repository: SHA-256, Unicode NFC and
  NFKD, the SQL dialect, the parsers of the run specifications (pydantic models of other domains),
  the admission policy, and whether the ORM synchronises a loaded row with its UPDATE. The only
  assumption about them is \<open>digest_ok\<close>: digests are 64 hexadecimal digits. The workspaces add \<open>json.loads\<close>
  (\<open>wc_loads\<close>) and the Unicode tables of a download name (\<open>wc_names\<close>); the adoption of a DATG index adds
  the check of its build. Theorems that need more of a parameter say so in a hypothesis.

  Not modelled. Foreign keys, indexes and row-level security policies; the HTTP layer, OIDC, the S3
  adapter, Temporal and the subprocess supervision (I/O); signed downloads and reproducibility
  manifests; the generation, model, DATG and RL domains, whose parsers and policies are parameters;
  the adapters of the corpusgen library; scripts and migrations.
\<close>

end
